(* ===== verification/Prelude.thy ===== *)
theory Prelude
  imports Main "HOL-Library.Word"
begin

unbundle bit_operations_syntax

text \<open>
  Shared vocabulary of the development.

  \<^item> Machine integers: \<open>uint8_t\<close>, \<open>uint32_t\<close>, \<open>uint64_t\<close>/\<open>uintptr_t\<close>/\<open>reg_t\<close> are
    words of that width; C \<open>int\<close> values that are only compared and used as array
    indices (thread ids) are \<open>int\<close>; hart ids, used only as indices, are \<open>nat\<close>.
    The conversions between them, as the C casts do them, are \<open>to_int32\<close> and
    \<open>of_tid\<close>.
  \<^item> Failure: \<open>'a kres\<close> is either a result or the reason why control never returns to
    the caller: a kernel panic, an access outside an array, or a loop that never ends.
  \<^item> Singly linked lists threaded through an index array: \<open>chain\<close> (relational) and
    \<open>walk\<close> (the loop that follows the links), with the update lemmas the runqueue
    proofs rest on.
\<close>

section \<open>Proof collections\<close>

named_theorems frame \<open>what an operation leaves unchanged\<close>
named_theorems view \<open>the abstract view of the state an operation produces\<close>
named_theorems no_fail \<open>operations that return under the kernel invariant\<close>

section \<open>Machine integers\<close>

type_synonym u8 = "8 word"
type_synonym u16 = "16 word"
type_synonym u32 = "32 word"
type_synonym u64 = "64 word"

text \<open>The cast \<open>(int)x\<close> of a 64-bit register value: truncation to 32 bits, read as
  two's complement.\<close>

definition to_int32 :: "u64 \<Rightarrow> int" where
  "to_int32 x = sint (ucast x :: 32 word)"

text \<open>The cast \<open>(uintptr_t)t\<close> of a C \<open>int\<close>: sign extension to 64 bits.\<close>

definition of_tid :: "int \<Rightarrow> u64" where
  "of_tid t = word_of_int t"

lemma to_int32_range: "- (2 ^ 31) \<le> to_int32 x \<and> to_int32 x < 2 ^ 31"
  using sint_range_size [of "ucast x :: 32 word"] by (simp add: to_int32_def word_size)

lemma to_int32_of_tid:
  assumes "- (2 ^ 31) \<le> t" and "t < 2 ^ 31"
  shows "to_int32 (of_tid t) = t"
proof -
  have "(ucast (word_of_int t :: 64 word) :: 32 word) = word_of_int t"
    by (rule bit_eqI) (simp add: bit_simps)
  then show ?thesis
    using assms by (simp add: to_int32_def of_tid_def sint_sbintrunc' signed_take_bit_int_eq_self)
qed

lemma unat_lt: "unat (x :: 'a::len word) < 2 ^ LENGTH('a)"
  by (rule unsigned_less)

lemma unat_ucast_32_64 [simp]: "unat (ucast (x :: u32) :: u64) = unat x"
  using unat_lt [of x] by (simp add: unsigned_ucast_eq take_bit_nat_eq_self)

lemma unat_ucast_8_32 [simp]: "unat (ucast (x :: u8) :: u32) = unat x"
  using unat_lt [of x] by (simp add: unsigned_ucast_eq take_bit_nat_eq_self)

lemma unat_inc: "unat (x :: 'a::len word) + 1 < 2 ^ LENGTH('a) \<Longrightarrow> unat (x + 1) = Suc (unat x)"
  by (simp add: unat_word_ariths)

lemma unat_dec: "0 < (x :: 'a::len word) \<Longrightarrow> unat (x - 1) = unat x - 1"
  by (simp add: unat_minus_one word_greater_zero_iff)

section \<open>Results\<close>

datatype kerr = Panic string | BadIndex | Diverges

type_synonym 'a kres = "kerr + 'a"

definition bindE :: "'a kres \<Rightarrow> ('a \<Rightarrow> 'b kres) \<Rightarrow> 'b kres" where
  "bindE m f = (case m of Inl e \<Rightarrow> Inl e | Inr x \<Rightarrow> f x)"

lemma bindE_simps [simp]:
  "bindE (Inr x) f = f x"
  "bindE (Inl e) f = Inl e"
  by (simp_all add: bindE_def)

lemma bindE_Inr [simp]: "bindE m Inr = m"
  by (cases m) simp_all

lemma bindE_eq_Inr: "bindE m f = Inr y \<longleftrightarrow> (\<exists>x. m = Inr x \<and> f x = Inr y)"
  by (cases m) simp_all

definition returns :: "'a kres \<Rightarrow> bool" where
  "returns m \<longleftrightarrow> (\<exists>x. m = Inr x)"

lemma returns_simps [simp]: "returns (Inr x)" "\<not> returns (Inl e)"
  by (simp_all add: returns_def)

section \<open>Linked lists through an index array\<close>

text \<open>\<open>chain nx p xs\<close>: following \<open>nx\<close> from \<open>p\<close> visits exactly \<open>xs\<close> and then meets the
  end mark \<open>-1\<close>.\<close>

fun chain :: "(int \<Rightarrow> int) \<Rightarrow> int \<Rightarrow> int list \<Rightarrow> bool" where
  "chain nx p [] \<longleftrightarrow> p = -1"
| "chain nx p (x # xs) \<longleftrightarrow> p = x \<and> chain nx (nx x) xs"

text \<open>The loop \<open>while (cur >= 0) { visit cur; cur = next[cur]; }\<close> cut after \<open>n\<close> rounds.\<close>

fun walk :: "nat \<Rightarrow> (int \<Rightarrow> int) \<Rightarrow> int \<Rightarrow> int list" where
  "walk 0 nx p = []"
| "walk (Suc n) nx p = (if p < 0 then [] else p # walk n nx (nx p))"

lemma walk_neg [simp]: "p < 0 \<Longrightarrow> walk n nx p = []"
  by (cases n) simp_all

lemma chain_Nil_iff: "chain nx (-1) xs \<Longrightarrow> \<forall>x\<in>set xs. 0 \<le> x \<Longrightarrow> xs = []"
  by (cases xs) auto

lemma chain_walk:
  "chain nx p xs \<Longrightarrow> \<forall>x\<in>set xs. 0 \<le> x \<Longrightarrow> length xs \<le> n \<Longrightarrow> walk n nx p = xs"
proof (induction xs arbitrary: p n)
  case Nil
  then show ?case by simp
next
  case (Cons x xs)
  then obtain m where "n = Suc m" by (cases n) auto
  with Cons show ?case by simp
qed

lemma chain_upd [simp]: "i \<notin> set xs \<Longrightarrow> chain (nx(i := v)) p xs = chain nx p xs"
  by (induction xs arbitrary: p) auto

lemma chain_cong: "(\<And>x. x \<in> set xs \<Longrightarrow> nx x = nx' x) \<Longrightarrow> chain nx p xs = chain nx' p xs"
  by (induction xs arbitrary: p) auto

lemma chain_snoc:
  assumes "chain nx p xs" "distinct xs" "xs \<noteq> []" "t \<notin> set xs"
  shows "chain (nx(t := -1, last xs := t)) p (xs @ [t])"
  using assms
proof (induction xs arbitrary: p)
  case Nil
  then show ?case by simp
next
  case (Cons x xs)
  show ?case
  proof (cases "xs = []")
    case True
    with Cons.prems show ?thesis by simp
  next
    case False
    with Cons.prems have "x \<noteq> last xs" "x \<noteq> t" by auto
    with False Cons show ?thesis by simp
  qed
qed

text \<open>Unlinking the node after a prefix: the predecessor takes over the node's successor.\<close>

lemma chain_unlink:
  assumes "chain nx p (ys @ x # zs)" "distinct (ys @ x # zs)" "ys \<noteq> []"
  shows "chain (nx(last ys := nx x)) p (ys @ zs)"
  using assms
proof (induction ys arbitrary: p)
  case Nil
  then show ?case by simp
next
  case (Cons y ys)
  show ?case
  proof (cases "ys = []")
    case True
    with Cons.prems have "y \<notin> set zs" "chain nx (nx x) zs" "p = y" by auto
    then have "chain (nx(y := nx x)) (nx x) zs" by simp
    with True \<open>p = y\<close> show ?thesis by (simp add: fun_upd_def)
  next
    case False
    with Cons.prems have "y \<noteq> last ys" by auto
    with False Cons show ?thesis by simp
  qed
qed

lemma chain_succ: "chain nx p (as @ b # c # ds) \<Longrightarrow> nx b = c"
  by (induction as arbitrary: p) auto

lemma chain_end: "chain nx p (as @ [b]) \<Longrightarrow> nx b = -1"
  by (induction as arbitrary: p) auto

lemma chain_head: "chain nx p (x # xs) \<Longrightarrow> p = x"
  by simp

section \<open>Lists\<close>

lemma distinct_length_bound:
  fixes xs :: "int list"
  assumes "distinct xs" "set xs \<subseteq> {a..<b}"
  shows "length xs \<le> nat (b - a)"
proof -
  have "card (set xs) \<le> card {a..<b}"
    using assms(2) by (intro card_mono) simp_all
  with assms(1) show ?thesis by (simp add: distinct_card)
qed

lemma remove1_split: "x \<notin> set ys \<Longrightarrow> remove1 x (ys @ x # zs) = ys @ zs"
  by (simp add: remove1_append)

lemma last_append_if: "last (ys @ zs) = (if zs = [] then last ys else last zs)"
  by simp

end
