(* ===== verification/Kernel_State.thy ===== *)
theory Kernel_State
  imports Prelude
begin

text \<open>
  The data of the kernel: one record per C structure and one field per field of it, in
  the order of the source, and the record \<open>kstate\<close> of all global variables.

  Arrays are total functions on their index; every operation whose index is not checked
  by the code just before the access checks it in the model and yields \<open>BadIndex\<close>
  when it is out of range, so that the absence of stray accesses is a theorem.
  A \<open>struct trapframe *\<close> is a \<open>tfref\<close>: which trapframe object it points to. Reads and
  writes through it go to that object, so that the aliasing between the argument
  \<open>tf\<close> of a handler, \<open>cpu->cur_tf\<close> and the \<open>tf\<close> member of a thread is as in the code.
  User memory is split by type: bytes, and one heap for each structure the kernel copies
  out to user space, each indexed by the address of the object.
\<close>

section \<open>Configuration\<close>

text \<open>\<open>MAX_HARTS\<close> is set by the build (\<open>CPUS ?= 2\<close>); \<open>THREAD_MAX\<close> by
  \<open>config/kernel_config.h\<close>. The lemmas of the development use only
  \<open>MAX_HARTS_pos\<close> and \<open>MAX_HARTS_less\<close>, the build's own \<open>#error\<close> check.\<close>

definition MAX_HARTS :: nat where "MAX_HARTS = 2"
definition THREAD_MAX :: int where "THREAD_MAX = 64"
definition THREAD_STACK_SIZE :: u64 where "THREAD_STACK_SIZE = 4096"
definition KSTACK_SIZE :: u64 where "KSTACK_SIZE = 4096"
definition SCHED_SLICE_TICKS :: u32 where "SCHED_SLICE_TICKS = 5"
definition NO_BOOT_HART :: nat where "NO_BOOT_HART = 0xFFFFFFFF"

lemma MAX_HARTS_pos: "0 < MAX_HARTS"
  by (simp add: MAX_HARTS_def)

lemma MAX_HARTS_less: "int MAX_HARTS < THREAD_MAX"
  by (simp add: MAX_HARTS_def THREAD_MAX_def)

lemma THREAD_MAX_small: "0 < THREAD_MAX" "THREAD_MAX < 2 ^ 31"
  by (simp_all add: THREAD_MAX_def)

definition valid_tid :: "int \<Rightarrow> bool" where
  "valid_tid t \<longleftrightarrow> 0 \<le> t \<and> t < THREAD_MAX"

definition is_idle :: "int \<Rightarrow> bool" where
  "is_idle t \<longleftrightarrow> 0 \<le> t \<and> t < int MAX_HARTS"

definition is_worker :: "int \<Rightarrow> bool" where
  "is_worker t \<longleftrightarrow> int MAX_HARTS \<le> t \<and> t < THREAD_MAX"

lemma worker_valid [simp]: "is_worker t \<Longrightarrow> valid_tid t"
  by (simp add: is_worker_def valid_tid_def)

lemma worker_nonneg: "is_worker t \<Longrightarrow> 0 \<le> t"
  by (simp add: is_worker_def)

lemma worker_not_neg [simp]: "is_worker t \<Longrightarrow> \<not> t < 0" "is_worker t \<Longrightarrow> t \<noteq> -1"
  by (auto simp: is_worker_def)

lemma idle_valid [simp]: "is_idle t \<Longrightarrow> valid_tid t"
  using MAX_HARTS_less by (simp add: is_idle_def valid_tid_def)

lemma worker_not_idle [simp]: "is_worker t \<Longrightarrow> \<not> is_idle t"
  by (simp add: is_worker_def is_idle_def)

lemma valid_tid_cases: "valid_tid t \<longleftrightarrow> is_idle t \<or> is_worker t"
  using MAX_HARTS_less by (auto simp: is_worker_def is_idle_def valid_tid_def)

lemma idle_of_hart [simp]: "h < MAX_HARTS \<Longrightarrow> is_idle (int h)"
  by (simp add: is_idle_def)

section \<open>Trapframes\<close>

record trapframe =
  tf_ra :: u64
  tf_sp :: u64
  tf_gp :: u64
  tf_tp :: u64
  tf_t0 :: u64
  tf_t1 :: u64
  tf_t2 :: u64
  tf_s0 :: u64
  tf_s1 :: u64
  tf_a0 :: u64
  tf_a1 :: u64
  tf_a2 :: u64
  tf_a3 :: u64
  tf_a4 :: u64
  tf_a5 :: u64
  tf_a6 :: u64
  tf_a7 :: u64
  tf_s2 :: u64
  tf_s3 :: u64
  tf_s4 :: u64
  tf_s5 :: u64
  tf_s6 :: u64
  tf_s7 :: u64
  tf_s8 :: u64
  tf_s9 :: u64
  tf_s10 :: u64
  tf_s11 :: u64
  tf_t3 :: u64
  tf_t4 :: u64
  tf_t5 :: u64
  tf_t6 :: u64
  tf_sepc :: u64
  tf_sstatus :: u64
  tf_scause :: u64
  tf_stval :: u64
  tf_pad :: u64

text \<open>\<open>tf_clear\<close>: \<open>memset(tf, 0, sizeof( *tf))\<close>.\<close>

definition tf_clear :: trapframe where
  "tf_clear = \<lparr>tf_ra = 0, tf_sp = 0, tf_gp = 0, tf_tp = 0, tf_t0 = 0, tf_t1 = 0, tf_t2 = 0,
     tf_s0 = 0, tf_s1 = 0, tf_a0 = 0, tf_a1 = 0, tf_a2 = 0, tf_a3 = 0, tf_a4 = 0, tf_a5 = 0,
     tf_a6 = 0, tf_a7 = 0, tf_s2 = 0, tf_s3 = 0, tf_s4 = 0, tf_s5 = 0, tf_s6 = 0, tf_s7 = 0,
     tf_s8 = 0, tf_s9 = 0, tf_s10 = 0, tf_s11 = 0, tf_t3 = 0, tf_t4 = 0, tf_t5 = 0, tf_t6 = 0,
     tf_sepc = 0, tf_sstatus = 0, tf_scause = 0, tf_stval = 0, tf_pad = 0\<rparr>"

datatype tfref = TF_NULL | TF_THREAD int | TF_BOOTSTRAP | TF_PROBE

section \<open>Threads\<close>

datatype ThreadState =
    THREAD_UNUSED | THREAD_RUNNABLE | THREAD_RUNNING | THREAD_SLEEPING
  | THREAD_WAITING | THREAD_ZOMBIE | THREAD_BLOCKED

text \<open>The enumeration values, as \<open>thread_sys_list\<close> copies them out.\<close>

fun state_code :: "ThreadState \<Rightarrow> int" where
  "state_code THREAD_UNUSED = 0"
| "state_code THREAD_RUNNABLE = 1"
| "state_code THREAD_RUNNING = 2"
| "state_code THREAD_SLEEPING = 3"
| "state_code THREAD_WAITING = 4"
| "state_code THREAD_ZOMBIE = 5"
| "state_code THREAD_BLOCKED = 6"

definition thread_state_name :: "int \<Rightarrow> string" where
  "thread_state_name s =
     (if s = 0 then ''UNUSED'' else if s = 1 then ''RUNNABLE'' else if s = 2 then ''RUNNING''
      else if s = 3 then ''SLEEP'' else if s = 4 then ''WAIT'' else if s = 5 then ''ZOMBIE''
      else if s = 6 then ''BLOCKED'' else ''?'')"

definition THREAD_EXITCODE_SIGKILL :: u32 where "THREAD_EXITCODE_SIGKILL = - 9"

text \<open>A \<open>const char *\<close> stored as a thread's name: a string of the kernel image, or a
  pointer handed in by user code, whose bytes are read when the name is printed.\<close>

datatype cname = CLit string | CUser u64

record Thread =
  t_id :: int
  t_state :: ThreadState
  t_wakeup_tick :: u64
  t_name :: cname
  t_is_user :: bool
  t_can_be_killed :: bool
  t_detached :: bool
  t_running_hart :: int
  t_last_hart :: int
  t_migrations :: u32
  t_runs :: u64
  t_rq_next :: int
  t_on_rq :: bool
  t_tf :: trapframe
  t_stack_base :: u64
  t_exit_code :: u32
  t_join_waiter :: int
  t_waiting_for :: int
  t_join_status_ptr :: u64
  t_pending_read_buf :: u64
  t_pending_read_len :: u64

record cpu =
  c_kstack_top :: u64
  c_cur_tf :: tfref
  c_hartid :: nat
  c_online :: bool
  c_current_tid :: int
  c_idle_tid :: int
  c_timer_irqs :: u64
  c_ctx_switches :: u64
  c_need_resched :: bool
  c_slice_left :: u32

record runqueue_t =
  q_head :: int
  q_tail :: int
  q_len :: u32

section \<open>Structures shared with user space\<close>

record u_thread_info =
  ui_tid :: int
  ui_state :: int
  ui_is_user :: int
  ui_exit_code :: u32
  ui_name :: "u8 list"
  ui_cpu :: int
  ui_last_hart :: int
  ui_migrations :: u32
  ui_runs :: u64

record rq_state =
  rs_hart :: nat
  rs_len :: u32
  rs_tids :: "int list"

record timespec =
  tv_sec :: u64
  tv_nsec :: u32

record irqstat_user =
  iu_irq :: u32
  iu_count :: u64
  iu_first_tick :: u64
  iu_last_tick :: u64
  iu_max_delta :: u64
  iu_name :: "u8 list"

section \<open>Platform tables\<close>

datatype irq_handler = UART16550_IRQ_HANDLER

record irq_stat_t =
  st_count :: u64
  st_last_tick :: u64
  st_first_tick :: u64
  st_max_delta :: u64

text \<open>Effects on the outside world, in the order they happen: an inter-processor
  interrupt requested from the SBI firmware, a timer deadline handed to it, a byte
  written to the transmit register or the interrupt enable register of the UART, a byte for the
  firmware's debug console, and the request to start a hart.\<close>

datatype kevent = EvIpi nat | EvTimer nat u64 | EvUart u8 | EvUartIer u8 | EvSbiByte u8 | EvHartStart nat u64

text \<open>What the device tree says about the serial port: the node \<open>ns16550a\<close>, its address and interrupt
  number and the optional properties \<open>reg-shift\<close>, \<open>reg-io-width\<close> and \<open>reg-offset\<close>.\<close>

record dt_uart =
  du_reg :: "u64 option"
  du_irq :: "u32 option"
  du_shift :: "u32 option"
  du_width :: "u32 option"
  du_offset :: "u32 option"

section \<open>All global variables\<close>

text \<open>Besides the C globals the record holds what the code reads from outside: the link-time
  addresses (\<open>g_thread_stacks\<close>, \<open>g_kstack\<close>, \<open>idle_main_addr\<close>, \<open>trap_entry_addr\<close>), the
  control and status registers of each hart, the time counter, the answers of the device-tree
  library to the queries the kernel makes (\<open>dtb_timebase\<close>: the property
  \<open>/cpus/timebase-frequency\<close>; \<open>dtb_uart\<close>: the serial port; \<open>dtb_timer\<close>: whether there is an
  ACLINT or a CLINT timer node; \<open>dtb_plic\<close>: base address and \<open>riscv,ndev\<close> of the interrupt
  controller node), the interrupts each hart's PLIC context will hand out
  (\<open>plic_claims\<close>), and the bytes waiting in the UART receiver (\<open>uart_rx\<close>).\<close>

record kstate =
  g_threads :: "int \<Rightarrow> Thread"
  g_runqueues :: "nat \<Rightarrow> runqueue_t"
  g_cpus :: "nat \<Rightarrow> cpu"
  g_ticks :: u64
  g_stdin_waiter :: int
  g_boot_hartid :: nat
  smp_boot_done :: bool
  g_rx_buf :: "nat \<Rightarrow> u8"
  g_rx_head :: u32
  g_rx_tail :: u32
  boot_real_ns :: u64
  g_bootstrap_tf :: trapframe
  g_probe_tf :: trapframe
  g_illegal_probe_enabled :: bool
  g_illegal_probe_hit :: bool
  g_wfi_probe_enabled :: bool
  g_wfi_probe_fired :: bool
  g_wfi_probe_pc :: u64
  g_dtb :: u64
  g_timebase_hz :: u32
  dtb_timebase :: "u32 option"
  dtb_plic :: "(u64 \<times> u32 option) option"
  uart_base :: u64
  uart_irq :: u32
  uart_reg_shift :: u32
  uart_reg_io_width :: u32
  uart_reg_offset :: u32
  dtb_uart :: "dt_uart option"
  dtb_timer :: "bool \<times> bool"
  plic_base :: u64
  plic_num_sources :: u32
  plic_regs :: "u32 \<Rightarrow> u32"
  s_irq_table :: "nat \<Rightarrow> irq_handler option"
  s_irq_stats :: "nat \<Rightarrow> irq_stat_t"
  s_irq_name :: "nat \<Rightarrow> string option"
  g_thread_stacks :: u64
  g_kstack :: u64
  idle_main_addr :: u64
  trap_entry_addr :: u64
  heap_u8 :: "u64 \<Rightarrow> u8"
  heap_tinfo :: "u64 \<Rightarrow> u_thread_info"
  heap_rqs :: "u64 \<Rightarrow> rq_state"
  heap_ts :: "u64 \<Rightarrow> timespec"
  heap_irqstat :: "u64 \<Rightarrow> irqstat_user"
  csr_sstatus :: "nat \<Rightarrow> u64"
  csr_sie :: "nat \<Rightarrow> u64"
  csr_sip :: "nat \<Rightarrow> u64"
  csr_stvec :: "nat \<Rightarrow> u64"
  csr_time :: u64
  plic_claims :: "nat \<Rightarrow> u32 list"
  uart_rx :: "u8 list"
  k_events :: "kevent list"

section \<open>Access paths\<close>

definition upd_thread :: "int \<Rightarrow> (Thread \<Rightarrow> Thread) \<Rightarrow> kstate \<Rightarrow> kstate" where
  "upd_thread i f s = s\<lparr>g_threads := (g_threads s)(i := f (g_threads s i))\<rparr>"

definition upd_cpu :: "nat \<Rightarrow> (cpu \<Rightarrow> cpu) \<Rightarrow> kstate \<Rightarrow> kstate" where
  "upd_cpu h f s = s\<lparr>g_cpus := (g_cpus s)(h := f (g_cpus s h))\<rparr>"

definition upd_rq :: "nat \<Rightarrow> (runqueue_t \<Rightarrow> runqueue_t) \<Rightarrow> kstate \<Rightarrow> kstate" where
  "upd_rq h f s = s\<lparr>g_runqueues := (g_runqueues s)(h := f (g_runqueues s h))\<rparr>"

fun get_tf :: "tfref \<Rightarrow> kstate \<Rightarrow> trapframe" where
  "get_tf TF_NULL s = tf_clear"
| "get_tf (TF_THREAD i) s = t_tf (g_threads s i)"
| "get_tf TF_BOOTSTRAP s = g_bootstrap_tf s"
| "get_tf TF_PROBE s = g_probe_tf s"

fun upd_tf :: "tfref \<Rightarrow> (trapframe \<Rightarrow> trapframe) \<Rightarrow> kstate \<Rightarrow> kstate" where
  "upd_tf TF_NULL f s = s"
| "upd_tf (TF_THREAD i) f s = upd_thread i (\<lambda>t. t\<lparr>t_tf := f (t_tf t)\<rparr>) s"
| "upd_tf TF_BOOTSTRAP f s = s\<lparr>g_bootstrap_tf := f (g_bootstrap_tf s)\<rparr>"
| "upd_tf TF_PROBE f s = s\<lparr>g_probe_tf := f (g_probe_tf s)\<rparr>"

definition set_a0 :: "tfref \<Rightarrow> u64 \<Rightarrow> kstate \<Rightarrow> kstate" where
  "set_a0 tf v s = upd_tf tf (\<lambda>f. f\<lparr>tf_a0 := v\<rparr>) s"

text \<open>A store of a C \<open>int\<close> through a user pointer: four bytes, little endian.\<close>

definition store_int32 :: "u64 \<Rightarrow> u32 \<Rightarrow> kstate \<Rightarrow> kstate" where
  "store_int32 p v s = s\<lparr>heap_u8 := (heap_u8 s)
     (p := ucast v, p + 1 := ucast (drop_bit 8 v), p + 2 := ucast (drop_bit 16 v),
      p + 3 := ucast (drop_bit 24 v))\<rparr>"

definition load_int32 :: "u64 \<Rightarrow> kstate \<Rightarrow> u32" where
  "load_int32 p s = ucast (heap_u8 s p) OR push_bit 8 (ucast (heap_u8 s (p + 1)))
     OR push_bit 16 (ucast (heap_u8 s (p + 2))) OR push_bit 24 (ucast (heap_u8 s (p + 3)))"

definition emit :: "kevent \<Rightarrow> kstate \<Rightarrow> kstate" where
  "emit e s = s\<lparr>k_events := k_events s @ [e]\<rparr>"

subsection \<open>Reading back what was written\<close>

lemma g_threads_upd_thread [simp]:
  "g_threads (upd_thread i f s) j = (if j = i then f (g_threads s i) else g_threads s j)"
  by (simp add: upd_thread_def)

lemma g_cpus_upd_cpu [simp]:
  "g_cpus (upd_cpu h f s) k = (if k = h then f (g_cpus s h) else g_cpus s k)"
  by (simp add: upd_cpu_def)

lemma g_runqueues_upd_rq [simp]:
  "g_runqueues (upd_rq h f s) k = (if k = h then f (g_runqueues s h) else g_runqueues s k)"
  by (simp add: upd_rq_def)

lemma upd_frame [simp]:
  "g_cpus (upd_thread i f s) = g_cpus s"
  "g_runqueues (upd_thread i f s) = g_runqueues s"
  "g_threads (upd_cpu h c s) = g_threads s"
  "g_runqueues (upd_cpu h c s) = g_runqueues s"
  "g_threads (upd_rq h r s) = g_threads s"
  "g_cpus (upd_rq h r s) = g_cpus s"
  "g_ticks (upd_thread i f s) = g_ticks s"
  "g_ticks (upd_cpu h c s) = g_ticks s"
  "g_ticks (upd_rq h r s) = g_ticks s"
  "g_stdin_waiter (upd_thread i f s) = g_stdin_waiter s"
  "g_stdin_waiter (upd_cpu h c s) = g_stdin_waiter s"
  "g_stdin_waiter (upd_rq h r s) = g_stdin_waiter s"
  "g_boot_hartid (upd_thread i f s) = g_boot_hartid s"
  "g_boot_hartid (upd_cpu h c s) = g_boot_hartid s"
  "g_boot_hartid (upd_rq h r s) = g_boot_hartid s"
  "smp_boot_done (upd_thread i f s) = smp_boot_done s"
  "smp_boot_done (upd_cpu h c s) = smp_boot_done s"
  "smp_boot_done (upd_rq h r s) = smp_boot_done s"
  "k_events (upd_thread i f s) = k_events s"
  "k_events (upd_cpu h c s) = k_events s"
  "k_events (upd_rq h r s) = k_events s"
  "heap_u8 (upd_thread i f s) = heap_u8 s"
  "heap_u8 (upd_cpu h c s) = heap_u8 s"
  "heap_u8 (upd_rq h r s) = heap_u8 s"
  by (simp_all add: upd_thread_def upd_cpu_def upd_rq_def)

lemma emit_frame [simp]:
  "g_threads (emit e s) = g_threads s"
  "g_cpus (emit e s) = g_cpus s"
  "g_runqueues (emit e s) = g_runqueues s"
  "g_ticks (emit e s) = g_ticks s"
  "g_stdin_waiter (emit e s) = g_stdin_waiter s"
  "g_boot_hartid (emit e s) = g_boot_hartid s"
  "smp_boot_done (emit e s) = smp_boot_done s"
  "heap_u8 (emit e s) = heap_u8 s"
  "k_events (emit e s) = k_events s @ [e]"
  by (simp_all add: emit_def)

lemma store_int32_frame [simp]:
  "g_threads (store_int32 p v s) = g_threads s"
  "g_cpus (store_int32 p v s) = g_cpus s"
  "g_runqueues (store_int32 p v s) = g_runqueues s"
  "g_ticks (store_int32 p v s) = g_ticks s"
  "g_stdin_waiter (store_int32 p v s) = g_stdin_waiter s"
  "g_boot_hartid (store_int32 p v s) = g_boot_hartid s"
  "smp_boot_done (store_int32 p v s) = smp_boot_done s"
  "k_events (store_int32 p v s) = k_events s"
  by (simp_all add: store_int32_def)

lemma load_store_int32 [simp]: "load_int32 p (store_int32 p v s) = v"
proof (rule bit_word_eqI)
  fix n
  assume n: "n < LENGTH(32)"
  consider "n < 8" | "8 \<le> n" "n < 16" | "16 \<le> n" "n < 24" | "24 \<le> n" by linarith
  then show "bit (load_int32 p (store_int32 p v s)) n = bit v n"
    by cases (use n in \<open>auto simp: load_int32_def store_int32_def bit_simps\<close>)
qed

end
