(* ===== verification/Runqueue.thy ===== *)
theory Runqueue
  imports Kernel_State
begin

text \<open>
  The per-hart FIFO runqueues of \<open>kernel/runqueue.c\<close>: singly linked lists threaded
  through the \<open>rq_next\<close> members of the thread table, with a head, a tail and a length
  per hart. \<open>rq_list\<close> is the abstraction function (the tids in queue order) and
  \<open>rq_wf\<close> the representation invariant; the operations are shown to implement
  list operations on \<open>rq_list\<close> and never to fail under \<open>rq_wf\<close>.
\<close>

section \<open>Operations\<close>

definition rq_init :: "nat \<Rightarrow> kstate \<Rightarrow> kstate" where
  "rq_init hartid s =
     (if hartid \<ge> MAX_HARTS then s
      else upd_rq hartid (\<lambda>r. r\<lparr>q_head := -1, q_tail := -1, q_len := 0\<rparr>) s)"

definition rq_init_all :: "kstate \<Rightarrow> kstate" where
  "rq_init_all s = fold rq_init [0..<MAX_HARTS] s"

definition rq_push_tail :: "nat \<Rightarrow> int \<Rightarrow> kstate \<Rightarrow> kstate kres" where
  "rq_push_tail hartid tid s =
     (if hartid \<ge> MAX_HARTS then Inr s
      else if tid < 0 \<or> tid \<ge> THREAD_MAX then Inr s
      else if tid < int MAX_HARTS then Inr s
      else if t_on_rq (g_threads s tid) then Inl (Panic ''rq_push_tail: already on rq'')
      else
        let s1 = upd_thread tid (\<lambda>t. t\<lparr>t_rq_next := -1\<rparr>) s;
            tl = q_tail (g_runqueues s hartid)
        in bindE
          (if tl = -1 then Inr (upd_rq hartid (\<lambda>r. r\<lparr>q_head := tid, q_tail := tid\<rparr>) s1)
           else if \<not> valid_tid tl then Inl BadIndex
           else Inr (upd_rq hartid (\<lambda>r. r\<lparr>q_tail := tid\<rparr>)
                       (upd_thread tl (\<lambda>t. t\<lparr>t_rq_next := tid\<rparr>) s1)))
          (\<lambda>s2. Inr (upd_rq hartid (\<lambda>r. r\<lparr>q_len := q_len r + 1\<rparr>)
                       (upd_thread tid (\<lambda>t. t\<lparr>t_on_rq := True\<rparr>) s2))))"

text \<open>\<open>if (r->len > 0) r->len--;\<close>\<close>

definition rq_dec_len :: "nat \<Rightarrow> kstate \<Rightarrow> kstate" where
  "rq_dec_len hartid s = upd_rq hartid
     (\<lambda>r. if q_len r > 0 then r\<lparr>q_len := q_len r - 1\<rparr> else r) s"

definition rq_pop_head :: "nat \<Rightarrow> kstate \<Rightarrow> (int \<times> kstate) kres" where
  "rq_pop_head hartid s =
     (if hartid \<ge> MAX_HARTS then Inr (-1, s)
      else let tid = q_head (g_runqueues s hartid) in
        if tid < 0 then Inr (-1, s)
        else if \<not> valid_tid tid then Inl BadIndex
        else
          let nxt = t_rq_next (g_threads s tid);
              s1 = upd_rq hartid (\<lambda>r. r\<lparr>q_head := nxt\<rparr>) s;
              s2 = (if nxt < 0 then upd_rq hartid (\<lambda>r. r\<lparr>q_tail := -1\<rparr>) s1 else s1);
              s3 = upd_thread tid (\<lambda>t. t\<lparr>t_rq_next := -1, t_on_rq := False\<rparr>) s2
          in Inr (tid, rq_dec_len hartid s3))"

definition rq_len :: "nat \<Rightarrow> kstate \<Rightarrow> u32" where
  "rq_len hartid s = (if hartid \<ge> MAX_HARTS then 0 else q_len (g_runqueues s hartid))"

text \<open>The body of the search loop of \<open>rq_remove\<close> at the node that is found.\<close>

definition rq_unlink :: "nat \<Rightarrow> int \<Rightarrow> int \<Rightarrow> kstate \<Rightarrow> kstate" where
  "rq_unlink hartid cur prev s =
     (let nxt = t_rq_next (g_threads s cur);
          s1 = (if prev < 0 then upd_rq hartid (\<lambda>r. r\<lparr>q_head := nxt\<rparr>) s
                else upd_thread prev (\<lambda>t. t\<lparr>t_rq_next := nxt\<rparr>) s);
          s2 = upd_rq hartid (\<lambda>r. if q_tail r = cur then r\<lparr>q_tail := prev\<rparr> else r) s1;
          s3 = upd_thread cur (\<lambda>t. t\<lparr>t_rq_next := -1, t_on_rq := False\<rparr>) s2
      in rq_dec_len hartid s3)"

text \<open>The search loop visits at most \<open>THREAD_MAX\<close> nodes of an acyclic list; a list on which
  it would visit more is cyclic and the loop of the code does not end.\<close>

fun rq_remove_loop :: "nat \<Rightarrow> nat \<Rightarrow> int \<Rightarrow> int \<Rightarrow> int \<Rightarrow> kstate \<Rightarrow> (int \<times> kstate) kres" where
  "rq_remove_loop 0 hartid tid cur prev s =
     (if cur < 0 then Inr (-1, s) else Inl Diverges)"
| "rq_remove_loop (Suc n) hartid tid cur prev s =
     (if cur < 0 then Inr (-1, s)
      else if \<not> valid_tid cur then Inl BadIndex
      else if cur = tid then Inr (0, rq_unlink hartid cur prev s)
      else rq_remove_loop n hartid tid (t_rq_next (g_threads s cur)) cur s)"

definition rq_remove :: "nat \<Rightarrow> int \<Rightarrow> kstate \<Rightarrow> (int \<times> kstate) kres" where
  "rq_remove hartid tid s =
     (if hartid \<ge> MAX_HARTS then Inr (-1, s)
      else if tid < 0 \<or> tid \<ge> THREAD_MAX then Inr (-1, s)
      else rq_remove_loop (nat THREAD_MAX) hartid tid (q_head (g_runqueues s hartid)) (-1) s)"

fun rq_remove_any_loop :: "nat list \<Rightarrow> int \<Rightarrow> kstate \<Rightarrow> (int \<times> kstate) kres" where
  "rq_remove_any_loop [] tid s = Inr (-1, s)"
| "rq_remove_any_loop (h # hs) tid s =
     bindE (rq_remove h tid s) (\<lambda>(rc, s'). if rc = 0 then Inr (int h, s')
                                           else rq_remove_any_loop hs tid s')"

definition rq_remove_any :: "int \<Rightarrow> kstate \<Rightarrow> (int \<times> kstate) kres" where
  "rq_remove_any tid s =
     (if tid < 0 \<or> tid \<ge> THREAD_MAX then Inr (-1, s)
      else rq_remove_any_loop [0..<MAX_HARTS] tid s)"

text \<open>\<open>rq_snapshot_loop k n cur dst\<close>: the copying loop with \<open>n\<close> entries written and room for
  \<open>k = max - n\<close> more.\<close>

fun rq_snapshot_loop :: "nat \<Rightarrow> nat \<Rightarrow> int \<Rightarrow> int list \<Rightarrow> kstate \<Rightarrow> (nat \<times> int list) kres" where
  "rq_snapshot_loop 0 n cur dst s = Inr (n, dst)"
| "rq_snapshot_loop (Suc k) n cur dst s =
     (if cur < 0 then Inr (n, dst)
      else if \<not> valid_tid cur then Inl BadIndex
      else rq_snapshot_loop k (Suc n) (t_rq_next (g_threads s cur)) (dst[n := cur]) s)"

text \<open>\<open>dst\<close> is \<open>None\<close> for a null pointer, otherwise the array of \<open>max\<close> entries.\<close>

definition rq_snapshot :: "nat \<Rightarrow> int list option \<Rightarrow> nat \<Rightarrow> kstate \<Rightarrow> (int \<times> int list) kres" where
  "rq_snapshot hartid dst mx s =
     (if hartid \<ge> MAX_HARTS then Inr (-1, case dst of None \<Rightarrow> [] | Some d \<Rightarrow> d)
      else case dst of
        None \<Rightarrow> Inr (-1, [])
      | Some d \<Rightarrow>
          if mx = 0 then Inr (-1, d)
          else bindE (rq_snapshot_loop mx 0 (q_head (g_runqueues s hartid)) d s)
            (\<lambda>(n, d'). Inr (int n, if n < mx then d'[n := -1] else d')))"

section \<open>Abstraction and representation invariant\<close>

definition nxt :: "kstate \<Rightarrow> int \<Rightarrow> int" where
  "nxt s i = t_rq_next (g_threads s i)"

definition onrq :: "kstate \<Rightarrow> int \<Rightarrow> bool" where
  "onrq s i = t_on_rq (g_threads s i)"

definition rq_list :: "kstate \<Rightarrow> nat \<Rightarrow> int list" where
  "rq_list s h =
     (if h < MAX_HARTS then walk (nat THREAD_MAX) (nxt s) (q_head (g_runqueues s h)) else [])"

definition rq_rep :: "(int \<Rightarrow> int) \<Rightarrow> (int \<Rightarrow> bool) \<Rightarrow> runqueue_t \<Rightarrow> int list \<Rightarrow> bool" where
  "rq_rep nx on r xs \<longleftrightarrow>
     chain nx (q_head r) xs \<and> q_tail r = (if xs = [] then -1 else last xs)
     \<and> unat (q_len r) = length xs \<and> distinct xs \<and> (\<forall>x\<in>set xs. is_worker x \<and> on x)"

definition rqs_rep :: "kstate \<Rightarrow> (nat \<Rightarrow> int list) \<Rightarrow> bool" where
  "rqs_rep s Q \<longleftrightarrow>
     (\<forall>h<MAX_HARTS. rq_rep (nxt s) (onrq s) (g_runqueues s h) (Q h))
     \<and> (\<forall>h<MAX_HARTS. \<forall>k<MAX_HARTS. h \<noteq> k \<longrightarrow> set (Q h) \<inter> set (Q k) = {})
     \<and> (\<forall>t. valid_tid t \<and> onrq s t \<longrightarrow> (\<exists>h<MAX_HARTS. t \<in> set (Q h)))
     \<and> (\<forall>h\<ge>MAX_HARTS. Q h = [])"

definition rq_wf :: "kstate \<Rightarrow> bool" where
  "rq_wf s \<longleftrightarrow> rqs_rep s (rq_list s)"

text \<open>What a runqueue operation may touch: the links, the \<open>on_rq\<close> flags and the queue heads.\<close>

definition rq_erase :: "Thread \<Rightarrow> Thread" where
  "rq_erase t = t\<lparr>t_rq_next := -1, t_on_rq := False\<rparr>"

definition rq_frame :: "kstate \<Rightarrow> kstate \<Rightarrow> bool" where
  "rq_frame s s' \<longleftrightarrow>
     (\<exists>th rqs. s' = s\<lparr>g_threads := th, g_runqueues := rqs\<rparr>
       \<and> (\<forall>i. rq_erase (th i) = rq_erase (g_threads s i)))"

section \<open>Basic facts\<close>

lemma nxt_upd_thread:
  "nxt (upd_thread i f s) = (nxt s)(i := t_rq_next (f (g_threads s i)))"
  by (rule ext) (simp add: nxt_def)

lemma onrq_upd_thread:
  "onrq (upd_thread i f s) = (onrq s)(i := t_on_rq (f (g_threads s i)))"
  by (rule ext) (simp add: onrq_def)

lemma nxt_onrq_frame [simp]:
  "nxt (upd_cpu h c s) = nxt s" "nxt (upd_rq h r s) = nxt s" "nxt (emit e s) = nxt s"
  "onrq (upd_cpu h c s) = onrq s" "onrq (upd_rq h r s) = onrq s" "onrq (emit e s) = onrq s"
  "nxt (store_int32 p v s) = nxt s" "onrq (store_int32 p v s) = onrq s"
  by (auto simp: nxt_def onrq_def)

lemma rq_rep_nonneg: "rq_rep nx on r xs \<Longrightarrow> \<forall>x\<in>set xs. 0 \<le> x"
  by (auto simp: rq_rep_def is_worker_def)

lemma rq_rep_length: "rq_rep nx on r xs \<Longrightarrow> length xs \<le> nat THREAD_MAX - MAX_HARTS"
  using distinct_length_bound [of xs "int MAX_HARTS" THREAD_MAX] MAX_HARTS_less
  by (auto simp: rq_rep_def is_worker_def subset_iff)

lemma rqs_repD: "rqs_rep s Q \<Longrightarrow> h < MAX_HARTS \<Longrightarrow> rq_rep (nxt s) (onrq s) (g_runqueues s h) (Q h)"
  by (simp add: rqs_rep_def)

lemma rqs_rep_list:
  assumes "rqs_rep s Q"
  shows "rq_list s = Q"
proof
  fix h
  show "rq_list s h = Q h"
  proof (cases "h < MAX_HARTS")
    case True
    then have R: "rq_rep (nxt s) (onrq s) (g_runqueues s h) (Q h)"
      using assms by (simp add: rqs_rep_def)
    then have "length (Q h) \<le> nat THREAD_MAX" using rq_rep_length by fastforce
    with R True rq_rep_nonneg [OF R] show ?thesis
      by (simp add: rq_list_def rq_rep_def chain_walk)
  next
    case False
    with assms show ?thesis by (simp add: rq_list_def rqs_rep_def)
  qed
qed

lemma rqs_rep_wf: "rqs_rep s Q \<Longrightarrow> rq_wf s"
  using rqs_rep_list [of s Q] by (simp add: rq_wf_def)

lemma rq_wf_worker: "rq_wf s \<Longrightarrow> t \<in> set (rq_list s h) \<Longrightarrow> is_worker t \<and> onrq s t"
  by (cases "h < MAX_HARTS") (auto simp: rq_wf_def rqs_rep_def rq_rep_def)

lemma rq_wf_onrq:
  assumes "rq_wf s" "valid_tid t"
  shows "onrq s t \<longleftrightarrow> (\<exists>h<MAX_HARTS. t \<in> set (rq_list s h))"
proof
  assume "onrq s t"
  with assms show "\<exists>h<MAX_HARTS. t \<in> set (rq_list s h)"
    unfolding rq_wf_def rqs_rep_def by blast
next
  assume "\<exists>h<MAX_HARTS. t \<in> set (rq_list s h)"
  with rq_wf_worker [OF assms(1)] show "onrq s t" by blast
qed

lemma rq_wf_disjoint:
  "rq_wf s \<Longrightarrow> t \<in> set (rq_list s h) \<Longrightarrow> t \<in> set (rq_list s k) \<Longrightarrow> h = k"
  by (cases "h < MAX_HARTS"; cases "k < MAX_HARTS") (auto simp: rq_wf_def rqs_rep_def disjoint_iff)

lemma rq_wf_distinct: "rq_wf s \<Longrightarrow> distinct (rq_list s h)"
  by (cases "h < MAX_HARTS") (auto simp: rq_wf_def rqs_rep_def rq_rep_def)

lemma rq_wf_cong:
  assumes "nxt s' = nxt s" "onrq s' = onrq s" "g_runqueues s' = g_runqueues s"
  shows "rq_list s' = rq_list s" and "rq_wf s' = rq_wf s"
proof -
  show L: "rq_list s' = rq_list s"
    using assms by (intro ext) (simp add: rq_list_def)
  show "rq_wf s' = rq_wf s"
    using assms L by (simp add: rq_wf_def rqs_rep_def)
qed

lemma rq_frame_refl [simp]: "rq_frame s s"
  unfolding rq_frame_def by (rule exI [of _ "g_threads s"], rule exI [of _ "g_runqueues s"]) simp

lemma rq_frame_trans: "rq_frame s t \<Longrightarrow> rq_frame t u \<Longrightarrow> rq_frame s u"
  unfolding rq_frame_def by fastforce

lemma rq_frame_upd_rq [simp]: "rq_frame s (upd_rq h f u) \<longleftrightarrow> rq_frame s u"
proof
  assume "rq_frame s u"
  then show "rq_frame s (upd_rq h f u)"
    unfolding rq_frame_def upd_rq_def by fastforce
next
  assume "rq_frame s (upd_rq h f u)"
  then obtain th rqs where *: "upd_rq h f u = s\<lparr>g_threads := th, g_runqueues := rqs\<rparr>"
    and e: "\<forall>i. rq_erase (th i) = rq_erase (g_threads s i)"
    unfolding rq_frame_def by blast
  have "u = (upd_rq h f u)\<lparr>g_runqueues := g_runqueues u\<rparr>" by (simp add: upd_rq_def)
  also have "\<dots> = s\<lparr>g_threads := th, g_runqueues := g_runqueues u\<rparr>" by (simp add: *)
  finally show "rq_frame s u" using e unfolding rq_frame_def by blast
qed

lemma rq_frame_upd_thread:
  assumes "rq_frame s u" "\<And>t. rq_erase (f t) = rq_erase t"
  shows "rq_frame s (upd_thread i f u)"
proof -
  obtain th rqs where u: "u = s\<lparr>g_threads := th, g_runqueues := rqs\<rparr>"
    and e: "\<forall>i. rq_erase (th i) = rq_erase (g_threads s i)"
    using assms(1) unfolding rq_frame_def by blast
  show ?thesis
    unfolding rq_frame_def
    by (rule exI [of _ "th(i := f (th i))"], rule exI [of _ rqs])
      (simp add: u e assms(2) upd_thread_def)
qed

lemma rq_erase_upd [simp]:
  "rq_erase (t\<lparr>t_rq_next := v\<rparr>) = rq_erase t"
  "rq_erase (t\<lparr>t_on_rq := b\<rparr>) = rq_erase t"
  "rq_erase (t\<lparr>t_rq_next := v, t_on_rq := b\<rparr>) = rq_erase t"
  by (simp_all add: rq_erase_def)

lemma rq_frame_dec_len [simp]: "rq_frame s (rq_dec_len h u) \<longleftrightarrow> rq_frame s u"
  by (simp add: rq_dec_len_def)

section \<open>The operations on one queue\<close>

lemma rq_rep_cong:
  "(\<And>x. x \<in> set xs \<Longrightarrow> nx x = nx' x \<and> on x = on' x) \<Longrightarrow> rq_rep nx on r xs = rq_rep nx' on' r xs"
  using chain_cong [of xs nx nx'] by (auto simp: rq_rep_def)

text \<open>Changing one queue: enough to check the new list of that queue, that nodes outside
  the old and the new list are untouched, and that nodes which leave are marked off.\<close>

lemma rqs_rep_change:
  assumes R: "rqs_rep s Q" and h: "h < MAX_HARTS"
    and new: "rq_rep (nxt s') (onrq s') (g_runqueues s' h) xs"
    and rqs: "\<And>k. k \<noteq> h \<Longrightarrow> g_runqueues s' k = g_runqueues s k"
    and out: "\<And>i. i \<notin> set (Q h) \<Longrightarrow> i \<notin> set xs \<Longrightarrow> nxt s' i = nxt s i \<and> onrq s' i = onrq s i"
    and disj: "\<And>k. k < MAX_HARTS \<Longrightarrow> k \<noteq> h \<Longrightarrow> set xs \<inter> set (Q k) = {}"
    and gone: "\<And>i. i \<in> set (Q h) \<Longrightarrow> i \<notin> set xs \<Longrightarrow> \<not> onrq s' i"
  shows "rqs_rep s' (Q(h := xs))"
  unfolding rqs_rep_def
proof (intro conjI allI impI)
  fix k assume k: "k < MAX_HARTS"
  show "rq_rep (nxt s') (onrq s') (g_runqueues s' k) ((Q(h := xs)) k)"
  proof (cases "k = h")
    case True
    with new show ?thesis by simp
  next
    case False
    have "set (Q h) \<inter> set (Q k) = {}" using R h k False unfolding rqs_rep_def by auto
    with disj [OF k False] out have "\<And>x. x \<in> set (Q k) \<Longrightarrow> nxt s' x = nxt s x \<and> onrq s' x = onrq s x"
      by blast
    then have "rq_rep (nxt s') (onrq s') (g_runqueues s' k) (Q k) = rq_rep (nxt s) (onrq s) (g_runqueues s' k) (Q k)"
      by (intro rq_rep_cong) auto
    with False rqs [OF False] rqs_repD [OF R k] show ?thesis by simp
  qed
next
  fix k l assume "k < MAX_HARTS" "l < MAX_HARTS" "k \<noteq> l"
  then show "set ((Q(h := xs)) k) \<inter> set ((Q(h := xs)) l) = {}"
    using disj [of k] disj [of l] R by (auto simp: rqs_rep_def)
next
  fix i assume i: "valid_tid i \<and> onrq s' i"
  show "\<exists>k<MAX_HARTS. i \<in> set ((Q(h := xs)) k)"
  proof (cases "i \<in> set xs")
    case True
    with h show ?thesis by auto
  next
    case False
    with i gone [of i] have "i \<notin> set (Q h)" by blast
    moreover from this False i out [of i] have "onrq s i" by simp
    then obtain k where "k < MAX_HARTS" "i \<in> set (Q k)" using R i unfolding rqs_rep_def by blast
    ultimately show ?thesis by (intro exI [of _ k]) auto
  qed
next
  fix k assume "MAX_HARTS \<le> k"
  with R h show "(Q(h := xs)) k = []" by (simp add: rqs_rep_def)
qed

lemma rqs_rep_off: "rqs_rep s Q \<Longrightarrow> \<not> onrq s t \<Longrightarrow> t \<notin> set (Q k)"
  by (cases "k < MAX_HARTS") (auto simp: rqs_rep_def rq_rep_def)

lemma rqs_rep_disj: "rqs_rep s Q \<Longrightarrow> h < MAX_HARTS \<Longrightarrow> k \<noteq> h \<Longrightarrow> set (Q h) \<inter> set (Q k) = {}"
  by (cases "k < MAX_HARTS") (auto simp: rqs_rep_def)

lemma rq_rep_len_inc:
  assumes "rq_rep nx on r xs"
  shows "unat (q_len r + 1) = Suc (length xs)"
proof -
  have "length xs \<le> 64" using rq_rep_length [OF assms] by (simp add: THREAD_MAX_def)
  with assms show ?thesis by (subst unat_inc) (simp_all add: rq_rep_def)
qed

lemma rq_push_tail_rep:
  assumes R: "rqs_rep s Q" and h: "h < MAX_HARTS" and t: "is_worker t" "\<not> onrq s t"
  shows "\<exists>s'. rq_push_tail h t s = Inr s' \<and> rqs_rep s' (Q(h := Q h @ [t]))
           \<and> rq_frame s s' \<and> onrq s' = (onrq s)(t := True)"
proof -
  let ?r = "g_runqueues s h"
  note rep = rqs_repD [OF R h]
  note off = rqs_rep_off [OF R t(2)]
  note len = rq_rep_len_inc [OF rep]
  have disj: "set (Q h @ [t]) \<inter> set (Q k) = {}" if "k \<noteq> h" for k
    using rqs_rep_disj [OF R h that] off by auto
  define s1 where "s1 = upd_thread t (\<lambda>t. t\<lparr>t_rq_next := -1\<rparr>) s"
  define s2 where "s2 = (if Q h = [] then upd_rq h (\<lambda>r. r\<lparr>q_head := t, q_tail := t\<rparr>) s1
     else upd_rq h (\<lambda>r. r\<lparr>q_tail := t\<rparr>) (upd_thread (last (Q h)) (\<lambda>u. u\<lparr>t_rq_next := t\<rparr>) s1))"
  define s' where "s' = upd_rq h (\<lambda>r. r\<lparr>q_len := q_len r + 1\<rparr>) (upd_thread t (\<lambda>t. t\<lparr>t_on_rq := True\<rparr>) s2)"
  have last: "Q h \<noteq> [] \<Longrightarrow> is_worker (last (Q h)) \<and> last (Q h) \<noteq> t \<and> last (Q h) \<noteq> -1"
    using rep off [of h] last_in_set [of "Q h"] by (fastforce simp: rq_rep_def is_worker_def)
  have tail: "q_tail ?r = (if Q h = [] then -1 else last (Q h))" using rep by (simp add: rq_rep_def)
  have run: "rq_push_tail h t s = Inr s'"
  proof (cases "Q h = []")
    case True
    with h t tail show ?thesis
      unfolding rq_push_tail_def s'_def s2_def s1_def by (simp add: is_worker_def onrq_def)
  next
    case False
    with last have "valid_tid (last (Q h))" by simp
    with False h t tail last show ?thesis
      unfolding rq_push_tail_def s'_def s2_def s1_def by (simp add: is_worker_def onrq_def)
  qed
  have on: "onrq s' = (onrq s)(t := True)"
    using last unfolding s'_def s2_def s1_def by (auto simp: onrq_upd_thread fun_eq_iff) (auto simp: onrq_def)
  have nx: "nxt s' = (if Q h = [] then (nxt s)(t := -1) else (nxt s)(t := -1, last (Q h) := t))"
    using last unfolding s'_def s2_def s1_def by (auto simp: nxt_upd_thread fun_eq_iff nxt_def)
  have frame: "rq_frame s s'"
    unfolding s'_def s2_def s1_def by (auto intro!: rq_frame_upd_thread)
  have rqs: "g_runqueues s' k = (if k = h then ?r\<lparr>q_head := (if Q h = [] then t else q_head ?r),
       q_tail := t, q_len := q_len ?r + 1\<rparr> else g_runqueues s k)" for k
    unfolding s'_def s2_def s1_def by auto
  have "rq_rep (nxt s') (onrq s') (g_runqueues s' h) (Q h @ [t])"
  proof (cases "Q h = []")
    case True
    with len t on nx rqs show ?thesis by (simp add: rq_rep_def)
  next
    case False
    have "chain (nxt s') (q_head ?r) (Q h @ [t])"
      unfolding nx using False rep off [of h] by (simp add: rq_rep_def chain_snoc)
    with False len rep t off [of h] on rqs show ?thesis by (auto simp: rq_rep_def)
  qed
  then have "rqs_rep s' (Q(h := Q h @ [t]))"
    using R h disj rqs by (intro rqs_rep_change [OF R h]) (auto simp: on nx)
  with run frame on show ?thesis by blast
qed

lemma rq_pop_head_empty:
  assumes "rqs_rep s Q" "Q h = []"
  shows "rq_pop_head h s = Inr (-1, s)"
  using assms rqs_repD [OF assms(1), of h] by (auto simp: rq_pop_head_def rq_rep_def Let_def)

lemma rq_dec_len_rqs:
  "g_runqueues (rq_dec_len h s) k = (if k = h \<and> q_len (g_runqueues s h) > 0
     then (g_runqueues s h)\<lparr>q_len := q_len (g_runqueues s h) - 1\<rparr> else g_runqueues s k)"
  by (simp add: rq_dec_len_def)

lemma nxt_onrq_dec_len [simp]: "nxt (rq_dec_len h s) = nxt s" "onrq (rq_dec_len h s) = onrq s"
  by (simp_all add: rq_dec_len_def)

lemma rq_pop_head_rep:
  assumes R: "rqs_rep s Q" and h: "h < MAX_HARTS" and Q: "Q h = t # ts"
  shows "\<exists>s'. rq_pop_head h s = Inr (t, s') \<and> rqs_rep s' (Q(h := ts))
           \<and> rq_frame s s' \<and> onrq s' = (onrq s)(t := False)"
proof -
  let ?r = "g_runqueues s h"
  note rep = rqs_repD [OF R h, unfolded Q]
  have hd: "q_head ?r = t" and tl: "chain (nxt s) (nxt s t) ts" and dist: "t \<notin> set ts" "distinct ts"
    and w: "is_worker t" and len: "unat (q_len ?r) = Suc (length ts)"
    using rep by (auto simp: rq_rep_def)
  have pos: "0 < q_len ?r" using len by (simp add: word_less_nat_alt)
  have neg: "nxt s t < 0 \<longleftrightarrow> ts = []"
    using tl rep by (cases ts) (auto simp: rq_rep_def is_worker_def)
  define s2 where "s2 = (if ts = [] then upd_rq h (\<lambda>r. r\<lparr>q_tail := -1\<rparr>) else id)
     (upd_rq h (\<lambda>r. r\<lparr>q_head := nxt s t\<rparr>) s)"
  define s' where "s' = rq_dec_len h (upd_thread t (\<lambda>t. t\<lparr>t_rq_next := -1, t_on_rq := False\<rparr>) s2)"
  have run: "rq_pop_head h s = Inr (t, s')"
    using h hd w neg unfolding rq_pop_head_def s'_def s2_def
    by (auto simp: Let_def nxt_def is_worker_def valid_tid_def)
  have on: "onrq s' = (onrq s)(t := False)" and nx: "nxt s' = (nxt s)(t := -1)"
    unfolding s'_def s2_def by (auto simp: onrq_upd_thread nxt_upd_thread)
  have frame: "rq_frame s s'"
    unfolding s'_def s2_def by (auto intro!: rq_frame_upd_thread)
  have rqs: "g_runqueues s' k = (if k = h then ?r\<lparr>q_head := nxt s t,
       q_tail := (if ts = [] then -1 else q_tail ?r), q_len := q_len ?r - 1\<rparr> else g_runqueues s k)" for k
    using pos unfolding s'_def s2_def by (auto simp: rq_dec_len_rqs)
  have "rq_rep (nxt s') (onrq s') (g_runqueues s' h) ts"
    using rep dist tl len pos by (auto simp: rq_rep_def on nx rqs unat_dec)
  then have "rqs_rep s' (Q(h := ts))"
    using R h Q rqs rqs_rep_disj [OF R h]
    by (intro rqs_rep_change [OF R h]) (auto simp: on nx Q)
  with run frame on show ?thesis by blast
qed

lemma rq_unlink_rep:
  assumes R: "rqs_rep s Q" and h: "h < MAX_HARTS" and Q: "Q h = ys @ t # zs"
    and prev: "prev = (if ys = [] then -1 else last ys)"
  shows "rqs_rep (rq_unlink h t prev s) (Q(h := ys @ zs)) \<and> rq_frame s (rq_unlink h t prev s)
           \<and> onrq (rq_unlink h t prev s) = (onrq s)(t := False)"
proof -
  let ?r = "g_runqueues s h"
  define s' where s': "s' = rq_unlink h t prev s"
  note rep = rqs_repD [OF R h, unfolded Q]
  have C: "chain (nxt s) (q_head ?r) (ys @ t # zs)" and D: "distinct (ys @ t # zs)"
    and W: "\<forall>x\<in>set (ys @ t # zs). is_worker x \<and> onrq s x" and len: "unat (q_len ?r) = Suc (length ys + length zs)"
    and tail: "q_tail ?r = (if zs = [] then t else last zs)"
    using rep by (auto simp: rq_rep_def)
  have pos: "0 < q_len ?r" using len by (simp add: word_less_nat_alt)
  have last: "ys \<noteq> [] \<Longrightarrow> is_worker (last ys) \<and> last ys \<noteq> t \<and> \<not> last ys < 0"
  proof -
    assume "ys \<noteq> []"
    then have L: "last ys \<in> set ys" by simp
    with W D show ?thesis using worker_nonneg [of "last ys"] by auto
  qed
  have tail': "(if zs = [] then prev else last zs) = (if ys @ zs = [] then -1 else last (ys @ zs))"
    using prev by auto
  have "zs \<noteq> [] \<Longrightarrow> last zs \<noteq> t" using D by auto
  then have rqs: "g_runqueues s' k = (if k = h then ?r\<lparr>q_head := (if ys = [] then nxt s t else q_head ?r),
       q_tail := (if zs = [] then prev else last zs), q_len := q_len ?r - 1\<rparr> else g_runqueues s k)" for k
    using pos tail last prev by (auto simp: s' rq_unlink_def Let_def rq_dec_len_rqs nxt_def)
  have nx: "nxt s' = (if ys = [] then (nxt s)(t := -1) else (nxt s)(last ys := nxt s t, t := -1))"
    using last prev by (auto simp: s' rq_unlink_def Let_def nxt_upd_thread nxt_def)
  have on: "onrq s' = (onrq s)(t := False)"
    using last prev by (auto simp: s' rq_unlink_def Let_def onrq_upd_thread fun_eq_iff) (auto simp: onrq_def)
  have frame: "rq_frame s s'"
    by (auto simp: s' rq_unlink_def Let_def intro!: rq_frame_upd_thread)
  have "chain (nxt s') (q_head (g_runqueues s' h)) (ys @ zs)"
  proof (cases "ys = []")
    case True
    with C D nx rqs show ?thesis by simp
  next
    case False
    with chain_unlink [OF C D] D nx rqs show ?thesis by simp
  qed
  then have "rq_rep (nxt s') (onrq s') (g_runqueues s' h) (ys @ zs)"
    using D W len pos tail' by (simp add: rq_rep_def rqs on unat_dec) blast
  then have "rqs_rep s' (Q(h := ys @ zs))"
    using R h Q rqs rqs_rep_disj [OF R h]
    by (intro rqs_rep_change [OF R h]) (auto simp: on nx Q)
  with frame on show ?thesis by (simp add: s')
qed

lemma rq_remove_loop_found:
  assumes R: "rqs_rep s Q" and h: "h < MAX_HARTS"
  shows "Q h = ys @ zs \<Longrightarrow> t \<notin> set ys \<Longrightarrow> t \<in> set zs \<Longrightarrow> length zs \<le> n \<Longrightarrow>
     cur = hd zs \<Longrightarrow> prev = (if ys = [] then -1 else last ys) \<Longrightarrow>
     \<exists>as bs. Q h = as @ t # bs \<and> t \<notin> set as
       \<and> rq_remove_loop n h t cur prev s = Inr (0, rq_unlink h t (if as = [] then -1 else last as) s)"
proof (induction zs arbitrary: ys n cur prev)
  case Nil
  then show ?case by simp
next
  case (Cons z zs)
  note rep = rqs_repD [OF R h]
  from Cons.prems obtain m where n: "n = Suc m" by (cases n) auto
  have w: "is_worker z" using rep Cons.prems(1) by (auto simp: rq_rep_def)
  show ?case
  proof (cases "z = t")
    case True
    with Cons.prems n w show ?thesis
      by (intro exI [of _ ys] exI [of _ zs]) (auto simp: is_worker_def valid_tid_def)
  next
    case False
    with Cons.prems(3) have tz: "t \<in> set zs" by simp
    then obtain z' zs' where zs: "zs = z' # zs'" by (cases zs) auto
    have "chain (nxt s) (q_head (g_runqueues s h)) (ys @ z # z' # zs')"
      using rep Cons.prems(1) zs by (simp add: rq_rep_def)
    then have "nxt s z = hd zs" using zs by (simp add: chain_succ)
    with Cons.IH [of "ys @ [z]" m "hd zs" z] Cons.prems False n w tz show ?thesis
      by (auto simp: nxt_def is_worker_def valid_tid_def)
  qed
qed

lemma rq_remove_loop_missing:
  assumes R: "rqs_rep s Q" and h: "h < MAX_HARTS"
  shows "Q h = ys @ zs \<Longrightarrow> t \<notin> set zs \<Longrightarrow> length zs \<le> n \<Longrightarrow>
     cur = (if zs = [] then -1 else hd zs) \<Longrightarrow> rq_remove_loop n h t cur prev s = Inr (-1, s)"
proof (induction zs arbitrary: ys n cur prev)
  case Nil
  then show ?case by (cases n) simp_all
next
  case (Cons z zs)
  note rep = rqs_repD [OF R h]
  from Cons.prems obtain m where n: "n = Suc m" by (cases n) auto
  have w: "is_worker z" using rep Cons.prems(1) by (auto simp: rq_rep_def)
  have "chain (nxt s) (q_head (g_runqueues s h)) (ys @ z # zs)"
    using rep Cons.prems(1) by (simp add: rq_rep_def)
  then have "nxt s z = (if zs = [] then -1 else hd zs)"
    by (cases zs) (auto simp: chain_succ chain_end)
  with Cons.IH [of "ys @ [z]" m "nxt s z" z] Cons.prems n w show ?case
    by (auto simp: nxt_def is_worker_def valid_tid_def)
qed

lemma rq_rep_head: "rq_rep nx on r xs \<Longrightarrow> q_head r = (if xs = [] then -1 else hd xs)"
  by (cases xs) (auto simp: rq_rep_def)

lemma rq_remove_rep:
  assumes R: "rqs_rep s Q" and h: "h < MAX_HARTS" and t: "t \<in> set (Q h)"
  shows "\<exists>s'. rq_remove h t s = Inr (0, s') \<and> rqs_rep s' (Q(h := remove1 t (Q h)))
           \<and> rq_frame s s' \<and> onrq s' = (onrq s)(t := False)"
proof -
  note rep = rqs_repD [OF R h]
  have "valid_tid t" using rep t by (auto simp: rq_rep_def)
  then have run: "rq_remove h t s
      = rq_remove_loop (nat THREAD_MAX) h t (hd (Q h)) (-1) s"
    using h t rq_rep_head [OF rep] by (auto simp: rq_remove_def valid_tid_def)
  have "length (Q h) \<le> nat THREAD_MAX" using rq_rep_length [OF rep] by simp
  then obtain as bs where Q: "Q h = as @ t # bs" "t \<notin> set as"
    and eq: "rq_remove h t s = Inr (0, rq_unlink h t (if as = [] then -1 else last as) s)"
    using rq_remove_loop_found [OF R h, of "[]" "Q h" t "nat THREAD_MAX" "hd (Q h)" "-1"] t run
    by auto
  from Q have "remove1 t (Q h) = as @ bs" by (simp add: remove1_append)
  with rq_unlink_rep [OF R h Q(1) refl] eq show ?thesis by auto
qed

lemma rq_remove_missing:
  assumes R: "rqs_rep s Q" and t: "t \<notin> set (Q h)"
  shows "rq_remove h t s = Inr (-1, s)"
proof (cases "h < MAX_HARTS \<and> 0 \<le> t \<and> t < THREAD_MAX")
  case True
  then have h: "h < MAX_HARTS" by simp
  note rep = rqs_repD [OF R h]
  have "length (Q h) \<le> nat THREAD_MAX" using rq_rep_length [OF rep] by simp
  with rq_remove_loop_missing [OF R h, of "[]" "Q h" t "nat THREAD_MAX"] t rq_rep_head [OF rep] True
  show ?thesis by (simp add: rq_remove_def)
next
  case False
  then show ?thesis by (auto simp: rq_remove_def)
qed

lemma rq_remove_any_rep:
  assumes R: "rqs_rep s Q" and h: "h < MAX_HARTS" and t: "t \<in> set (Q h)"
  shows "\<exists>s'. rq_remove_any t s = Inr (int h, s') \<and> rqs_rep s' (Q(h := remove1 t (Q h)))
           \<and> rq_frame s s' \<and> onrq s' = (onrq s)(t := False)"
proof -
  have v: "valid_tid t" using rqs_repD [OF R h] t by (auto simp: rq_rep_def)
  obtain s' where s': "rq_remove h t s = Inr (0, s')" "rqs_rep s' (Q(h := remove1 t (Q h)))"
    "rq_frame s s'" "onrq s' = (onrq s)(t := False)"
    using rq_remove_rep [OF R h t] by blast
  have other: "rq_remove k t s = Inr (-1, s)" if "k \<noteq> h" for k
    using rqs_rep_disj [OF R h that] t by (intro rq_remove_missing [OF R]) auto
  have "h \<in> set hs \<Longrightarrow> rq_remove_any_loop hs t s = Inr (int h, s')" for hs
  proof (induction hs)
    case (Cons k hs)
    then show ?case by (cases "k = h") (simp_all add: s'(1) other)
  qed simp
  then have "rq_remove_any t s = Inr (int h, s')"
    using v h by (simp add: rq_remove_any_def valid_tid_def)
  with s' show ?thesis by blast
qed

lemma rq_snapshot_loop_rep:
  assumes R: "rqs_rep s Q" and h: "h < MAX_HARTS"
  shows "Q h = ys @ zs \<Longrightarrow> cur = (if zs = [] then -1 else hd zs) \<Longrightarrow> length d = n + k \<Longrightarrow>
     rq_snapshot_loop k n cur d s
       = Inr (n + min k (length zs), take n d @ take k zs @ drop (n + length (take k zs)) d)"
proof (induction zs arbitrary: ys k n cur d)
  case Nil
  then show ?case by (cases k) simp_all
next
  case (Cons z zs)
  note rep = rqs_repD [OF R h]
  have w: "is_worker z" using rep Cons.prems(1) by (auto simp: rq_rep_def)
  have "chain (nxt s) (q_head (g_runqueues s h)) (ys @ z # zs)"
    using rep Cons.prems(1) by (simp add: rq_rep_def)
  then have nx: "t_rq_next (g_threads s z) = (if zs = [] then -1 else hd zs)"
    by (cases zs) (auto simp: chain_succ chain_end nxt_def [symmetric])
  show ?case
  proof (cases k)
    case 0
    with Cons.prems show ?thesis by simp
  next
    case (Suc m)
    with Cons.IH [where ys = "ys @ [z]" and n = "Suc n" and d = "d[n := z]" and k = m] Cons.prems w nx
    have "rq_snapshot_loop k n cur d s = Inr (Suc n + min m (length zs),
        take (Suc n) (d[n := z]) @ take m zs @ drop (Suc n + length (take m zs)) (d[n := z]))"
      by (simp add: worker_nonneg)
    moreover have "take (Suc n) (d[n := z]) = take n d @ [z]"
      using Cons.prems(3) Suc by (simp add: take_Suc_conv_app_nth)
    ultimately show ?thesis using Suc by simp
  qed
qed

section \<open>The operations at the level of the invariant\<close>

lemma rq_push_tail_wf:
  assumes "rq_wf s" "h < MAX_HARTS" "is_worker t" "\<not> onrq s t"
  shows "\<exists>s'. rq_push_tail h t s = Inr s' \<and> rq_wf s' \<and> rq_list s' = (rq_list s)(h := rq_list s h @ [t])
           \<and> rq_frame s s' \<and> onrq s' = (onrq s)(t := True)"
  using rq_push_tail_rep [of s "rq_list s" h t] assms rqs_rep_wf rqs_rep_list
  unfolding rq_wf_def by metis

lemma rq_pop_head_wf:
  assumes "rq_wf s" "h < MAX_HARTS" "rq_list s h = t # ts"
  shows "\<exists>s'. rq_pop_head h s = Inr (t, s') \<and> rq_wf s' \<and> rq_list s' = (rq_list s)(h := ts)
           \<and> rq_frame s s' \<and> onrq s' = (onrq s)(t := False)"
  using rq_pop_head_rep [of s "rq_list s" h t ts] assms rqs_rep_wf rqs_rep_list
  unfolding rq_wf_def by metis

lemma rq_pop_head_wf_empty: "rq_wf s \<Longrightarrow> rq_list s h = [] \<Longrightarrow> rq_pop_head h s = Inr (-1, s)"
  using rq_pop_head_empty by (auto simp: rq_wf_def)

lemma rq_remove_any_wf:
  assumes "rq_wf s" "h < MAX_HARTS" "t \<in> set (rq_list s h)"
  shows "\<exists>s'. rq_remove_any t s = Inr (int h, s') \<and> rq_wf s'
           \<and> rq_list s' = (rq_list s)(h := remove1 t (rq_list s h))
           \<and> rq_frame s s' \<and> onrq s' = (onrq s)(t := False)"
  using rq_remove_any_rep [of s "rq_list s" h t] assms rqs_rep_wf rqs_rep_list
  unfolding rq_wf_def by metis

section \<open>The interface the scheduler relies on\<close>

text \<open>A family of FIFO queues of thread ids, one per hart. \<open>ready\<close> is what the client must
  know before a push. The client's own facts about runs of operations are proved here.\<close>

locale hart_queues =
  fixes inv :: "'s \<Rightarrow> bool"
    and queue :: "'s \<Rightarrow> nat \<Rightarrow> int list"
    and ready :: "'s \<Rightarrow> int \<Rightarrow> bool"
    and push :: "nat \<Rightarrow> int \<Rightarrow> 's \<Rightarrow> 's kres"
    and pop :: "nat \<Rightarrow> 's \<Rightarrow> (int \<times> 's) kres"
    and harts :: nat
  assumes push_law: "inv s \<Longrightarrow> h < harts \<Longrightarrow> ready s t \<Longrightarrow>
      \<exists>s'. push h t s = Inr s' \<and> inv s' \<and> queue s' = (queue s)(h := queue s h @ [t])"
    and pop_empty: "inv s \<Longrightarrow> queue s h = [] \<Longrightarrow> pop h s = Inr (-1, s)"
    and pop_law: "inv s \<Longrightarrow> h < harts \<Longrightarrow> queue s h = t # ts \<Longrightarrow>
      \<exists>s'. pop h s = Inr (t, s') \<and> inv s' \<and> queue s' = (queue s)(h := ts)"
    and ready_law: "inv s \<Longrightarrow> ready s t \<Longrightarrow> t \<notin> set (queue s h)"
begin

fun pop_n :: "nat \<Rightarrow> nat \<Rightarrow> 's \<Rightarrow> (int list \<times> 's) kres" where
  "pop_n 0 h s = Inr ([], s)"
| "pop_n (Suc n) h s = bindE (pop h s) (\<lambda>(t, s1). bindE (pop_n n h s1) (\<lambda>(ts, s2). Inr (t # ts, s2)))"

lemma pop_n_all:
  assumes "inv s" "h < harts" "queue s h = ts @ us"
  shows "\<exists>s'. pop_n (length ts) h s = Inr (ts, s') \<and> inv s' \<and> queue s' = (queue s)(h := us)"
  using assms
proof (induction ts arbitrary: s)
  case Nil
  then show ?case by auto
next
  case (Cons t ts)
  then obtain s1 where "pop h s = Inr (t, s1)" "inv s1" "queue s1 = (queue s)(h := ts @ us)"
    using pop_law [of s h t "ts @ us"] by auto
  with Cons.IH [of s1] Cons.prems(2) show ?case by (auto simp: fun_eq_iff)
qed

lemma push_then_pop_in_order:
  assumes "inv s" "h < harts" "ready s t"
  shows "\<exists>s1 s2. push h t s = Inr s1 \<and> pop_n (Suc (length (queue s h))) h s1 = Inr (queue s h @ [t], s2)
           \<and> inv s2 \<and> queue s2 = (queue s)(h := [])"
proof -
  obtain s1 where s1: "push h t s = Inr s1" "inv s1" "queue s1 = (queue s)(h := queue s h @ [t])"
    using push_law [OF assms] by blast
  with pop_n_all [of s1 h "queue s h @ [t]" "[]"] assms(2) show ?thesis by auto
qed

lemma push_length:
  assumes "inv s" "h < harts" "ready s t" "push h t s = Inr s'"
  shows "length (queue s' h) = Suc (length (queue s h))" "k \<noteq> h \<Longrightarrow> queue s' k = queue s k"
  using push_law [OF assms(1-3)] assms(4) by auto

end

interpretation rq: hart_queues rq_wf rq_list "\<lambda>s t. is_worker t \<and> \<not> onrq s t" rq_push_tail rq_pop_head MAX_HARTS
proof unfold_locales
  show "\<exists>s'. rq_push_tail h t s = Inr s' \<and> rq_wf s' \<and> rq_list s' = (rq_list s)(h := rq_list s h @ [t])"
    if "rq_wf s" "h < MAX_HARTS" "is_worker t \<and> \<not> onrq s t" for s h t
    using rq_push_tail_wf [of s h t] that by blast
  show "rq_pop_head h s = Inr (-1, s)" if "rq_wf s" "rq_list s h = []" for s h
    using that by (rule rq_pop_head_wf_empty)
  show "\<exists>s'. rq_pop_head h s = Inr (t, s') \<and> rq_wf s' \<and> rq_list s' = (rq_list s)(h := ts)"
    if "rq_wf s" "h < MAX_HARTS" "rq_list s h = t # ts" for s h t ts
    using rq_pop_head_wf [of s h t ts] that by blast
  show "t \<notin> set (rq_list s h)" if "rq_wf s" "is_worker t \<and> \<not> onrq s t" for s t h
    using rq_wf_worker that by blast
qed

end
