(* ===== verification/Platform.thy ===== *)
theory Platform
  imports Kernel_State
begin

text \<open>
  The time base and the timer of \<open>platform/qemu-virt-sbi\<close>. The scheduler's tick length,
  the deadline handed to the firmware and the conversion of the time counter to
  nanoseconds are here with their bounds; the conversion is shown to be exact wherever it
  does not wrap.
\<close>

section \<open>Time base\<close>

definition platform_timebase_hz :: "kstate \<Rightarrow> u32 \<times> kstate" where
  "platform_timebase_hz s =
     (if g_timebase_hz s \<noteq> 0 then (g_timebase_hz s, s)
      else
        let hz = (if g_dtb s \<noteq> 0 then (case dtb_timebase s of None \<Rightarrow> 0 | Some v \<Rightarrow> v) else 0);
            hz' = (if hz = 0 then 10000000 else hz)
        in (hz', s\<lparr>g_timebase_hz := hz'\<rparr>))"

definition platform_sched_delta_ticks :: "kstate \<Rightarrow> u64 \<times> kstate" where
  "platform_sched_delta_ticks s =
     (let (hz, s') = platform_timebase_hz s;
          ticks = (ucast (hz div 1000) :: u64)
      in (if ticks = 0 then 1 else ticks, s'))"

section \<open>Timer\<close>

definition timer_now :: "kstate \<Rightarrow> u64" where
  "timer_now s = csr_time s"

definition timer_start_at :: "nat \<Rightarrow> u64 \<Rightarrow> kstate \<Rightarrow> kstate" where
  "timer_start_at h when s = emit (EvTimer h when) s"

definition timer_start_after :: "nat \<Rightarrow> u64 \<Rightarrow> kstate \<Rightarrow> kstate" where
  "timer_start_after h delta_ticks s = timer_start_at h (timer_now s + delta_ticks) s"

definition timer_stop :: "nat \<Rightarrow> kstate \<Rightarrow> kstate" where
  "timer_stop h s = timer_start_at h (- 1) s"

text \<open>\<open>sched_rearm_timer\<close> of \<open>kernel/sched.c\<close>, also the call in \<open>cpu_enter_idle\<close>.\<close>

definition sched_rearm_timer :: "nat \<Rightarrow> kstate \<Rightarrow> kstate" where
  "sched_rearm_timer h s =
     (let (d, s') = platform_sched_delta_ticks s in timer_start_after h d s')"

section \<open>Real-time clock\<close>

definition rtc_ns :: "u32 \<Rightarrow> u64 \<Rightarrow> u64" where
  "rtc_ns hz ticks =
     (let sec = ticks div ucast hz;
          rem = ticks - sec * ucast hz
      in sec * 1000000000 + (rem * 1000000000) div ucast hz)"

definition platform_rtc_read_ns :: "kstate \<Rightarrow> u64 \<times> kstate" where
  "platform_rtc_read_ns s =
     (let (hz, s') = platform_timebase_hz s in (rtc_ns hz (csr_time s'), s'))"

section \<open>Frame and bounds\<close>

lemma timebase_frame:
  "snd (platform_timebase_hz s) = s\<lparr>g_timebase_hz := fst (platform_timebase_hz s)\<rparr>"
  by (simp add: platform_timebase_hz_def Let_def)

lemma timebase_pos: "fst (platform_timebase_hz s) \<noteq> 0"
  by (simp add: platform_timebase_hz_def Let_def)

lemma sched_delta_frame:
  "snd (platform_sched_delta_ticks s) = s\<lparr>g_timebase_hz := fst (platform_timebase_hz s)\<rparr>"
  by (simp add: platform_sched_delta_ticks_def Let_def case_prod_beta timebase_frame)

lemma sched_delta_pos: "fst (platform_sched_delta_ticks s) \<noteq> 0"
  by (simp add: platform_sched_delta_ticks_def Let_def case_prod_beta)

text \<open>Re-arming touches only the cached time base and the event trace.\<close>

lemma sched_rearm_timer_eq:
  "sched_rearm_timer h s = s\<lparr>g_timebase_hz := fst (platform_timebase_hz s),
     k_events := k_events s @ [EvTimer h (csr_time s + fst (platform_sched_delta_ticks s))]\<rparr>"
  by (simp add: sched_rearm_timer_def case_prod_beta sched_delta_frame timer_start_after_def
      timer_start_at_def timer_now_def emit_def)

lemma sched_rearm_timer_frame [simp]:
  "g_threads (sched_rearm_timer h s) = g_threads s"
  "g_cpus (sched_rearm_timer h s) = g_cpus s"
  "g_runqueues (sched_rearm_timer h s) = g_runqueues s"
  "g_ticks (sched_rearm_timer h s) = g_ticks s"
  "g_stdin_waiter (sched_rearm_timer h s) = g_stdin_waiter s"
  "g_boot_hartid (sched_rearm_timer h s) = g_boot_hartid s"
  "smp_boot_done (sched_rearm_timer h s) = smp_boot_done s"
  by (simp_all add: sched_rearm_timer_eq)

text \<open>The nanosecond conversion is exact: the quotient of the mathematical product, as long
  as that fits into 64 bits. The intermediate product of the remainder never wraps.\<close>

lemma rtc_ns_exact:
  assumes hz: "hz \<noteq> 0" and fit: "unat ticks * 1000000000 div unat hz < 2 ^ 64"
  shows "unat (rtc_ns hz ticks) = unat ticks * 1000000000 div unat hz"
proof -
  let ?h = "unat hz" and ?t = "unat ticks" and ?N = "1000000000 :: nat"
  let ?q = "?t div ?h" and ?r = "?t mod ?h"
  have hpos: "0 < ?h" using hz by (simp add: unat_gt_0)
  have hb: "?h < 2 ^ 32" using unat_lt [of hz] by simp
  have tb: "?t < 2 ^ 64" using unat_lt [of ticks] by simp
  have uh: "unat (ucast hz :: u64) = ?h" by simp
  have sec: "unat (ticks div ucast hz) = ?q" by (simp add: unat_div uh)
  have "?q * ?h < 2 ^ 64" using tb by (rule le_less_trans [rotated]) simp
  then have prod: "unat ((ticks div ucast hz) * ucast hz) = ?q * ?h"
    using unat_mult_lem [of "ticks div ucast hz" "ucast hz"] by (simp add: sec)
  have rem: "unat (ticks - (ticks div ucast hz) * ucast hz) = ?r"
    by (simp add: unat_mod minus_div_mult_eq_mod)
  have rb: "?r < ?h" using hpos by simp
  then have "?r * ?N < 2 ^ 64" using hb by (auto intro: le_less_trans [of _ "2 ^ 32 * ?N"])
  then have rp: "unat ((ticks - (ticks div ucast hz) * ucast hz) * 1000000000) = ?r * ?N"
    using unat_mult_lem [of "ticks - (ticks div ucast hz) * ucast hz" 1000000000] by (simp add: rem)
  have split: "?t * ?N div ?h = ?q * ?N + ?r * ?N div ?h"
  proof -
    have "?t * ?N = (?q * ?h + ?r) * ?N" by (simp only: div_mult_mod_eq)
    also have "\<dots> = ?r * ?N + (?q * ?N) * ?h" by (simp only: algebra_simps)
    finally show ?thesis using hpos by (simp only: div_mult_self1)
  qed
  have sum: "?q * ?N + ?r * ?N div ?h < 2 ^ 64" using fit split by simp
  then have "?q * ?N < 2 ^ 64" by simp
  then have sp: "unat ((ticks div ucast hz) * 1000000000) = ?q * ?N"
    using unat_mult_lem [of "ticks div ucast hz" 1000000000] by (simp add: sec)
  have rd: "unat ((ticks - (ticks div ucast hz) * ucast hz) * 1000000000 div ucast hz) = ?r * ?N div ?h"
    by (simp only: unat_div rp uh)
  show ?thesis
    unfolding rtc_ns_def Let_def split
    using unat_add_lem [of "(ticks div ucast hz) * 1000000000"
        "(ticks - (ticks div ucast hz) * ucast hz) * 1000000000 div ucast hz"] sum
    by (simp only: sp rd) simp
qed

end
