(* ===== verification/Cpu.thy ===== *)
theory Cpu
  imports Runqueue Platform
begin

text \<open>
  Per-hart state and inter-processor signalling (\<open>kernel/cpu.c\<close>) and the placement policy
  \<open>sched_pick_target_hart\<close> of \<open>kernel/sched.c\<close>. The hart that executes, \<open>cpu_this()\<close> in
  the code, is the argument \<open>h\<close>. An \<open>EvIpi k\<close> event stands for \<open>sbi_send_ipi(1, k)\<close>; an error
  return of the firmware is only logged by the code.
\<close>

section \<open>Bring-up\<close>

definition cpu_kstack_top :: "nat \<Rightarrow> kstate \<Rightarrow> u64" where
  "cpu_kstack_top hartid s = g_kstack s + of_nat (Suc hartid) * KSTACK_SIZE"

definition smp_set_online :: "nat \<Rightarrow> kstate \<Rightarrow> kstate" where
  "smp_set_online hartid s = upd_cpu hartid (\<lambda>c. c\<lparr>c_online := True\<rparr>) s"

definition sched_init_this_hart :: "nat \<Rightarrow> kstate \<Rightarrow> kstate" where
  "sched_init_this_hart h s =
     upd_cpu h (\<lambda>c. c\<lparr>c_need_resched := False, c_slice_left := SCHED_SLICE_TICKS\<rparr>) s"

definition cpu_init_this_hart :: "nat \<Rightarrow> kstate \<Rightarrow> kstate kres" where
  "cpu_init_this_hart hartid s =
     (if hartid \<ge> MAX_HARTS then Inl (Panic ''hartid >= MAX_HARTS'')
      else
        let s1 = upd_cpu hartid (\<lambda>c. c\<lparr>c_hartid := hartid,
                   c_kstack_top := cpu_kstack_top hartid s, c_cur_tf := TF_NULL,
                   c_idle_tid := int hartid, c_current_tid := -1,
                   c_timer_irqs := 0, c_ctx_switches := 0\<rparr>) s
        in Inr (sched_init_this_hart hartid (smp_set_online hartid s1)))"

definition set_smp_boot_done :: "kstate \<Rightarrow> kstate" where
  "set_smp_boot_done s = s\<lparr>smp_boot_done := True\<rparr>"

text \<open>The flag is written by the boot hart only: from a state in which it is not set the hart does not get
  past its polling loop by itself.\<close>

definition wait_for_smp_boot_done :: "kstate \<Rightarrow> kstate kres" where
  "wait_for_smp_boot_done s = (if smp_boot_done s then Inr s else Inl Diverges)"

text \<open>This loop has a deadline. The list holds what successive polls see (the clock and the flag); when it
  is exhausted the hart is still polling and the result is \<open>None\<close>.\<close>

fun smp_wait_online_loop :: "u64 \<Rightarrow> u64 \<Rightarrow> (u64 \<times> bool) list \<Rightarrow> int option" where
  "smp_wait_online_loop start timeout_ticks [] = None"
| "smp_wait_online_loop start timeout_ticks ((now, online) # polls) =
     (if now - start < timeout_ticks
      then if online then Some 0 else smp_wait_online_loop start timeout_ticks polls
      else Some (-1))"

definition smp_wait_hart_online :: "nat \<Rightarrow> u64 \<Rightarrow> u64 \<Rightarrow> (u64 \<times> bool) list \<Rightarrow> int option" where
  "smp_wait_hart_online hartid timeout_ticks start polls =
     (if hartid \<ge> MAX_HARTS then Some (-1) else smp_wait_online_loop start timeout_ticks polls)"

section \<open>Inter-processor interrupts\<close>

definition smp_kick_hart :: "nat \<Rightarrow> kstate \<Rightarrow> kstate" where
  "smp_kick_hart hartid s =
     (if \<not> smp_boot_done s then s
      else if hartid \<ge> MAX_HARTS then s
      else if \<not> c_online (g_cpus s hartid) then s
      else emit (EvIpi hartid) s)"

definition smp_kick_all_others :: "nat \<Rightarrow> kstate \<Rightarrow> kstate" where
  "smp_kick_all_others h s =
     (if \<not> smp_boot_done s then s
      else fold (\<lambda>hart s. if hart = c_hartid (g_cpus s h) then s
                          else if \<not> c_online (g_cpus s hart) then s
                          else emit (EvIpi hart) s) [0..<MAX_HARTS] s)"

section \<open>Placement\<close>

definition pick_step :: "kstate \<Rightarrow> nat \<Rightarrow> nat \<times> u32 \<times> bool \<Rightarrow> nat \<times> u32 \<times> bool" where
  "pick_step s h best =
     (case best of (best_hart, best_len, best_online) \<Rightarrow>
        if \<not> c_online (g_cpus s h) then best
        else if \<not> best_online \<or> rq_len h s < best_len then (h, rq_len h s, True)
        else best)"

definition sched_pick_target_hart :: "nat \<Rightarrow> kstate \<Rightarrow> nat kres" where
  "sched_pick_target_hart waker_hart s =
     (if waker_hart \<ge> MAX_HARTS then Inl BadIndex
      else Inr (fst (fold (pick_step s) [0..<MAX_HARTS]
             (waker_hart, rq_len waker_hart s, c_online (g_cpus s waker_hart)))))"

section \<open>What the placement policy guarantees\<close>

lemma pick_fold_online:
  assumes "bo \<longrightarrow> c_online (g_cpus s bh) \<and> bh < MAX_HARTS \<and> bl = rq_len bh s"
    and "\<forall>h\<in>set hs. h < MAX_HARTS"
    and "fold (pick_step s) hs (bh, bl, bo) = (th, tn, to)"
  shows "(to \<longrightarrow> c_online (g_cpus s th) \<and> th < MAX_HARTS \<and> tn = rq_len th s)
    \<and> (to \<longleftrightarrow> bo \<or> (\<exists>h\<in>set hs. c_online (g_cpus s h)))
    \<and> (\<forall>h\<in>set hs. c_online (g_cpus s h) \<longrightarrow> tn \<le> rq_len h s)
    \<and> (bo \<longrightarrow> tn \<le> bl) \<and> (\<not> to \<longrightarrow> th = bh)"
  using assms
proof (induction hs arbitrary: bh bl bo)
  case Nil
  then show ?case by auto
next
  case (Cons h hs)
  obtain bh' bl' bo' where p: "pick_step s h (bh, bl, bo) = (bh', bl', bo')" by (metis prod_cases3)
  then have inv: "bo' \<longrightarrow> c_online (g_cpus s bh') \<and> bh' < MAX_HARTS \<and> bl' = rq_len bh' s"
    using Cons.prems by (auto simp: pick_step_def split: if_splits)
  have step: "bo' \<longleftrightarrow> bo \<or> c_online (g_cpus s h)"
    "c_online (g_cpus s h) \<Longrightarrow> bl' \<le> rq_len h s" "bo \<Longrightarrow> bl' \<le> bl" "\<not> bo' \<Longrightarrow> bh' = bh"
    using p by (auto simp: pick_step_def split: if_splits)
  from Cons.prems p have "fold (pick_step s) hs (bh', bl', bo') = (th, tn, to)" by simp
  from Cons.IH [OF inv _ this] Cons.prems step show ?case
    by (auto intro: order_trans)
qed

text \<open>If any hart is online the chosen hart is online and no online hart has a shorter queue;
  if none is, the waker's own hart is chosen.\<close>

lemma sched_pick_target_hart_props:
  assumes w: "w < MAX_HARTS"
  shows "\<exists>t. sched_pick_target_hart w s = Inr t \<and> t < MAX_HARTS
    \<and> ((\<exists>h<MAX_HARTS. c_online (g_cpus s h)) \<longrightarrow> c_online (g_cpus s t)
        \<and> (\<forall>h<MAX_HARTS. c_online (g_cpus s h) \<longrightarrow> rq_len t s \<le> rq_len h s))
    \<and> (\<not> (\<exists>h<MAX_HARTS. c_online (g_cpus s h)) \<longrightarrow> t = w)"
proof -
  obtain th tn to where f: "fold (pick_step s) [0..<MAX_HARTS]
      (w, rq_len w s, c_online (g_cpus s w)) = (th, tn, to)" by (metis prod_cases3)
  have "(to \<longrightarrow> c_online (g_cpus s th) \<and> th < MAX_HARTS \<and> tn = rq_len th s)
    \<and> (to \<longleftrightarrow> c_online (g_cpus s w) \<or> (\<exists>h\<in>set [0..<MAX_HARTS]. c_online (g_cpus s h)))
    \<and> (\<forall>h\<in>set [0..<MAX_HARTS]. c_online (g_cpus s h) \<longrightarrow> tn \<le> rq_len h s)
    \<and> (c_online (g_cpus s w) \<longrightarrow> tn \<le> rq_len w s) \<and> (\<not> to \<longrightarrow> th = w)"
    using w by (intro pick_fold_online [OF _ _ f]) auto
  then show ?thesis using w f by (intro exI [of _ th]) (auto simp: sched_pick_target_hart_def)
qed

lemma smp_kick_hart_frame [simp]:
  "g_threads (smp_kick_hart k s) = g_threads s"
  "g_cpus (smp_kick_hart k s) = g_cpus s"
  "g_runqueues (smp_kick_hart k s) = g_runqueues s"
  "g_ticks (smp_kick_hart k s) = g_ticks s"
  "g_stdin_waiter (smp_kick_hart k s) = g_stdin_waiter s"
  "g_boot_hartid (smp_kick_hart k s) = g_boot_hartid s"
  "smp_boot_done (smp_kick_hart k s) = smp_boot_done s"
  "heap_u8 (smp_kick_hart k s) = heap_u8 s"
  "nxt (smp_kick_hart k s) = nxt s"
  "onrq (smp_kick_hart k s) = onrq s"
  by (simp_all add: smp_kick_hart_def)

text \<open>A kick reaches exactly the online harts below \<open>MAX_HARTS\<close>, once each, and never the
  sender.\<close>

lemma smp_kick_all_others_events:
  assumes "smp_boot_done s"
  shows "k_events (smp_kick_all_others h s) = k_events s
     @ map EvIpi (filter (\<lambda>k. k \<noteq> c_hartid (g_cpus s h) \<and> c_online (g_cpus s k)) [0..<MAX_HARTS])"
proof -
  let ?f = "\<lambda>hart s. if hart = c_hartid (g_cpus s h) then s
      else if \<not> c_online (g_cpus s hart) then s else emit (EvIpi hart) s"
  have "k_events (fold ?f hs u) = k_events u
      @ map EvIpi (filter (\<lambda>k. k \<noteq> c_hartid (g_cpus u h) \<and> c_online (g_cpus u k)) hs)" for hs u
    by (induction hs arbitrary: u) auto
  with assms show ?thesis by (simp add: smp_kick_all_others_def)
qed

end
