(* ===== verification/Thread.thy ===== *)
theory Thread
  imports Cpu
begin

text \<open>
  The thread table and the scheduler: the operations of \<open>kernel/thread.c\<close>, one definition per
  function, in the order of the source, and the scheduler's interrupt entry points of
  \<open>kernel/sched.c\<close>. Every operation takes the executing hart \<open>h\<close> (\<open>cpu_this()\<close>)
  and, where the code takes a \<open>struct trapframe *\<close>, the trapframe it points to. Log output
  (\<open>pr_info\<close> and friends) is not part of the modelled state. \<open>ASSERT\<close> is the debug build's: a failed
  assertion is a panic.
\<close>

section \<open>Making a thread runnable\<close>

definition thread_make_runnable :: "nat \<Rightarrow> int \<Rightarrow> nat \<Rightarrow> kstate \<Rightarrow> kstate kres" where
  "thread_make_runnable h tid preferred_hart s =
     (if tid < 0 \<or> tid \<ge> THREAD_MAX then Inr s
      else if tid < int MAX_HARTS then Inr s
      else if t_on_rq (g_threads s tid) \<or> t_state (g_threads s tid) = THREAD_RUNNING then Inr s
      else bindE (sched_pick_target_hart preferred_hart s) (\<lambda>target.
        bindE (rq_push_tail target tid
                (upd_thread tid (\<lambda>t. t\<lparr>t_state := THREAD_RUNNABLE, t_wakeup_tick := 0\<rparr>) s)) (\<lambda>s2.
          if target = c_hartid (g_cpus s2 h)
          then Inr (upd_cpu h (\<lambda>c. c\<lparr>c_need_resched := True\<rparr>) s2)
          else Inr (smp_kick_hart target s2))))"

section \<open>Internal helpers\<close>

definition mark_running :: "nat \<Rightarrow> Thread \<Rightarrow> Thread" where
  "mark_running hartid t =
     (let t1 = t\<lparr>t_running_hart := int hartid, t_runs := t_runs t + 1\<rparr>
      in if t_last_hart t1 \<ge> 0 \<and> t_last_hart t1 \<noteq> int hartid
         then t1\<lparr>t_migrations := t_migrations t1 + 1\<rparr> else t1)"

definition thread_mark_running :: "int \<Rightarrow> nat \<Rightarrow> kstate \<Rightarrow> kstate" where
  "thread_mark_running tid hartid s = upd_thread tid (mark_running hartid) s"

definition mark_not_running :: "Thread \<Rightarrow> Thread" where
  "mark_not_running t =
     (let t1 = (if t_running_hart t \<ge> 0 then t\<lparr>t_last_hart := t_running_hart t\<rparr> else t)
      in t1\<lparr>t_running_hart := -1\<rparr>)"

definition thread_mark_not_running :: "int \<Rightarrow> kstate \<Rightarrow> kstate" where
  "thread_mark_not_running tid s = upd_thread tid mark_not_running s"

definition current_tid_get :: "nat \<Rightarrow> kstate \<Rightarrow> int" where
  "current_tid_get h s = c_current_tid (g_cpus s h)"

definition thread_by_tid :: "int \<Rightarrow> int option" where
  "thread_by_tid tid = (if tid < 0 \<or> tid \<ge> THREAD_MAX then None else Some tid)"

definition alloc_thread_slot :: "kstate \<Rightarrow> int" where
  "alloc_thread_slot s =
     (case find (\<lambda>i. t_state (g_threads s i) = THREAD_UNUSED) [1..THREAD_MAX - 1] of
        Some i \<Rightarrow> i | None \<Rightarrow> -1)"

definition SSTATUS_SIE :: u64 where "SSTATUS_SIE = push_bit 1 1"
definition SSTATUS_SPIE :: u64 where "SSTATUS_SPIE = push_bit 5 1"
definition SSTATUS_SPP :: u64 where "SSTATUS_SPP = push_bit 8 1"

definition init_thread_context_s :: "nat \<Rightarrow> int \<Rightarrow> u64 \<Rightarrow> u64 \<Rightarrow> kstate \<Rightarrow> kstate" where
  "init_thread_context_s h tid entry arg s =
     upd_thread tid (\<lambda>t. t\<lparr>t_tf := tf_clear\<lparr>
        tf_sp := (t_stack_base t + THREAD_STACK_SIZE) AND NOT 0xF,
        tf_sepc := entry, tf_a0 := arg,
        tf_sstatus := (((csr_sstatus s h) AND NOT (SSTATUS_SPP OR SSTATUS_SIE))
                        OR SSTATUS_SPP) OR SSTATUS_SPIE\<rparr>\<rparr>) s"

definition init_thread_context_u :: "nat \<Rightarrow> int \<Rightarrow> u64 \<Rightarrow> u64 \<Rightarrow> kstate \<Rightarrow> kstate" where
  "init_thread_context_u h tid entry arg s =
     upd_thread tid (\<lambda>t. t\<lparr>t_tf := tf_clear\<lparr>
        tf_sp := (t_stack_base t + THREAD_STACK_SIZE) AND NOT 0xF,
        tf_sepc := entry, tf_a0 := arg,
        tf_sstatus := ((csr_sstatus s h) AND NOT (SSTATUS_SPP OR SSTATUS_SIE)) OR SSTATUS_SPIE\<rparr>\<rparr>) s"

definition recycle :: "Thread \<Rightarrow> Thread" where
  "recycle t = t\<lparr>t_state := THREAD_UNUSED, t_wakeup_tick := 0, t_name := CLit ''unused'',
     t_is_user := False, t_can_be_killed := False, t_detached := False, t_exit_code := 0,
     t_join_waiter := -1, t_waiting_for := -1, t_join_status_ptr := 0, t_tf := tf_clear,
     t_running_hart := -1, t_last_hart := -1, t_migrations := 0, t_runs := 0,
     t_rq_next := -1, t_on_rq := False\<rparr>"

definition recycle_thread :: "int \<Rightarrow> kstate \<Rightarrow> kstate" where
  "recycle_thread tid s =
     (if tid \<le> 0 \<or> tid \<ge> THREAD_MAX then s
      else upd_thread tid recycle
             (if g_stdin_waiter s = tid then s\<lparr>g_stdin_waiter := -1\<rparr> else s))"

text \<open>The digits of the hart number, least significant first, at most as many as fit the
  buffer \<open>tmp[10]\<close>.\<close>

fun idle_digits :: "nat \<Rightarrow> nat \<Rightarrow> string" where
  "idle_digits 0 x = []"
| "idle_digits (Suc room) x =
     char_of (48 + x mod 10) # (if x div 10 = 0 then [] else idle_digits room (x div 10))"

definition idle_name_for_hart :: "nat \<Rightarrow> string" where
  "idle_name_for_hart hartid = ''idle'' @ rev (idle_digits 10 hartid)"

section \<open>Creation\<close>

definition thread_stack :: "int \<Rightarrow> kstate \<Rightarrow> u64" where
  "thread_stack tid s = g_thread_stacks s + word_of_int tid * THREAD_STACK_SIZE"

definition thread_create_user :: "nat \<Rightarrow> u64 \<Rightarrow> u64 \<Rightarrow> cname option \<Rightarrow> kstate \<Rightarrow> (int \<times> kstate) kres" where
  "thread_create_user h entry arg name s =
     (let tid = alloc_thread_slot s in
      if tid < 0 then Inr (-1, s)
      else
        let s1 = upd_thread tid (\<lambda>t. t\<lparr>t_state := THREAD_RUNNABLE, t_wakeup_tick := 0,
                   t_name := (case name of Some n \<Rightarrow> n | None \<Rightarrow> CLit ''uthread''),
                   t_stack_base := thread_stack tid s, t_is_user := True,
                   t_can_be_killed := True, t_detached := False\<rparr>) s;
            s2 = init_thread_context_u h tid entry arg s1
        in bindE (thread_make_runnable h tid (c_hartid (g_cpus s2 h)) s2) (\<lambda>s3. Inr (tid, s3)))"

definition thread_create_kern :: "nat \<Rightarrow> u64 \<Rightarrow> u64 \<Rightarrow> cname option \<Rightarrow> kstate \<Rightarrow> (int \<times> kstate) kres" where
  "thread_create_kern h entry arg name s =
     (if entry = 0 then Inr (-1, s)
      else let tid = alloc_thread_slot s in
      if tid < 0 then Inr (-1, s)
      else
        let s1 = upd_thread tid (\<lambda>t. t\<lparr>t_state := THREAD_RUNNABLE, t_wakeup_tick := 0,
                   t_name := (case name of Some n \<Rightarrow> n | None \<Rightarrow> CLit ''thread''),
                   t_stack_base := thread_stack tid s, t_exit_code := 0, t_detached := False,
                   t_join_waiter := -1, t_waiting_for := -1, t_join_status_ptr := 0,
                   t_is_user := False\<rparr>) s;
            s2 = init_thread_context_s h tid entry arg s1
        in bindE (thread_make_runnable h tid (c_hartid (g_cpus s2 h)) s2) (\<lambda>s3. Inr (tid, s3)))"

definition thread_create_user_main :: "nat \<Rightarrow> u64 \<Rightarrow> u64 \<Rightarrow> kstate \<Rightarrow> (int \<times> kstate) kres" where
  "thread_create_user_main h user_main arg s =
     thread_create_user h user_main arg (Some (CLit ''user_main'')) s"

definition init_slot :: "int \<Rightarrow> kstate \<Rightarrow> kstate" where
  "init_slot i s = upd_thread i (\<lambda>t. t\<lparr>t_id := i, t_state := THREAD_UNUSED, t_wakeup_tick := 0,
     t_name := CLit ''unused'', t_stack_base := 0, t_can_be_killed := False, t_detached := False,
     t_exit_code := 0, t_join_waiter := -1, t_waiting_for := -1, t_join_status_ptr := 0,
     t_pending_read_buf := 0, t_pending_read_len := 0, t_running_hart := -1, t_last_hart := -1,
     t_migrations := 0, t_runs := 0, t_rq_next := -1, t_on_rq := False, t_tf := tf_clear\<rparr>) s"

definition init_idle :: "nat \<Rightarrow> nat \<Rightarrow> kstate \<Rightarrow> kstate" where
  "init_idle h hid s =
     init_thread_context_s h (int hid) (idle_main_addr s) (of_nat hid)
       (upd_thread (int hid) (\<lambda>t. t\<lparr>t_state := THREAD_RUNNABLE,
          t_name := CLit (idle_name_for_hart hid), t_stack_base := thread_stack (int hid) s,
          t_is_user := False, t_can_be_killed := False\<rparr>) s)"

definition threads_init :: "nat \<Rightarrow> u64 \<Rightarrow> kstate \<Rightarrow> kstate kres" where
  "threads_init h user_main s =
     (let s1 = fold init_slot [0..THREAD_MAX - 1] (s\<lparr>g_ticks := 0\<rparr>);
          s2 = rq_init_all s1;
          s3 = fold (init_idle h) [0..<MAX_HARTS] s2
      in bindE (thread_create_user_main h user_main 0 s3) (\<lambda>(tid, s4).
           if tid = int MAX_HARTS then Inr s4 else Inl (Panic ''ASSERT failed: user_main_tid == FIRST_TID'')))"

section \<open>The clock tick\<close>

fun tick_loop :: "nat \<Rightarrow> int list \<Rightarrow> kstate \<Rightarrow> kstate kres" where
  "tick_loop h [] s = Inr s"
| "tick_loop h (i # is) s =
     (if t_state (g_threads s i) = THREAD_SLEEPING \<and> t_wakeup_tick (g_threads s i) \<le> g_ticks s
      then bindE (thread_make_runnable h i (g_boot_hartid s)
                   (upd_thread i (\<lambda>t. t\<lparr>t_wakeup_tick := 0\<rparr>) s)) (tick_loop h is)
      else tick_loop h is s)"

definition threads_tick :: "nat \<Rightarrow> kstate \<Rightarrow> kstate kres" where
  "threads_tick h s = tick_loop h [0..THREAD_MAX - 1] (s\<lparr>g_ticks := g_ticks s + 1\<rparr>)"

section \<open>The scheduler\<close>

text \<open>The loop that takes the next runnable thread. A pop resets the link of the node it
  takes, so no list yields more than \<open>THREAD_MAX + 1\<close> nodes; the bound on the rounds is
  never what ends the loop.\<close>

fun schedule_pick :: "nat \<Rightarrow> nat \<Rightarrow> int \<Rightarrow> kstate \<Rightarrow> (int \<times> kstate) kres" where
  "schedule_pick 0 hartid idle_tid s = Inl Diverges"
| "schedule_pick (Suc n) hartid idle_tid s =
     bindE (rq_pop_head hartid s) (\<lambda>(next_tid, s1).
       if next_tid < 0 then Inr (idle_tid, s1)
       else if t_state (g_threads s1 next_tid) = THREAD_RUNNABLE then Inr (next_tid, s1)
       else schedule_pick n hartid idle_tid s1)"

text \<open>The first half of \<open>schedule\<close>: what happens to the thread that is switched away from.\<close>

definition schedule_out :: "nat \<Rightarrow> int \<Rightarrow> kstate \<Rightarrow> kstate kres" where
  "schedule_out h cur_tid s =
     (let c = g_cpus s h; cur_is_idle = (cur_tid = c_idle_tid c) in
      bindE (if \<not> cur_is_idle \<and> t_state (g_threads s cur_tid) = THREAD_RUNNING
             then rq_push_tail (c_hartid c) cur_tid
                    (upd_thread cur_tid (\<lambda>t. t\<lparr>t_state := THREAD_RUNNABLE\<rparr>) s)
             else Inr s) (\<lambda>s1.
        let s2 = thread_mark_not_running cur_tid s1;
            s3 = (if cur_is_idle then upd_thread cur_tid (\<lambda>t. t\<lparr>t_state := THREAD_RUNNABLE\<rparr>) s2
                  else s2);
            cur = g_threads s3 cur_tid
        in Inr (if \<not> cur_is_idle \<and> t_state cur = THREAD_ZOMBIE \<and>
                   ((t_join_waiter cur \<ge> 0 \<and> t_join_waiter cur < THREAD_MAX) \<or> t_detached cur)
                then recycle_thread cur_tid s3 else s3)))"

text \<open>The second half: installing the chosen thread.\<close>

definition schedule_in :: "nat \<Rightarrow> int \<Rightarrow> int \<Rightarrow> kstate \<Rightarrow> kstate" where
  "schedule_in h cur_tid next_tid s =
     (let s1 = upd_cpu h (\<lambda>c. c\<lparr>c_current_tid := next_tid\<rparr>) s;
          s2 = upd_thread next_tid (\<lambda>t. t\<lparr>t_state := THREAD_RUNNING\<rparr>) s1;
          s3 = upd_cpu h (\<lambda>c. c\<lparr>c_slice_left := SCHED_SLICE_TICKS, c_need_resched := False\<rparr>) s2;
          s4 = (if next_tid \<noteq> cur_tid
                then upd_cpu h (\<lambda>c. c\<lparr>c_ctx_switches := c_ctx_switches c + 1\<rparr>) s3 else s3);
          s5 = thread_mark_running next_tid (c_hartid (g_cpus s4 h)) s4
      in upd_cpu h (\<lambda>c. c\<lparr>c_cur_tf := TF_THREAD next_tid\<rparr>) s5)"

definition schedule :: "nat \<Rightarrow> tfref \<Rightarrow> kstate \<Rightarrow> kstate kres" where
  "schedule h tf s =
     (let cur_tid = c_current_tid (g_cpus s h) in
      if \<not> valid_tid cur_tid then Inl BadIndex
      else if tf \<noteq> c_cur_tf (g_cpus s h) then Inl (Panic ''ASSERT failed: tf == cpu_this()->cur_tf'')
      else bindE (schedule_out h cur_tid s) (\<lambda>s1.
        bindE (schedule_pick (nat THREAD_MAX + 2) (c_hartid (g_cpus s1 h)) (c_idle_tid (g_cpus s1 h)) s1)
          (\<lambda>(next_tid, s2).
            if \<not> valid_tid next_tid then Inl BadIndex
            else Inr (schedule_in h cur_tid next_tid s2))))"

definition thread_block :: "nat \<Rightarrow> tfref \<Rightarrow> kstate \<Rightarrow> kstate kres" where
  "thread_block h tf s =
     (let cur_tid = current_tid_get h s in
      if \<not> valid_tid cur_tid then Inl BadIndex
      else schedule h tf (upd_thread cur_tid (\<lambda>t. t\<lparr>t_state := THREAD_BLOCKED\<rparr>) s))"

definition thread_wake :: "nat \<Rightarrow> int \<Rightarrow> kstate \<Rightarrow> kstate kres" where
  "thread_wake h tid s =
     (if tid < 0 \<or> tid \<ge> THREAD_MAX then Inr s
      else if t_state (g_threads s tid) = THREAD_BLOCKED
      then thread_make_runnable h tid (c_hartid (g_cpus s h)) s
      else Inr s)"

section \<open>System calls on threads\<close>

definition thread_sys_sleep :: "nat \<Rightarrow> tfref \<Rightarrow> u64 \<Rightarrow> kstate \<Rightarrow> kstate kres" where
  "thread_sys_sleep h tf ticks s =
     (let cur_tid = current_tid_get h s in
      if \<not> valid_tid cur_tid then Inl BadIndex
      else if ticks = 0 then schedule h tf s
      else schedule h tf (upd_thread cur_tid (\<lambda>t. t\<lparr>t_state := THREAD_SLEEPING,
             t_wakeup_tick := g_ticks s + ticks, t_on_rq := False, t_rq_next := -1\<rparr>) s))"

definition thread_sys_yield :: "nat \<Rightarrow> tfref \<Rightarrow> kstate \<Rightarrow> kstate kres" where
  "thread_sys_yield h tf s = thread_sys_sleep h tf 0 s"

definition thread_sys_create :: "nat \<Rightarrow> tfref \<Rightarrow> u64 \<Rightarrow> u64 \<Rightarrow> u64 \<Rightarrow> kstate \<Rightarrow> kstate kres" where
  "thread_sys_create h tf entry arg name s =
     bindE (thread_create_user h entry arg (if name = 0 then None else Some (CUser name)) s)
       (\<lambda>(tid, s1). Inr (set_a0 tf (of_tid tid) s1))"

text \<open>The code that \<open>thread_sys_exit\<close> and \<open>thread_sys_kill\<close> share: hand the exit code to the
  joiner, make its \<open>thread_join\<close> return 0, and wake it.\<close>

definition notify_joiner :: "nat \<Rightarrow> int \<Rightarrow> u32 \<Rightarrow> kstate \<Rightarrow> kstate kres" where
  "notify_joiner h joiner code s =
     (let p = t_join_status_ptr (g_threads s joiner);
          s1 = (if p \<noteq> 0 then store_int32 p code s else s);
          s2 = upd_thread joiner (\<lambda>w. w\<lparr>t_tf := (t_tf w)\<lparr>tf_a0 := 0\<rparr>, t_waiting_for := -1,
                 t_join_status_ptr := 0\<rparr>) s1
      in thread_make_runnable h joiner (c_hartid (g_cpus s2 h)) s2)"

definition thread_sys_exit :: "nat \<Rightarrow> tfref \<Rightarrow> u32 \<Rightarrow> kstate \<Rightarrow> kstate kres" where
  "thread_sys_exit h tf exit_code s =
     (let cur_tid = current_tid_get h s in
      if \<not> valid_tid cur_tid then Inl BadIndex
      else
        let joiner = t_join_waiter (g_threads s cur_tid);
            s1 = upd_thread cur_tid (\<lambda>t. t\<lparr>t_tf := get_tf tf s, t_exit_code := exit_code,
                   t_state := THREAD_ZOMBIE, t_on_rq := False, t_rq_next := -1\<rparr>) s
        in bindE (if joiner \<ge> 0 \<and> joiner < THREAD_MAX
                  then bindE (notify_joiner h joiner exit_code s1) (\<lambda>s2. Inr (recycle_thread cur_tid s2))
                  else Inr s1) (\<lambda>s3.
             schedule h tf (upd_thread cur_tid (\<lambda>t. t\<lparr>t_join_waiter := -1\<rparr>) s3)))"

definition thread_sys_join :: "nat \<Rightarrow> tfref \<Rightarrow> int \<Rightarrow> u64 \<Rightarrow> kstate \<Rightarrow> kstate kres" where
  "thread_sys_join h tf target_tid status_ptr s =
     (let cur_tid = current_tid_get h s; t = g_threads s target_tid in
      if \<not> valid_tid cur_tid then Inl BadIndex
      else if target_tid \<le> 0 \<or> target_tid \<ge> THREAD_MAX then Inr (set_a0 tf (- 1) s)
      else if target_tid = cur_tid then Inr (set_a0 tf (- 2) s)
      else if t_state t = THREAD_UNUSED then Inr (set_a0 tf (- 3) s)
      else if t_detached t then Inr (set_a0 tf (- 5) s)
      else if t_state t = THREAD_ZOMBIE then
        if t_join_waiter t \<ge> 0 \<and> t_join_waiter t \<noteq> cur_tid then Inr (set_a0 tf (- 4) s)
        else
          let s1 = (if status_ptr \<noteq> 0 then store_int32 status_ptr (t_exit_code t) s else s)
          in Inr (set_a0 tf 0 (recycle_thread target_tid s1))
      else if t_join_waiter t \<ge> 0 \<and> t_join_waiter t \<noteq> cur_tid then Inr (set_a0 tf (- 4) s)
      else
        let s1 = upd_thread cur_tid (\<lambda>c. c\<lparr>t_state := THREAD_WAITING, t_waiting_for := target_tid,
                   t_join_status_ptr := status_ptr\<rparr>) s;
            s2 = upd_thread target_tid (\<lambda>t. t\<lparr>t_join_waiter := cur_tid\<rparr>) s1
        in schedule h tf s2)"

text \<open>The \<open>j\<close>-th byte of a name, and the copy loop of \<open>thread_sys_list\<close> that stops at the
  terminating zero or when \<open>name[32]\<close> is full.\<close>

fun cname_byte :: "kstate \<Rightarrow> cname \<Rightarrow> nat \<Rightarrow> u8" where
  "cname_byte s (CLit str) j = (if j < length str then of_char (str ! j) else 0)"
| "cname_byte s (CUser p) j = heap_u8 s (p + of_nat j)"

definition cname_prefix :: "kstate \<Rightarrow> cname \<Rightarrow> nat \<Rightarrow> u8 list" where
  "cname_prefix s n room =
     (if n = CUser 0 then [] else takeWhile (\<lambda>b. b \<noteq> 0) (map (cname_byte s n) [0..<room]))"

definition copy_name :: "u8 list \<Rightarrow> u8 list \<Rightarrow> u8 list" where
  "copy_name old bytes = bytes @ 0 # drop (Suc (length bytes)) old"

definition fill_tinfo :: "kstate \<Rightarrow> Thread \<Rightarrow> u_thread_info \<Rightarrow> u_thread_info" where
  "fill_tinfo s t dst = dst\<lparr>ui_tid := t_id t, ui_state := state_code (t_state t),
     ui_is_user := (if t_is_user t then 1 else 0), ui_exit_code := t_exit_code t,
     ui_cpu := t_running_hart t, ui_last_hart := t_last_hart t,
     ui_migrations := t_migrations t, ui_runs := t_runs t,
     ui_name := copy_name (ui_name dst) (cname_prefix s (t_name t) 31)\<rparr>"

definition sizeof_tinfo :: u64 where "sizeof_tinfo = 72"

fun list_loop :: "int list \<Rightarrow> u64 \<Rightarrow> int \<Rightarrow> int \<Rightarrow> kstate \<Rightarrow> int \<times> kstate" where
  "list_loop [] ubuf mx count s = (count, s)"
| "list_loop (i # is) ubuf mx count s =
     (if \<not> count < mx then (count, s)
      else if t_state (g_threads s i) = THREAD_UNUSED then list_loop is ubuf mx count s
      else
        let p = ubuf + word_of_int count * sizeof_tinfo
        in list_loop is ubuf mx (count + 1)
             (s\<lparr>heap_tinfo := (heap_tinfo s)(p := fill_tinfo s (g_threads s i) (heap_tinfo s p))\<rparr>))"

definition thread_sys_list :: "u64 \<Rightarrow> int \<Rightarrow> kstate \<Rightarrow> int \<times> kstate" where
  "thread_sys_list ubuf mx s =
     (if ubuf = 0 \<or> mx \<le> 0 then (-1, s) else list_loop [0..THREAD_MAX - 1] ubuf mx 0 s)"

text \<open>The effects of \<open>thread_sys_kill\<close> once the checks are passed.\<close>

definition kill_signal :: "nat \<Rightarrow> int \<Rightarrow> kstate \<Rightarrow> kstate" where
  "kill_signal h target_tid s =
     (let rh = t_running_hart (g_threads s target_tid) in
      if rh \<ge> 0 \<and> rh < int MAX_HARTS
      then if nat rh \<noteq> c_hartid (g_cpus s h) then smp_kick_hart (nat rh) s
           else upd_cpu h (\<lambda>c. c\<lparr>c_need_resched := True\<rparr>) s
      else s)"

definition kill_finish :: "int \<Rightarrow> int \<Rightarrow> kstate \<Rightarrow> kstate" where
  "kill_finish target_tid joiner s =
     (let s1 = (if joiner < 0 then upd_thread target_tid (\<lambda>t. t\<lparr>t_join_waiter := -1\<rparr>) s else s);
          t = g_threads s1 target_tid
      in if joiner < 0 \<and> t_detached t \<and> t_running_hart t < 0 \<and> \<not> t_on_rq t
         then recycle_thread target_tid s1 else s1)"

definition kill_thread :: "nat \<Rightarrow> int \<Rightarrow> kstate \<Rightarrow> kstate kres" where
  "kill_thread h target_tid s =
     (let joiner = t_join_waiter (g_threads s target_tid);
          s1 = upd_thread target_tid (\<lambda>t. t\<lparr>t_exit_code := THREAD_EXITCODE_SIGKILL,
                 t_state := THREAD_ZOMBIE, t_wakeup_tick := 0\<rparr>) s
      in bindE (if t_on_rq (g_threads s1 target_tid)
                then bindE (rq_remove_any target_tid s1) (\<lambda>(_, s'). Inr s') else Inr s1) (\<lambda>s2.
         bindE (if joiner \<ge> 0 \<and> joiner < THREAD_MAX
                then bindE (notify_joiner h joiner (t_exit_code (g_threads s2 target_tid))
                             (kill_signal h target_tid s2)) (\<lambda>s4.
                       if t_running_hart (g_threads s4 target_tid) < 0 \<and> \<not> t_on_rq (g_threads s4 target_tid)
                       then Inr (recycle_thread target_tid s4)
                       else Inr (upd_thread target_tid (\<lambda>t. t\<lparr>t_join_waiter := joiner\<rparr>) s4))
                else Inr (kill_signal h target_tid s2)) (\<lambda>s5.
           Inr (kill_finish target_tid joiner s5))))"

definition thread_sys_kill :: "nat \<Rightarrow> tfref \<Rightarrow> int \<Rightarrow> kstate \<Rightarrow> kstate kres" where
  "thread_sys_kill h tf target_tid s =
     (let cur_tid = current_tid_get h s; t = g_threads s target_tid in
      if target_tid < 0 \<or> target_tid \<ge> THREAD_MAX then Inr (set_a0 tf (- 1) s)
      else if target_tid = 0 then Inr (set_a0 tf (- 2) s)
      else if target_tid = cur_tid then Inr (set_a0 tf (- 4) s)
      else if \<not> t_can_be_killed t then Inr (set_a0 tf (- 3) s)
      else if t_state t = THREAD_UNUSED then Inr (set_a0 tf (- 3) s)
      else if t_state t = THREAD_ZOMBIE then Inr (set_a0 tf 0 s)
      else bindE (kill_thread h target_tid s) (\<lambda>s'. Inr (set_a0 tf 0 s')))"

definition thread_sys_detach :: "tfref \<Rightarrow> int \<Rightarrow> kstate \<Rightarrow> kstate" where
  "thread_sys_detach tf target_tid s =
     (let t = g_threads s target_tid in
      if target_tid \<le> 0 \<or> target_tid \<ge> THREAD_MAX then set_a0 tf (- 1) s
      else if t_state t = THREAD_UNUSED then set_a0 tf (- 3) s
      else if target_tid < int MAX_HARTS then set_a0 tf (- 2) s
      else if t_join_waiter t \<ge> 0 then set_a0 tf (- 4) s
      else if t_detached t then set_a0 tf 0 s
      else
        let s1 = upd_thread target_tid (\<lambda>t. t\<lparr>t_detached := True\<rparr>) s;
            s2 = (if t_state t = THREAD_ZOMBIE then recycle_thread target_tid s1 else s1)
        in set_a0 tf 0 s2)"

definition sizeof_rq_state :: u64 where "sizeof_rq_state = 264"

fun snapshot_harts :: "nat list \<Rightarrow> u64 \<Rightarrow> nat \<Rightarrow> nat \<Rightarrow> kstate \<Rightarrow> (nat \<times> kstate) kres" where
  "snapshot_harts [] ubuf n out s = Inr (out, s)"
| "snapshot_harts (h # hs) ubuf n out s =
     (if \<not> out < n then Inr (out, s)
      else if \<not> c_online (g_cpus s h) then snapshot_harts hs ubuf n out s
      else bindE (rq_snapshot h (Some (replicate (nat THREAD_MAX) (-1))) (nat THREAD_MAX) s)
        (\<lambda>(len, tids).
          let tmp = \<lparr>rs_hart = h, rs_len = (if len < 0 then 0 else word_of_int len), rs_tids = tids\<rparr>;
              p = ubuf + of_nat out * sizeof_rq_state
          in snapshot_harts hs ubuf n (Suc out) (s\<lparr>heap_rqs := (heap_rqs s)(p := tmp)\<rparr>)))"

definition sys_runqueue_snapshot :: "u64 \<Rightarrow> u64 \<Rightarrow> kstate \<Rightarrow> (int \<times> kstate) kres" where
  "sys_runqueue_snapshot ubuf n s =
     (if ubuf = 0 \<or> n = 0 then Inr (-1, s)
      else bindE (snapshot_harts [0..<MAX_HARTS] ubuf (unat n) 0 s) (\<lambda>(out, s'). Inr (int out, s')))"

section \<open>Introspection and blocking reads\<close>

definition thread_current :: "nat \<Rightarrow> kstate \<Rightarrow> int" where
  "thread_current h s = current_tid_get h s"

definition thread_name :: "int \<Rightarrow> kstate \<Rightarrow> cname" where
  "thread_name tid s = (case thread_by_tid tid of None \<Rightarrow> CLit ''?'' | Some i \<Rightarrow> t_name (g_threads s i))"

definition thread_wait_for_stdin :: "nat \<Rightarrow> u64 \<Rightarrow> u64 \<Rightarrow> tfref \<Rightarrow> kstate \<Rightarrow> kstate kres" where
  "thread_wait_for_stdin h buf len tf s =
     (let cur = thread_current h s in
      if \<not> valid_tid cur then Inl BadIndex
      else
        let s1 = upd_thread cur (\<lambda>t. t\<lparr>t_pending_read_buf := buf, t_pending_read_len := len\<rparr>) s
        in thread_block h tf (s1\<lparr>g_stdin_waiter := t_id (g_threads s1 cur)\<rparr>))"

text \<open>The console's reader is passed as a function pointer, as in the code.\<close>

type_synonym console_reader_t = "u64 \<Rightarrow> u64 \<Rightarrow> kstate \<Rightarrow> int \<times> kstate"

definition thread_read_from_stdin :: "nat \<Rightarrow> console_reader_t \<Rightarrow> kstate \<Rightarrow> kstate kres" where
  "thread_read_from_stdin h read s =
     (let w = g_stdin_waiter s; t = g_threads s w in
      if \<not> valid_tid w then Inl BadIndex
      else if t_pending_read_buf t = 0 \<or> t_pending_read_len t = 0 then thread_wake h w s
      else
        let (n, s1) = read (t_pending_read_buf t) (t_pending_read_len t) s in
        if n \<le> 0 then Inr s1
        else thread_wake h (g_stdin_waiter s1)
               (upd_thread w (\<lambda>t. t\<lparr>t_tf := (t_tf t)\<lparr>tf_a0 := word_of_int n\<rparr>,
                  t_pending_read_buf := 0, t_pending_read_len := 0\<rparr>) s1))"

section \<open>Entering the idle loop and the scheduler's interrupts\<close>

definition SIE_SSIE :: u64 where "SIE_SSIE = push_bit 1 1"
definition SIE_STIE :: u64 where "SIE_STIE = push_bit 5 1"
definition SIE_SEIE :: u64 where "SIE_SEIE = push_bit 9 1"
definition SIP_SSIP :: u64 where "SIP_SSIP = push_bit 1 1"

definition arch_enable :: "nat \<Rightarrow> u64 \<Rightarrow> kstate \<Rightarrow> kstate" where
  "arch_enable h m s = s\<lparr>csr_sie := (csr_sie s)(h := csr_sie s h OR m),
     csr_sstatus := (csr_sstatus s)(h := csr_sstatus s h OR SSTATUS_SIE)\<rparr>"

definition cpu_enter_idle :: "nat \<Rightarrow> nat \<Rightarrow> kstate \<Rightarrow> kstate kres" where
  "cpu_enter_idle h hartid s =
     (if \<not> hartid < MAX_HARTS then Inl (Panic ''ASSERT failed: hartid < MAX_HARTS'')
      else if c_hartid (g_cpus s h) \<noteq> hartid then Inl (Panic ''ASSERT failed: c && c->hartid == hartid'')
      else
        let s1 = upd_cpu h (\<lambda>c. c\<lparr>c_idle_tid := int hartid, c_current_tid := int hartid,
                   c_cur_tf := TF_THREAD (int hartid)\<rparr>) s;
            s2 = upd_thread (int hartid) (\<lambda>t. t\<lparr>t_state := THREAD_RUNNING\<rparr>) s1;
            s3 = thread_mark_running (int hartid) hartid s2;
            s4 = (if hartid = g_boot_hartid s3
                  then arch_enable h SIE_SEIE (arch_enable h SIE_STIE (sched_rearm_timer h s3))
                  else s3)
        in Inr (arch_enable h SIE_SSIE s4))"

definition sched_on_timer_irq :: "nat \<Rightarrow> tfref \<Rightarrow> kstate \<Rightarrow> kstate kres" where
  "sched_on_timer_irq h tf s =
     (let s1 = upd_cpu h (\<lambda>c. c\<lparr>c_timer_irqs := c_timer_irqs c + 1\<rparr>) s;
          s2 = sched_rearm_timer h s1
      in bindE (if c_hartid (g_cpus s2 h) = g_boot_hartid s2 then threads_tick h s2 else Inr s2) (\<lambda>s3.
        let s4 = (if c_slice_left (g_cpus s3 h) > 0
                  then upd_cpu h (\<lambda>c. c\<lparr>c_slice_left := c_slice_left c - 1\<rparr>) s3 else s3)
        in if c_slice_left (g_cpus s4 h) = 0
           then schedule h tf (upd_cpu h (\<lambda>c. c\<lparr>c_slice_left := SCHED_SLICE_TICKS,
                                                  c_need_resched := False\<rparr>) s4)
           else Inr s4))"

definition sched_on_ipi_irq :: "nat \<Rightarrow> tfref \<Rightarrow> kstate \<Rightarrow> kstate kres" where
  "sched_on_ipi_irq h tf s =
     (let s1 = s\<lparr>csr_sip := (csr_sip s)(h := csr_sip s h AND NOT SIP_SSIP)\<rparr>
      in schedule h tf (upd_cpu h (\<lambda>c. c\<lparr>c_need_resched := False\<rparr>) s1))"

end
