(* ===== verification/Sched_Inv.thy ===== *)
theory Sched_Inv
  imports Thread
begin

text \<open>
  The scheduler invariant. \<open>kinv\<close> relates the three places where the kernel keeps the
  state of a thread: the runqueues, the \<open>current_tid\<close> of each hart, and the thread table. Between
  entering a blocking system call and the end of \<open>schedule\<close> the executing hart's current
  thread is in transition; \<open>kmid\<close> is the invariant of these intermediate states.
  The lemmas of this theory show that the building blocks \<open>thread_make_runnable\<close>,
  \<open>recycle_thread\<close> and \<open>schedule\<close> return and re-establish \<open>kinv\<close>.
\<close>

section \<open>Definitions\<close>

definition live :: "kstate \<Rightarrow> nat \<Rightarrow> bool" where
  "live s k \<longleftrightarrow> k < MAX_HARTS \<and> c_online (g_cpus s k)"

definition cur :: "kstate \<Rightarrow> nat \<Rightarrow> int" where
  "cur s k = c_current_tid (g_cpus s k)"

text \<open>Facts that hold at every moment: identities of harts, of idle threads and of slots; a worker
  is \<open>RUNNABLE\<close> exactly when it is queued; a \<open>RUNNING\<close> worker is the current thread of a hart; and
  \<open>running_hart\<close> names the hart whose current thread it is.\<close>

definition common :: "kstate \<Rightarrow> bool" where
  "common s \<longleftrightarrow>
     (\<forall>k. live s k \<longrightarrow> c_hartid (g_cpus s k) = k \<and> c_idle_tid (g_cpus s k) = int k)
   \<and> (\<forall>k<MAX_HARTS. t_state (g_threads s (int k))
          = (if live s k \<and> cur s k = int k then THREAD_RUNNING else THREAD_RUNNABLE)
        \<and> \<not> t_can_be_killed (g_threads s (int k)))
   \<and> (\<forall>t. is_worker t \<longrightarrow> (t_state (g_threads s t) = THREAD_RUNNABLE \<longleftrightarrow> onrq s t))
   \<and> (\<forall>t. is_worker t \<longrightarrow> t_state (g_threads s t) = THREAD_RUNNING \<longrightarrow> (\<exists>k. live s k \<and> cur s k = t))
   \<and> (\<forall>t. valid_tid t \<longrightarrow> t_running_hart (g_threads s t) \<ge> 0 \<longrightarrow>
          (\<exists>k. live s k \<and> t_running_hart (g_threads s t) = int k \<and> cur s k = t))
   \<and> (\<forall>t. valid_tid t \<longrightarrow> t_id (g_threads s t) = t)
   \<and> g_boot_hartid s < MAX_HARTS
   \<and> - 1 \<le> g_stdin_waiter s \<and> g_stdin_waiter s < THREAD_MAX"

text \<open>A hart that is online has not yet entered its idle loop, or it runs its own idle
  thread or a worker, whose trapframe is the current one.\<close>

definition hart_ok :: "kstate \<Rightarrow> nat \<Rightarrow> bool" where
  "hart_ok s k \<longleftrightarrow> cur s k = -1 \<or>
     (cur s k = int k \<or> is_worker (cur s k))
     \<and> c_cur_tf (g_cpus s k) = TF_THREAD (cur s k)
     \<and> t_running_hart (g_threads s (cur s k)) = int k
     \<and> (is_worker (cur s k) \<longrightarrow>
          t_state (g_threads s (cur s k)) \<in> {THREAD_RUNNING, THREAD_ZOMBIE})"

definition hart_mid :: "kstate \<Rightarrow> nat \<Rightarrow> bool" where
  "hart_mid s k \<longleftrightarrow>
     (cur s k = int k \<or> is_worker (cur s k))
     \<and> c_cur_tf (g_cpus s k) = TF_THREAD (cur s k)
     \<and> t_running_hart (g_threads s (cur s k)) \<in> {int k, -1}
     \<and> (is_worker (cur s k) \<longrightarrow> t_state (g_threads s (cur s k)) \<noteq> THREAD_RUNNABLE)"

definition kinv :: "kstate \<Rightarrow> bool" where
  "kinv s \<longleftrightarrow> rq_wf s \<and> common s \<and> (\<forall>k. live s k \<longrightarrow> hart_ok s k)"

definition kmid :: "nat \<Rightarrow> kstate \<Rightarrow> bool" where
  "kmid h s \<longleftrightarrow> rq_wf s \<and> common s \<and> live s h \<and> hart_mid s h
     \<and> (\<forall>k. live s k \<longrightarrow> k \<noteq> h \<longrightarrow> hart_ok s k)"

text \<open>Hart \<open>h\<close> is running the thread whose trapframe is \<open>tf\<close>.\<close>

definition running :: "kstate \<Rightarrow> nat \<Rightarrow> tfref \<Rightarrow> bool" where
  "running s h tf \<longleftrightarrow> live s h \<and> cur s h \<noteq> -1 \<and> tf = TF_THREAD (cur s h)"

section \<open>Selecting from erased threads\<close>

lemma erase_sel:
  assumes "rq_erase a = rq_erase b"
  shows "t_id a = t_id b" "t_state a = t_state b" "t_wakeup_tick a = t_wakeup_tick b"
    "t_name a = t_name b" "t_is_user a = t_is_user b" "t_can_be_killed a = t_can_be_killed b"
    "t_detached a = t_detached b" "t_running_hart a = t_running_hart b"
    "t_last_hart a = t_last_hart b" "t_migrations a = t_migrations b" "t_runs a = t_runs b"
    "t_tf a = t_tf b" "t_stack_base a = t_stack_base b" "t_exit_code a = t_exit_code b"
    "t_join_waiter a = t_join_waiter b" "t_waiting_for a = t_waiting_for b"
    "t_join_status_ptr a = t_join_status_ptr b" "t_pending_read_buf a = t_pending_read_buf b"
    "t_pending_read_len a = t_pending_read_len b"
  using assms by (cases a; cases b; simp add: rq_erase_def)+

lemma rq_frameD:
  assumes "rq_frame s s'"
  shows "rq_erase (g_threads s' i) = rq_erase (g_threads s i)"
    and "g_cpus s' = g_cpus s" "g_ticks s' = g_ticks s" "g_stdin_waiter s' = g_stdin_waiter s"
    and "g_boot_hartid s' = g_boot_hartid s" "smp_boot_done s' = smp_boot_done s"
    and "heap_u8 s' = heap_u8 s" "k_events s' = k_events s"
  using assms by (auto simp: rq_frame_def)

lemmas rq_frame_threadD = erase_sel [OF rq_frameD(1)]

lemma upd_thread_twice: "upd_thread i g (upd_thread i f s) = upd_thread i (\<lambda>t. g (f t)) s"
  by (simp add: upd_thread_def)

lemma upd_thread_other_commute:
  "i \<noteq> j \<Longrightarrow> upd_thread i f (upd_thread j g s) = upd_thread j g (upd_thread i f s)"
  by (simp add: upd_thread_def fun_upd_twist)

section \<open>Consequences of the invariant\<close>

lemma common_hart: "common s \<Longrightarrow> live s k \<Longrightarrow> c_hartid (g_cpus s k) = k"
  and common_idle_tid: "common s \<Longrightarrow> live s k \<Longrightarrow> c_idle_tid (g_cpus s k) = int k"
  and common_idle: "common s \<Longrightarrow> k < MAX_HARTS \<Longrightarrow> t_state (g_threads s (int k))
        = (if live s k \<and> cur s k = int k then THREAD_RUNNING else THREAD_RUNNABLE)"
  and common_idle_kill: "common s \<Longrightarrow> k < MAX_HARTS \<Longrightarrow> \<not> t_can_be_killed (g_threads s (int k))"
  and common_runnable: "common s \<Longrightarrow> is_worker t \<Longrightarrow>
        t_state (g_threads s t) = THREAD_RUNNABLE \<longleftrightarrow> onrq s t"
  and common_running: "common s \<Longrightarrow> is_worker t \<Longrightarrow> t_state (g_threads s t) = THREAD_RUNNING \<Longrightarrow>
        \<exists>k. live s k \<and> cur s k = t"
  and common_rh: "common s \<Longrightarrow> valid_tid t \<Longrightarrow> t_running_hart (g_threads s t) \<ge> 0 \<Longrightarrow>
        \<exists>k. live s k \<and> t_running_hart (g_threads s t) = int k \<and> cur s k = t"
  and common_id: "common s \<Longrightarrow> valid_tid t \<Longrightarrow> t_id (g_threads s t) = t"
  and common_boot: "common s \<Longrightarrow> g_boot_hartid s < MAX_HARTS"
  and common_stdin: "common s \<Longrightarrow> - 1 \<le> g_stdin_waiter s \<and> g_stdin_waiter s < THREAD_MAX"
  by (simp_all add: common_def)

lemma commonI:
  assumes "\<And>k. live s k \<Longrightarrow> c_hartid (g_cpus s k) = k \<and> c_idle_tid (g_cpus s k) = int k"
    and "\<And>k. k < MAX_HARTS \<Longrightarrow> t_state (g_threads s (int k))
        = (if live s k \<and> cur s k = int k then THREAD_RUNNING else THREAD_RUNNABLE)
          \<and> \<not> t_can_be_killed (g_threads s (int k))"
    and "\<And>t. is_worker t \<Longrightarrow> t_state (g_threads s t) = THREAD_RUNNABLE \<longleftrightarrow> onrq s t"
    and "\<And>t. is_worker t \<Longrightarrow> t_state (g_threads s t) = THREAD_RUNNING \<Longrightarrow> \<exists>k. live s k \<and> cur s k = t"
    and "\<And>t. valid_tid t \<Longrightarrow> t_running_hart (g_threads s t) \<ge> 0 \<Longrightarrow>
        \<exists>k. live s k \<and> t_running_hart (g_threads s t) = int k \<and> cur s k = t"
    and "\<And>t. valid_tid t \<Longrightarrow> t_id (g_threads s t) = t"
    and "g_boot_hartid s < MAX_HARTS"
    and "- 1 \<le> g_stdin_waiter s \<and> g_stdin_waiter s < THREAD_MAX"
  shows "common s"
  using assms unfolding common_def by blast

lemma kinv_wf: "kinv s \<Longrightarrow> rq_wf s"
  and kinv_common: "kinv s \<Longrightarrow> common s"
  and kinv_ok: "kinv s \<Longrightarrow> live s k \<Longrightarrow> hart_ok s k"
  and kmid_wf: "kmid h s \<Longrightarrow> rq_wf s"
  and kmid_common: "kmid h s \<Longrightarrow> common s"
  and kmid_live: "kmid h s \<Longrightarrow> live s h"
  and kmid_hart: "kmid h s \<Longrightarrow> hart_mid s h"
  and kmid_ok: "kmid h s \<Longrightarrow> live s k \<Longrightarrow> k \<noteq> h \<Longrightarrow> hart_ok s k"
  by (simp_all add: kinv_def kmid_def)

lemma live_bound: "live s k \<Longrightarrow> k < MAX_HARTS"
  by (simp add: live_def)

lemma hart_okD:
  assumes "hart_ok s k" "cur s k \<noteq> -1"
  shows "cur s k = int k \<or> is_worker (cur s k)"
    and "c_cur_tf (g_cpus s k) = TF_THREAD (cur s k)"
    and "t_running_hart (g_threads s (cur s k)) = int k"
    and "is_worker (cur s k) \<Longrightarrow> t_state (g_threads s (cur s k)) \<in> {THREAD_RUNNING, THREAD_ZOMBIE}"
  using assms by (simp_all add: hart_ok_def)

lemma kinv_current:
  assumes "kinv s" "live s k" "cur s k = t" "is_worker t"
  shows "t_state (g_threads s t) \<in> {THREAD_RUNNING, THREAD_ZOMBIE}"
    and "t_running_hart (g_threads s t) = int k"
    and "\<not> onrq s t"
proof -
  have ok: "hart_ok s k" using assms(1,2) by (rule kinv_ok)
  moreover have "cur s k \<noteq> -1" using assms(3,4) by auto
  ultimately show st: "t_state (g_threads s t) \<in> {THREAD_RUNNING, THREAD_ZOMBIE}"
    and "t_running_hart (g_threads s t) = int k"
    using hart_okD [of s k] assms(3,4) by auto
  from st show "\<not> onrq s t" using common_runnable [OF kinv_common [OF assms(1)] assms(4)] by auto
qed

lemma running_cases:
  assumes "kinv s" "running s h tf"
  shows "cur s h = int h \<or> is_worker (cur s h)"
  using hart_okD(1) [OF kinv_ok] assms by (simp add: running_def)

lemma kinv_mid:
  assumes "kinv s" "running s h tf"
  shows "kmid h s"
proof -
  have L: "live s h" and C: "cur s h \<noteq> -1" using assms(2) by (simp_all add: running_def)
  note ok = hart_okD [OF kinv_ok [OF assms(1) L] C]
  have "is_worker (cur s h) \<Longrightarrow> t_state (g_threads s (cur s h)) \<noteq> THREAD_RUNNABLE" using ok(4) by auto
  with ok(1-3) have "hart_mid s h" unfolding hart_mid_def by blast
  with assms(1) L show ?thesis by (simp add: kinv_def kmid_def)
qed

lemma kmid_tf: "kmid h s \<Longrightarrow> c_cur_tf (g_cpus s h) = TF_THREAD (cur s h)"
  by (simp add: kmid_def hart_mid_def)

lemma kmid_valid: "kmid h s \<Longrightarrow> valid_tid (cur s h)"
  using kmid_hart [of h s] live_bound [OF kmid_live] by (auto simp: hart_mid_def)

lemma running_valid: "kinv s \<Longrightarrow> running s h tf \<Longrightarrow> valid_tid (cur s h)"
  using kinv_mid kmid_valid by blast

text \<open>A thread with no hart in \<open>running_hart\<close> is nobody's current thread, and no thread is
  the current one of two harts.\<close>

lemma kinv_not_current:
  assumes "kinv s" "t_running_hart (g_threads s t) < 0" "live s k" "valid_tid t"
  shows "cur s k \<noteq> t"
  using kinv_ok [OF assms(1,3)] assms(2,4) by (auto simp: hart_ok_def valid_tid_def)

lemma kinv_current_unique:
  assumes "kinv s" "live s k" "live s l" "cur s k = cur s l" "cur s k \<noteq> -1"
  shows "k = l"
proof -
  have "t_running_hart (g_threads s (cur s k)) = int k"
    using hart_okD(3) [OF kinv_ok [OF assms(1,2)] assms(5)] .
  moreover have "t_running_hart (g_threads s (cur s l)) = int l"
    using assms(5) unfolding assms(4) by (rule hart_okD(3) [OF kinv_ok [OF assms(1,3)]])
  ultimately show ?thesis by (simp only: assms(4))
qed

lemma kmid_current_unique:
  assumes "kmid h s" "live s k" "k \<noteq> h"
  shows "cur s k \<noteq> cur s h"
proof
  assume eq: "cur s k = cur s h"
  with kmid_valid [OF assms(1)] have "cur s k \<noteq> -1" by (auto simp: valid_tid_def)
  from hart_okD(3) [OF kmid_ok [OF assms] this] kmid_hart [OF assms(1)] eq assms(3)
  show False by (auto simp: hart_mid_def)
qed

end
