(* ===== verification/Sched_Ops.thy ===== *)
theory Sched_Ops
  imports Sched_Inv
begin

text \<open>
  The building blocks of the system calls against the scheduler invariant: waking a thread,
  changing one slot of the thread table, and the context switch itself.
\<close>

section \<open>Changing one thread\<close>

text \<open>Equality of per-hart records up to the \<open>need_resched\<close> hint.\<close>

definition cpu_eq :: "cpu \<Rightarrow> cpu \<Rightarrow> bool" where
  "cpu_eq a b \<longleftrightarrow> a\<lparr>c_need_resched := False\<rparr> = b\<lparr>c_need_resched := False\<rparr>"

lemma cpu_eq_refl [simp]: "cpu_eq a a"
  by (simp add: cpu_eq_def)

lemma cpu_eq_resched [simp]: "cpu_eq (a\<lparr>c_need_resched := b\<rparr>) c \<longleftrightarrow> cpu_eq a c"
  by (simp add: cpu_eq_def)

lemma cpu_eqD:
  assumes "cpu_eq a b"
  shows "c_kstack_top a = c_kstack_top b" "c_cur_tf a = c_cur_tf b" "c_hartid a = c_hartid b"
    "c_online a = c_online b" "c_current_tid a = c_current_tid b" "c_idle_tid a = c_idle_tid b"
    "c_timer_irqs a = c_timer_irqs b" "c_ctx_switches a = c_ctx_switches b"
    "c_slice_left a = c_slice_left b"
  using assms by (cases a; cases b; simp add: cpu_eq_def)+

definition cpus_eq :: "kstate \<Rightarrow> kstate \<Rightarrow> bool" where
  "cpus_eq s s' \<longleftrightarrow> (\<forall>k. cpu_eq (g_cpus s' k) (g_cpus s k))"

lemma cpus_eqD:
  assumes "cpus_eq s s'"
  shows "live s' = live s" "cur s' = cur s" "c_hartid (g_cpus s' k) = c_hartid (g_cpus s k)"
    "c_idle_tid (g_cpus s' k) = c_idle_tid (g_cpus s k)" "c_cur_tf (g_cpus s' k) = c_cur_tf (g_cpus s k)"
  using assms cpu_eqD [of "g_cpus s' k" "g_cpus s k" for k]
  by (auto simp: cpus_eq_def live_def cur_def fun_eq_iff)

lemma cpus_eqI: "g_cpus s' = g_cpus s \<Longrightarrow> cpus_eq s s'"
  by (simp add: cpus_eq_def)

lemma cpus_eq_trans: "cpus_eq a b \<Longrightarrow> cpus_eq b c \<Longrightarrow> cpus_eq a c"
  by (simp add: cpus_eq_def cpu_eq_def)

text \<open>\<open>only t s s'\<close>: between the two states no thread but \<open>t\<close> has changed, apart from links.\<close>

definition only :: "int \<Rightarrow> kstate \<Rightarrow> kstate \<Rightarrow> bool" where
  "only t s s' \<longleftrightarrow> cpus_eq s s' \<and> g_boot_hartid s' = g_boot_hartid s
     \<and> (\<forall>i. i \<noteq> t \<longrightarrow> rq_erase (g_threads s' i) = rq_erase (g_threads s i) \<and> onrq s' i = onrq s i)"

lemma onlyD:
  assumes "only t s s'"
  shows "cpus_eq s s'" "g_boot_hartid s' = g_boot_hartid s"
    "i \<noteq> t \<Longrightarrow> rq_erase (g_threads s' i) = rq_erase (g_threads s i)"
    "i \<noteq> t \<Longrightarrow> onrq s' i = onrq s i"
  using assms by (auto simp: only_def)

lemma hart_ok_only:
  assumes "only t s s'" "cur s k \<noteq> t" "hart_ok s k"
  shows "hart_ok s' k"
  using assms(3) cpus_eqD [OF onlyD(1) [OF assms(1)]]
    erase_sel(2,8) [OF onlyD(3) [OF assms(1,2)]]
  by (simp add: hart_ok_def)

lemma common_only:
  assumes C: "common s" and O: "only t s s'" and t: "is_worker t"
    and id: "t_id (g_threads s' t) = t"
    and runnable: "t_state (g_threads s' t) = THREAD_RUNNABLE \<longleftrightarrow> onrq s' t"
    and running: "t_state (g_threads s' t) = THREAD_RUNNING \<Longrightarrow> \<exists>k. live s k \<and> cur s k = t"
    and rh: "t_running_hart (g_threads s' t) \<ge> 0 \<Longrightarrow>
        \<exists>k. live s k \<and> t_running_hart (g_threads s' t) = int k \<and> cur s k = t"
    and stdin: "- 1 \<le> g_stdin_waiter s' \<and> g_stdin_waiter s' < THREAD_MAX"
  shows "common s'"
proof (rule commonI)
  note E = cpus_eqD [OF onlyD(1) [OF O]]
  note X = erase_sel [OF onlyD(3) [OF O]]
  show "c_hartid (g_cpus s' k) = k \<and> c_idle_tid (g_cpus s' k) = int k" if "live s' k" for k
    using that C by (simp add: E common_hart common_idle_tid)
  show "t_state (g_threads s' (int k)) = (if live s' k \<and> cur s' k = int k then THREAD_RUNNING else THREAD_RUNNABLE)
      \<and> \<not> t_can_be_killed (g_threads s' (int k))" if k: "k < MAX_HARTS" for k
  proof -
    have "int k \<noteq> t" using t k by (auto simp: is_worker_def)
    then show ?thesis using common_idle [OF C k] common_idle_kill [OF C k] by (simp add: E X)
  qed
  show "t_state (g_threads s' i) = THREAD_RUNNABLE \<longleftrightarrow> onrq s' i" if "is_worker i" for i
    using common_runnable [OF C that] runnable onlyD(4) [OF O] X(2) by (cases "i = t") auto
  show "\<exists>k. live s' k \<and> cur s' k = i" if "is_worker i" "t_state (g_threads s' i) = THREAD_RUNNING" for i
    using common_running [OF C that(1)] running that(2) X(2) by (cases "i = t") (auto simp: E)
  show "\<exists>k. live s' k \<and> t_running_hart (g_threads s' i) = int k \<and> cur s' k = i"
    if "valid_tid i" "t_running_hart (g_threads s' i) \<ge> 0" for i
    using common_rh [OF C that(1)] rh that(2) X(8) by (cases "i = t") (auto simp: E)
  show "t_id (g_threads s' i) = i" if "valid_tid i" for i
    using common_id [OF C that] id X(1) by (cases "i = t") auto
  show "g_boot_hartid s' < MAX_HARTS" using common_boot [OF C] onlyD(2) [OF O] by simp
qed (rule stdin)

text \<open>A worker that no hart is running.\<close>

lemma kinv_only:
  assumes K: "kinv s" and O: "only t s s'" and W: "rq_wf s'" and t: "is_worker t"
    and nc: "\<And>k. live s k \<Longrightarrow> cur s k \<noteq> t"
    and id: "t_id (g_threads s' t) = t"
    and runnable: "t_state (g_threads s' t) = THREAD_RUNNABLE \<longleftrightarrow> onrq s' t"
    and running: "t_state (g_threads s' t) \<noteq> THREAD_RUNNING"
    and rh: "t_running_hart (g_threads s' t) < 0"
    and stdin: "- 1 \<le> g_stdin_waiter s' \<and> g_stdin_waiter s' < THREAD_MAX"
  shows "kinv s'"
proof -
  have "common s'"
    using running rh by (intro common_only [OF kinv_common [OF K] O t id runnable _ _ stdin]) auto
  moreover have "hart_ok s' k" if "live s' k" for k
    using that nc [of k] by (intro hart_ok_only [OF O]) (auto simp: cpus_eqD [OF onlyD(1) [OF O]] kinv_ok [OF K])
  ultimately show ?thesis using W by (simp add: kinv_def)
qed

text \<open>The current thread of hart \<open>h\<close>, which stays current.\<close>

lemma kinv_only_current:
  assumes K: "kinv s" and O: "only (cur s h) s s'" and W: "rq_wf s'" and L: "live s h" and t: "is_worker (cur s h)"
    and id: "t_id (g_threads s' (cur s h)) = cur s h"
    and off: "\<not> onrq s' (cur s h)"
    and st: "t_state (g_threads s' (cur s h)) \<in> {THREAD_RUNNING, THREAD_ZOMBIE}"
    and rh: "t_running_hart (g_threads s' (cur s h)) = int h"
    and stdin: "- 1 \<le> g_stdin_waiter s' \<and> g_stdin_waiter s' < THREAD_MAX"
  shows "kinv s'"
proof -
  note E = cpus_eqD [OF onlyD(1) [OF O]]
  have "common s'"
    using st off rh L by (intro common_only [OF kinv_common [OF K] O t id _ _ _ stdin]) auto
  moreover have "hart_ok s' k" if k: "live s' k" for k
  proof (cases "k = h")
    case True
    have "cur s h \<noteq> -1" using t by auto
    from hart_okD(2) [OF kinv_ok [OF K L] this] True show ?thesis
      using t st rh by (simp add: hart_ok_def E)
  next
    case False
    have kl: "live s k" using k by (simp add: E)
    have "cur s k \<noteq> cur s h"
      using kmid_current_unique [OF kinv_mid [OF K, of h "TF_THREAD (cur s h)"] kl False] L t
      by (auto simp: running_def)
    then show ?thesis by (rule hart_ok_only [OF O _ kinv_ok [OF K kl]])
  qed
  ultimately show ?thesis using W by (simp add: kinv_def)
qed

lemma kmid_only_current:
  assumes K: "kmid h s" and O: "only (cur s h) s s'" and W: "rq_wf s'" and t: "is_worker (cur s h)"
    and id: "t_id (g_threads s' (cur s h)) = cur s h"
    and off: "\<not> onrq s' (cur s h)"
    and st: "t_state (g_threads s' (cur s h)) \<noteq> THREAD_RUNNABLE"
    and rh: "t_running_hart (g_threads s' (cur s h)) \<in> {int h, -1}"
    and stdin: "- 1 \<le> g_stdin_waiter s' \<and> g_stdin_waiter s' < THREAD_MAX"
  shows "kmid h s'"
proof -
  note E = cpus_eqD [OF onlyD(1) [OF O]]
  have L: "live s h" using K by (rule kmid_live)
  have "common s'"
    using st off rh L by (intro common_only [OF kmid_common [OF K] O t id _ _ _ stdin]) auto
  moreover have "hart_mid s' h"
    using kmid_tf [OF K] t st rh by (simp add: hart_mid_def E)
  moreover have "hart_ok s' k" if "live s' k" "k \<noteq> h" for k
    using that kmid_current_unique [OF K, of k] kmid_ok [OF K, of k]
    by (intro hart_ok_only [OF O]) (auto simp: E)
  ultimately show ?thesis using W L by (simp add: kmid_def E)
qed

section \<open>Updates that leave the links alone\<close>

lemma only_upd_thread: "only t s (upd_thread t f s)"
  by (simp add: only_def cpus_eqI onrq_def)

lemma wf_upd_thread:
  assumes "t_rq_next (f (g_threads s t)) = t_rq_next (g_threads s t)"
    and "t_on_rq (f (g_threads s t)) = t_on_rq (g_threads s t)"
  shows "nxt (upd_thread t f s) = nxt s" "onrq (upd_thread t f s) = onrq s"
    "rq_list (upd_thread t f s) = rq_list s" "rq_wf (upd_thread t f s) = rq_wf s"
proof -
  show n: "nxt (upd_thread t f s) = nxt s" using assms(1) by (simp add: nxt_upd_thread nxt_def fun_eq_iff)
  show o: "onrq (upd_thread t f s) = onrq s" using assms(2) by (simp add: onrq_upd_thread onrq_def fun_eq_iff)
  show "rq_list (upd_thread t f s) = rq_list s" "rq_wf (upd_thread t f s) = rq_wf s"
    using rq_wf_cong [OF n o] by simp_all
qed

section \<open>Waking a thread\<close>

text \<open>Hart \<open>k\<close> is a proper place for a woken thread: online if any hart is, and no online hart has a
  shorter queue.\<close>

definition placed :: "nat \<Rightarrow> kstate \<Rightarrow> bool" where
  "placed k s \<longleftrightarrow> k < MAX_HARTS \<and> ((\<exists>j. live s j) \<longrightarrow>
     live s k \<and> (\<forall>j. live s j \<longrightarrow> length (rq_list s k) \<le> length (rq_list s j)))"

lemma rq_len_length: "rq_wf s \<Longrightarrow> k < MAX_HARTS \<Longrightarrow> unat (rq_len k s) = length (rq_list s k)"
  by (simp add: rq_len_def rq_wf_def rqs_rep_def rq_rep_def)

lemma pick_placed:
  assumes W: "rq_wf s" and p: "p < MAX_HARTS" and r: "rq_list s1 = rq_list s" "g_runqueues s1 = g_runqueues s" "g_cpus s1 = g_cpus s"
  shows "\<exists>k. sched_pick_target_hart p s1 = Inr k \<and> placed k s"
proof -
  obtain k where k: "sched_pick_target_hart p s1 = Inr k" "k < MAX_HARTS"
    "(\<exists>h<MAX_HARTS. c_online (g_cpus s1 h)) \<longrightarrow> c_online (g_cpus s1 k)
        \<and> (\<forall>h<MAX_HARTS. c_online (g_cpus s1 h) \<longrightarrow> rq_len k s1 \<le> rq_len h s1)"
    using sched_pick_target_hart_props [OF p, of s1] by blast
  have len: "rq_len j s1 = rq_len j s" for j by (simp add: rq_len_def r)
  have "placed k s"
    using k rq_len_length [OF W] by (auto simp: placed_def live_def r(3) len word_le_nat_alt)
  with k(1) show ?thesis by blast
qed

definition woken :: "int \<Rightarrow> Thread \<Rightarrow> kstate \<Rightarrow> kstate \<Rightarrow> bool" where
  "woken t u s s' \<longleftrightarrow>
     (\<exists>k. placed k s \<and> rq_list s' = (rq_list s)(k := rq_list s k @ [t]))
   \<and> onrq s' = (onrq s)(t := True)
   \<and> only t s s'
   \<and> rq_erase (g_threads s' t) = rq_erase (u\<lparr>t_state := THREAD_RUNNABLE, t_wakeup_tick := 0\<rparr>)
   \<and> g_ticks s' = g_ticks s \<and> g_stdin_waiter s' = g_stdin_waiter s
   \<and> heap_u8 s' = heap_u8 s \<and> smp_boot_done s' = smp_boot_done s"

lemma make_runnable_ok:
  assumes K: "kinv s" and p: "p < MAX_HARTS" and t: "is_worker t" "\<not> onrq s t"
    and nc: "\<And>k. live s k \<Longrightarrow> cur s k \<noteq> t"
    and f: "t_rq_next (f (g_threads s t)) = t_rq_next (g_threads s t)"
      "t_on_rq (f (g_threads s t)) = t_on_rq (g_threads s t)"
      "t_id (f (g_threads s t)) = t_id (g_threads s t)"
      "t_running_hart (f (g_threads s t)) = t_running_hart (g_threads s t)"
      "t_state (f (g_threads s t)) \<noteq> THREAD_RUNNING"
  shows "\<exists>s'. thread_make_runnable h t p (upd_thread t f s) = Inr s' \<and> kinv s'
           \<and> woken t (f (g_threads s t)) s s'"
proof -
  define s1 where "s1 = upd_thread t f s"
  define s2 where "s2 = upd_thread t (\<lambda>u. u\<lparr>t_state := THREAD_RUNNABLE, t_wakeup_tick := 0\<rparr>) s1"
  have s2: "s2 = upd_thread t (\<lambda>u. (f u)\<lparr>t_state := THREAD_RUNNABLE, t_wakeup_tick := 0\<rparr>) s"
    by (simp add: s2_def s1_def upd_thread_twice)
  have v2: "onrq s2 = onrq s" "rq_list s2 = rq_list s" "rq_wf s2"
    unfolding s2 using wf_upd_thread [of "\<lambda>u. (f u)\<lparr>t_state := THREAD_RUNNABLE, t_wakeup_tick := 0\<rparr>" s t]
      f(1,2) kinv_wf [OF K] by simp_all
  have v1: "rq_list s1 = rq_list s" unfolding s1_def using wf_upd_thread(3) [of f s t] f(1,2) by simp
  obtain k where k0: "sched_pick_target_hart p s1 = Inr k" "placed k s"
    using pick_placed [OF kinv_wf [OF K] p v1] by (auto simp: s1_def)
  then have k: "sched_pick_target_hart p s1 = Inr k" "k < MAX_HARTS" by (simp_all add: placed_def)
  obtain s3 where s3: "rq_push_tail k t s2 = Inr s3" "rq_wf s3"
    "rq_list s3 = (rq_list s)(k := rq_list s k @ [t])" "rq_frame s2 s3" "onrq s3 = (onrq s)(t := True)"
    using rq_push_tail_wf [OF v2(3) k(2) t(1)] t(2) v2 by auto
  define s' where "s' = (if k = c_hartid (g_cpus s3 h)
      then upd_cpu h (\<lambda>c. c\<lparr>c_need_resched := True\<rparr>) s3 else smp_kick_hart k s3)"
  have w: "\<not> t < 0" "\<not> THREAD_MAX \<le> t" "\<not> t < int MAX_HARTS" using t(1) by (auto simp: is_worker_def)
  have g: "\<not> t_on_rq (g_threads s1 t)" "t_state (g_threads s1 t) \<noteq> THREAD_RUNNING"
    using t(2) f(2,5) by (simp_all add: s1_def onrq_def)
  have run: "thread_make_runnable h t p s1 = Inr s'"
    unfolding thread_make_runnable_def s'_def using w g k(1) s3(1) by (simp add: s2_def)
  have same: "g_threads s' = g_threads s3" "g_runqueues s' = g_runqueues s3" "cpus_eq s3 s'"
    "g_ticks s' = g_ticks s3" "g_stdin_waiter s' = g_stdin_waiter s3" "g_boot_hartid s' = g_boot_hartid s3"
    "heap_u8 s' = heap_u8 s3" "smp_boot_done s' = smp_boot_done s3"
    by (simp_all add: s'_def cpus_eq_def)
  have view: "nxt s' = nxt s3" "onrq s' = onrq s3" by (simp_all add: fun_eq_iff nxt_def onrq_def same)
  note cong = rq_wf_cong [OF view same(2)]
  note fr = rq_frameD [OF s3(4)]
  have O: "only t s s'"
    unfolding only_def
  proof (intro conjI allI impI)
    show "cpus_eq s s'" using same(3) fr(2) by (simp add: cpus_eq_def s2)
    show "g_boot_hartid s' = g_boot_hartid s" by (simp add: same fr(5) s2)
    show "rq_erase (g_threads s' i) = rq_erase (g_threads s i)" "onrq s' i = onrq s i" if "i \<noteq> t" for i
      using that s3(5) by (simp_all add: same fr(1) view s2)
  qed
  have T: "rq_erase (g_threads s' t) = rq_erase ((f (g_threads s t))\<lparr>t_state := THREAD_RUNNABLE, t_wakeup_tick := 0\<rparr>)"
    by (simp add: same fr(1) s2)
  have rh: "t_running_hart (g_threads s t) < 0"
    using common_rh [OF kinv_common [OF K], of t] nc t(1) by fastforce
  have stdin: "- 1 \<le> g_stdin_waiter s' \<and> g_stdin_waiter s' < THREAD_MAX"
    using common_stdin [OF kinv_common [OF K]] by (simp add: same fr(4) s2)
  have "kinv s'"
    using common_id [OF kinv_common [OF K] worker_valid [OF t(1)]] rh s3(5) f
    by (intro kinv_only [OF K O _ t(1) nc _ _ _ _ stdin])
      (simp_all add: cong s3(2) erase_sel [OF T] view)
  moreover have "woken t (f (g_threads s t)) s s'"
    unfolding woken_def using O T k0(2) s3(3,5)
    by (auto simp: cong view same fr s2)
  ultimately show ?thesis using run unfolding s1_def by blast
qed

lemma wokenD:
  assumes "woken t u s s'"
  shows "only t s s'" "onrq s' = (onrq s)(t := True)" "g_ticks s' = g_ticks s"
    "g_stdin_waiter s' = g_stdin_waiter s"
    "rq_erase (g_threads s' t) = rq_erase (u\<lparr>t_state := THREAD_RUNNABLE, t_wakeup_tick := 0\<rparr>)"
    "heap_u8 s' = heap_u8 s"
  using assms by (auto simp: woken_def)

text \<open>The cases in which the call does nothing.\<close>

lemma make_runnable_noop:
  assumes "\<not> is_worker t \<or> onrq s t \<or> t_state (g_threads s t) = THREAD_RUNNING"
  shows "thread_make_runnable h t p s = Inr s"
  using assms by (auto simp: thread_make_runnable_def is_worker_def onrq_def)

section \<open>Recycling a slot\<close>

lemma rq_erase_recycle:
  "t_state (recycle t) = THREAD_UNUSED" "t_running_hart (recycle t) = -1" "t_id (recycle t) = t_id t"
  "t_on_rq (recycle t) = False" "t_rq_next (recycle t) = -1" "t_join_waiter (recycle t) = -1"
  by (simp_all add: recycle_def)

text \<open>Clearing the link of a thread that is on no queue does not disturb any queue.\<close>

lemma wf_upd_off:
  assumes W: "rq_wf s" and t: "\<not> onrq s t" and f: "\<not> t_on_rq (f (g_threads s t))"
  shows "onrq (upd_thread t f s) = onrq s" "rq_list (upd_thread t f s) = rq_list s" "rq_wf (upd_thread t f s)"
proof -
  show o: "onrq (upd_thread t f s) = onrq s"
    using t f by (simp add: onrq_upd_thread onrq_def fun_eq_iff)
  have R: "rqs_rep s (rq_list s)" using W by (simp add: rq_wf_def)
  have off: "t \<notin> set (rq_list s k)" for k using rqs_rep_off [OF R t] .
  have "rq_rep (nxt (upd_thread t f s)) (onrq s) r (rq_list s k) = rq_rep (nxt s) (onrq s) r (rq_list s k)" for r k
    using off [of k] by (intro rq_rep_cong) (auto simp: nxt_upd_thread)
  then have R': "rqs_rep (upd_thread t f s) (rq_list s)" using R by (simp add: rqs_rep_def o)
  show "rq_list (upd_thread t f s) = rq_list s" using rqs_rep_list [OF R'] .
  show "rq_wf (upd_thread t f s)" using rqs_rep_wf [OF R'] .
qed

lemma recycle_view:
  assumes "is_worker t"
  shows "recycle_thread t s = upd_thread t recycle
           (s\<lparr>g_stdin_waiter := (if g_stdin_waiter s = t then -1 else g_stdin_waiter s)\<rparr>)"
proof -
  have "0 < t" "t < THREAD_MAX" using assms MAX_HARTS_pos by (auto simp: is_worker_def)
  then show ?thesis by (simp add: recycle_thread_def)
qed

lemma stdin_upd_view:
  "g_threads (s\<lparr>g_stdin_waiter := w\<rparr>) = g_threads s" "g_cpus (s\<lparr>g_stdin_waiter := w\<rparr>) = g_cpus s"
  "onrq (s\<lparr>g_stdin_waiter := w\<rparr>) = onrq s" "rq_list (s\<lparr>g_stdin_waiter := w\<rparr>) = rq_list s"
  "rq_wf (s\<lparr>g_stdin_waiter := w\<rparr>) = rq_wf s"
  using rq_wf_cong [of "s\<lparr>g_stdin_waiter := w\<rparr>" s] by (auto simp: nxt_def onrq_def fun_eq_iff)

lemma recycle_props:
  assumes W: "rq_wf s" and t: "is_worker t" "\<not> onrq s t"
  shows "only t s (recycle_thread t s)" "rq_wf (recycle_thread t s)"
    "rq_list (recycle_thread t s) = rq_list s" "onrq (recycle_thread t s) = onrq s"
    "g_threads (recycle_thread t s) t = recycle (g_threads s t)"
    "g_stdin_waiter (recycle_thread t s) = (if g_stdin_waiter s = t then -1 else g_stdin_waiter s)"
    "g_ticks (recycle_thread t s) = g_ticks s"
proof -
  define s1 where "s1 = s\<lparr>g_stdin_waiter := (if g_stdin_waiter s = t then -1 else g_stdin_waiter s)\<rparr>"
  have r: "recycle_thread t s = upd_thread t recycle s1" using recycle_view [OF t(1)] by (simp add: s1_def)
  have v: "onrq s1 = onrq s" "rq_list s1 = rq_list s" "rq_wf s1" using W by (simp_all add: s1_def stdin_upd_view)
  note off = wf_upd_off [of s1 t recycle]
  show "rq_wf (recycle_thread t s)" "rq_list (recycle_thread t s) = rq_list s"
    and o: "onrq (recycle_thread t s) = onrq s"
    using off v t(2) by (simp_all add: r rq_erase_recycle)
  show "g_threads (recycle_thread t s) t = recycle (g_threads s t)"
    "g_stdin_waiter (recycle_thread t s) = (if g_stdin_waiter s = t then -1 else g_stdin_waiter s)"
    "g_ticks (recycle_thread t s) = g_ticks s"
    by (simp_all add: r s1_def)
  have "g_cpus (recycle_thread t s) = g_cpus s" "g_boot_hartid (recycle_thread t s) = g_boot_hartid s"
    "\<And>i. i \<noteq> t \<Longrightarrow> g_threads (recycle_thread t s) i = g_threads s i"
    by (simp_all add: r s1_def)
  then show "only t s (recycle_thread t s)" by (simp add: only_def cpus_eqI o)
qed

lemma kinv_recycle:
  assumes K: "kinv s" and t: "is_worker t" "\<not> onrq s t" and nc: "\<And>k. live s k \<Longrightarrow> cur s k \<noteq> t"
  shows "kinv (recycle_thread t s)"
  using recycle_props [OF kinv_wf [OF K] t] common_stdin [OF kinv_common [OF K]]
    common_id [OF kinv_common [OF K] worker_valid [OF t(1)]] t(2) THREAD_MAX_small
  by (intro kinv_only [OF K _ _ t(1) nc]) (auto simp: rq_erase_recycle)

end
