(* ===== verification/Schedule.thy ===== *)
theory Schedule
  imports Sched_Ops
begin

text \<open>
  The context switch. \<open>schedule\<close> is shown to return from every intermediate state of a system call,
  to re-establish the scheduler invariant, and to refine \<open>dispatch\<close>, the round-robin policy on
  abstract queues: a current worker that is still \<open>RUNNING\<close> goes to the tail of its hart's
  queue, and the head of that queue, or the hart's idle thread when it is empty, becomes current.
\<close>

section \<open>The abstract policy\<close>

type_synonym sched_view = "(nat \<Rightarrow> int) \<times> (nat \<Rightarrow> int list)"

definition sched_abs :: "kstate \<Rightarrow> sched_view" where
  "sched_abs s = (cur s, rq_list s)"

definition requeue :: "nat \<Rightarrow> bool \<Rightarrow> sched_view \<Rightarrow> sched_view" where
  "requeue h keep v = (case v of (C, Q) \<Rightarrow> (C, if keep then Q(h := Q h @ [C h]) else Q))"

definition dispatch :: "nat \<Rightarrow> bool \<Rightarrow> sched_view \<Rightarrow> sched_view" where
  "dispatch h keep v =
     (case requeue h keep v of (C, Q) \<Rightarrow>
        (case Q h of [] \<Rightarrow> (C(h := int h), Q) | t # ts \<Rightarrow> (C(h := t), Q(h := ts))))"

text \<open>Whether the current thread of hart \<open>h\<close> is a worker that wants to go on.\<close>

definition keeps :: "kstate \<Rightarrow> nat \<Rightarrow> bool" where
  "keeps s h \<longleftrightarrow> is_worker (cur s h) \<and> t_state (g_threads s (cur s h)) = THREAD_RUNNING"

section \<open>A hart between two threads\<close>

definition detached :: "nat \<Rightarrow> kstate \<Rightarrow> kstate" where
  "detached h s = upd_cpu h (\<lambda>c. c\<lparr>c_current_tid := -1\<rparr>) s"

lemma detached_sel [simp]:
  "g_threads (detached h s) = g_threads s" "g_runqueues (detached h s) = g_runqueues s"
  "live (detached h s) = live s" "cur (detached h s) = (cur s)(h := -1)"
  "c_hartid (g_cpus (detached h s) k) = c_hartid (g_cpus s k)"
  "c_idle_tid (g_cpus (detached h s) k) = c_idle_tid (g_cpus s k)"
  "c_cur_tf (g_cpus (detached h s) k) = c_cur_tf (g_cpus s k)"
  "g_boot_hartid (detached h s) = g_boot_hartid s" "g_stdin_waiter (detached h s) = g_stdin_waiter s"
  "nxt (detached h s) = nxt s" "onrq (detached h s) = onrq s"
  by (auto simp: detached_def live_def cur_def fun_eq_iff)

lemma detached_rq [simp]: "rq_list (detached h s) = rq_list s" "rq_wf (detached h s) = rq_wf s"
  by (rule rq_wf_cong; simp)+

lemma kinv_detached:
  assumes K: "kmid h s" and c: "c = cur s h" and O: "only c s s'" and W: "rq_wf s'"
    and id: "t_id (g_threads s' c) = c" and rh: "t_running_hart (g_threads s' c) < 0"
    and worker: "is_worker c \<Longrightarrow> (t_state (g_threads s' c) = THREAD_RUNNABLE \<longleftrightarrow> onrq s' c)
        \<and> t_state (g_threads s' c) \<noteq> THREAD_RUNNING"
    and idle: "c = int h \<Longrightarrow> t_state (g_threads s' c) = THREAD_RUNNABLE
        \<and> \<not> t_can_be_killed (g_threads s' c)"
    and stdin: "- 1 \<le> g_stdin_waiter s' \<and> g_stdin_waiter s' < THREAD_MAX"
  shows "kinv (detached h s')"
proof -
  note E = cpus_eqD [OF onlyD(1) [OF O]]
  note X = erase_sel [OF onlyD(3) [OF O]]
  note C = kmid_common [OF K]
  have L: "live s h" using K by (rule kmid_live)
  have nc: "cur s k \<noteq> c" if "live s k" "k \<noteq> h" for k
    using kmid_current_unique [OF K that] c by simp
  have kind: "c = int h \<or> is_worker c" using kmid_hart [OF K] c by (simp add: hart_mid_def)
  have "common (detached h s')"
  proof (rule commonI; simp only: detached_sel E)
    show "c_hartid (g_cpus s k) = k \<and> c_idle_tid (g_cpus s k) = int k" if "live s k" for k
      using that C by (simp add: common_hart common_idle_tid)
    show "t_state (g_threads s' (int k)) = (if live s k \<and> ((cur s)(h := -1)) k = int k
        then THREAD_RUNNING else THREAD_RUNNABLE) \<and> \<not> t_can_be_killed (g_threads s' (int k))"
      if k: "k < MAX_HARTS" for k
    proof (cases "int k = c")
      case True
      have "\<not> is_worker c" using k True by (auto simp: is_worker_def)
      with kind True have "k = h" by auto
      with idle True show ?thesis by simp
    next
      case False
      then have "k \<noteq> h \<or> cur s k \<noteq> int k" using c by auto
      with False show ?thesis using common_idle [OF C k] common_idle_kill [OF C k] by (auto simp: X)
    qed
    show "t_state (g_threads s' i) = THREAD_RUNNABLE \<longleftrightarrow> onrq s' i" if "is_worker i" for i
      using common_runnable [OF C that] worker onlyD(4) [OF O] X(2) that by (cases "i = c") auto
    show "\<exists>k. live s k \<and> ((cur s)(h := -1)) k = i"
      if i: "is_worker i" "t_state (g_threads s' i) = THREAD_RUNNING" for i
    proof -
      have "i \<noteq> c" using worker i by auto
      then show ?thesis using common_running [OF C i(1)] i(2) X(2) c by fastforce
    qed
    show "\<exists>k. live s k \<and> t_running_hart (g_threads s' i) = int k \<and> ((cur s)(h := -1)) k = i"
      if i: "valid_tid i" "t_running_hart (g_threads s' i) \<ge> 0" for i
    proof -
      have "i \<noteq> c" using rh i by auto
      then show ?thesis using common_rh [OF C i(1)] i(2) X(8) c by fastforce
    qed
    show "t_id (g_threads s' i) = i" if "valid_tid i" for i
      using common_id [OF C that] id X(1) by (cases "i = c") auto
    show "g_boot_hartid s' < MAX_HARTS" using common_boot [OF C] onlyD(2) [OF O] by simp
  qed (rule stdin)
  moreover have "hart_ok (detached h s') k" if k: "live s k" for k
  proof (cases "k = h")
    case True
    then show ?thesis by (simp add: hart_ok_def)
  next
    case False
    then show ?thesis
      using hart_ok_only [OF O nc [OF k False] kmid_ok [OF K k False]] by (simp add: hart_ok_def)
  qed
  ultimately show ?thesis using W by (simp add: kinv_def E)
qed

section \<open>Switching away\<close>

lemma mark_not_running_sel [simp]:
  "t_id (mark_not_running t) = t_id t" "t_state (mark_not_running t) = t_state t"
  "t_running_hart (mark_not_running t) = -1" "t_on_rq (mark_not_running t) = t_on_rq t"
  "t_rq_next (mark_not_running t) = t_rq_next t" "t_join_waiter (mark_not_running t) = t_join_waiter t"
  "t_detached (mark_not_running t) = t_detached t" "t_can_be_killed (mark_not_running t) = t_can_be_killed t"
  "t_exit_code (mark_not_running t) = t_exit_code t" "t_wakeup_tick (mark_not_running t) = t_wakeup_tick t"
  "t_tf (mark_not_running t) = t_tf t"
  by (simp_all add: mark_not_running_def Let_def)

lemma only_trans:
  assumes "only t a b" "only t b c"
  shows "only t a c"
  using assms cpus_eq_trans [of a b c] by (simp add: only_def)

lemma only_frame: "rq_frame s s' \<Longrightarrow> onrq s' = (onrq s)(t := b) \<Longrightarrow> only t s s'"
  by (simp add: only_def cpus_eqI rq_frameD)

text \<open>What \<open>schedule_out\<close> makes of the thread it switches away from.\<close>

definition reaped :: "Thread \<Rightarrow> bool" where
  "reaped t \<longleftrightarrow> t_state t = THREAD_ZOMBIE \<and>
     ((t_join_waiter t \<ge> 0 \<and> t_join_waiter t < THREAD_MAX) \<or> t_detached t)"

definition switched_out :: "nat \<Rightarrow> kstate \<Rightarrow> Thread" where
  "switched_out h s =
     (let t = mark_not_running (g_threads s (cur s h)) in
      if cur s h = int h \<or> t_state t = THREAD_RUNNING then t\<lparr>t_state := THREAD_RUNNABLE\<rparr>
      else if reaped t then recycle t else t)"

definition went_out :: "nat \<Rightarrow> kstate \<Rightarrow> kstate \<Rightarrow> bool" where
  "went_out h s s' \<longleftrightarrow> kinv (detached h s') \<and> g_cpus s' = g_cpus s
     \<and> rq_list s' = snd (requeue h (keeps s h) (sched_abs s))
     \<and> only (cur s h) s s' \<and> rq_erase (g_threads s' (cur s h)) = rq_erase (switched_out h s)
     \<and> g_ticks s' = g_ticks s \<and> smp_boot_done s' = smp_boot_done s \<and> heap_u8 s' = heap_u8 s
     \<and> (g_stdin_waiter s' = g_stdin_waiter s \<or> g_stdin_waiter s' = -1)"

lemma idle_not_worker: "h < MAX_HARTS \<Longrightarrow> \<not> is_worker (int h)"
  by (simp add: is_worker_def)

lemma schedule_out_idle:
  assumes K: "kmid h s" and c: "cur s h = int h"
  shows "\<exists>s'. schedule_out h (cur s h) s = Inr s' \<and> went_out h s s'"
proof -
  let ?f = "\<lambda>t. (mark_not_running t)\<lparr>t_state := THREAD_RUNNABLE\<rparr>"
  let ?s = "upd_thread (int h) ?f s"
  note C = kmid_common [OF K] and L = kmid_live [OF K]
  note H = live_bound [OF L]
  have tid: "c_idle_tid (g_cpus s h) = int h" using C L by (rule common_idle_tid)
  have run: "schedule_out h (cur s h) s = Inr ?s"
    by (simp add: schedule_out_def tid c thread_mark_not_running_def upd_thread_twice Let_def)
  note W = wf_upd_thread [of ?f s "int h"]
  have O: "only (int h) s ?s" by (rule only_upd_thread)
  have "kinv (detached h ?s)"
    using common_id [OF C, of "int h"] common_idle_kill [OF C H] kmid_wf [OF K] W(4) H common_stdin [OF C]
      idle_not_worker [OF H] MAX_HARTS_less
    by (intro kinv_detached [OF K c [symmetric] O]) (simp_all add: valid_tid_def)
  moreover have "\<not> keeps s h" using idle_not_worker [OF H] c by (simp add: keeps_def)
  ultimately have "went_out h s ?s"
    using O W(3) by (simp add: went_out_def requeue_def sched_abs_def c switched_out_def Let_def)
  with run show ?thesis by blast
qed

lemma schedule_out_keep:
  assumes K: "kmid h s" and k: "keeps s h"
  shows "\<exists>s'. schedule_out h (cur s h) s = Inr s' \<and> went_out h s s'"
proof -
  define c where "c = cur s h"
  note C = kmid_common [OF K] and L = kmid_live [OF K]
  note H = live_bound [OF L]
  have w: "is_worker c" "t_state (g_threads s c) = THREAD_RUNNING" using k by (simp_all add: keeps_def c_def)
  have ne: "c \<noteq> int h" using w(1) idle_not_worker [OF H] by auto
  have tid: "c_idle_tid (g_cpus s h) = int h" "c_hartid (g_cpus s h) = h"
    using C L by (simp_all add: common_idle_tid common_hart)
  have off: "\<not> onrq s c" using common_runnable [OF C w(1)] w(2) by simp
  define s1 where "s1 = upd_thread c (\<lambda>t. t\<lparr>t_state := THREAD_RUNNABLE\<rparr>) s"
  have v1: "onrq s1 = onrq s" "rq_list s1 = rq_list s" "rq_wf s1"
    unfolding s1_def using wf_upd_thread [of "\<lambda>t. t\<lparr>t_state := THREAD_RUNNABLE\<rparr>" s c] kmid_wf [OF K] by simp_all
  obtain s2 where s2: "rq_push_tail h c s1 = Inr s2" "rq_wf s2" "rq_list s2 = (rq_list s)(h := rq_list s h @ [c])"
    "rq_frame s1 s2" "onrq s2 = (onrq s)(c := True)"
    using rq_push_tail_wf [OF v1(3) H w(1)] off v1 by auto
  note F = rq_frameD [OF s2(4)]
  define s' where "s' = upd_thread c mark_not_running s2"
  have T1: "g_threads s1 c = (g_threads s c)\<lparr>t_state := THREAD_RUNNABLE\<rparr>" by (simp add: s1_def)
  have T2: "rq_erase (g_threads s2 c) = rq_erase ((g_threads s c)\<lparr>t_state := THREAD_RUNNABLE\<rparr>)"
    using F(1) [of c] by (simp only: T1)
  note E2 = erase_sel [OF T2]
  have T: "g_threads s' c = mark_not_running (g_threads s2 c)" by (simp add: s'_def)
  have Te: "rq_erase (g_threads s' c) = rq_erase ((mark_not_running (g_threads s c))\<lparr>t_state := THREAD_RUNNABLE\<rparr>)"
    using T2 by (simp add: T rq_erase_def mark_not_running_def Let_def E2)
  have st: "t_state (g_threads s' c) \<noteq> THREAD_ZOMBIE" by (simp add: T E2)
  have run: "schedule_out h c s = Inr s'"
    using w(2) ne s2(1) st
    by (simp add: schedule_out_def tid thread_mark_not_running_def Let_def s1_def [symmetric] s'_def)
  have W: "rq_wf s'" "rq_list s' = rq_list s2" "onrq s' = onrq s2"
    unfolding s'_def using wf_upd_thread [of mark_not_running s2 c] s2(2) by simp_all
  have g: "g_cpus s' = g_cpus s" "g_ticks s' = g_ticks s" "smp_boot_done s' = smp_boot_done s"
    "heap_u8 s' = heap_u8 s" "g_stdin_waiter s' = g_stdin_waiter s" "g_boot_hartid s' = g_boot_hartid s"
    by (simp_all add: s'_def F(2-) s1_def)
  have O: "only c s s'"
    using g s2(5) W(3) F(1) by (simp add: only_def cpus_eqI s'_def s1_def)
  have "kinv (detached h s')"
    using common_id [OF C worker_valid [OF w(1)]] common_stdin [OF C] s2(5) ne
    by (intro kinv_detached [OF K c_def O W(1)]) (simp_all add: T E2 g W)
  then have "went_out h s s'"
    using O Te w ne k s2(3)
    by (simp add: went_out_def requeue_def sched_abs_def g W switched_out_def Let_def c_def [symmetric])
  with run show ?thesis by (auto simp: c_def)
qed

lemma schedule_out_stop:
  assumes K: "kmid h s" and wc: "is_worker (cur s h)" and ns: "t_state (g_threads s (cur s h)) \<noteq> THREAD_RUNNING"
  shows "\<exists>s'. schedule_out h (cur s h) s = Inr s' \<and> went_out h s s'"
proof -
  define c where "c = cur s h"
  note C = kmid_common [OF K] and L = kmid_live [OF K]
  note H = live_bound [OF L]
  have w: "is_worker c" "t_state (g_threads s c) \<noteq> THREAD_RUNNING" using wc ns by (simp_all add: c_def)
  have ne: "c \<noteq> int h" using w(1) idle_not_worker [OF H] by auto
  have tid: "c_idle_tid (g_cpus s h) = int h" using C L by (simp add: common_idle_tid)
  have nr: "t_state (g_threads s c) \<noteq> THREAD_RUNNABLE" using kmid_hart [OF K] wc by (simp add: hart_mid_def c_def)
  have off: "\<not> onrq s c" using common_runnable [OF C w(1)] nr by simp
  define s1 where "s1 = upd_thread c mark_not_running s"
  have v1: "onrq s1 = onrq s" "rq_list s1 = rq_list s" "rq_wf s1"
    unfolding s1_def using wf_upd_thread [of mark_not_running s c] kmid_wf [OF K] by simp_all
  have T1: "g_threads s1 c = mark_not_running (g_threads s c)" by (simp add: s1_def)
  have O1: "only c s s1" unfolding s1_def by (rule only_upd_thread)
  define s' where "s' = (if reaped (g_threads s1 c) then recycle_thread c s1 else s1)"
  have run: "schedule_out h c s = Inr s'"
    using w(2) ne
    by (auto simp: schedule_out_def tid thread_mark_not_running_def Let_def s1_def [symmetric] s'_def reaped_def)
  have off1: "\<not> onrq s1 c" using off v1 by simp
  note R = recycle_props [OF v1(3) w(1) off1]
  have W: "rq_wf s'" "rq_list s' = rq_list s" "onrq s' = onrq s"
    using R v1 by (simp_all add: s'_def)
  have rc: "g_cpus (recycle_thread c u) = g_cpus u" "g_boot_hartid (recycle_thread c u) = g_boot_hartid u"
    "smp_boot_done (recycle_thread c u) = smp_boot_done u" "heap_u8 (recycle_thread c u) = heap_u8 u" for u
    by (simp_all add: recycle_thread_def)
  have g: "g_cpus s' = g_cpus s" "g_ticks s' = g_ticks s" "smp_boot_done s' = smp_boot_done s"
    "heap_u8 s' = heap_u8 s" "g_stdin_waiter s' = g_stdin_waiter s \<or> g_stdin_waiter s' = -1"
    using R(6,7) by (simp_all add: s'_def rc s1_def)
  have O: "only c s s'" using O1 only_trans [OF O1 R(1)] by (simp add: s'_def)
  have T: "g_threads s' c = (if reaped (g_threads s1 c) then recycle (g_threads s1 c) else g_threads s1 c)"
    using R(5) by (simp add: s'_def)
  have stdin: "- 1 \<le> g_stdin_waiter s' \<and> g_stdin_waiter s' < THREAD_MAX"
    using common_stdin [OF C] g(5) THREAD_MAX_small by auto
  have "kinv (detached h s')"
    using common_id [OF C worker_valid [OF w(1)]] off ne w(2) nr
    by (intro kinv_detached [OF K c_def O W(1) _ _ _ _ stdin]) (simp_all add: T T1 W rq_erase_recycle)
  then have "went_out h s s'"
    using O w ne ns g(5) T
    by (simp add: went_out_def requeue_def sched_abs_def g(1-4) W switched_out_def Let_def c_def [symmetric] T1 keeps_def)
  with run show ?thesis by (auto simp: c_def)
qed

lemma schedule_out_ok:
  assumes K: "kmid h s"
  shows "\<exists>s'. schedule_out h (cur s h) s = Inr s' \<and> went_out h s s'"
proof -
  have "cur s h = int h \<or> is_worker (cur s h)" using kmid_hart [OF K] by (simp add: hart_mid_def)
  then show ?thesis
    using schedule_out_idle [OF K] schedule_out_keep [OF K] schedule_out_stop [OF K]
    by (auto simp: keeps_def)
qed

section \<open>Switching in\<close>

lemma mark_running_sel [simp]:
  "t_id (mark_running h t) = t_id t" "t_state (mark_running h t) = t_state t"
  "t_running_hart (mark_running h t) = int h" "t_on_rq (mark_running h t) = t_on_rq t"
  "t_rq_next (mark_running h t) = t_rq_next t" "t_can_be_killed (mark_running h t) = t_can_be_killed t"
  "t_tf (mark_running h t) = t_tf t"
  by (simp_all add: mark_running_def Let_def)

text \<open>Giving a hart that runs nothing a thread that nobody runs.\<close>

lemma kinv_attach:
  assumes K: "kinv s" and L: "live s h" and free: "cur s h = -1"
    and t: "t = int h \<or> is_worker t \<and> (\<forall>k. live s k \<longrightarrow> cur s k \<noteq> t)"
    and other: "\<And>k. k \<noteq> h \<Longrightarrow> g_cpus s' k = g_cpus s k"
    and own: "c_hartid (g_cpus s' h) = c_hartid (g_cpus s h)" "c_online (g_cpus s' h) = c_online (g_cpus s h)"
      "c_idle_tid (g_cpus s' h) = c_idle_tid (g_cpus s h)" "cur s' h = t" "c_cur_tf (g_cpus s' h) = TF_THREAD t"
    and threads: "\<And>i. i \<noteq> t \<Longrightarrow> rq_erase (g_threads s' i) = rq_erase (g_threads s i) \<and> onrq s' i = onrq s i"
    and new: "t_id (g_threads s' t) = t" "t_state (g_threads s' t) = THREAD_RUNNING"
      "t_running_hart (g_threads s' t) = int h" "\<not> onrq s' t"
      "t_can_be_killed (g_threads s' t) = t_can_be_killed (g_threads s t)"
    and W: "rq_wf s'" and boot: "g_boot_hartid s' = g_boot_hartid s" and stdin: "g_stdin_waiter s' = g_stdin_waiter s"
  shows "kinv s'"
proof -
  note C = kinv_common [OF K] and H = live_bound [OF L]
  note X = erase_sel [OF conjunct1 [OF threads]]
  have lv: "live s' = live s"
  proof
    fix k
    show "live s' k = live s k" using other [of k] own(2) by (cases "k = h") (simp_all add: live_def)
  qed
  have cu: "cur s' k = cur s k" if "k \<noteq> h" for k using other [OF that] by (simp add: cur_def)
  have nc: "cur s k \<noteq> t" if "live s k" "k \<noteq> h" for k
    using t kinv_ok [OF K that(1)] that idle_not_worker [OF H] by (auto simp: hart_ok_def)
  have vt: "valid_tid t" using t H by auto
  have "common s'"
  proof (rule commonI)
    show "c_hartid (g_cpus s' k) = k \<and> c_idle_tid (g_cpus s' k) = int k" if "live s' k" for k
      using that C own other [of k] by (cases "k = h") (simp_all add: lv common_hart common_idle_tid)
    show "t_state (g_threads s' (int k)) = (if live s' k \<and> cur s' k = int k
        then THREAD_RUNNING else THREAD_RUNNABLE) \<and> \<not> t_can_be_killed (g_threads s' (int k))"
      if k: "k < MAX_HARTS" for k
    proof (cases "int k = t")
      case True
      have "\<not> is_worker t" using k True by (auto simp: is_worker_def)
      with t True have "k = h" by auto
      with True new own(4) L common_idle_kill [OF C k] show ?thesis by (simp add: lv)
    next
      case False
      have "cur s k \<noteq> int k" if "k = h" using free that by simp
      then have "(live s' k \<and> cur s' k = int k) = (live s k \<and> cur s k = int k)"
        using False own(4) cu [of k] by (cases "k = h") (auto simp: lv)
      with False show ?thesis using common_idle [OF C k] common_idle_kill [OF C k] by (simp add: X)
    qed
    show "t_state (g_threads s' i) = THREAD_RUNNABLE \<longleftrightarrow> onrq s' i" if "is_worker i" for i
      using common_runnable [OF C that] new threads X(2) by (cases "i = t") auto
    show "\<exists>k. live s' k \<and> cur s' k = i" if i: "is_worker i" "t_state (g_threads s' i) = THREAD_RUNNING" for i
    proof (cases "i = t")
      case True
      then show ?thesis using L own(4) by (auto simp: lv)
    next
      case False
      then obtain k where "live s k" "cur s k = i" using common_running [OF C i(1)] i(2) X(2) by auto
      then show ?thesis using free i(1) cu by (metis lv worker_not_neg(2))
    qed
    show "\<exists>k. live s' k \<and> t_running_hart (g_threads s' i) = int k \<and> cur s' k = i"
      if i: "valid_tid i" "t_running_hart (g_threads s' i) \<ge> 0" for i
    proof (cases "i = t")
      case True
      then show ?thesis using L own(4) new by (auto simp: lv)
    next
      case False
      then obtain k where k: "live s k" "t_running_hart (g_threads s' i) = int k" "cur s k = i"
        using common_rh [OF C i(1)] i(2) X(8) by auto
      have "k \<noteq> h" using free k(3) i(1) by (auto simp: valid_tid_def)
      with k show ?thesis using cu by (auto simp: lv)
    qed
    show "t_id (g_threads s' i) = i" if "valid_tid i" for i
      using common_id [OF C that] new X(1) by (cases "i = t") auto
  qed (use common_boot [OF C] common_stdin [OF C] boot stdin in simp_all)
  moreover have "hart_ok s' k" if k: "live s' k" for k
  proof (cases "k = h")
    case True
    then show ?thesis using own(4,5) new t by (auto simp: hart_ok_def)
  next
    case False
    have "hart_ok s k" using K k by (simp add: kinv_ok lv)
    moreover have "cur s k \<noteq> t" using nc [of k] k False by (simp add: lv)
    ultimately show ?thesis using False by (simp add: hart_ok_def cu other X)
  qed
  ultimately show ?thesis using W by (simp add: kinv_def)
qed

text \<open>A thread without what the scheduler itself maintains: registers, identity, join state and
  the rest of a thread's own data stay.\<close>

definition own_part :: "Thread \<Rightarrow> Thread" where
  "own_part t = t\<lparr>t_state := THREAD_UNUSED, t_running_hart := -1, t_last_hart := -1, t_migrations := 0,
     t_runs := 0, t_rq_next := -1, t_on_rq := False\<rparr>"

lemma own_part_erase: "rq_erase a = rq_erase b \<Longrightarrow> own_part a = own_part b"
  by (cases a; cases b) (simp add: rq_erase_def own_part_def)

lemma own_part_marks [simp]:
  "own_part (mark_running h t) = own_part t" "own_part (mark_not_running t) = own_part t"
  "own_part (t\<lparr>t_state := v\<rparr>) = own_part t"
  by (simp_all add: own_part_def mark_running_def mark_not_running_def Let_def)

lemma own_part_sel:
  assumes "own_part a = own_part b"
  shows "t_id a = t_id b" "t_wakeup_tick a = t_wakeup_tick b" "t_name a = t_name b" "t_tf a = t_tf b"
    "t_exit_code a = t_exit_code b" "t_join_waiter a = t_join_waiter b" "t_detached a = t_detached b"
    "t_waiting_for a = t_waiting_for b" "t_join_status_ptr a = t_join_status_ptr b"
    "t_stack_base a = t_stack_base b" "t_pending_read_buf a = t_pending_read_buf b"
    "t_pending_read_len a = t_pending_read_len b" "t_can_be_killed a = t_can_be_killed b"
  using assms by (cases a; cases b; simp add: own_part_def)+

text \<open>What a completed switch guarantees: the abstract state moved by \<open>dispatch\<close>, the chosen thread is
  \<open>RUNNING\<close> with a fresh time slice, and no third thread changed.\<close>

definition switched :: "nat \<Rightarrow> kstate \<Rightarrow> kstate \<Rightarrow> bool" where
  "switched h s s' \<longleftrightarrow>
     sched_abs s' = dispatch h (keeps s h) (sched_abs s)
   \<and> live s' = live s \<and> c_slice_left (g_cpus s' h) = SCHED_SLICE_TICKS
   \<and> c_cur_tf (g_cpus s' h) = TF_THREAD (cur s' h)
   \<and> t_state (g_threads s' (cur s' h)) = THREAD_RUNNING
   \<and> (cur s' h \<noteq> cur s h \<longrightarrow> rq_erase (g_threads s' (cur s h)) = rq_erase (switched_out h s))
   \<and> (\<forall>i. i \<noteq> cur s h \<longrightarrow> i \<noteq> cur s' h \<longrightarrow> rq_erase (g_threads s' i) = rq_erase (g_threads s i))
   \<and> (\<forall>i. i \<noteq> cur s h \<or> keeps s h \<or> cur s h = int h \<longrightarrow>
        own_part (g_threads s' i) = own_part (g_threads s i))
   \<and> (\<forall>k. k \<noteq> h \<longrightarrow> g_cpus s' k = g_cpus s k)
   \<and> g_ticks s' = g_ticks s \<and> smp_boot_done s' = smp_boot_done s \<and> heap_u8 s' = heap_u8 s
   \<and> (g_stdin_waiter s' = g_stdin_waiter s \<or> g_stdin_waiter s' = -1)"

text \<open>Under the invariant every queued thread is \<open>RUNNABLE\<close>, so the first pop decides.\<close>

lemma schedule_pick_ok:
  assumes W: "rq_wf s" and H: "h < MAX_HARTS"
    and R: "\<And>t. t \<in> set (rq_list s h) \<Longrightarrow> t_state (g_threads s t) = THREAD_RUNNABLE"
  shows "\<exists>s'. schedule_pick (Suc n) h (int h) s = Inr (case rq_list s h of [] \<Rightarrow> int h | t # ts \<Rightarrow> t, s')
      \<and> rq_wf s' \<and> rq_frame s s'
      \<and> rq_list s' = (case rq_list s h of [] \<Rightarrow> rq_list s | t # ts \<Rightarrow> (rq_list s)(h := ts))
      \<and> onrq s' = (case rq_list s h of [] \<Rightarrow> onrq s | t # ts \<Rightarrow> (onrq s)(t := False))"
proof (cases "rq_list s h")
  case Nil
  then show ?thesis using rq_pop_head_wf_empty [OF W Nil] W by simp
next
  case (Cons t ts)
  obtain s' where s': "rq_pop_head h s = Inr (t, s')" "rq_wf s'" "rq_list s' = (rq_list s)(h := ts)"
    "rq_frame s s'" "onrq s' = (onrq s)(t := False)"
    using rq_pop_head_wf [OF W H Cons] by blast
  have "is_worker t" using rq_wf_worker [OF W, of t h] Cons by simp
  moreover have "t_state (g_threads s' t) = THREAD_RUNNABLE"
    using R [of t] Cons rq_frame_threadD(2) [OF s'(4)] by simp
  ultimately show ?thesis using s' Cons by simp
qed

lemma schedule_in_sel:
  "g_cpus (schedule_in h c t s) k =
     (if k = h then (g_cpus s h)\<lparr>c_current_tid := t, c_slice_left := SCHED_SLICE_TICKS, c_need_resched := False,
        c_ctx_switches := (if t \<noteq> c then c_ctx_switches (g_cpus s h) + 1 else c_ctx_switches (g_cpus s h)),
        c_cur_tf := TF_THREAD t\<rparr> else g_cpus s k)"
  "g_threads (schedule_in h c t s) i = (if i = t
     then mark_running (c_hartid (g_cpus s h)) ((g_threads s t)\<lparr>t_state := THREAD_RUNNING\<rparr>) else g_threads s i)"
  "g_runqueues (schedule_in h c t s) = g_runqueues s" "g_boot_hartid (schedule_in h c t s) = g_boot_hartid s"
  "g_stdin_waiter (schedule_in h c t s) = g_stdin_waiter s" "g_ticks (schedule_in h c t s) = g_ticks s"
  "smp_boot_done (schedule_in h c t s) = smp_boot_done s" "heap_u8 (schedule_in h c t s) = heap_u8 s"
  by (simp_all add: schedule_in_def Let_def thread_mark_running_def)

lemma schedule_in_rq:
  "nxt (schedule_in h c t s) = nxt s" "onrq (schedule_in h c t s) = onrq s"
  "rq_list (schedule_in h c t s) = rq_list s" "rq_wf (schedule_in h c t s) = rq_wf s"
proof -
  show n: "nxt (schedule_in h c t s) = nxt s" and o: "onrq (schedule_in h c t s) = onrq s"
    by (auto simp: nxt_def onrq_def fun_eq_iff schedule_in_sel)
  show "rq_list (schedule_in h c t s) = rq_list s" "rq_wf (schedule_in h c t s) = rq_wf s"
    using rq_wf_cong [OF n o schedule_in_sel(3)] by simp_all
qed

lemma schedule_ok:
  assumes K: "kmid h s"
  shows "\<exists>s'. schedule h (TF_THREAD (cur s h)) s = Inr s' \<and> kinv s' \<and> switched h s s'"
proof -
  define c where "c = cur s h"
  obtain s1 where s1: "schedule_out h c s = Inr s1" and out: "went_out h s s1"
    using schedule_out_ok [OF K] by (auto simp: c_def)
  have K1: "kinv (detached h s1)" and cp: "g_cpus s1 = g_cpus s" and O1: "only c s s1"
    and Q1: "rq_list s1 = snd (requeue h (keeps s h) (sched_abs s))"
    and T1: "rq_erase (g_threads s1 c) = rq_erase (switched_out h s)"
    using out by (simp_all add: went_out_def c_def)
  note L = kmid_live [OF K] and C = kmid_common [OF K] and C1 = kinv_common [OF K1]
  note H = live_bound [OF L]
  have L1: "live s1 = live s" "cur s1 = cur s" by (simp_all add: live_def cur_def fun_eq_iff cp)
  have id: "c_hartid (g_cpus s h) = h" "c_idle_tid (g_cpus s h) = int h"
    using C L by (simp_all add: common_hart common_idle_tid)
  have W1: "rq_wf s1" using kinv_wf [OF K1] by simp
  have R: "t_state (g_threads s1 t) = THREAD_RUNNABLE" if "t \<in> set (rq_list s1 k)" for t k
    using rq_wf_worker [OF W1 that] common_runnable [OF C1, of t] by simp
  define t where "t = (case rq_list s1 h of [] \<Rightarrow> int h | t # ts \<Rightarrow> t)"
  obtain s2 where s2: "schedule_pick (nat THREAD_MAX + 2) h (int h) s1 = Inr (t, s2)" "rq_wf s2" "rq_frame s1 s2"
    "rq_list s2 = (case rq_list s1 h of [] \<Rightarrow> rq_list s1 | t # ts \<Rightarrow> (rq_list s1)(h := ts))"
    "onrq s2 = (case rq_list s1 h of [] \<Rightarrow> onrq s1 | t # ts \<Rightarrow> (onrq s1)(t := False))"
    using schedule_pick_ok [where n = "nat THREAD_MAX + 1", OF W1 H R [of _ h]] unfolding t_def by auto
  note F = rq_frameD [OF s2(3)] and E = rq_frame_threadD [OF s2(3)]
  have t: "t = int h \<and> rq_list s1 h = [] \<or> is_worker t \<and> t \<in> set (rq_list s1 h)"
    using rq_wf_worker [OF W1, of t h] by (auto simp: t_def split: list.splits)
  have vt: "valid_tid t" using t H by auto
  define s' where "s' = schedule_in h c t s2"
  have g2: "g_cpus s2 = g_cpus s" by (simp add: F cp)
  have id1: "c_hartid (g_cpus s1 h) = h" "c_idle_tid (g_cpus s1 h) = int h" by (simp_all add: cp id)
  have run: "schedule h (TF_THREAD (cur s h)) s = Inr s'"
    using kmid_valid [OF K] kmid_tf [OF K] s1 s2(1) vt
    by (simp add: schedule_def cur_def [symmetric] c_def [symmetric] id1 s'_def Let_def
        del: schedule_pick.simps add_2_eq_Suc')
  have offt: "\<not> onrq s2 t"
    using t s2(5) rq_wf_onrq [OF W1, of t] H idle_not_worker [OF H] rq_wf_worker [OF W1, of t]
    by (auto simp: t_def split: list.splits)
  have nc: "cur (detached h s1) k \<noteq> t" if tw: "is_worker t" and k: "live s k" for k
  proof
    assume a: "cur (detached h s1) k = t"
    have "t_state (g_threads s1 t) = THREAD_RUNNABLE" using t R tw idle_not_worker [OF H] by auto
    with kinv_current(1) [OF K1 _ a tw] k show False by (simp add: L1)
  qed
  have onrq_other: "onrq s2 i = onrq s1 i" if "i \<noteq> t" for i
    using that s2(5) by (auto simp: t_def split: list.splits)
  have K': "kinv s'"
  proof (rule kinv_attach [OF K1, of h t])
    show "live (detached h s1) h" using L by (simp add: L1)
    show "t = int h \<or> is_worker t \<and> (\<forall>k. live (detached h s1) k \<longrightarrow> cur (detached h s1) k \<noteq> t)"
      using t nc unfolding detached_sel(3) L1(1) by blast
    show "g_cpus s' k = g_cpus (detached h s1) k" if "k \<noteq> h" for k
      using that by (simp add: s'_def schedule_in_sel detached_def F)
    show "rq_erase (g_threads s' i) = rq_erase (g_threads (detached h s1) i) \<and> onrq s' i = onrq (detached h s1) i"
      if "i \<noteq> t" for i
      using that F(1) onrq_other by (simp add: s'_def schedule_in_sel schedule_in_rq)
    show "t_id (g_threads s' t) = t"
      using common_id [OF C1 vt] E(1) by (simp add: s'_def schedule_in_sel)
    show "\<not> onrq s' t" using offt by (simp add: s'_def schedule_in_rq)
    show "t_can_be_killed (g_threads s' t) = t_can_be_killed (g_threads (detached h s1) t)"
      using E(6) by (simp add: s'_def schedule_in_sel)
    show "c_online (g_cpus s' h) = c_online (g_cpus (detached h s1) h)"
      by (simp add: s'_def schedule_in_sel detached_def F)
  qed (simp_all add: s'_def schedule_in_sel schedule_in_rq s2(2) F g2 cp id cur_def)
  have cu: "cur s' = (cur s)(h := t)" by (simp add: cur_def fun_eq_iff s'_def schedule_in_sel g2)
  have lv: "live s' = live s" by (simp add: live_def fun_eq_iff s'_def schedule_in_sel g2)
  have abs: "sched_abs s' = dispatch h (keeps s h) (sched_abs s)"
    using s2(4) cu Q1
    by (auto simp: sched_abs_def dispatch_def requeue_def s'_def schedule_in_rq t_def split: list.splits)
  have th: "rq_erase (g_threads s' i) = rq_erase (g_threads s1 i)" if "i \<noteq> t" for i
    using that F(1) by (simp add: s'_def schedule_in_sel)
  have own1: "own_part (g_threads s' i) = own_part (g_threads s1 i)" for i
    using own_part_erase [OF th [of i]] own_part_erase [OF F(1) [of t]]
    by (cases "i = t") (simp_all add: s'_def schedule_in_sel)
  have own2: "own_part (g_threads s1 i) = own_part (g_threads s i)" if "i \<noteq> c \<or> keeps s h \<or> c = int h" for i
    using that own_part_erase [OF onlyD(3) [OF O1, of i]] own_part_erase [OF T1]
    by (cases "i = c") (auto simp: switched_out_def keeps_def Let_def c_def)
  have "switched h s s'"
    unfolding switched_def
  proof (intro conjI allI impI)
    show "rq_erase (g_threads s' (cur s h)) = rq_erase (switched_out h s)" if "cur s' h \<noteq> cur s h"
      using th [of c] T1 that by (simp add: cu c_def)
    show "rq_erase (g_threads s' i) = rq_erase (g_threads s i)" if "i \<noteq> cur s h" "i \<noteq> cur s' h" for i
      using th [of i] onlyD(3) [OF O1, of i] that by (simp add: cu c_def)
    show "own_part (g_threads s' i) = own_part (g_threads s i)" if "i \<noteq> cur s h \<or> keeps s h \<or> cur s h = int h" for i
      using own1 own2 that by (simp add: c_def)
    show "g_stdin_waiter s' = g_stdin_waiter s \<or> g_stdin_waiter s' = -1"
      using out by (simp add: went_out_def s'_def schedule_in_sel F)
    show "g_ticks s' = g_ticks s" "smp_boot_done s' = smp_boot_done s" "heap_u8 s' = heap_u8 s"
      using out by (simp_all add: went_out_def s'_def schedule_in_sel F)
  qed (simp_all add: abs lv cu, simp_all add: s'_def schedule_in_sel g2)
  with run K' show ?thesis by blast
qed

lemma switchedD:
  assumes "switched h s s'"
  shows "sched_abs s' = dispatch h (keeps s h) (sched_abs s)" "live s' = live s"
    "t_state (g_threads s' (cur s' h)) = THREAD_RUNNING"
    "cur s' h \<noteq> cur s h \<Longrightarrow> rq_erase (g_threads s' (cur s h)) = rq_erase (switched_out h s)"
    "i \<noteq> cur s h \<Longrightarrow> i \<noteq> cur s' h \<Longrightarrow> rq_erase (g_threads s' i) = rq_erase (g_threads s i)"
    "i \<noteq> cur s h \<or> keeps s h \<or> cur s h = int h \<Longrightarrow> own_part (g_threads s' i) = own_part (g_threads s i)"
    "g_ticks s' = g_ticks s" "heap_u8 s' = heap_u8 s"
    "g_stdin_waiter s' = g_stdin_waiter s \<or> g_stdin_waiter s' = -1"
    "c_slice_left (g_cpus s' h) = SCHED_SLICE_TICKS"
    "smp_boot_done s' = smp_boot_done s" "k \<noteq> h \<Longrightarrow> g_cpus s' k = g_cpus s k"
  using assms by (auto simp: switched_def)

text \<open>A worker that stops is not chosen again: the hart goes on with another thread.\<close>

lemma dispatch_cur:
  "fst (dispatch h keep (C, Q)) h = (case snd (requeue h keep (C, Q)) h of [] \<Rightarrow> int h | t # ts \<Rightarrow> t)"
  by (auto simp: dispatch_def requeue_def split: list.splits)

lemma switched_other:
  assumes W: "rq_wf s" and sw: "switched h s s'" and w: "is_worker (cur s h)" and off: "\<not> onrq s (cur s h)"
    and H: "h < MAX_HARTS" and st: "t_state (g_threads s (cur s h)) \<noteq> THREAD_RUNNING"
  shows "cur s' h \<noteq> cur s h"
proof -
  have "cur s' h = fst (dispatch h False (cur s, rq_list s)) h"
    using switchedD(1) [OF sw] st by (simp add: sched_abs_def keeps_def prod_eq_iff)
  then show ?thesis
    using rq_wf_worker [OF W, of "cur s h" h] off w idle_not_worker [OF H]
    by (auto simp: dispatch_cur requeue_def split: list.splits)
qed

end
