(* ===== verification/Syscall_Thread.thy ===== *)
theory Syscall_Thread
  imports Schedule
begin

text \<open>
  The system calls of \<open>kernel/thread.c\<close> against the scheduler invariant. Each lemma says that the
  call, made by the current worker of a hart, returns, keeps the invariant, and what it does to the
  queues, the caller and the other threads. Two situations are excluded by \<open>settled\<close>, because the code
  does not handle them: acting on a killed thread (\<open>ZOMBIE\<close>) that a hart is still executing.
\<close>

definition settled :: "kstate \<Rightarrow> int \<Rightarrow> bool" where
  "settled s t \<longleftrightarrow> \<not> (t_state (g_threads s t) = THREAD_ZOMBIE \<and> t_running_hart (g_threads s t) \<ge> 0)"

lemma cur_live_frame [simp]:
  "cur (upd_thread i f s) = cur s" "live (upd_thread i f s) = live s"
  "cur (s\<lparr>g_stdin_waiter := v\<rparr>) = cur s" "live (s\<lparr>g_stdin_waiter := v\<rparr>) = live s"
  "cur (store_int32 p x s) = cur s" "live (store_int32 p x s) = live s"
  "cur (smp_kick_hart k s) = cur s" "live (smp_kick_hart k s) = live s"
  "cur (recycle_thread i s) = cur s" "live (recycle_thread i s) = live s"
  by (simp_all add: cur_def live_def fun_eq_iff recycle_thread_def)

text \<open>The invariant looks at the tables only, and at a thread only through the fields listed here.\<close>

lemma kinv_view:
  assumes "g_threads s' = g_threads s" "cpus_eq s s'" "g_runqueues s' = g_runqueues s"
    "g_boot_hartid s' = g_boot_hartid s" "g_stdin_waiter s' = g_stdin_waiter s"
  shows "kinv s' = kinv s" "rq_list s' = rq_list s" "onrq s' = onrq s" "cur s' = cur s" "live s' = live s"
proof -
  have n: "nxt s' = nxt s" and o: "onrq s' = onrq s" using assms by (simp_all add: nxt_def onrq_def fun_eq_iff)
  note C = cpus_eqD [OF assms(2)]
  note W = rq_wf_cong [OF n o assms(3)]
  show "kinv s' = kinv s" by (simp add: kinv_def common_def hart_ok_def W C o assms)
  show "rq_list s' = rq_list s" "onrq s' = onrq s" "cur s' = cur s" "live s' = live s"
    by (simp_all add: W o C)
qed

lemma kinv_cong:
  assumes "g_threads s' = g_threads s" "g_cpus s' = g_cpus s" "g_runqueues s' = g_runqueues s"
    "g_boot_hartid s' = g_boot_hartid s" "g_stdin_waiter s' = g_stdin_waiter s"
  shows "kinv s' = kinv s" "rq_list s' = rq_list s" "onrq s' = onrq s" "cur s' = cur s" "live s' = live s"
  using kinv_view [OF assms(1) cpus_eqI [OF assms(2)] assms(3-5)] .

lemma kinv_same:
  assumes K: "kinv s"
    and f: "t_id (f (g_threads s i)) = t_id (g_threads s i)" "t_state (f (g_threads s i)) = t_state (g_threads s i)"
      "t_on_rq (f (g_threads s i)) = t_on_rq (g_threads s i)" "t_rq_next (f (g_threads s i)) = t_rq_next (g_threads s i)"
      "t_running_hart (f (g_threads s i)) = t_running_hart (g_threads s i)"
      "t_can_be_killed (f (g_threads s i)) = t_can_be_killed (g_threads s i)"
  shows "kinv (upd_thread i f s)"
proof -
  note W = wf_upd_thread [of f s i, OF f(4,3)]
  have "common (upd_thread i f s) = common s"
    using f by (auto simp: common_def W(2) if_split)
  moreover have "hart_ok (upd_thread i f s) k = hart_ok s k" for k
    using f by (auto simp: hart_ok_def)
  ultimately show ?thesis using K W(4) by (simp add: kinv_def)
qed

lemma set_a0_frame [simp]:
  "g_cpus (set_a0 tf v s) = g_cpus s" "g_runqueues (set_a0 tf v s) = g_runqueues s"
  "g_ticks (set_a0 tf v s) = g_ticks s" "g_stdin_waiter (set_a0 tf v s) = g_stdin_waiter s"
  "g_boot_hartid (set_a0 tf v s) = g_boot_hartid s" "heap_u8 (set_a0 tf v s) = heap_u8 s"
  "cur (set_a0 tf v s) = cur s" "live (set_a0 tf v s) = live s"
  by (cases tf; simp add: set_a0_def cur_def live_def fun_eq_iff)+

lemma set_a0_view: "kinv s \<Longrightarrow> kinv (set_a0 tf v s)" "rq_list (set_a0 tf v s) = rq_list s"
proof -
  consider (thread) i where "tf = TF_THREAD i" | (other) "g_threads (set_a0 tf v s) = g_threads s"
    by (cases tf) (simp_all add: set_a0_def)
  note C = this
  show "kinv (set_a0 tf v s)" if "kinv s"
    using C that kinv_cong(1) [of "set_a0 tf v s" s]
    by cases (simp add: set_a0_def kinv_same, simp)
  show "rq_list (set_a0 tf v s) = rq_list s"
    using C kinv_cong(2) [of "set_a0 tf v s" s] wf_upd_thread(3) [of "\<lambda>t. t\<lparr>t_tf := (t_tf t)\<lparr>tf_a0 := v\<rparr>\<rparr>" s]
    by cases (simp add: set_a0_def, simp)
qed

lemmas kinv_set_a0 = set_a0_view(1)
lemmas rq_list_set_a0 [simp] = set_a0_view(2)

lemma set_a0_thread:
  "g_threads (set_a0 tf v s) i =
     (if tf = TF_THREAD i then (g_threads s i)\<lparr>t_tf := (t_tf (g_threads s i))\<lparr>tf_a0 := v\<rparr>\<rparr> else g_threads s i)"
  by (cases tf) (auto simp: set_a0_def)

lemma sched_abs_set_a0 [simp]: "sched_abs (set_a0 tf v s) = sched_abs s"
  by (simp add: sched_abs_def)

section \<open>Calls that give up the hart\<close>

lemma running_tf: "running s h tf \<Longrightarrow> tf = TF_THREAD (cur s h)"
  by (simp add: running_def)

lemma running_live: "running s h tf \<Longrightarrow> live s h"
  by (simp add: running_def)

lemma yield_ok:
  assumes K: "kinv s" and R: "running s h tf"
  shows "\<exists>s'. thread_sys_yield h tf s = Inr s' \<and> kinv s' \<and> switched h s s'"
proof -
  have "valid_tid (current_tid_get h s)"
    using running_valid [OF K R] by (simp add: cur_def current_tid_get_def)
  with schedule_ok [OF kinv_mid [OF K R]] running_tf [OF R] show ?thesis
    by (simp add: thread_sys_yield_def thread_sys_sleep_def Let_def)
qed

text \<open>The current worker changes its own slot to a state that is neither running nor runnable and
  calls \<open>schedule\<close>.\<close>

lemma stop_current:
  assumes K: "kinv s" and R: "running s h tf" and w: "is_worker (cur s h)"
    and f: "t_id (f (g_threads s (cur s h))) = t_id (g_threads s (cur s h))"
      "t_running_hart (f (g_threads s (cur s h))) = t_running_hart (g_threads s (cur s h))"
      "\<not> t_on_rq (f (g_threads s (cur s h)))"
      "t_state (f (g_threads s (cur s h))) \<notin> {THREAD_RUNNING, THREAD_RUNNABLE}"
    and v: "- 1 \<le> v \<and> v < THREAD_MAX"
  defines "s0 \<equiv> (upd_thread (cur s h) f s)\<lparr>g_stdin_waiter := v\<rparr>"
  shows "\<exists>s'. schedule h tf s0 = Inr s' \<and> kinv s' \<and> switched h s0 s'
      \<and> sched_abs s' = dispatch h False (sched_abs s)
      \<and> rq_erase (g_threads s' (cur s h)) = rq_erase (switched_out h s0)
      \<and> cur s' h \<noteq> cur s h"
proof -
  define c where "c = cur s h"
  define s1 where "s1 = upd_thread c f s"
  have w': "is_worker c" using w by (simp add: c_def)
  have L: "live s h" using R by (rule running_live)
  have off: "\<not> onrq s c" using kinv_current(3) [OF K L refl w] by (simp add: c_def)
  have rh: "t_running_hart (g_threads s c) = int h" using kinv_current(2) [OF K L refl w] by (simp add: c_def)
  have s0: "s0 = s1\<lparr>g_stdin_waiter := v\<rparr>" by (simp add: s0_def s1_def c_def)
  note V = wf_upd_off [OF kinv_wf [OF K] off, of f]
  have v1: "onrq s0 = onrq s" "rq_list s0 = rq_list s" "rq_wf s0"
    using V f(3) by (simp_all add: s0 stdin_upd_view s1_def c_def)
  have T: "g_threads s0 c = f (g_threads s c)" by (simp add: s0 s1_def)
  have E: "live s0 = live s" "cur s0 = cur s" "g_boot_hartid s0 = g_boot_hartid s"
    by (simp_all add: s0_def live_def cur_def fun_eq_iff)
  have O: "only c s s0"
    by (simp add: only_def cpus_eqI v1 E) (simp add: s0_def cpus_eqI c_def)
  have M: "kmid h s0"
    using common_id [OF kinv_common [OF K] worker_valid [OF w']] v f rh off v1(1)
    by (intro kmid_only_current [OF kinv_mid [OF K R] O [unfolded c_def] v1(3) w])
      (simp_all add: T [unfolded c_def] c_def, simp add: s0_def)
  obtain s' where s': "schedule h tf s0 = Inr s'" "kinv s'" "switched h s0 s'"
    using schedule_ok [OF M] running_tf [OF R] by (auto simp: E)
  have nr: "t_state (g_threads s0 c) \<noteq> THREAD_RUNNING" using f(4) unfolding T by (simp add: c_def)
  have "sched_abs s' = dispatch h False (sched_abs s)"
    using switchedD(1) [OF s'(3)] nr by (simp add: keeps_def E sched_abs_def v1 c_def)
  moreover have ne: "cur s' h \<noteq> cur s h"
    using switched_other [OF v1(3) s'(3) _ _ live_bound [OF L]] w nr off by (simp add: E v1 c_def)
  moreover have "rq_erase (g_threads s' (cur s h)) = rq_erase (switched_out h s0)"
    using switchedD(4) [OF s'(3)] ne by (simp add: E)
  ultimately show ?thesis using s' by blast
qed

lemma sleep_ok:
  assumes K: "kinv s" and R: "running s h tf" and w: "is_worker (cur s h)" and n: "ticks \<noteq> 0"
  shows "\<exists>s'. thread_sys_sleep h tf ticks s = Inr s' \<and> kinv s'
      \<and> sched_abs s' = dispatch h False (sched_abs s)
      \<and> t_state (g_threads s' (cur s h)) = THREAD_SLEEPING
      \<and> t_wakeup_tick (g_threads s' (cur s h)) = g_ticks s + ticks
      \<and> t_tf (g_threads s' (cur s h)) = t_tf (g_threads s (cur s h))"
proof -
  let ?f = "\<lambda>t. t\<lparr>t_state := THREAD_SLEEPING, t_wakeup_tick := g_ticks s + ticks, t_on_rq := False, t_rq_next := -1\<rparr>"
  let ?s0 = "(upd_thread (cur s h) ?f s)\<lparr>g_stdin_waiter := g_stdin_waiter s\<rparr>"
  have s0: "?s0 = upd_thread (cur s h) ?f s" by (simp add: upd_thread_def)
  obtain s' where s': "schedule h tf ?s0 = Inr s'" "kinv s'"
    "sched_abs s' = dispatch h False (sched_abs s)"
    "rq_erase (g_threads s' (cur s h)) = rq_erase (switched_out h ?s0)"
    using stop_current [OF K R w, of ?f "g_stdin_waiter s"] common_stdin [OF kinv_common [OF K]] by auto
  have "cur ?s0 h = cur s h" by (simp add: cur_def)
  then have out: "switched_out h ?s0 = mark_not_running (?f (g_threads s (cur s h)))"
    using w idle_not_worker [OF live_bound [OF running_live [OF R]]]
    by (auto simp: switched_out_def Let_def reaped_def)
  note E = erase_sel [OF s'(4) [unfolded out]]
  have "thread_sys_sleep h tf ticks s = Inr s'"
    using n running_valid [OF K R] s'(1) [unfolded s0]
    by (simp add: thread_sys_sleep_def Let_def current_tid_get_def cur_def [symmetric])
  with s'(2,3) E show ?thesis by auto
qed

text \<open>A switch away from a blocked thread leaves the console's waiter alone.\<close>

lemma waiter_pop: "rq_pop_head h s = Inr (x, s') \<Longrightarrow> g_stdin_waiter s' = g_stdin_waiter s"
  by (auto simp: rq_pop_head_def rq_dec_len_def Let_def upd_rq_def upd_thread_def split: if_splits)

lemma waiter_pick: "schedule_pick n h i s = Inr (t, s') \<Longrightarrow> g_stdin_waiter s' = g_stdin_waiter s"
proof (induction n h i s rule: schedule_pick.induct)
  case (2 n h i s)
  then obtain x s1 where "rq_pop_head h s = Inr (x, s1)"
    and n: "(if x < 0 then Inr (i, s1) else if t_state (g_threads s1 x) = THREAD_RUNNABLE then Inr (x, s1)
       else schedule_pick n h i s1) = Inr (t, s')"
    by (auto simp: bindE_eq_Inr)
  moreover from this have "g_stdin_waiter s1 = g_stdin_waiter s" by (auto dest: waiter_pop)
  ultimately show ?case using 2(1) by (auto split: if_splits)
qed simp

lemma waiter_schedule:
  assumes "schedule h tf s = Inr s'" "t_state (g_threads s (cur s h)) = THREAD_BLOCKED"
  shows "g_stdin_waiter s' = g_stdin_waiter s"
proof -
  let ?c = "c_current_tid (g_cpus s h)"
  obtain s1 t s2 where s1: "schedule_out h ?c s = Inr s1"
    and s2: "schedule_pick (nat THREAD_MAX + 2) (c_hartid (g_cpus s1 h)) (c_idle_tid (g_cpus s1 h)) s1 = Inr (t, s2)"
    and s': "s' = schedule_in h ?c t s2"
    using assms(1) unfolding schedule_def Let_def by (auto simp only: bindE_eq_Inr split: if_splits)
  have "g_stdin_waiter s1 = g_stdin_waiter s"
    using s1 assms(2)
    by (auto simp: schedule_out_def Let_def cur_def thread_mark_not_running_def mark_not_running_def upd_thread_def)
  then show ?thesis using waiter_pick [OF s2] by (simp add: s' schedule_in_sel)
qed

lemma block_ok:
  assumes K: "kinv s" and R: "running s h tf" and w: "is_worker (cur s h)"
  shows "\<exists>s'. thread_wait_for_stdin h buf len tf s = Inr s' \<and> kinv s'
      \<and> sched_abs s' = dispatch h False (sched_abs s)
      \<and> t_state (g_threads s' (cur s h)) = THREAD_BLOCKED
      \<and> t_pending_read_buf (g_threads s' (cur s h)) = buf
      \<and> t_pending_read_len (g_threads s' (cur s h)) = len
      \<and> g_stdin_waiter s' = cur s h \<and> heap_u8 s' = heap_u8 s"
proof -
  let ?f = "\<lambda>t. t\<lparr>t_pending_read_buf := buf, t_pending_read_len := len, t_state := THREAD_BLOCKED\<rparr>"
  let ?s0 = "(upd_thread (cur s h) ?f s)\<lparr>g_stdin_waiter := cur s h\<rparr>"
  note V = running_valid [OF K R]
  have off: "\<not> t_on_rq (g_threads s (cur s h))"
    using kinv_current(3) [OF K running_live [OF R] refl w] by (simp add: onrq_def)
  have st: "- 1 \<le> cur s h \<and> cur s h < THREAD_MAX" using V by (simp add: valid_tid_def)
  obtain s' where s': "schedule h tf ?s0 = Inr s'" "kinv s'" "switched h ?s0 s'"
    "sched_abs s' = dispatch h False (sched_abs s)"
    "rq_erase (g_threads s' (cur s h)) = rq_erase (switched_out h ?s0)"
    using stop_current [OF K R w, of ?f "cur s h"] st off by auto
  have "cur ?s0 h = cur s h" by (simp add: cur_def)
  then have out: "switched_out h ?s0 = mark_not_running (?f (g_threads s (cur s h)))"
    using w idle_not_worker [OF live_bound [OF running_live [OF R]]]
    by (auto simp: switched_out_def Let_def reaped_def)
  note E = erase_sel [OF s'(5) [unfolded out]]
  have id: "t_id (g_threads s (cur s h)) = cur s h" using common_id [OF kinv_common [OF K] V] .
  have s0: "upd_thread (cur s h) (\<lambda>t. t\<lparr>t_state := THREAD_BLOCKED\<rparr>)
      ((upd_thread (cur s h) (\<lambda>t. t\<lparr>t_pending_read_buf := buf, t_pending_read_len := len\<rparr>) s)\<lparr>g_stdin_waiter := cur s h\<rparr>) = ?s0"
    by (simp add: upd_thread_def)
  have "thread_wait_for_stdin h buf len tf s = Inr s'"
    using s'(1) V id
    by (simp add: thread_wait_for_stdin_def thread_block_def Let_def thread_current_def current_tid_get_def
        cur_def [symmetric] s0)
  moreover have "g_stdin_waiter s' = cur s h" using waiter_schedule [OF s'(1)] by (simp add: cur_def)
  moreover have "heap_u8 s' = heap_u8 s" using switchedD(8) [OF s'(3)] by simp
  ultimately show ?thesis using s'(2,4) E by (auto simp: mark_not_running_def)
qed

section \<open>Handing an exit code to a joiner\<close>

lemma cpus_eq_refl [simp]: "cpus_eq s s"
  by (simp add: cpus_eq_def)

text \<open>The three updates of the joiner's slot.\<close>

definition joined :: "Thread \<Rightarrow> Thread" where
  "joined w = w\<lparr>t_tf := (t_tf w)\<lparr>tf_a0 := 0\<rparr>, t_waiting_for := -1, t_join_status_ptr := 0\<rparr>"

text \<open>A wake-up appended \<open>j\<close> to one queue.\<close>

definition queued :: "int \<Rightarrow> kstate \<Rightarrow> kstate \<Rightarrow> bool" where
  "queued j s s' \<longleftrightarrow> (\<exists>k<MAX_HARTS. rq_list s' = (rq_list s)(k := rq_list s k @ [j]))"

lemma woken_queued: "woken t u s s' \<Longrightarrow> queued t s s'"
  by (auto simp: woken_def queued_def placed_def)

lemma onlyI_same:
  assumes "g_cpus s' = g_cpus s" "g_boot_hartid s' = g_boot_hartid s"
    "\<And>i. i \<noteq> t \<Longrightarrow> g_threads s' i = g_threads s i"
  shows "only t s s'"
  using assms by (simp add: only_def cpus_eqI onrq_def)

lemma notify_ok:
  assumes K: "kinv s" and L: "live s h" and j: "0 \<le> j" "j < THREAD_MAX" and S: "settled s j"
  shows "\<exists>s'. notify_joiner h j code s = Inr s' \<and> kinv s' \<and> only j s s'
      \<and> own_part ((g_threads s' j)\<lparr>t_wakeup_tick := 0\<rparr>) = own_part ((joined (g_threads s j))\<lparr>t_wakeup_tick := 0\<rparr>)
      \<and> (t_join_status_ptr (g_threads s j) \<noteq> 0 \<longrightarrow> load_int32 (t_join_status_ptr (g_threads s j)) s' = code)
      \<and> (t_state (g_threads s j) = THREAD_WAITING \<longrightarrow> is_worker j \<and> queued j s s' \<and> onrq s' j)
      \<and> (\<not> queued j s s' \<longrightarrow> rq_list s' = rq_list s)
      \<and> g_ticks s' = g_ticks s \<and> g_stdin_waiter s' = g_stdin_waiter s"
proof -
  define p where "p = t_join_status_ptr (g_threads s j)"
  define s1 where "s1 = (if p \<noteq> 0 then store_int32 p code s else s)"
  have same: "g_threads s1 = g_threads s" "g_cpus s1 = g_cpus s" "g_runqueues s1 = g_runqueues s"
    "g_boot_hartid s1 = g_boot_hartid s" "g_stdin_waiter s1 = g_stdin_waiter s" "g_ticks s1 = g_ticks s"
    by (simp_all add: s1_def)
  note V = kinv_cong [OF same(1-5)]
  have K1: "kinv s1" using K V(1) by simp
  have ld: "load_int32 p s1 = code" if "p \<noteq> 0" using that by (simp add: s1_def)
  have hart: "c_hartid (g_cpus s h) = h" using common_hart [OF kinv_common [OF K] L] .
  have run: "notify_joiner h j code s = thread_make_runnable h j h (upd_thread j joined s1)"
    using hart by (simp add: notify_joiner_def Let_def s1_def p_def joined_def [abs_def])
  have f: "t_rq_next (joined t) = t_rq_next t" "t_on_rq (joined t) = t_on_rq t" "t_id (joined t) = t_id t"
    "t_running_hart (joined t) = t_running_hart t" "t_state (joined t) = t_state t"
    "t_can_be_killed (joined t) = t_can_be_killed t" for t by (simp_all add: joined_def)
  note U = wf_upd_thread [of joined s1 j]
  show ?thesis
  proof (cases "\<not> is_worker j \<or> onrq s j \<or> t_state (g_threads s j) = THREAD_RUNNING")
    case True
    then have "notify_joiner h j code s = Inr (upd_thread j joined s1)"
      unfolding run by (intro make_runnable_noop) (simp add: f U V same)
    moreover have "t_state (g_threads s j) \<noteq> THREAD_WAITING"
    proof (cases "is_worker j")
      case w: True
      then show ?thesis using True common_runnable [OF kinv_common [OF K] w] by auto
    next
      case False
      with j have "\<exists>k<MAX_HARTS. j = int k" by (auto simp: is_worker_def intro: exI [of _ "nat j"])
      then show ?thesis using common_idle [OF kinv_common [OF K]] by (auto split: if_splits)
    qed
    moreover have "only j s (upd_thread j joined s1)" by (rule onlyI_same) (simp_all add: same)
    moreover have "load_int32 p (upd_thread j joined s1) = load_int32 p s1" by (simp add: load_int32_def)
    ultimately show ?thesis
      using kinv_same [OF K1, of joined j] ld f U(3) by (simp add: same V p_def)
  next
    case False
    then have w: "is_worker j" and off: "\<not> onrq s1 j" and st: "t_state (g_threads s j) \<noteq> THREAD_RUNNING"
      by (simp_all add: V)
    have nc: "cur s1 k \<noteq> j" if "live s1 k" for k
      using kinv_current(1,2) [OF K _ _ w, of k] that S st by (auto simp: V settled_def)
    obtain s' where s': "thread_make_runnable h j h (upd_thread j joined s1) = Inr s'" "kinv s'"
      "woken j (joined (g_threads s1 j)) s1 s'"
      using make_runnable_ok [OF K1 live_bound [OF L] w off nc, of joined h] f st by (auto simp: same)
    note D = wokenD [OF s'(3)]
    have O: "only j s s'" using D(1) by (simp add: only_def cpus_eq_def same V)
    have T: "own_part ((g_threads s' j)\<lparr>t_wakeup_tick := 0\<rparr>) = own_part ((joined (g_threads s j))\<lparr>t_wakeup_tick := 0\<rparr>)"
      using own_part_erase [OF D(5)]
      by (cases "g_threads s' j"; cases "joined (g_threads s j)") (simp add: own_part_def same)
    have q: "queued j s s'" using woken_queued [OF s'(3)] by (simp add: queued_def V)
    have "load_int32 p s' = code" if "p \<noteq> 0" using ld [OF that] D(6) by (simp add: load_int32_def)
    then show ?thesis
      using s'(1,2) O T q D(2-4) w by (simp add: run same p_def)
  qed
qed

section \<open>Exit\<close>

lemma exit_alone_ok:
  assumes K: "kinv s" and R: "running s h tf" and w: "is_worker (cur s h)"
    and j: "\<not> (0 \<le> t_join_waiter (g_threads s (cur s h)) \<and> t_join_waiter (g_threads s (cur s h)) < THREAD_MAX)"
  shows "\<exists>s'. thread_sys_exit h tf code s = Inr s' \<and> kinv s' \<and> sched_abs s' = dispatch h False (sched_abs s)
      \<and> (if t_detached (g_threads s (cur s h)) then t_state (g_threads s' (cur s h)) = THREAD_UNUSED
         else t_state (g_threads s' (cur s h)) = THREAD_ZOMBIE \<and> t_exit_code (g_threads s' (cur s h)) = code
           \<and> t_join_waiter (g_threads s' (cur s h)) = -1 \<and> \<not> t_detached (g_threads s' (cur s h)))"
proof -
  let ?f = "\<lambda>t. t\<lparr>t_tf := get_tf tf s, t_exit_code := code, t_state := THREAD_ZOMBIE, t_on_rq := False,
    t_rq_next := -1, t_join_waiter := -1\<rparr>"
  let ?s0 = "(upd_thread (cur s h) ?f s)\<lparr>g_stdin_waiter := g_stdin_waiter s\<rparr>"
  have s0: "?s0 = upd_thread (cur s h) ?f s" by (simp add: upd_thread_def)
  obtain s' where s': "schedule h tf ?s0 = Inr s'" "kinv s'" "sched_abs s' = dispatch h False (sched_abs s)"
    "rq_erase (g_threads s' (cur s h)) = rq_erase (switched_out h ?s0)"
    using stop_current [OF K R w, of ?f "g_stdin_waiter s"] common_stdin [OF kinv_common [OF K]] by auto
  have T: "g_threads ?s0 (cur s h) = ?f (g_threads s (cur s h))" by simp
  have ne: "cur s h \<noteq> int h" using w idle_not_worker [OF live_bound [OF running_live [OF R]]] by auto
  have out: "switched_out h ?s0 = (let t = mark_not_running (?f (g_threads s (cur s h))) in
      if t_detached (g_threads s (cur s h)) then recycle t else t)"
    using ne by (simp add: switched_out_def reaped_def Let_def T)
  note E = erase_sel [OF s'(4) [unfolded out]]
  have run: "thread_sys_exit h tf code s = Inr s'"
    using running_valid [OF K R] s'(1) [unfolded s0] j
    by (auto simp: thread_sys_exit_def Let_def current_tid_get_def cur_def [symmetric] upd_thread_twice)
  show ?thesis using run s'(2,3) E by (auto simp: Let_def rq_erase_recycle)
qed

lemma exit_joined_ok:
  assumes K: "kinv s" and R: "running s h tf" and w: "is_worker (cur s h)"
    and jd: "j = t_join_waiter (g_threads s (cur s h))"
    and j: "0 \<le> j" "j < THREAD_MAX" "j \<noteq> cur s h" "settled s j"
  shows "\<exists>s'. thread_sys_exit h tf code s = Inr s' \<and> kinv s' \<and> t_state (g_threads s' (cur s h)) = THREAD_UNUSED
      \<and> tf_a0 (t_tf (g_threads s' j)) = 0
      \<and> (t_join_status_ptr (g_threads s j) \<noteq> 0 \<longrightarrow> load_int32 (t_join_status_ptr (g_threads s j)) s' = code)
      \<and> (t_state (g_threads s j) = THREAD_WAITING \<longrightarrow>
          (\<exists>k<MAX_HARTS. sched_abs s' = dispatch h False (cur s, (rq_list s)(k := rq_list s k @ [j]))))"
proof -
  define c where "c = cur s h"
  define f where "f = (\<lambda>t :: Thread. t\<lparr>t_tf := get_tf tf s, t_exit_code := code, t_state := THREAD_ZOMBIE, t_on_rq := False,
    t_rq_next := -1\<rparr>)"
  define s1 where "s1 = upd_thread c f s"
  have wc: "is_worker c" and jc: "j \<noteq> c" using w j by (simp_all add: c_def)
  have L: "live s h" using R by (rule running_live)
  have off: "\<not> onrq s c" and rh: "t_running_hart (g_threads s c) = int h"
    using kinv_current [OF K L refl w] by (simp_all add: c_def)
  note V1 = wf_upd_off [OF kinv_wf [OF K] off, of f]
  have v1: "onrq s1 = onrq s" "rq_list s1 = rq_list s" "rq_wf s1" using V1 by (simp_all add: s1_def f_def)
  have T1: "g_threads s1 c = f (g_threads s c)" by (simp add: s1_def)
  have K1: "kinv s1"
    using common_id [OF kinv_common [OF K] worker_valid [OF wc]] rh off common_stdin [OF kinv_common [OF K]]
    by (intro kinv_only_current [OF K _ v1(3) L w])
      (simp_all add: T1 v1 c_def [symmetric], simp_all add: s1_def only_upd_thread f_def)
  have S1: "settled s1 j" "g_threads s1 j = g_threads s j" using j(4) jc by (simp_all add: settled_def s1_def)
  have L1: "live s1 h" using L by (simp add: s1_def)
  obtain s2 where s2: "notify_joiner h j code s1 = Inr s2" "kinv s2" "only j s1 s2"
    "own_part ((g_threads s2 j)\<lparr>t_wakeup_tick := 0\<rparr>) = own_part ((joined (g_threads s j))\<lparr>t_wakeup_tick := 0\<rparr>)"
    "t_join_status_ptr (g_threads s j) \<noteq> 0 \<longrightarrow> load_int32 (t_join_status_ptr (g_threads s j)) s2 = code"
    "t_state (g_threads s j) = THREAD_WAITING \<longrightarrow> queued j s1 s2"
    using notify_ok [OF K1 L1 j(1,2) S1(1), of code] S1(2) by auto
  note E2 = cpus_eqD [OF onlyD(1) [OF s2(3)]]
  have cl2: "live s2 = live s" "cur s2 = cur s" by (simp_all add: E2 s1_def)
  have off2: "\<not> onrq s2 c" using onlyD(4) [OF s2(3), of c] jc off by (simp add: v1)
  note Rc = recycle_props [OF kinv_wf [OF s2(2)] wc off2]
  define s3 where "s3 = upd_thread c (\<lambda>t. t\<lparr>t_join_waiter := -1\<rparr>) (recycle_thread c s2)"
  have v3: "onrq s3 = onrq s2" "rq_list s3 = rq_list s2" "rq_wf s3"
    unfolding s3_def using wf_upd_thread [of "\<lambda>t. t\<lparr>t_join_waiter := -1\<rparr>" "recycle_thread c s2" c] Rc by simp_all
  have O3: "only c s2 s3" unfolding s3_def by (rule only_trans [OF Rc(1) only_upd_thread])
  have T3: "g_threads s3 c = (recycle (g_threads s2 c))\<lparr>t_join_waiter := -1\<rparr>" by (simp add: s3_def Rc(5))
  have R2: "running s2 h tf" using R by (simp add: running_def cl2)
  have M: "kmid h s3"
    using common_id [OF kinv_common [OF s2(2)] worker_valid [OF wc]] off2 common_stdin [OF kinv_common [OF s2(2)]]
      Rc(6) THREAD_MAX_small wc
    by (intro kmid_only_current [OF kinv_mid [OF s2(2) R2]])
      (simp_all add: cl2 c_def [symmetric] O3 v3 T3 rq_erase_recycle, simp_all add: s3_def)
  have cl3: "live s3 = live s" "cur s3 = cur s" by (simp_all add: s3_def cl2)
  obtain s' where s': "schedule h tf s3 = Inr s'" "kinv s'" "switched h s3 s'"
    using schedule_ok [OF M] running_tf [OF R] by (auto simp: cl3)
  have run: "thread_sys_exit h tf code s = Inr s'"
    using running_valid [OF K R] s'(1) s2(1) jd j
    by (simp add: thread_sys_exit_def Let_def current_tid_get_def cur_def [symmetric] c_def [symmetric]
        s1_def f_def s3_def)
  have nk: "\<not> keeps s3 h" by (simp add: keeps_def cl3 c_def [symmetric] T3 rq_erase_recycle)
  have ne: "cur s' h \<noteq> c"
    using switched_other [OF v3(3) s'(3) _ _ live_bound [OF L]] wc off2
    by (simp add: cl3 c_def [symmetric] T3 rq_erase_recycle v3)
  have Tc: "rq_erase (g_threads s' c) = rq_erase (switched_out h s3)"
    using switchedD(4) [OF s'(3)] ne by (simp add: cl3 c_def)
  have "t_state (switched_out h s3) = THREAD_UNUSED"
    using wc idle_not_worker [OF live_bound [OF L]]
    by (auto simp: switched_out_def Let_def cl3 c_def [symmetric] T3 rq_erase_recycle reaped_def)
  with erase_sel(2) [OF Tc] have U: "t_state (g_threads s' c) = THREAD_UNUSED" by simp
  have "own_part (g_threads s' j) = own_part (g_threads s2 j)"
    using switchedD(6) [OF s'(3), of j] jc own_part_erase [OF onlyD(3) [OF O3 jc]] by (simp add: cl3 c_def)
  with s2(4) have a0: "tf_a0 (t_tf (g_threads s' j)) = 0"
    by (cases "g_threads s' j"; cases "g_threads s2 j"; cases "g_threads s j") (simp add: own_part_def joined_def)
  have "heap_u8 s' = heap_u8 s2" using switchedD(8) [OF s'(3)] by (simp add: s3_def recycle_thread_def)
  then have ld: "load_int32 p s' = load_int32 p s2" for p by (simp add: load_int32_def)
  have "\<exists>k<MAX_HARTS. sched_abs s' = dispatch h False (cur s, (rq_list s)(k := rq_list s k @ [j]))"
    if "t_state (g_threads s j) = THREAD_WAITING"
    using s2(6) that switchedD(1) [OF s'(3)] nk by (auto simp: queued_def sched_abs_def cl3 v3 v1)
  with run s'(2) U a0 s2(5) show ?thesis by (auto simp: ld c_def)
qed

section \<open>Join\<close>

text \<open>The calls that are refused: the code the caller sees in \<open>a0\<close>, and nothing else changes.\<close>

definition join_error :: "kstate \<Rightarrow> int \<Rightarrow> int \<Rightarrow> u64 option" where
  "join_error s c t =
     (if t \<le> 0 \<or> t \<ge> THREAD_MAX then Some (- 1)
      else if t = c then Some (- 2)
      else if t_state (g_threads s t) = THREAD_UNUSED then Some (- 3)
      else if t_detached (g_threads s t) then Some (- 5)
      else if t_join_waiter (g_threads s t) \<ge> 0 \<and> t_join_waiter (g_threads s t) \<noteq> c then Some (- 4)
      else None)"

lemma join_refused:
  assumes "valid_tid (cur s h)" "join_error s (cur s h) t = Some e"
  shows "thread_sys_join h tf t p s = Inr (set_a0 tf e s)"
  using assms
  by (auto simp: thread_sys_join_def join_error_def Let_def current_tid_get_def cur_def [symmetric] split: if_splits)

lemma zombie_worker:
  assumes K: "kinv s" and t: "valid_tid t" and st: "t_state (g_threads s t) \<notin> {THREAD_RUNNING, THREAD_RUNNABLE}"
  shows "is_worker t" "\<not> onrq s t"
proof -
  show w: "is_worker t"
  proof (rule ccontr)
    assume "\<not> is_worker t"
    with t obtain k where "k < MAX_HARTS" "t = int k"
      by (auto simp: is_worker_def valid_tid_def intro: that [of "nat t"])
    with common_idle [OF kinv_common [OF K]] st show False by (auto split: if_splits)
  qed
  show "\<not> onrq s t" using common_runnable [OF kinv_common [OF K] w] st by auto
qed

lemma join_zombie_ok:
  assumes K: "kinv s" and R: "running s h tf" and e: "join_error s (cur s h) t = None"
    and z: "t_state (g_threads s t) = THREAD_ZOMBIE" and S: "settled s t"
  shows "\<exists>s'. thread_sys_join h tf t p s = Inr s' \<and> kinv s' \<and> sched_abs s' = sched_abs s
      \<and> t_state (g_threads s' t) = THREAD_UNUSED
      \<and> tf_a0 (get_tf tf s') = 0 \<and> (p \<noteq> 0 \<longrightarrow> load_int32 p s' = t_exit_code (g_threads s t))"
proof -
  have t: "0 < t" "t < THREAD_MAX" "t \<noteq> cur s h" "\<not> t_detached (g_threads s t)"
    "\<not> (t_join_waiter (g_threads s t) \<ge> 0 \<and> t_join_waiter (g_threads s t) \<noteq> cur s h)"
    using e z by (auto simp: join_error_def split: if_splits)
  have vt: "valid_tid t" using t by (simp add: valid_tid_def)
  note zw = zombie_worker [OF K vt]
  have w: "is_worker t" "\<not> onrq s t" using zw z by simp_all
  define s1 where "s1 = (if p \<noteq> 0 then store_int32 p (t_exit_code (g_threads s t)) s else s)"
  have same: "g_threads s1 = g_threads s" "g_cpus s1 = g_cpus s" "g_runqueues s1 = g_runqueues s"
    "g_boot_hartid s1 = g_boot_hartid s" "g_stdin_waiter s1 = g_stdin_waiter s" by (simp_all add: s1_def)
  note V = kinv_cong [OF same]
  have K1: "kinv s1" using K V(1) by simp
  have nc: "cur s1 k \<noteq> t" if "live s1 k" for k
    using kinv_not_current [OF K _ _ vt, of k] S z that by (simp add: V settled_def)
  have off: "\<not> onrq s1 t" using w by (simp add: V)
  have K2: "kinv (recycle_thread t s1)" using kinv_recycle [OF K1 w(1) off nc] .
  note P = recycle_props [OF kinv_wf [OF K1] w(1) off]
  have run: "thread_sys_join h tf t p s = Inr (set_a0 tf 0 (recycle_thread t s1))"
    using running_valid [OF K R] t z
    by (auto simp: thread_sys_join_def Let_def current_tid_get_def cur_def [symmetric] s1_def)
  have "load_int32 p (set_a0 tf 0 (recycle_thread t s1)) = load_int32 p s1"
    by (simp add: load_int32_def recycle_thread_def)
  moreover have "load_int32 p s1 = t_exit_code (g_threads s t)" if "p \<noteq> 0" using that by (simp add: s1_def)
  moreover have "sched_abs (set_a0 tf 0 (recycle_thread t s1)) = sched_abs s"
    by (simp add: sched_abs_def P V)
  moreover have "t_state (g_threads (set_a0 tf 0 (recycle_thread t s1)) t) = THREAD_UNUSED"
    by (simp add: set_a0_thread P rq_erase_recycle)
  moreover have "tf_a0 (get_tf tf (set_a0 tf 0 (recycle_thread t s1))) = 0"
    using running_tf [OF R] by (simp add: set_a0_def)
  ultimately show ?thesis using run kinv_set_a0 [OF K2] by simp
qed

lemma join_wait_ok:
  assumes K: "kinv s" and R: "running s h tf" and w: "is_worker (cur s h)"
    and e: "join_error s (cur s h) t = None" and z: "t_state (g_threads s t) \<noteq> THREAD_ZOMBIE"
  shows "\<exists>s'. thread_sys_join h tf t p s = Inr s' \<and> kinv s' \<and> sched_abs s' = dispatch h False (sched_abs s)
      \<and> t_state (g_threads s' (cur s h)) = THREAD_WAITING \<and> t_waiting_for (g_threads s' (cur s h)) = t
      \<and> t_join_status_ptr (g_threads s' (cur s h)) = p \<and> t_join_waiter (g_threads s' t) = cur s h"
proof -
  have t: "0 < t" "t < THREAD_MAX" "t \<noteq> cur s h" "\<not> t_detached (g_threads s t)" "t_state (g_threads s t) \<noteq> THREAD_UNUSED"
    "\<not> (t_join_waiter (g_threads s t) \<ge> 0 \<and> t_join_waiter (g_threads s t) \<noteq> cur s h)"
    using e z by (auto simp: join_error_def split: if_splits)
  define s1 where "s1 = upd_thread t (\<lambda>u. u\<lparr>t_join_waiter := cur s h\<rparr>) s"
  have K1: "kinv s1" unfolding s1_def by (rule kinv_same [OF K]) simp_all
  have E1: "cur s1 = cur s" "live s1 = live s" "g_stdin_waiter s1 = g_stdin_waiter s"
    "rq_list s1 = rq_list s" "g_threads s1 (cur s h) = g_threads s (cur s h)"
    using t(3) wf_upd_thread(3) [of "\<lambda>u. u\<lparr>t_join_waiter := cur s h\<rparr>" s t] by (auto simp: s1_def)
  have R1: "running s1 h tf" and w1: "is_worker (cur s1 h)" using R w by (simp_all add: running_def E1)
  let ?f = "\<lambda>c. c\<lparr>t_state := THREAD_WAITING, t_waiting_for := t, t_join_status_ptr := p\<rparr>"
  let ?s0 = "(upd_thread (cur s1 h) ?f s1)\<lparr>g_stdin_waiter := g_stdin_waiter s1\<rparr>"
  have s0: "?s0 = upd_thread (cur s1 h) ?f s1" by (simp add: upd_thread_def)
  have off: "\<not> t_on_rq (g_threads s1 (cur s1 h))"
    using kinv_current(3) [OF K1 running_live [OF R1] refl w1] by (simp add: onrq_def)
  obtain s' where s': "schedule h tf ?s0 = Inr s'" "kinv s'" "switched h ?s0 s'"
    "sched_abs s' = dispatch h False (sched_abs s1)"
    "rq_erase (g_threads s' (cur s1 h)) = rq_erase (switched_out h ?s0)"
    using stop_current [OF K1 R1 w1, of ?f "g_stdin_waiter s1"] common_stdin [OF kinv_common [OF K1]] off by auto
  have T: "g_threads ?s0 (cur s1 h) = ?f (g_threads s1 (cur s1 h))" by simp
  have out: "switched_out h ?s0 = mark_not_running (?f (g_threads s (cur s h)))"
    using w idle_not_worker [OF live_bound [OF running_live [OF R]]]
    by (auto simp: switched_out_def Let_def reaped_def T E1)
  note E = erase_sel [OF s'(5) [unfolded out, unfolded E1(1)]]
  have swap: "upd_thread t (\<lambda>u. u\<lparr>t_join_waiter := cur s h\<rparr>) (upd_thread (cur s h) ?f s) = upd_thread (cur s1 h) ?f s1"
    unfolding s1_def E1(1) [unfolded s1_def] by (rule upd_thread_other_commute [OF t(3)])
  have run: "thread_sys_join h tf t p s = schedule h tf
      (upd_thread t (\<lambda>u. u\<lparr>t_join_waiter := cur s h\<rparr>) (upd_thread (cur s h) ?f s))"
    using running_valid [OF K R] t z
    by (auto simp: thread_sys_join_def Let_def current_tid_get_def cur_def [symmetric])
  have run: "thread_sys_join h tf t p s = Inr s'" unfolding run swap using s'(1) unfolding s0 .
  have "own_part (g_threads s' t) = own_part (g_threads s1 t)"
    using switchedD(6) [OF s'(3), of t] t(3) by (auto simp: E1)
  from own_part_sel(6) [OF this] have "t_join_waiter (g_threads s' t) = cur s h" by (simp add: s1_def)
  with run s'(2,4) E(2,16,17) show ?thesis by (auto simp: sched_abs_def E1 mark_not_running_def)
qed

end
