(* ===== verification/Thread_Life.thy ===== *)
theory Thread_Life
  imports Syscall_Thread
begin

text \<open>
  Creation, wake-ups, the clock tick, killing and detaching of threads, against the scheduler
  invariant: the operations of \<open>kernel/thread.c\<close> that act on a thread other than the caller.
\<close>

section \<open>Waking\<close>

lemma upd_thread_id [simp]: "upd_thread t (\<lambda>u. u) s = s"
  by (simp add: upd_thread_def)

lemma not_current_state:
  assumes "kinv s" "is_worker t" "t_state (g_threads s t) \<notin> {THREAD_RUNNING, THREAD_ZOMBIE}" "live s k"
  shows "cur s k \<noteq> t"
  using kinv_current(1) [OF assms(1,4) _ assms(2)] assms(3) by blast

lemma wake_ok:
  assumes K: "kinv s" and L: "live s h" and t: "0 \<le> t" "t < THREAD_MAX" "t_state (g_threads s t) = THREAD_BLOCKED"
  shows "\<exists>s'. thread_wake h t s = Inr s' \<and> kinv s' \<and> woken t (g_threads s t) s s'"
proof -
  have w: "is_worker t" "\<not> onrq s t" using zombie_worker [OF K, of t] t by (simp_all add: valid_tid_def)
  have "c_hartid (g_cpus s h) = h" using common_hart [OF kinv_common [OF K] L] .
  then have run: "thread_wake h t s = thread_make_runnable h t h (upd_thread t (\<lambda>u. u) s)"
    using t by (simp add: thread_wake_def)
  show ?thesis
    unfolding run using make_runnable_ok [OF K live_bound [OF L] w, of "\<lambda>u. u" h] not_current_state [OF K w(1)] t by auto
qed

lemma wake_noop: "t_state (g_threads s t) \<noteq> THREAD_BLOCKED \<Longrightarrow> thread_wake h t s = Inr s"
  by (simp add: thread_wake_def)

lemma wake_keeps:
  assumes K: "kinv s" and L: "live s h"
  shows "\<exists>s'. thread_wake h t s = Inr s' \<and> kinv s' \<and> cpus_eq s s'"
proof (cases "0 \<le> t \<and> t < THREAD_MAX \<and> t_state (g_threads s t) = THREAD_BLOCKED")
  case True
  then show ?thesis using wake_ok [OF K L, of t] onlyD(1) [OF wokenD(1)] by blast
next
  case False
  then have "thread_wake h t s = Inr s" by (auto simp: thread_wake_def)
  then show ?thesis using K by simp
qed

section \<open>Creation\<close>

lemma alloc_slot:
  assumes "alloc_thread_slot s = i" "i \<noteq> -1"
  shows "1 \<le> i \<and> i < THREAD_MAX \<and> t_state (g_threads s i) = THREAD_UNUSED
     \<and> (\<forall>j. 1 \<le> j \<longrightarrow> j < i \<longrightarrow> t_state (g_threads s j) \<noteq> THREAD_UNUSED)"
proof -
  have "find (\<lambda>i. t_state (g_threads s i) = THREAD_UNUSED) [1..THREAD_MAX - 1] = Some i"
    using assms by (auto simp: alloc_thread_slot_def split: option.splits)
  then obtain n where n: "n < length [1..THREAD_MAX - 1]" "i = [1..THREAD_MAX - 1] ! n"
    "t_state (g_threads s i) = THREAD_UNUSED"
    "\<And>j. j < n \<Longrightarrow> t_state (g_threads s ([1..THREAD_MAX - 1] ! j)) \<noteq> THREAD_UNUSED"
    by (auto simp: find_Some_iff)
  have i: "i = 1 + int n" using n(1,2) by simp
  have "t_state (g_threads s j) \<noteq> THREAD_UNUSED" if "1 \<le> j" "j < i" for j
    using n(4) [of "nat (j - 1)"] that n(1) i by (simp add: nat_less_iff)
  with n i show ?thesis by simp
qed

lemma alloc_none:
  "alloc_thread_slot s = -1 \<longleftrightarrow> (\<forall>j. 1 \<le> j \<longrightarrow> j < THREAD_MAX \<longrightarrow> t_state (g_threads s j) \<noteq> THREAD_UNUSED)"
proof -
  have "alloc_thread_slot s = -1 \<longleftrightarrow> find (\<lambda>i. t_state (g_threads s i) = THREAD_UNUSED) [1..THREAD_MAX - 1] = None"
  proof (cases "find (\<lambda>i. t_state (g_threads s i) = THREAD_UNUSED) [1..THREAD_MAX - 1]")
    case (Some x)
    then have "x \<in> set [1..THREAD_MAX - 1]" unfolding find_Some_iff using nth_mem by blast
    with Some show ?thesis by (auto simp: alloc_thread_slot_def)
  qed (simp add: alloc_thread_slot_def)
  then show ?thesis by (auto simp: find_None_iff)
qed

text \<open>The context of a fresh user thread: entry point and argument, a 16-byte aligned stack, user mode
  (\<open>SPP\<close> clear) with interrupts on after \<open>sret\<close> (\<open>SPIE\<close> set, \<open>SIE\<close> clear).\<close>

definition fresh_context :: "u64 \<Rightarrow> u64 \<Rightarrow> trapframe \<Rightarrow> bool" where
  "fresh_context entry arg f \<longleftrightarrow> tf_sepc f = entry \<and> tf_a0 f = arg \<and> tf_sp f AND 0xF = 0
     \<and> tf_sstatus f AND SSTATUS_SPP = 0 \<and> tf_sstatus f AND SSTATUS_SIE = 0
     \<and> tf_sstatus f AND SSTATUS_SPIE = SSTATUS_SPIE"

lemma bit_SSTATUS:
  "bit SSTATUS_SPP n \<longleftrightarrow> n = 8" "bit SSTATUS_SIE n \<longleftrightarrow> n = 1" "bit SSTATUS_SPIE n \<longleftrightarrow> n = 5"
  unfolding SSTATUS_SPP_def SSTATUS_SIE_def SSTATUS_SPIE_def
  by (auto simp only: bit_push_bit_iff bit_1_iff possible_bit_word len_of_numeral_defs)

lemma sstatus_bits:
  fixes x :: u64
  shows "(x AND NOT SSTATUS_SPP AND NOT SSTATUS_SIE OR SSTATUS_SPIE) AND SSTATUS_SPP = 0"
    "(x AND NOT SSTATUS_SPP AND NOT SSTATUS_SIE OR SSTATUS_SPIE) AND SSTATUS_SIE = 0"
    "(x AND NOT SSTATUS_SPP AND NOT SSTATUS_SIE OR SSTATUS_SPIE) AND SSTATUS_SPIE = SSTATUS_SPIE"
  by (rule bit_word_eqI; auto simp: bit_and_iff bit_or_iff bit_not_iff bit_SSTATUS)+

lemma aligned_16: "((x :: u64) AND -16) AND 15 = 0"
proof -
  have "(x AND -16) AND 15 = x AND (-16 AND 15)" by (simp only: and.assoc)
  also have "(-16 :: u64) AND 15 = 0" by simp
  finally show ?thesis by simp
qed

text \<open>The slot contents that \<open>thread_create_user\<close> writes before it enqueues the thread.\<close>

definition user_slot :: "nat \<Rightarrow> u64 \<Rightarrow> u64 \<Rightarrow> cname option \<Rightarrow> int \<Rightarrow> kstate \<Rightarrow> Thread \<Rightarrow> Thread" where
  "user_slot h entry arg name tid s t = t\<lparr>t_state := THREAD_RUNNABLE, t_wakeup_tick := 0,
     t_name := (case name of Some n \<Rightarrow> n | None \<Rightarrow> CLit ''uthread''),
     t_stack_base := thread_stack tid s, t_is_user := True, t_can_be_killed := True, t_detached := False,
     t_tf := tf_clear\<lparr>tf_sp := (thread_stack tid s + THREAD_STACK_SIZE) AND NOT 0xF,
        tf_sepc := entry, tf_a0 := arg,
        tf_sstatus := ((csr_sstatus s h) AND NOT (SSTATUS_SPP OR SSTATUS_SIE)) OR SSTATUS_SPIE\<rparr>\<rparr>"

lemma create_eq:
  assumes "alloc_thread_slot s = tid" "0 \<le> tid"
  shows "thread_create_user h entry arg name s =
    bindE (thread_make_runnable h tid (c_hartid (g_cpus s h)) (upd_thread tid (user_slot h entry arg name tid s) s))
      (\<lambda>s3. Inr (tid, s3))"
proof -
  have "csr_sstatus (upd_thread i f s) h = csr_sstatus s h" for i f by (simp add: upd_thread_def)
  with assms show ?thesis
    by (simp add: thread_create_user_def Let_def init_thread_context_u_def upd_thread_twice user_slot_def [abs_def])
qed

lemma create_ok:
  assumes K: "kinv s" and L: "live s h" and a: "alloc_thread_slot s = tid" "tid \<noteq> -1"
  shows "\<exists>s'. thread_create_user h entry arg name s = Inr (tid, s') \<and> kinv s' \<and> is_worker tid
      \<and> woken tid (user_slot h entry arg name tid s (g_threads s tid)) s s'
      \<and> fresh_context entry arg (t_tf (g_threads s' tid))"
proof -
  have t: "1 \<le> tid" "tid < THREAD_MAX" "t_state (g_threads s tid) = THREAD_UNUSED" using alloc_slot [OF a] by auto
  have w: "is_worker tid" "\<not> onrq s tid" using zombie_worker [OF K, of tid] t by (simp_all add: valid_tid_def)
  have c: "c_hartid (g_cpus s h) = h" using common_hart [OF kinv_common [OF K] L] .
  let ?f = "user_slot h entry arg name tid s"
  obtain s' where s': "thread_make_runnable h tid h (upd_thread tid ?f s) = Inr s'" "kinv s'"
    "woken tid (?f (g_threads s tid)) s s'"
    using make_runnable_ok [OF K live_bound [OF L] w, of ?f h] not_current_state [OF K w(1)] t
    by (auto simp: user_slot_def)
  have "t_tf (g_threads s' tid) = t_tf (?f (g_threads s tid))" using erase_sel(12) [OF wokenD(5) [OF s'(3)]] by simp
  then have "fresh_context entry arg (t_tf (g_threads s' tid))"
    by (simp add: fresh_context_def user_slot_def sstatus_bits aligned_16)
  with s' w create_eq [OF a(1)] t(1) c show ?thesis by simp
qed

lemma create_full:
  assumes "alloc_thread_slot s = -1"
  shows "thread_create_user h entry arg name s = Inr (-1, s)"
  using assms by (simp add: thread_create_user_def Let_def)

section \<open>The clock tick\<close>

definition due :: "kstate \<Rightarrow> int \<Rightarrow> bool" where
  "due s i \<longleftrightarrow> t_state (g_threads s i) = THREAD_SLEEPING \<and> t_wakeup_tick (g_threads s i) \<le> g_ticks s"

text \<open>\<open>awoke is s s'\<close>: between the two states exactly the threads due among \<open>is\<close> have been made
  runnable, each at the tail of some queue.\<close>

definition awoke :: "int set \<Rightarrow> kstate \<Rightarrow> kstate \<Rightarrow> bool" where
  "awoke A s s' \<longleftrightarrow> cpus_eq s s' \<and> g_ticks s' = g_ticks s \<and> g_stdin_waiter s' = g_stdin_waiter s
     \<and> g_boot_hartid s' = g_boot_hartid s \<and> heap_u8 s' = heap_u8 s
     \<and> (\<forall>i\<in>A. due s i \<longrightarrow> onrq s' i \<and> t_state (g_threads s' i) = THREAD_RUNNABLE)
     \<and> (\<forall>i. \<not> (i \<in> A \<and> due s i) \<longrightarrow> rq_erase (g_threads s' i) = rq_erase (g_threads s i) \<and> onrq s' i = onrq s i)
     \<and> (\<forall>k. \<exists>ts. rq_list s' k = rq_list s k @ ts)"

lemma awoke_refl: "\<forall>i\<in>A. \<not> due s i \<Longrightarrow> awoke A s s"
  by (auto simp: awoke_def)

lemma awoke_step:
  assumes W: "woken i u s s1" and u: "rq_erase u = rq_erase ((g_threads s i)\<lparr>t_wakeup_tick := 0\<rparr>)"
    and d: "due s i" and i: "i \<notin> A" and A: "awoke A s1 s2"
  shows "awoke (insert i A) s s2"
proof -
  note D = wokenD [OF W]
  have due1: "due s1 k = due s k" if "k \<noteq> i" for k
    using erase_sel(2,3) [OF onlyD(3) [OF D(1) that]] D(3) by (simp add: due_def)
  have st1: "t_state (g_threads s1 i) = THREAD_RUNNABLE" "onrq s1 i" "\<not> due s1 i"
    using erase_sel(2) [OF D(5)] D(2) by (auto simp: due_def)
  have E: "rq_erase (g_threads s2 k) = rq_erase (g_threads s1 k)" "onrq s2 k = onrq s1 k"
    if "\<not> (k \<in> A \<and> due s1 k)" for k using A that by (auto simp: awoke_def)
  have ext: "\<exists>ts. rq_list s2 k = rq_list s k @ ts" for k
  proof -
    obtain ts where "rq_list s2 k = rq_list s1 k @ ts" using A unfolding awoke_def by blast
    moreover have "\<exists>us. rq_list s1 k = rq_list s k @ us" using W by (auto simp: woken_def)
    ultimately show ?thesis by auto
  qed
  show ?thesis
    unfolding awoke_def
  proof (intro conjI ballI allI impI)
    show "cpus_eq s s2" using cpus_eq_trans [OF onlyD(1) [OF D(1)]] A by (simp add: awoke_def)
    show "g_ticks s2 = g_ticks s" "g_stdin_waiter s2 = g_stdin_waiter s" "g_boot_hartid s2 = g_boot_hartid s"
      "heap_u8 s2 = heap_u8 s"
      using A D onlyD(2) [OF D(1)] by (simp_all add: awoke_def)
    show "onrq s2 k" "t_state (g_threads s2 k) = THREAD_RUNNABLE" if k: "k \<in> insert i A" "due s k" for k
    proof -
      have "onrq s2 k \<and> t_state (g_threads s2 k) = THREAD_RUNNABLE"
      proof (cases "k = i")
        case True
        with st1 E [of i] i show ?thesis using erase_sel(2) [OF E(1) [of i]] by simp
      next
        case False
        with k due1 [OF False] A show ?thesis by (simp add: awoke_def)
      qed
      then show "onrq s2 k" "t_state (g_threads s2 k) = THREAD_RUNNABLE" by simp_all
    qed
    show "rq_erase (g_threads s2 k) = rq_erase (g_threads s k)" "onrq s2 k = onrq s k"
      if k: "\<not> (k \<in> insert i A \<and> due s k)" for k
    proof -
      have ne: "k \<noteq> i" using k d by auto
      with k due1 have "\<not> (k \<in> A \<and> due s1 k)" by auto
      from E [OF this] onlyD(3,4) [OF D(1) ne]
      show "rq_erase (g_threads s2 k) = rq_erase (g_threads s k)" "onrq s2 k = onrq s k" by simp_all
    qed
  qed (rule ext)
qed

lemma tick_loop_ok:
  assumes "kinv s" "live s h" "distinct is" "\<forall>i\<in>set is. valid_tid i"
  shows "\<exists>s'. tick_loop h is s = Inr s' \<and> kinv s' \<and> awoke (set is) s s'"
  using assms
proof (induction "is" arbitrary: s)
  case Nil
  then show ?case by (simp add: awoke_refl)
next
  case (Cons i js)
  show ?case
  proof (cases "due s i")
    case True
    note K = Cons.prems(1)
    have w: "is_worker i" "\<not> onrq s i" using zombie_worker [OF K, of i] Cons.prems(4) True by (simp_all add: due_def)
    let ?f = "\<lambda>t. t\<lparr>t_wakeup_tick := 0\<rparr>"
    obtain s1 where s1: "thread_make_runnable h i (g_boot_hartid s) (upd_thread i ?f s) = Inr s1" "kinv s1"
      "woken i (?f (g_threads s i)) s s1"
      using make_runnable_ok [OF K common_boot [OF kinv_common [OF K]] w, of ?f h] not_current_state [OF K w(1)] True
      by (auto simp: due_def)
    have L1: "live s1 h" using Cons.prems(2) cpus_eqD(1) [OF onlyD(1) [OF wokenD(1) [OF s1(3)]]] by simp
    obtain s2 where s2: "tick_loop h js s1 = Inr s2" "kinv s2" "awoke (set js) s1 s2"
      using Cons.IH [OF s1(2) L1] Cons.prems(3,4) by auto
    have "awoke (set (i # js)) s s2" using awoke_step [OF s1(3) _ True _ s2(3)] Cons.prems(3) by simp
    with s1(1) s2 True show ?thesis by (auto simp: due_def)
  next
    case False
    obtain s2 where s2: "tick_loop h js s = Inr s2" "kinv s2" "awoke (set js) s s2"
      using Cons.IH [OF Cons.prems(1,2)] Cons.prems(3,4) by auto
    have "awoke (set (i # js)) s s2"
      using s2(3) False unfolding awoke_def by (metis insert_iff list.set(2))
    with s2 False show ?thesis by (auto simp: due_def)
  qed
qed

lemma tick_ok:
  assumes K: "kinv s" and L: "live s h"
  shows "\<exists>s'. threads_tick h s = Inr s' \<and> kinv s' \<and> awoke {t. valid_tid t} (s\<lparr>g_ticks := g_ticks s + 1\<rparr>) s'"
proof -
  let ?s = "s\<lparr>g_ticks := g_ticks s + 1\<rparr>"
  note V = kinv_cong [of ?s s]
  have "set [0..THREAD_MAX - 1] = {t. valid_tid t}" by (auto simp: valid_tid_def)
  with tick_loop_ok [of ?s h "[0..THREAD_MAX - 1]"] V K L show ?thesis
    by (simp add: threads_tick_def)
qed

section \<open>Kill\<close>

lemma kill_signal_view:
  "g_threads (kill_signal h t s) = g_threads s" "cpus_eq s (kill_signal h t s)"
  "g_runqueues (kill_signal h t s) = g_runqueues s" "g_boot_hartid (kill_signal h t s) = g_boot_hartid s"
  "g_stdin_waiter (kill_signal h t s) = g_stdin_waiter s" "g_ticks (kill_signal h t s) = g_ticks s"
  by (simp_all add: kill_signal_def Let_def cpus_eq_def)

text \<open>A victim that another hart is executing gets that hart an interrupt.\<close>

lemma kill_signal_ipi:
  assumes "live s k" "t_running_hart (g_threads s t) = int k" "k \<noteq> c_hartid (g_cpus s h)" "smp_boot_done s"
  shows "k_events (kill_signal h t s) = k_events s @ [EvIpi k]"
  using assms by (simp add: kill_signal_def Let_def smp_kick_hart_def live_def)

text \<open>The victim leaves its queue, if it is on one, and becomes a zombie.\<close>

definition zombified :: "int \<Rightarrow> kstate \<Rightarrow> kstate \<Rightarrow> bool" where
  "zombified t s s' \<longleftrightarrow> only t s s' \<and> \<not> onrq s' t
     \<and> rq_erase (g_threads s' t) = rq_erase ((g_threads s t)\<lparr>t_exit_code := THREAD_EXITCODE_SIGKILL,
          t_state := THREAD_ZOMBIE, t_wakeup_tick := 0\<rparr>)
     \<and> rq_list s' = (\<lambda>k. remove1 t (rq_list s k))
     \<and> g_ticks s' = g_ticks s \<and> g_stdin_waiter s' = g_stdin_waiter s"

lemma zombify_view:
  assumes K: "kinv s" and w: "is_worker t"
  defines "s1 \<equiv> upd_thread t (\<lambda>t. t\<lparr>t_exit_code := THREAD_EXITCODE_SIGKILL, t_state := THREAD_ZOMBIE,
    t_wakeup_tick := 0\<rparr>) s"
  shows "\<exists>s2. (if t_on_rq (g_threads s1 t) then bindE (rq_remove_any t s1) (\<lambda>(_, s'). Inr s') else Inr s1) = Inr s2
      \<and> rq_wf s2 \<and> zombified t s s2"
proof -
  let ?f = "\<lambda>t. t\<lparr>t_exit_code := THREAD_EXITCODE_SIGKILL, t_state := THREAD_ZOMBIE, t_wakeup_tick := 0\<rparr>"
  have v1: "onrq s1 = onrq s" "rq_list s1 = rq_list s" "rq_wf s1"
    unfolding s1_def using wf_upd_thread [of ?f s t] kinv_wf [OF K] by simp_all
  have O1: "only t s s1" unfolding s1_def by (rule only_upd_thread)
  show ?thesis
  proof (cases "onrq s1 t")
    case True
    then obtain k where k: "k < MAX_HARTS" "t \<in> set (rq_list s1 k)" using rq_wf_onrq [OF v1(3)] w by auto
    obtain s2 where s2: "rq_remove_any t s1 = Inr (int k, s2)" "rq_wf s2"
      "rq_list s2 = (rq_list s1)(k := remove1 t (rq_list s1 k))" "rq_frame s1 s2" "onrq s2 = (onrq s1)(t := False)"
      using rq_remove_any_wf [OF v1(3) k] by blast
    have "t \<notin> set (rq_list s l)" if "l \<noteq> k" for l
      using rq_wf_disjoint [OF v1(3) k(2), of l] that by (auto simp: v1)
    then have Q: "rq_list s2 = (\<lambda>k. remove1 t (rq_list s k))" using s2(3) by (auto simp: v1 fun_eq_iff remove1_idem)
    have "zombified t s s2"
      unfolding zombified_def
      using only_trans [OF O1 only_frame [OF s2(4,5)]] s2(5) rq_frameD [OF s2(4)] Q by (simp add: s1_def)
    with s2 True show ?thesis by (simp add: onrq_def)
  next
    case False
    then have "t \<notin> set (rq_list s k)" for k using rq_wf_worker [OF v1(3), of t k] by (auto simp: v1)
    then have "zombified t s s1"
      using O1 False v1 by (simp add: zombified_def remove1_idem) (simp add: s1_def)
    moreover have "\<not> t_on_rq (g_threads s1 t)" using False by (simp add: onrq_def)
    ultimately show ?thesis using v1(3) by simp
  qed
qed

lemma kinv_zombified:
  assumes K: "kinv s" and w: "is_worker t" and W: "rq_wf s'" and Z: "zombified t s s'"
  shows "kinv s'"
proof -
  have O: "only t s s'" and off: "\<not> onrq s' t" using Z by (simp_all add: zombified_def)
  have T: "rq_erase (g_threads s' t) = rq_erase ((g_threads s t)\<lparr>t_exit_code := THREAD_EXITCODE_SIGKILL,
      t_state := THREAD_ZOMBIE, t_wakeup_tick := 0\<rparr>)" using Z by (simp add: zombified_def)
  note E = erase_sel [OF T]
  have id: "t_id (g_threads s' t) = t" using common_id [OF kinv_common [OF K] worker_valid [OF w]] E(1) by simp
  have sd: "- 1 \<le> g_stdin_waiter s' \<and> g_stdin_waiter s' < THREAD_MAX"
    using common_stdin [OF kinv_common [OF K]] Z by (simp add: zombified_def)
  show ?thesis
  proof (cases "t_running_hart (g_threads s t) < 0")
    case True
    then show ?thesis
      using kinv_not_current [OF K True _ worker_valid [OF w]] off E
      by (intro kinv_only [OF K O W w _ id _ _ _ sd]) simp_all
  next
    case False
    then obtain k where k: "live s k" "t_running_hart (g_threads s t) = int k" "cur s k = t"
      using common_rh [OF kinv_common [OF K] worker_valid [OF w]] by auto
    then show ?thesis
      using O W w id off E sd by (intro kinv_only_current [OF K _ W k(1)]) simp_all
  qed
qed

lemma kinv_upd_join_waiter: "kinv s \<Longrightarrow> kinv (upd_thread t (\<lambda>t. t\<lparr>t_join_waiter := j\<rparr>) s)"
  by (rule kinv_same) simp_all

text \<open>Recycling guarded by the code's own test that the thread is off the queues and not executing.\<close>

lemma recycle_guarded:
  assumes K: "kinv s" and w: "is_worker t" and g: "t_running_hart (g_threads s t) < 0" "\<not> t_on_rq (g_threads s t)"
  shows "kinv (recycle_thread t s)" "t_state (g_threads (recycle_thread t s) t) = THREAD_UNUSED"
    "onrq (recycle_thread t s) = onrq s"
proof -
  have off: "\<not> onrq s t" using g(2) by (simp add: onrq_def)
  show "kinv (recycle_thread t s)"
    using kinv_recycle [OF K w off] kinv_not_current [OF K g(1) _ worker_valid [OF w]] by blast
  show "t_state (g_threads (recycle_thread t s) t) = THREAD_UNUSED" "onrq (recycle_thread t s) = onrq s"
    using recycle_props [OF kinv_wf [OF K] w off] by (simp_all add: rq_erase_recycle)
qed

text \<open>The state of the victim after the kill: gone, or a zombie that is queued nowhere.\<close>

definition dead :: "kstate \<Rightarrow> int \<Rightarrow> bool" where
  "dead s t \<longleftrightarrow> \<not> onrq s t \<and> t_state (g_threads s t) \<in> {THREAD_ZOMBIE, THREAD_UNUSED}"

lemma kill_finish_ok:
  assumes K: "kinv s" and w: "is_worker t" and d: "dead s t"
  shows "kinv (kill_finish t j s) \<and> dead (kill_finish t j s) t"
proof -
  define s1 where "s1 = (if j < 0 then upd_thread t (\<lambda>t. t\<lparr>t_join_waiter := -1\<rparr>) s else s)"
  have K1: "kinv s1" using K by (simp add: s1_def kinv_upd_join_waiter)
  have d1: "dead s1 t" using d by (simp add: s1_def dead_def onrq_def)
  show ?thesis
  proof (cases "j < 0 \<and> t_detached (g_threads s1 t) \<and> t_running_hart (g_threads s1 t) < 0 \<and> \<not> t_on_rq (g_threads s1 t)")
    case True
    have r: "kill_finish t j s = recycle_thread t s1"
      unfolding kill_finish_def Let_def s1_def [symmetric] by (rule if_P [OF True])
    show ?thesis using recycle_guarded [OF K1 w] True d1 by (simp add: r dead_def)
  next
    case False
    have "kill_finish t j s = s1"
      unfolding kill_finish_def Let_def s1_def [symmetric] by (rule if_not_P [OF False])
    with K1 d1 show ?thesis by simp
  qed
qed

lemma kill_thread_ok:
  assumes K: "kinv s" and L: "live s h" and w: "is_worker t" and jd: "j = t_join_waiter (g_threads s t)"
    and J: "0 \<le> j \<Longrightarrow> j < THREAD_MAX \<Longrightarrow> j \<noteq> t \<and> settled s j"
  shows "\<exists>s'. kill_thread h t s = Inr s' \<and> kinv s' \<and> dead s' t"
proof -
  let ?s1 = "upd_thread t (\<lambda>t. t\<lparr>t_exit_code := THREAD_EXITCODE_SIGKILL, t_state := THREAD_ZOMBIE,
    t_wakeup_tick := 0\<rparr>) s"
  obtain s2 where s2: "(if t_on_rq (g_threads ?s1 t) then bindE (rq_remove_any t ?s1) (\<lambda>(_, s'). Inr s')
      else Inr ?s1) = Inr s2" "rq_wf s2" "zombified t s s2"
    using zombify_view [OF K w] by blast
  have K2: "kinv s2" using kinv_zombified [OF K w s2(2,3)] .
  have Z: "only t s s2" "\<not> onrq s2 t" using s2(3) by (simp_all add: zombified_def)
  have zst: "t_state (g_threads s2 t) = THREAD_ZOMBIE"
    using s2(3) erase_sel(2) [of "g_threads s2 t"] by (fastforce simp: zombified_def)
  define s3 where "s3 = kill_signal h t s2"
  note V = kinv_view [OF kill_signal_view(1-5), of h t s2, folded s3_def]
  have T3: "g_threads s3 = g_threads s2" by (simp add: s3_def kill_signal_view)
  have K3: "kinv s3" using K2 V(1) by simp
  have d3: "dead s3 t" using Z(2) zst by (simp add: dead_def V T3)
  have L3: "live s3 h" using L cpus_eqD(1) [OF onlyD(1) [OF Z(1)]] by (simp add: V)
  have "\<exists>s5. (if 0 \<le> j \<and> j < THREAD_MAX
      then bindE (notify_joiner h j (t_exit_code (g_threads s2 t)) s3) (\<lambda>s4.
             if t_running_hart (g_threads s4 t) < 0 \<and> \<not> t_on_rq (g_threads s4 t) then Inr (recycle_thread t s4)
             else Inr (upd_thread t (\<lambda>t. t\<lparr>t_join_waiter := j\<rparr>) s4))
      else Inr s3) = Inr s5 \<and> kinv s5 \<and> dead s5 t"
  proof (cases "0 \<le> j \<and> j < THREAD_MAX")
    case True
    then have jt: "j \<noteq> t" and S: "settled s j" using J by auto
    have S3: "settled s3 j" using S erase_sel(2,8) [OF onlyD(3) [OF Z(1) jt]] by (simp add: settled_def T3)
    obtain s4 where s4: "notify_joiner h j (t_exit_code (g_threads s2 t)) s3 = Inr s4" "kinv s4" "only j s3 s4"
      using notify_ok [OF K3 L3 _ _ S3] True by blast
    have tj: "t \<noteq> j" using jt by simp
    have d4: "dead s4 t" using d3 erase_sel(2) [OF onlyD(3) [OF s4(3) tj]] onlyD(4) [OF s4(3) tj] by (simp add: dead_def)
    show ?thesis
    proof (cases "t_running_hart (g_threads s4 t) < 0 \<and> \<not> t_on_rq (g_threads s4 t)")
      case g: True
      have "dead (recycle_thread t s4) t" using recycle_guarded [OF s4(2) w] g d4 by (simp add: dead_def)
      with g True s4 recycle_guarded(1) [OF s4(2) w] show ?thesis by simp
    next
      case g: False
      have "dead (upd_thread t (\<lambda>t. t\<lparr>t_join_waiter := j\<rparr>) s4) t" using d4 by (simp add: dead_def onrq_def)
      with g True s4 kinv_upd_join_waiter [OF s4(2)] show ?thesis by auto
    qed
  next
    case False
    with K3 d3 show ?thesis by auto
  qed
  then obtain s5 where s5: "(if 0 \<le> j \<and> j < THREAD_MAX
      then bindE (notify_joiner h j (t_exit_code (g_threads s2 t)) s3) (\<lambda>s4.
             if t_running_hart (g_threads s4 t) < 0 \<and> \<not> t_on_rq (g_threads s4 t) then Inr (recycle_thread t s4)
             else Inr (upd_thread t (\<lambda>t. t\<lparr>t_join_waiter := j\<rparr>) s4))
      else Inr s3) = Inr s5" "kinv s5" "dead s5 t" by blast
  have "kill_thread h t s = Inr (kill_finish t j s5)"
    unfolding kill_thread_def Let_def jd [symmetric] s2(1) bindE_simps s3_def [symmetric] s5(1) ..
  with kill_finish_ok [OF s5(2) w s5(3)] show ?thesis by blast
qed

definition kill_error :: "kstate \<Rightarrow> int \<Rightarrow> int \<Rightarrow> u64 option" where
  "kill_error s c t =
     (if t < 0 \<or> t \<ge> THREAD_MAX then Some (- 1)
      else if t = 0 then Some (- 2)
      else if t = c then Some (- 4)
      else if \<not> t_can_be_killed (g_threads s t) \<or> t_state (g_threads s t) = THREAD_UNUSED then Some (- 3)
      else if t_state (g_threads s t) = THREAD_ZOMBIE then Some 0
      else None)"

lemma kill_refused:
  assumes "kill_error s (cur s h) t = Some e"
  shows "thread_sys_kill h tf t s = Inr (set_a0 tf e s)"
  using assms by (auto simp: thread_sys_kill_def kill_error_def Let_def current_tid_get_def cur_def [symmetric] split: if_splits)

lemma killable_worker:
  assumes K: "kinv s" and e: "kill_error s c t = None"
  shows "is_worker t"
proof (rule ccontr)
  assume "\<not> is_worker t"
  moreover have t: "0 < t" "t < THREAD_MAX" "t_can_be_killed (g_threads s t)"
    using e by (auto simp: kill_error_def split: if_splits)
  ultimately have "nat t < MAX_HARTS" "t = int (nat t)" by (auto simp: is_worker_def)
  with common_idle_kill [OF kinv_common [OF K], of "nat t"] t(3) show False by simp
qed

lemma kill_ok:
  assumes K: "kinv s" and L: "live s h" and e: "kill_error s (cur s h) t = None"
    and J: "0 \<le> t_join_waiter (g_threads s t) \<Longrightarrow> t_join_waiter (g_threads s t) < THREAD_MAX \<Longrightarrow>
      t_join_waiter (g_threads s t) \<noteq> t \<and> settled s (t_join_waiter (g_threads s t))"
  shows "\<exists>s'. thread_sys_kill h tf t s = Inr (set_a0 tf 0 s') \<and> kinv (set_a0 tf 0 s') \<and> dead (set_a0 tf 0 s') t"
proof -
  obtain s' where s': "kill_thread h t s = Inr s'" "kinv s'" "dead s' t"
    using kill_thread_ok [OF K L killable_worker [OF K e] refl J] by blast
  have "thread_sys_kill h tf t s = Inr (set_a0 tf 0 s')"
    using e s'(1)
    by (auto simp: thread_sys_kill_def kill_error_def Let_def current_tid_get_def cur_def [symmetric] split: if_splits)
  moreover have "dead (set_a0 tf 0 s') t" using s'(3) by (auto simp: dead_def onrq_def set_a0_thread)
  ultimately show ?thesis using kinv_set_a0 [OF s'(2)] by blast
qed

section \<open>Detach\<close>

definition detach_error :: "kstate \<Rightarrow> int \<Rightarrow> u64 option" where
  "detach_error s t =
     (if t \<le> 0 \<or> t \<ge> THREAD_MAX then Some (- 1)
      else if t_state (g_threads s t) = THREAD_UNUSED then Some (- 3)
      else if t < int MAX_HARTS then Some (- 2)
      else if t_join_waiter (g_threads s t) \<ge> 0 then Some (- 4)
      else if t_detached (g_threads s t) then Some 0
      else None)"

lemma detach_refused: "detach_error s t = Some e \<Longrightarrow> thread_sys_detach tf t s = set_a0 tf e s"
  by (auto simp: thread_sys_detach_def detach_error_def Let_def split: if_splits)

lemma detach_ok:
  assumes K: "kinv s" and e: "detach_error s t = None" and S: "settled s t"
  shows "kinv (thread_sys_detach tf t s)" "sched_abs (thread_sys_detach tf t s) = sched_abs s"
    "if t_state (g_threads s t) = THREAD_ZOMBIE then t_state (g_threads (thread_sys_detach tf t s) t) = THREAD_UNUSED
     else t_detached (g_threads (thread_sys_detach tf t s) t)
       \<and> t_state (g_threads (thread_sys_detach tf t s) t) = t_state (g_threads s t)"
proof -
  have w: "is_worker t" using e by (auto simp: detach_error_def is_worker_def split: if_splits)
  define s1 where "s1 = upd_thread t (\<lambda>t. t\<lparr>t_detached := True\<rparr>) s"
  have K1: "kinv s1" unfolding s1_def by (rule kinv_same [OF K]) simp_all
  have Q1: "rq_list s1 = rq_list s" "onrq s1 = onrq s" "cur s1 = cur s"
    using wf_upd_thread [of "\<lambda>t. t\<lparr>t_detached := True\<rparr>" s t] by (simp_all add: s1_def)
  have run: "thread_sys_detach tf t s = set_a0 tf 0
      (if t_state (g_threads s t) = THREAD_ZOMBIE then recycle_thread t s1 else s1)"
    using e by (auto simp: thread_sys_detach_def detach_error_def Let_def s1_def split: if_splits)
  have z: "t_running_hart (g_threads s1 t) < 0" "\<not> onrq s1 t" if "t_state (g_threads s t) = THREAD_ZOMBIE"
    using S that zombie_worker(2) [OF K worker_valid [OF w]] Q1(2) by (auto simp: settled_def s1_def)
  note G = recycle_guarded [OF K1 w] recycle_props [OF kinv_wf [OF K1] w]
  show "kinv (thread_sys_detach tf t s)" using G z K1 kinv_set_a0 by (simp add: run onrq_def)
  show "sched_abs (thread_sys_detach tf t s) = sched_abs s" using G z by (simp add: run sched_abs_def Q1)
  show "if t_state (g_threads s t) = THREAD_ZOMBIE then t_state (g_threads (thread_sys_detach tf t s) t) = THREAD_UNUSED
     else t_detached (g_threads (thread_sys_detach tf t s) t)
       \<and> t_state (g_threads (thread_sys_detach tf t s) t) = t_state (g_threads s t)"
    using G z by (simp add: run set_a0_thread rq_erase_recycle) (simp add: s1_def)
qed

section \<open>Scheduler interrupts\<close>

text \<open>Changes of a hart's own record that the invariant does not look at.\<close>

lemma kinv_upd_cpu:
  assumes K: "kinv s"
    and f: "c_online (f (g_cpus s h)) = c_online (g_cpus s h)" "c_current_tid (f (g_cpus s h)) = c_current_tid (g_cpus s h)"
      "c_hartid (f (g_cpus s h)) = c_hartid (g_cpus s h)" "c_idle_tid (f (g_cpus s h)) = c_idle_tid (g_cpus s h)"
      "c_cur_tf (f (g_cpus s h)) = c_cur_tf (g_cpus s h)"
  shows "kinv (upd_cpu h f s)" "sched_abs (upd_cpu h f s) = sched_abs s" "live (upd_cpu h f s) = live s" "cur (upd_cpu h f s) = cur s"
    "rq_list (upd_cpu h f s) = rq_list s"
proof -
  show l: "live (upd_cpu h f s) = live s" and c: "cur (upd_cpu h f s) = cur s"
    using f by (auto simp: live_def cur_def fun_eq_iff)
  note W = rq_wf_cong [of "upd_cpu h f s" s]
  have "common (upd_cpu h f s) = common s" using f by (auto simp: common_def l c)
  moreover have "hart_ok (upd_cpu h f s) k = hart_ok s k" for k using f by (simp add: hart_ok_def c)
  ultimately show "kinv (upd_cpu h f s)" using K W by (simp add: kinv_def l)
  show "sched_abs (upd_cpu h f s) = sched_abs s" "rq_list (upd_cpu h f s) = rq_list s" using W by (simp_all add: sched_abs_def c)
qed

lemma keeps_upd_cpu: "cur (upd_cpu h f s) = cur s \<Longrightarrow> keeps (upd_cpu h f s) k = keeps s k"
  by (simp add: keeps_def)

lemma ipi_ok:
  assumes K: "kinv s" and R: "running s h tf"
  shows "\<exists>s'. sched_on_ipi_irq h tf s = Inr s' \<and> kinv s' \<and> sched_abs s' = dispatch h (keeps s h) (sched_abs s)"
proof -
  define s1 where "s1 = s\<lparr>csr_sip := (csr_sip s)(h := csr_sip s h AND NOT SIP_SSIP)\<rparr>"
  have same: "g_threads s1 = g_threads s" "g_cpus s1 = g_cpus s" "g_runqueues s1 = g_runqueues s"
    "g_boot_hartid s1 = g_boot_hartid s" "g_stdin_waiter s1 = g_stdin_waiter s" by (simp_all add: s1_def)
  note V = kinv_cong [OF same]
  have K1: "kinv s1" using K V(1) by simp
  let ?s2 = "upd_cpu h (\<lambda>c. c\<lparr>c_need_resched := False\<rparr>) s1"
  note U = kinv_upd_cpu [OF K1, of "\<lambda>c. c\<lparr>c_need_resched := False\<rparr>" h]
  have K2: "kinv ?s2" "cur ?s2 = cur s" "live ?s2 = live s" "sched_abs ?s2 = sched_abs s"
    using U V by (simp_all add: sched_abs_def)
  have kp: "keeps ?s2 h = keeps s h" by (simp add: keeps_def K2 same)
  have R2: "running ?s2 h tf" using R by (simp add: running_def K2)
  obtain s' where "schedule h (TF_THREAD (cur ?s2 h)) ?s2 = Inr s'" "kinv s'" "switched h ?s2 s'"
    using schedule_ok [OF kinv_mid [OF K2(1) R2]] by blast
  then show ?thesis
    using switchedD(1) [of h ?s2 s'] running_tf [OF R] by (simp add: sched_on_ipi_irq_def s1_def [symmetric] K2 kp)
qed

lemma awoke_current:
  assumes A: "awoke A s s'" and K: "kinv s" and L: "live s h"
  shows "keeps s' h = keeps s h" "cur s' = cur s" "live s' = live s" "c_slice_left (g_cpus s' h) = c_slice_left (g_cpus s h)"
proof -
  have e: "cpus_eq s s'" using A by (simp add: awoke_def)
  show c: "cur s' = cur s" and "live s' = live s" using cpus_eqD [OF e] by simp_all
  show "c_slice_left (g_cpus s' h) = c_slice_left (g_cpus s h)"
    using e cpu_eqD(9) [of "g_cpus s' h" "g_cpus s h"] by (simp add: cpus_eq_def)
  have "t_state (g_threads s' (cur s h)) = t_state (g_threads s (cur s h))" if w: "is_worker (cur s h)"
  proof -
    have "\<not> due s (cur s h)" using kinv_current(1) [OF K L refl w] by (auto simp: due_def)
    then show ?thesis using A erase_sel(2) unfolding awoke_def by blast
  qed
  then show "keeps s' h = keeps s h" by (auto simp: keeps_def c)
qed

text \<open>The timer interrupt: on the boot hart the clock advances and due sleepers wake up; on every hart the
  running time slice shrinks, and when it is used up the hart switches. \<open>timer_entry\<close> is the bookkeeping
  before that: the interrupt counter and the next deadline.\<close>

definition timer_entry :: "nat \<Rightarrow> kstate \<Rightarrow> kstate" where
  "timer_entry h s = sched_rearm_timer h (upd_cpu h (\<lambda>c. c\<lparr>c_timer_irqs := c_timer_irqs c + 1\<rparr>) s)"

lemma timer_entry_view:
  assumes K: "kinv s"
  shows "kinv (timer_entry h s)" "live (timer_entry h s) = live s" "cur (timer_entry h s) = cur s"
    "sched_abs (timer_entry h s) = sched_abs s" "g_threads (timer_entry h s) = g_threads s"
    "g_boot_hartid (timer_entry h s) = g_boot_hartid s" "g_ticks (timer_entry h s) = g_ticks s"
    "c_slice_left (g_cpus (timer_entry h s) h) = c_slice_left (g_cpus s h)"
proof -
  note U1 = kinv_upd_cpu [OF K, of "\<lambda>c. c\<lparr>c_timer_irqs := c_timer_irqs c + 1\<rparr>" h]
  note V2 = kinv_cong [of "timer_entry h s" "upd_cpu h (\<lambda>c. c\<lparr>c_timer_irqs := c_timer_irqs c + 1\<rparr>) s"]
  show "kinv (timer_entry h s)" "live (timer_entry h s) = live s" "cur (timer_entry h s) = cur s"
    "sched_abs (timer_entry h s) = sched_abs s"
    using U1 V2 by (simp_all add: timer_entry_def sched_abs_def)
qed (simp_all add: timer_entry_def)

lemma timer_tick_ok:
  assumes K: "kinv s" and L: "live s h"
  shows "\<exists>s'. (if h = g_boot_hartid s then threads_tick h s else Inr s) = Inr s' \<and> kinv s'
      \<and> keeps s' h = keeps s h \<and> cur s' = cur s \<and> live s' = live s \<and> c_slice_left (g_cpus s' h) = c_slice_left (g_cpus s h)
      \<and> (if h = g_boot_hartid s then awoke {t. valid_tid t} (s\<lparr>g_ticks := g_ticks s + 1\<rparr>) s' else s' = s)"
proof (cases "h = g_boot_hartid s")
  case True
  let ?t = "s\<lparr>g_ticks := g_ticks s + 1\<rparr>"
  obtain s3 where s3: "threads_tick h s = Inr s3" "kinv s3" "awoke {t. valid_tid t} ?t s3"
    using tick_ok [OF K L] by blast
  note Vt = kinv_cong [of ?t s]
  have Kt: "kinv ?t" "live ?t = live s" "cur ?t = cur s" using Vt K by simp_all
  have "keeps ?t h = keeps s h" by (simp add: keeps_def Kt)
  with awoke_current [OF s3(3) Kt(1), of h] Kt L s3 True show ?thesis by simp
qed (use K in simp)

lemma slice_end: "(if 0 < x then x - 1 else 0) = (0 :: u32) \<longleftrightarrow> x \<le> 1"
proof (cases "x = 0")
  case False
  have "x \<le> 1 \<longleftrightarrow> unat x \<le> 1" by (simp add: word_le_nat_alt)
  also have "\<dots> \<longleftrightarrow> unat x = 1" using False by (auto simp: le_Suc_eq unat_eq_0)
  also have "\<dots> \<longleftrightarrow> x = 1" by (auto simp: word_unat_eq_iff)
  finally show ?thesis using False by (simp add: word_gt_0)
qed simp

lemma timer_ok:
  assumes K: "kinv s" and R: "running s h tf"
  shows "\<exists>s' s3. sched_on_timer_irq h tf s = Inr s' \<and> kinv s'
      \<and> (if h = g_boot_hartid s then awoke {t. valid_tid t} ((timer_entry h s)\<lparr>g_ticks := g_ticks s + 1\<rparr>) s3
         else s3 = timer_entry h s)
      \<and> (if c_slice_left (g_cpus s h) \<le> 1
         then sched_abs s' = dispatch h (keeps s h) (sched_abs s3) \<and> c_slice_left (g_cpus s' h) = SCHED_SLICE_TICKS
         else sched_abs s' = sched_abs s3 \<and> c_slice_left (g_cpus s' h) = c_slice_left (g_cpus s h) - 1)"
proof -
  have L: "live s h" using R by (rule running_live)
  define s2 where "s2 = timer_entry h s"
  note K2 = timer_entry_view [OF K, of h, folded s2_def]
  have L2: "live s2 h" using L by (simp add: K2)
  have hid: "c_hartid (g_cpus s2 h) = h" using common_hart [OF kinv_common [OF K2(1)] L2] .
  obtain s3 where s3: "(if h = g_boot_hartid s2 then threads_tick h s2 else Inr s2) = Inr s3" "kinv s3"
    "keeps s3 h = keeps s2 h" "cur s3 = cur s2" "live s3 = live s2" "c_slice_left (g_cpus s3 h) = c_slice_left (g_cpus s2 h)"
    and A: "if h = g_boot_hartid s2 then awoke {t. valid_tid t} (s2\<lparr>g_ticks := g_ticks s2 + 1\<rparr>) s3 else s3 = s2"
    using timer_tick_ok [OF K2(1) L2] by blast
  note A' = A [unfolded K2(6,7), unfolded s2_def]
  have kp: "keeps s3 h = keeps s h" using s3(3) by (simp add: keeps_def K2)
  define x where "x = c_slice_left (g_cpus s h)"
  have sl3: "c_slice_left (g_cpus s3 h) = x" by (simp add: s3 K2 x_def)
  define s4 where "s4 = (if x > 0 then upd_cpu h (\<lambda>c. c\<lparr>c_slice_left := c_slice_left c - 1\<rparr>) s3 else s3)"
  note U4 = kinv_upd_cpu [OF s3(2), of "\<lambda>c. c\<lparr>c_slice_left := c_slice_left c - 1\<rparr>" h]
  have K4: "kinv s4" "cur s4 = cur s3" "live s4 = live s3" "sched_abs s4 = sched_abs s3" "g_threads s4 = g_threads s3"
    using U4 s3(2) by (simp_all add: s4_def)
  have sl4: "c_slice_left (g_cpus s4 h) = (if x > 0 then x - 1 else 0)"
    using sl3 by (simp add: s4_def word_gt_0)
  have z: "c_slice_left (g_cpus s4 h) = 0 \<longleftrightarrow> x \<le> 1"
    unfolding sl4 by (rule slice_end)
  have run: "sched_on_timer_irq h tf s = (if x \<le> 1
      then schedule h tf (upd_cpu h (\<lambda>c. c\<lparr>c_slice_left := SCHED_SLICE_TICKS, c_need_resched := False\<rparr>) s4) else Inr s4)"
    unfolding sched_on_timer_irq_def Let_def timer_entry_def [symmetric] s2_def [symmetric] hid s3(1) bindE_simps
      sl3 s4_def [symmetric] z ..
  show ?thesis
  proof (cases "x \<le> 1")
    case True
    let ?f = "\<lambda>c. c\<lparr>c_slice_left := SCHED_SLICE_TICKS, c_need_resched := False\<rparr>"
    note U5 = kinv_upd_cpu [OF K4(1), of ?f h]
    have K5: "kinv (upd_cpu h ?f s4)" "cur (upd_cpu h ?f s4) = cur s" "live (upd_cpu h ?f s4) = live s"
      "sched_abs (upd_cpu h ?f s4) = sched_abs s3"
      using U5 by (simp_all add: K4 s3 K2)
    have R5: "running (upd_cpu h ?f s4) h tf" using R by (simp add: running_def K5)
    obtain s' where s': "schedule h (TF_THREAD (cur s h)) (upd_cpu h ?f s4) = Inr s'" "kinv s'" "switched h (upd_cpu h ?f s4) s'"
      using schedule_ok [OF kinv_mid [OF K5(1) R5]] by (auto simp: K5)
    have k5: "keeps (upd_cpu h ?f s4) h = keeps s h" using kp by (simp add: keeps_def K5 K4 s3 K2)
    have "sched_abs s' = dispatch h (keeps s h) (sched_abs s3) \<and> c_slice_left (g_cpus s' h) = SCHED_SLICE_TICKS"
      using switchedD(1,10) [OF s'(3)] by (simp add: k5 K5)
    moreover have "sched_on_timer_irq h tf s = Inr s'" using run True s'(1) running_tf [OF R] by simp
    ultimately show ?thesis using s'(2) A' True unfolding x_def by auto
  next
    case False
    then have "x > 0" by (simp add: word_gt_0) auto
    with sl4 have "c_slice_left (g_cpus s4 h) = c_slice_left (g_cpus s h) - 1" by (simp add: x_def)
    moreover have "sched_on_timer_irq h tf s = Inr s4" using run False by simp
    ultimately show ?thesis using A' K4(1,4) False unfolding x_def by auto
  qed
qed

end
