(* ===== verification/Memory.thy ===== *)
theory Memory
  imports Prelude
begin

text \<open>
  Byte-addressed memory: runs of bytes written and read through a C pointer, with the address
  arithmetic of 64-bit words. Used for the buffers that the kernel fills for user space and for the
  string routines of the libraries.
\<close>

type_synonym mem = "u64 \<Rightarrow> u8"

fun store_bytes :: "u64 \<Rightarrow> u8 list \<Rightarrow> mem \<Rightarrow> mem" where
  "store_bytes a [] m = m"
| "store_bytes a (b # bs) m = store_bytes (a + 1) bs (m(a := b))"

definition load_bytes :: "u64 \<Rightarrow> nat \<Rightarrow> mem \<Rightarrow> u8 list" where
  "load_bytes a n m = map (\<lambda>i. m (a + of_nat i)) [0..<n]"

lemma length_load_bytes [simp]: "length (load_bytes a n m) = n"
  by (simp add: load_bytes_def)

lemma addr_inj:
  fixes a :: u64
  assumes "i < 2 ^ 64" "j < 2 ^ 64"
  shows "a + of_nat i = a + of_nat j \<longleftrightarrow> i = j"
proof
  assume "a + of_nat i = a + of_nat j"
  then have "unat (of_nat i :: u64) = unat (of_nat j :: u64)" by simp
  with assms show "i = j" by (simp add: unat_of_nat)
qed simp

lemma store_bytes_out:
  assumes "\<And>i. i < length bs \<Longrightarrow> x \<noteq> a + of_nat i"
  shows "store_bytes a bs m x = m x"
  using assms
proof (induction bs arbitrary: a m)
  case Nil
  then show ?case by simp
next
  case (Cons b bs)
  have "x \<noteq> (a + 1) + of_nat i" if "i < length bs" for i
    using Cons.prems [of "Suc i"] that by (simp add: ac_simps)
  then have "store_bytes (a + 1) bs (m(a := b)) x = (m(a := b)) x" by (rule Cons.IH)
  moreover have "x \<noteq> a" using Cons.prems [of 0] by simp
  ultimately show ?case by simp
qed

lemma store_bytes_in:
  assumes "i < length bs" "length bs \<le> 2 ^ 64"
  shows "store_bytes a bs m (a + of_nat i) = bs ! i"
  using assms
proof (induction bs arbitrary: a m i)
  case Nil
  then show ?case by simp
next
  case (Cons b bs)
  show ?case
  proof (cases i)
    case 0
    have "a \<noteq> (a + 1) + of_nat j" if "j < length bs" for j
      using addr_inj [of 0 "Suc j" a] that Cons.prems(2) by (simp add: ac_simps)
    then have "store_bytes (a + 1) bs (m(a := b)) a = (m(a := b)) a" by (rule store_bytes_out)
    then show ?thesis using 0 by simp
  next
    case (Suc j)
    have "store_bytes (a + 1) bs (m(a := b)) ((a + 1) + of_nat j) = bs ! j"
      by (rule Cons.IH) (use Suc Cons.prems in simp_all)
    with Suc show ?thesis by (simp add: ac_simps)
  qed
qed

lemma load_store_bytes: "length bs \<le> 2 ^ 64 \<Longrightarrow> load_bytes a (length bs) (store_bytes a bs m) = bs"
  by (rule nth_equalityI) (simp_all add: load_bytes_def store_bytes_in)

lemma store_bytes_append: "store_bytes a (xs @ ys) m = store_bytes (a + of_nat (length xs)) ys (store_bytes a xs m)"
  by (induction xs arbitrary: a m) (simp_all add: ac_simps)

end
