(* ===== verification/Console.thy ===== *)
theory Console
  imports Thread_Life Memory
begin

text \<open>
  The console (\<open>kernel/console.c\<close>), the output side of the UART driver
  (\<open>platform/qemu-virt-sbi/uart_16550.c\<close>) and the helpers that print numbers
  (\<open>platform.c\<close>). The receive buffer is a ring of \<open>CONSOLE_RBUF_SIZE\<close> bytes of which one
  stays free; it is shown to be a bounded FIFO, and a byte that arrives while a thread waits for
  input to be handed to that thread. A byte written to the transmit register is an
  \<open>EvUart\<close> event; the wait for an empty transmitter before each byte is the device's business.
\<close>

section \<open>Output\<close>

definition uart16550_putc :: "u8 \<Rightarrow> kstate \<Rightarrow> kstate" where
  "uart16550_putc c s = emit (EvUart c) s"

definition CH_NL :: u8 where "CH_NL = 10"
definition CH_CR :: u8 where "CH_CR = 13"

text \<open>The loop body shared by \<open>uart16550_write\<close> and \<open>uart16550_puts\<close>.\<close>

definition uart_put_translated :: "u8 \<Rightarrow> kstate \<Rightarrow> kstate" where
  "uart_put_translated c s = uart16550_putc c (if c = CH_NL then uart16550_putc CH_CR s else s)"

definition uart16550_write :: "u64 \<Rightarrow> u64 \<Rightarrow> kstate \<Rightarrow> kstate" where
  "uart16550_write buf len s =
     (if buf = 0 \<or> len = 0 then s
      else fold (\<lambda>i s. uart_put_translated (heap_u8 s (buf + of_nat i)) s) [0..<unat len] s)"

text \<open>The strings the kernel passes to \<open>platform_puts\<close> and \<open>platform_write\<close> are its own: literals and
  local buffers, given here by their characters.\<close>

definition uart16550_puts :: "string \<Rightarrow> kstate \<Rightarrow> kstate" where
  "uart16550_puts str s = fold (\<lambda>c s. uart_put_translated (of_char c) s) str s"

definition hex_digit :: "u8 \<Rightarrow> u8" where
  "hex_digit nib = (if nib < 10 then 48 + nib else 97 + (nib - 10))"

definition nibble :: "u64 \<Rightarrow> nat \<Rightarrow> u8" where
  "nibble x i = ucast (drop_bit i x AND 0xF)"

text \<open>\<open>for (int i = 60; i >= 0; i -= 4)\<close>\<close>

definition nibble_positions :: "nat list" where
  "nibble_positions = map (\<lambda>k. 60 - 4 * k) [0..<16]"

definition uart16550_put_hex64 :: "u64 \<Rightarrow> kstate \<Rightarrow> kstate" where
  "uart16550_put_hex64 x s = fold (\<lambda>i s. uart16550_putc (hex_digit (nibble x i)) s) nibble_positions s"

definition platform_write :: "string \<Rightarrow> kstate \<Rightarrow> kstate" where
  "platform_write str s = (if str = [] then s else uart16550_puts str s)"

definition platform_putc :: "u8 \<Rightarrow> kstate \<Rightarrow> kstate" where
  "platform_putc c s = uart16550_putc c s"

definition platform_puts :: "string \<Rightarrow> kstate \<Rightarrow> kstate" where
  "platform_puts str s = uart16550_puts str s"

definition put_hex64_buf :: "u64 \<Rightarrow> string" where
  "put_hex64_buf x = ''0x'' @ map (\<lambda>i. char_of (unat (hex_digit (nibble x i)))) nibble_positions"

definition platform_put_hex64 :: "u64 \<Rightarrow> kstate \<Rightarrow> kstate" where
  "platform_put_hex64 x s = platform_write (put_hex64_buf x) s"

text \<open>The digits of \<open>x\<close>, least significant first, as the loop stores them in \<open>tmp\<close>; then the copy in
  reverse order.\<close>

function dec_tmp :: "u64 \<Rightarrow> string" where
  "dec_tmp x = (if x > 0 then char_of (48 + unat (x - (x div 10) * 10)) # dec_tmp (x div 10) else [])"
  by pat_completeness auto
termination
  by (relation "measure unat") (auto simp: unat_div word_gt_0 unat_gt_0)

declare dec_tmp.simps [simp del]

definition put_dec_us_buf :: "u64 \<Rightarrow> string" where
  "put_dec_us_buf x = (if x = 0 then ''0'' else rev (dec_tmp x))"

definition platform_put_dec_us :: "u64 \<Rightarrow> kstate \<Rightarrow> kstate" where
  "platform_put_dec_us x s = platform_write (put_dec_us_buf x) s"

definition put_dec_s_buf :: "u64 \<Rightarrow> string" where
  "put_dec_s_buf v = (if v <s 0 then ''-'' @ put_dec_us_buf (- (v + 1) + 1) else put_dec_us_buf v)"

definition platform_put_dec_s :: "u64 \<Rightarrow> kstate \<Rightarrow> kstate" where
  "platform_put_dec_s v s =
     (if v <s 0 then platform_put_dec_us (- (v + 1) + 1) (platform_write ''-'' s)
      else platform_put_dec_us v s)"

section \<open>The receive ring\<close>

definition CONSOLE_RBUF_SIZE :: u32 where "CONSOLE_RBUF_SIZE = 1024"

definition rb_is_empty :: "kstate \<Rightarrow> bool" where
  "rb_is_empty s \<longleftrightarrow> g_rx_head s = g_rx_tail s"

definition rb_is_full :: "kstate \<Rightarrow> bool" where
  "rb_is_full s \<longleftrightarrow> (g_rx_head s + 1) mod CONSOLE_RBUF_SIZE = g_rx_tail s"

definition console_init :: "kstate \<Rightarrow> kstate" where
  "console_init s = s\<lparr>g_rx_head := 0, g_rx_tail := 0, g_stdin_waiter := -1\<rparr>"

definition console_write :: "u64 \<Rightarrow> u64 \<Rightarrow> kstate \<Rightarrow> kstate" where
  "console_write buf len s = uart16550_write buf len s"

text \<open>The loop of \<open>console_read_nonblock\<close> with \<open>n\<close> bytes read and \<open>k = len - n\<close> still wanted.\<close>

fun console_read_loop :: "nat \<Rightarrow> u64 \<Rightarrow> nat \<Rightarrow> kstate \<Rightarrow> nat \<times> kstate" where
  "console_read_loop 0 buf n s = (n, s)"
| "console_read_loop (Suc k) buf n s =
     (if rb_is_empty s then (n, s)
      else console_read_loop k buf (Suc n)
             (s\<lparr>heap_u8 := (heap_u8 s)(buf + of_nat n := g_rx_buf s (unat (g_rx_tail s))),
                g_rx_tail := (g_rx_tail s + 1) mod CONSOLE_RBUF_SIZE\<rparr>))"

definition console_read_nonblock :: console_reader_t where
  "console_read_nonblock buf len s =
     (let (n, s') = console_read_loop (unat len) buf 0 s in (to_int32 (of_nat n), s'))"

definition rb_push :: "u8 \<Rightarrow> kstate \<Rightarrow> kstate" where
  "rb_push ch s =
     (if \<not> rb_is_full s
      then s\<lparr>g_rx_buf := (g_rx_buf s)(unat (g_rx_head s) := ch),
             g_rx_head := (g_rx_head s + 1) mod CONSOLE_RBUF_SIZE\<rparr>
      else s)"

definition console_on_char_from_irq :: "nat \<Rightarrow> u8 \<Rightarrow> kstate \<Rightarrow> kstate kres" where
  "console_on_char_from_irq h ch s =
     (let s1 = rb_push ch s in
      if g_stdin_waiter s1 < 0 then Inr s1
      else bindE (thread_read_from_stdin h console_read_nonblock s1) (\<lambda>s2. Inr (s2\<lparr>g_stdin_waiter := -1\<rparr>)))"

section \<open>The ring is a bounded FIFO\<close>

text \<open>What a client of a bounded queue may rely on: a byte is appended if there is room and dropped
  otherwise, and skipping removes from the front.\<close>

locale bounded_fifo =
  fixes inv :: "'s \<Rightarrow> bool" and contents :: "'s \<Rightarrow> 'a list" and cap :: nat
    and put :: "'a \<Rightarrow> 's \<Rightarrow> 's" and skip :: "nat \<Rightarrow> 's \<Rightarrow> 's"
  assumes put_law: "inv s \<Longrightarrow> inv (put x s) \<and>
      contents (put x s) = (if length (contents s) < cap then contents s @ [x] else contents s)"
    and skip_law: "inv s \<Longrightarrow> inv (skip n s) \<and> contents (skip n s) = drop n (contents s)"
    and bound: "inv s \<Longrightarrow> length (contents s) \<le> cap"
begin

lemma put_all:
  "inv s \<Longrightarrow> inv (fold put xs s) \<and> contents (fold put xs s) = contents s @ take (cap - length (contents s)) xs"
proof (induction xs arbitrary: s)
  case Nil
  then show ?case by simp
next
  case (Cons x xs)
  note P = put_law [OF Cons.prems, of x]
  from Cons.IH [of "put x s"] P show ?case
    by (auto simp: take_Cons' not_less bound [OF Cons.prems] dest: le_antisym)
qed

lemma no_loss: "inv s \<Longrightarrow> length (contents s) + length xs \<le> cap \<Longrightarrow> contents (fold put xs s) = contents s @ xs"
  using put_all [of s xs] by simp

lemma put_skip: "inv s \<Longrightarrow> contents s = [] \<Longrightarrow> length xs \<le> cap \<Longrightarrow> contents (skip n (fold put xs s)) = drop n xs"
  using put_all [of s xs] skip_law [of "fold put xs s" n] by simp

end

definition RB :: nat where "RB = 1024"

definition rx_ok :: "kstate \<Rightarrow> bool" where
  "rx_ok s \<longleftrightarrow> unat (g_rx_head s) < RB \<and> unat (g_rx_tail s) < RB"

definition rx_count :: "kstate \<Rightarrow> nat" where
  "rx_count s = (unat (g_rx_head s) + RB - unat (g_rx_tail s)) mod RB"

definition rx_list :: "kstate \<Rightarrow> u8 list" where
  "rx_list s = map (\<lambda>i. g_rx_buf s ((unat (g_rx_tail s) + i) mod RB)) [0..<rx_count s]"

lemma ring_succ: "unat (x :: u32) < RB \<Longrightarrow> unat ((x + 1) mod CONSOLE_RBUF_SIZE) = (unat x + 1) mod RB"
  by (simp add: CONSOLE_RBUF_SIZE_def RB_def unat_mod unat_word_ariths)

lemma rx_count_less: "rx_count s < RB"
  by (simp add: rx_count_def RB_def)

lemma ring_diff:
  fixes h t :: nat
  assumes "h < RB" "t < RB"
  shows "(h + RB - t) mod RB = (if t \<le> h then h - t else h + RB - t)"
  using assms by (auto simp: RB_def mod_if)

lemma rb_empty_count: "rx_ok s \<Longrightarrow> rb_is_empty s \<longleftrightarrow> rx_count s = 0"
  by (auto simp: rb_is_empty_def rx_count_def ring_diff rx_ok_def word_unat_eq_iff)

lemma rb_full_count: "rx_ok s \<Longrightarrow> rb_is_full s \<longleftrightarrow> rx_count s = RB - 1"
  unfolding rb_is_full_def word_unat_eq_iff
  by (auto simp: rx_ok_def ring_succ rx_count_def ring_diff) (auto simp: RB_def mod_if split: if_splits)

lemma rb_push_law:
  assumes ok: "rx_ok s"
  shows "rx_ok (rb_push ch s)"
    "rx_list (rb_push ch s) = (if length (rx_list s) < RB - 1 then rx_list s @ [ch] else rx_list s)"
proof -
  let ?h = "unat (g_rx_head s)" and ?t = "unat (g_rx_tail s)"
  have b: "?h < RB" "?t < RB" using ok by (simp_all add: rx_ok_def)
  show "rx_ok (rb_push ch s)" using ok by (auto simp: rb_push_def rx_ok_def ring_succ RB_def)
  show "rx_list (rb_push ch s) = (if length (rx_list s) < RB - 1 then rx_list s @ [ch] else rx_list s)"
  proof (cases "rb_is_full s")
    case True
    then show ?thesis using rb_full_count [OF ok] by (simp add: rb_push_def rx_list_def)
  next
    case False
    have lt: "rx_count s < RB - 1" using False rb_full_count [OF ok] rx_count_less [of s] by simp
    have h': "unat (g_rx_head (rb_push ch s)) = (?h + 1) mod RB" and t': "g_rx_tail (rb_push ch s) = g_rx_tail s"
      and b': "g_rx_buf (rb_push ch s) = (g_rx_buf s)(?h := ch)"
      using False b by (simp_all add: rb_push_def ring_succ)
    have n: "rx_count (rb_push ch s) = Suc (rx_count s)"
      using lt b unfolding rx_count_def h' t' by (auto simp: RB_def mod_if split: if_splits)
    have end_pos: "(?t + rx_count s) mod RB = ?h"
      using b by (auto simp: rx_count_def ring_diff)
    have mid: "(?t + i) mod RB \<noteq> ?h" if "i < rx_count s" for i
      using that b lt by (auto simp: rx_count_def ring_diff split: if_splits) (auto simp: RB_def mod_if split: if_splits)
    have "map (\<lambda>i. ((g_rx_buf s)(?h := ch)) ((?t + i) mod RB)) [0..<rx_count s] = rx_list s"
      using mid by (simp add: rx_list_def)
    then show ?thesis using lt end_pos by (simp add: rx_list_def n t' b')
  qed
qed

text \<open>One round of the reading loop.\<close>

lemma rx_step:
  fixes hp :: mem
  assumes ok: "rx_ok s" and ne: "\<not> rb_is_empty s"
  defines "s1 \<equiv> s\<lparr>heap_u8 := hp, g_rx_tail := (g_rx_tail s + 1) mod CONSOLE_RBUF_SIZE\<rparr>"
  shows "rx_ok s1" "rx_list s = g_rx_buf s (unat (g_rx_tail s)) # rx_list s1"
proof -
  let ?h = "unat (g_rx_head s)" and ?t = "unat (g_rx_tail s)"
  have b: "?h < RB" "?t < RB" using ok by (simp_all add: rx_ok_def)
  show "rx_ok s1" using b by (simp add: s1_def rx_ok_def ring_succ)
  have pos: "0 < rx_count s" using ne rb_empty_count [OF ok] by simp
  have sel: "g_rx_buf s1 = g_rx_buf s" "g_rx_head s1 = g_rx_head s" "unat (g_rx_tail s1) = (?t + 1) mod RB"
    using b by (simp_all add: s1_def ring_succ)
  have n: "rx_count s = Suc (rx_count s1)"
    using pos b unfolding rx_count_def sel by (auto simp: RB_def mod_if split: if_splits)
  have "map (\<lambda>i. g_rx_buf s ((?t + Suc i) mod RB)) [0..<rx_count s1] = rx_list s1"
    by (simp add: rx_list_def sel mod_simps)
  moreover have "rx_list s = g_rx_buf s (?t mod RB) # map (\<lambda>i. g_rx_buf s ((?t + Suc i) mod RB)) [0..<rx_count s1]"
    unfolding rx_list_def n upt_conv_Cons [OF zero_less_Suc] map_Suc_upt [symmetric] by simp
  ultimately show "rx_list s = g_rx_buf s ?t # rx_list s1" using b by simp
qed

text \<open>What a read leaves unchanged: everything but the buffer it fills and the read position.\<close>

definition rx_frame :: "kstate \<Rightarrow> kstate \<Rightarrow> bool" where
  "rx_frame s s' \<longleftrightarrow> s' = s\<lparr>heap_u8 := heap_u8 s', g_rx_tail := g_rx_tail s'\<rparr>"

lemma console_read_loop_law:
  assumes "rx_ok s" "console_read_loop k buf n s = (n', s')"
  shows "n' = n + min k (length (rx_list s)) \<and> rx_ok s' \<and> rx_list s' = drop k (rx_list s) \<and> rx_frame s s'
    \<and> heap_u8 s' = store_bytes (buf + of_nat n) (take k (rx_list s)) (heap_u8 s)"
  using assms
proof (induction k buf n s rule: console_read_loop.induct)
  case (1 buf n s)
  then show ?case by (auto simp: rx_frame_def)
next
  case (2 k buf n s)
  show ?case
  proof (cases "rb_is_empty s")
    case True
    then have "rx_list s = []" using rb_empty_count [OF 2(2)] by (simp add: rx_list_def)
    with True 2(3) 2(2) show ?thesis by (auto simp: rx_frame_def)
  next
    case False
    let ?hp = "(heap_u8 s)(buf + of_nat n := g_rx_buf s (unat (g_rx_tail s)))"
    let ?s1 = "s\<lparr>heap_u8 := ?hp, g_rx_tail := (g_rx_tail s + 1) mod CONSOLE_RBUF_SIZE\<rparr>"
    note S = rx_step [OF 2(2) False, of ?hp]
    have run: "console_read_loop k buf (Suc n) ?s1 = (n', s')" using 2(3) False by simp
    note IH = 2(1) [OF False S(1) run]
    have F: "s' = ?s1\<lparr>heap_u8 := heap_u8 s', g_rx_tail := g_rx_tail s'\<rparr>"
      using IH unfolding rx_frame_def by (elim conjE)
    have "rx_frame s s'" unfolding rx_frame_def by (rule trans [OF F]) simp
    moreover have "heap_u8 s' = store_bytes (buf + of_nat n) (take (Suc k) (rx_list s)) (heap_u8 s)"
      using IH unfolding S(2) by (simp add: add.assoc add.commute [of 1] fun_upd_def)
    ultimately show ?thesis using IH unfolding S(2) by simp
  qed
qed

lemma rx_frameD:
  assumes "rx_frame s s'"
  shows "g_threads s' = g_threads s" "g_cpus s' = g_cpus s" "g_runqueues s' = g_runqueues s"
    "g_boot_hartid s' = g_boot_hartid s" "g_stdin_waiter s' = g_stdin_waiter s" "g_ticks s' = g_ticks s"
  by (subst assms [unfolded rx_frame_def], simp)+

lemma small_int32: "n < 2 ^ 31 \<Longrightarrow> to_int32 (of_nat n) = int n"
  using to_int32_of_tid [of "int n"] by (simp add: of_tid_def)

text \<open>The whole call: it moves the oldest bytes, as many as fit, from the ring to the caller's buffer.\<close>

lemma console_read_law:
  assumes ok: "rx_ok s"
  shows "\<exists>s'. console_read_nonblock buf len s = (int (min (unat len) (length (rx_list s))), s')
    \<and> rx_ok s' \<and> rx_list s' = drop (unat len) (rx_list s) \<and> rx_frame s s'
    \<and> heap_u8 s' = store_bytes buf (take (unat len) (rx_list s)) (heap_u8 s)"
proof -
  obtain n' s' where r: "console_read_loop (unat len) buf 0 s = (n', s')" by fastforce
  note L = console_read_loop_law [OF ok r]
  have "length (rx_list s) < RB" using rx_count_less [of s] by (simp add: rx_list_def)
  then have "n' < 2 ^ 31" using L by (simp add: RB_def)
  then show ?thesis using L r small_int32 [of n'] by (simp add: console_read_nonblock_def)
qed

definition rx_skip :: "nat \<Rightarrow> kstate \<Rightarrow> kstate" where
  "rx_skip n s = snd (console_read_loop n 0 0 s)"

interpretation rx: bounded_fifo rx_ok rx_list "RB - 1" rb_push rx_skip
proof unfold_locales
  show "rx_ok (rb_push x s) \<and> rx_list (rb_push x s) = (if length (rx_list s) < RB - 1 then rx_list s @ [x] else rx_list s)"
    if "rx_ok s" for s x using rb_push_law [OF that] by blast
  show "rx_ok (rx_skip n s) \<and> rx_list (rx_skip n s) = drop n (rx_list s)" if "rx_ok s" for s n
    using console_read_loop_law [OF that, of n 0 0] by (cases "console_read_loop n 0 0 s") (auto simp: rx_skip_def)
  show "length (rx_list s) \<le> RB - 1" if "rx_ok s" for s
    using rx_count_less [of s] by (simp add: rx_list_def)
qed

section \<open>Delivery of input\<close>

lemma rb_push_frame:
  "g_threads (rb_push ch s) = g_threads s" "g_cpus (rb_push ch s) = g_cpus s" "g_runqueues (rb_push ch s) = g_runqueues s"
  "g_boot_hartid (rb_push ch s) = g_boot_hartid s" "g_stdin_waiter (rb_push ch s) = g_stdin_waiter s"
  "heap_u8 (rb_push ch s) = heap_u8 s" "g_ticks (rb_push ch s) = g_ticks s"
  by (simp_all add: rb_push_def)

lemma kinv_no_waiter: "kinv s \<Longrightarrow> kinv (s\<lparr>g_stdin_waiter := -1\<rparr>)"
proof -
  assume K: "kinv s"
  let ?s = "s\<lparr>g_stdin_waiter := -1\<rparr>"
  have c: "common ?s"
    using kinv_common [OF K] THREAD_MAX_small by (simp add: common_def stdin_upd_view)
  have "hart_ok ?s k = hart_ok s k" for k by (simp add: hart_ok_def)
  with K c show ?thesis by (simp add: kinv_def stdin_upd_view)
qed

text \<open>The transfer to the waiting thread, whatever the waiter's state is.\<close>

lemma read_from_stdin_ok:
  assumes K: "kinv s" and L: "live s h" and ok: "rx_ok s" and w: "0 \<le> g_stdin_waiter s"
  shows "\<exists>s'. thread_read_from_stdin h console_read_nonblock s = Inr s' \<and> kinv s' \<and> cpus_eq s s'"
proof -
  define w where "w = g_stdin_waiter s"
  have vw: "valid_tid w" using w common_stdin [OF kinv_common [OF K]] by (simp add: valid_tid_def w_def)
  let ?b = "t_pending_read_buf (g_threads s w)" and ?l = "t_pending_read_len (g_threads s w)"
  obtain n s1 where r: "console_read_nonblock ?b ?l s = (n, s1)" "rx_frame s s1"
    using console_read_law [OF ok, of ?b ?l] by auto
  note F = rx_frameD [OF r(2)]
  note V = kinv_cong [OF F(1-5)]
  have K1: "kinv s1" using K V(1) by simp
  let ?f = "\<lambda>t. t\<lparr>t_tf := (t_tf t)\<lparr>tf_a0 := word_of_int n\<rparr>, t_pending_read_buf := 0, t_pending_read_len := 0\<rparr>"
  have K2: "kinv (upd_thread w ?f s1)" by (rule kinv_same [OF K1]) simp_all
  have L2: "live (upd_thread w ?f s1) h" using L by (simp add: V)
  obtain s2 where s2: "thread_wake h w (upd_thread w ?f s1) = Inr s2" "kinv s2" "cpus_eq (upd_thread w ?f s1) s2"
    using wake_keeps [OF K2 L2] by blast
  obtain s3 where s3: "thread_wake h w s = Inr s3" "kinv s3" "cpus_eq s s3"
    using wake_keeps [OF K L] by blast
  have e1: "cpus_eq s s1" by (rule cpus_eqI) (rule F)
  have e2: "cpus_eq s s2" using s2(3) by (simp add: cpus_eq_def F)
  show ?thesis
    using vw r(1) s2 s3 K1 e1 e2
    by (simp add: thread_read_from_stdin_def Let_def w_def [symmetric] F)
qed

lemma on_char_ok:
  assumes K: "kinv s" and L: "live s h" and ok: "rx_ok s"
  shows "\<exists>s'. console_on_char_from_irq h ch s = Inr s' \<and> kinv s' \<and> cpus_eq s s'"
proof -
  note F = rb_push_frame [of ch s]
  note V = kinv_cong [OF F(1-5)]
  have K1: "kinv (rb_push ch s)" "live (rb_push ch s) h" "rx_ok (rb_push ch s)"
    using K L V rb_push_law(1) [OF ok] by simp_all
  show ?thesis
  proof (cases "g_stdin_waiter s < 0")
    case True
    then show ?thesis using K1(1) by (simp add: console_on_char_from_irq_def Let_def F cpus_eqI)
  next
    case False
    then obtain s2 where s2: "thread_read_from_stdin h console_read_nonblock (rb_push ch s) = Inr s2" "kinv s2"
      "cpus_eq (rb_push ch s) s2"
      using read_from_stdin_ok [OF K1] by (auto simp: F)
    have "cpus_eq s (s2\<lparr>g_stdin_waiter := -1\<rparr>)" using s2(3) by (simp add: cpus_eq_def F)
    then show ?thesis
      using False s2 kinv_no_waiter [OF s2(2)] by (simp add: console_on_char_from_irq_def Let_def F)
  qed
qed

end
