(* ===== verification/Irq.thy ===== *)
theory Irq
  imports Console
begin

text \<open>
  Interrupt sources: the platform-level interrupt controller (\<open>plic.c\<close>), the receive side and the
  initialisation of the UART (\<open>uart_16550.c\<close>), the handler table, the interrupt statistics and the
  initialisation sequence of \<open>platform.c\<close>. The claim register hands out the interrupts of
  \<open>plic_claims\<close> one by one and then 0; the UART's line status and interrupt identification
  registers are those of a 16550 whose only enabled source is received data.
\<close>

section \<open>PLIC\<close>

definition PLIC_PRIORITY_OFFSET :: u32 where "PLIC_PRIORITY_OFFSET = 0"
definition PLIC_SENABLE_HART0_OFFSET :: u32 where "PLIC_SENABLE_HART0_OFFSET = 0x002080"
definition PLIC_STHRESHOLD_HART0_OFFSET :: u32 where "PLIC_STHRESHOLD_HART0_OFFSET = 0x201000"
definition PLIC_SCLAIM_HART0_OFFSET :: u32 where "PLIC_SCLAIM_HART0_OFFSET = 0x201004"
definition PLIC_CONTEXTS_PER_HART :: u32 where "PLIC_CONTEXTS_PER_HART = 2"
definition PLIC_ENABLE_PER_CONTEXT_STRIDE :: u32 where "PLIC_ENABLE_PER_CONTEXT_STRIDE = 0x80"
definition PLIC_CONTEXT_STRIDE :: u32 where "PLIC_CONTEXT_STRIDE = 0x1000"

definition plic_senable_offset_for_hart :: "u32 \<Rightarrow> u32" where
  "plic_senable_offset_for_hart hartid =
     PLIC_SENABLE_HART0_OFFSET + (hartid * PLIC_CONTEXTS_PER_HART) * PLIC_ENABLE_PER_CONTEXT_STRIDE"

definition plic_sthreshold_offset_for_hart :: "u32 \<Rightarrow> u32" where
  "plic_sthreshold_offset_for_hart hartid =
     PLIC_STHRESHOLD_HART0_OFFSET + (hartid * PLIC_CONTEXTS_PER_HART) * PLIC_CONTEXT_STRIDE"

definition plic_sclaim_offset_for_hart :: "u32 \<Rightarrow> u32" where
  "plic_sclaim_offset_for_hart hartid =
     PLIC_SCLAIM_HART0_OFFSET + (hartid * PLIC_CONTEXTS_PER_HART) * PLIC_CONTEXT_STRIDE"

definition w32 :: "u32 \<Rightarrow> u32 \<Rightarrow> kstate \<Rightarrow> kstate" where
  "w32 off v s = s\<lparr>plic_regs := (plic_regs s)(off := v)\<rparr>"

definition r32 :: "u32 \<Rightarrow> kstate \<Rightarrow> u32" where
  "r32 off s = plic_regs s off"

definition plic_ensure_base :: "kstate \<Rightarrow> kstate" where
  "plic_ensure_base s =
     (if plic_base s \<noteq> 0 then s
      else if g_dtb s = 0 then s
      else case dtb_plic s of
        None \<Rightarrow> s
      | Some (base, ndev) \<Rightarrow>
          s\<lparr>plic_num_sources := (case ndev of Some n \<Rightarrow> if n > 0 then n else 32 | None \<Rightarrow> 32),
             plic_base := base\<rparr>)"

definition cpu_current_hartid :: "nat \<Rightarrow> kstate \<Rightarrow> u32" where
  "cpu_current_hartid h s = of_nat (c_hartid (g_cpus s h))"

definition plic_init_s_mode :: "nat \<Rightarrow> kstate \<Rightarrow> kstate" where
  "plic_init_s_mode h s =
     (let s1 = plic_ensure_base s in
      if plic_base s1 = 0 then s1
      else let hartid = cpu_current_hartid h s1
           in w32 (plic_senable_offset_for_hart hartid) 0 (w32 (plic_sthreshold_offset_for_hart hartid) 0 s1))"

definition plic_set_priority :: "u32 \<Rightarrow> u32 \<Rightarrow> kstate \<Rightarrow> kstate" where
  "plic_set_priority irq prio s =
     (if irq = 0 then s
      else let s1 = plic_ensure_base s
           in if plic_base s1 = 0 then s1 else w32 (PLIC_PRIORITY_OFFSET + 4 * irq) prio s1)"

definition plic_word_off :: "nat \<Rightarrow> u32 \<Rightarrow> kstate \<Rightarrow> u32" where
  "plic_word_off h irq s = plic_senable_offset_for_hart (cpu_current_hartid h s) + 4 * (irq div 32)"

definition plic_enable_irq :: "nat \<Rightarrow> u32 \<Rightarrow> kstate \<Rightarrow> kstate" where
  "plic_enable_irq h irq s =
     (if irq = 0 then s
      else let s1 = plic_ensure_base s in
        if plic_base s1 = 0 then s1
        else if plic_num_sources s1 \<noteq> 0 \<and> irq > plic_num_sources s1 then s1
        else let word_off = plic_word_off h irq s1; b = irq mod 32
             in w32 word_off (r32 word_off s1 OR push_bit (unat b) 1) s1)"

definition plic_disable_irq :: "nat \<Rightarrow> u32 \<Rightarrow> kstate \<Rightarrow> kstate" where
  "plic_disable_irq h irq s =
     (if irq = 0 then s
      else let s1 = plic_ensure_base s in
        if plic_base s1 = 0 then s1
        else if plic_num_sources s1 \<noteq> 0 \<and> irq > plic_num_sources s1 then s1
        else let word_off = plic_word_off h irq s1; b = irq mod 32
             in w32 word_off (r32 word_off s1 AND NOT (push_bit (unat b) 1)) s1)"

definition plic_claim :: "nat \<Rightarrow> kstate \<Rightarrow> u32 \<times> kstate" where
  "plic_claim h s =
     (let s1 = plic_ensure_base s in
      if plic_base s1 = 0 then (0, s1)
      else case plic_claims s1 (c_hartid (g_cpus s1 h)) of
        [] \<Rightarrow> (0, s1)
      | irq # rest \<Rightarrow> (irq, s1\<lparr>plic_claims := (plic_claims s1)(c_hartid (g_cpus s1 h) := rest)\<rparr>))"

definition plic_complete :: "nat \<Rightarrow> u32 \<Rightarrow> kstate \<Rightarrow> kstate" where
  "plic_complete h irq s =
     (if irq = 0 then s
      else let s1 = plic_ensure_base s
           in if plic_base s1 = 0 then s1
              else w32 (plic_sclaim_offset_for_hart (cpu_current_hartid h s1)) irq s1)"

section \<open>UART\<close>

definition UART_LSR_DR :: u8 where "UART_LSR_DR = 0x01"
definition UART_LSR_THRE :: u8 where "UART_LSR_THRE = 0x20"
definition UART_IER_ERBFI :: u8 where "UART_IER_ERBFI = 0x01"
definition UART_IIR_NO_PENDING :: u8 where "UART_IIR_NO_PENDING = 0x01"
definition UART_IIR_ID_MASK :: u8 where "UART_IIR_ID_MASK = 0x0F"
definition UART_IIR_ID_MSR :: u8 where "UART_IIR_ID_MSR = 0x00"
definition UART_IIR_ID_THRE :: u8 where "UART_IIR_ID_THRE = 0x02"
definition UART_IIR_ID_RX :: u8 where "UART_IIR_ID_RX = 0x04"
definition UART_IIR_ID_LSR :: u8 where "UART_IIR_ID_LSR = 0x06"
definition UART_IIR_ID_RXTO :: u8 where "UART_IIR_ID_RXTO = 0x0C"

definition uart_reg_addr :: "u32 \<Rightarrow> kstate \<Rightarrow> u64" where
  "uart_reg_addr reg_index s =
     uart_base s + ucast (uart_reg_offset s) + push_bit (unat (uart_reg_shift s)) (ucast reg_index)"

definition uart_ier_write :: "u8 \<Rightarrow> kstate \<Rightarrow> kstate" where
  "uart_ier_write v s = emit (EvUartIer v) s"

definition uart_lsr_read :: "kstate \<Rightarrow> u8" where
  "uart_lsr_read s = UART_LSR_THRE OR (if uart_rx s = [] then 0 else UART_LSR_DR)"

definition uart_iir_read :: "kstate \<Rightarrow> u8" where
  "uart_iir_read s = (if uart_rx s = [] then UART_IIR_NO_PENDING else UART_IIR_ID_RX)"

definition uart16550_get_irq :: "kstate \<Rightarrow> u32" where
  "uart16550_get_irq s = uart_irq s"

definition uart16550_parse_dt_params :: "kstate \<Rightarrow> kstate" where
  "uart16550_parse_dt_params s =
     (if g_dtb s = 0 then s
      else case dtb_uart s of
        None \<Rightarrow> s
      | Some du \<Rightarrow>
          let s1 = (case du_shift du of Some v \<Rightarrow> s\<lparr>uart_reg_shift := v\<rparr> | None \<Rightarrow> s);
              s2 = (case du_width du of
                      Some w \<Rightarrow> if w = 1 \<or> w = 2 \<or> w = 4 then s1\<lparr>uart_reg_io_width := w\<rparr> else s1
                    | None \<Rightarrow> s1)
          in (case du_offset du of Some v \<Rightarrow> s2\<lparr>uart_reg_offset := v\<rparr> | None \<Rightarrow> s2))"

text \<open>The two lookups of the driver, on the answers of the device-tree library that the state holds; \<open>Device_Tree\<close> relates these to the
  functions of \<open>fdt_helper.c\<close> on the bytes of the blob.\<close>

definition uart_reg_lookup :: "kstate \<Rightarrow> u64 option" where
  "uart_reg_lookup s = (if g_dtb s = 0 then None else case dtb_uart s of None \<Rightarrow> None | Some du \<Rightarrow> du_reg du)"

definition uart_irq_lookup :: "kstate \<Rightarrow> u32 option" where
  "uart_irq_lookup s = (if g_dtb s = 0 then None else case dtb_uart s of None \<Rightarrow> None | Some du \<Rightarrow> du_irq du)"

definition uart16550_init :: "kstate \<Rightarrow> kstate" where
  "uart16550_init s =
     (case uart_reg_lookup s of
        None \<Rightarrow> platform_puts ''uart16550_init: no ns16550a reg in fdt\<newline>'' s
      | Some base \<Rightarrow>
          (case uart_irq_lookup s of
             None \<Rightarrow> platform_puts ''uart16550_init: no ns16550a interrupts in fdt\<newline>'' s
           | Some irq \<Rightarrow>
               uart_ier_write UART_IER_ERBFI
                 (uart16550_parse_dt_params (s\<lparr>uart_base := base, uart_irq := irq\<rparr>))))"

text \<open>\<open>while (uart_lsr_read() & UART_LSR_DR)\<close>: the loop takes one byte off the receiver per round, until
  the receiver is empty.\<close>

fun uart_drain :: "nat \<Rightarrow> u8 list \<Rightarrow> kstate \<Rightarrow> kstate kres" where
  "uart_drain h [] s = Inr (s\<lparr>uart_rx := []\<rparr>)"
| "uart_drain h (ch # rest) s =
     bindE (console_on_char_from_irq h ch (s\<lparr>uart_rx := rest\<rparr>)) (uart_drain h rest)"

text \<open>The outer loop. With received data as the only source it ends in the second round.\<close>

fun uart_irq_loop :: "nat \<Rightarrow> nat \<Rightarrow> kstate \<Rightarrow> kstate kres" where
  "uart_irq_loop 0 h s = Inl Diverges"
| "uart_irq_loop (Suc n) h s =
     (let iir = uart_iir_read s in
      if iir AND UART_IIR_NO_PENDING \<noteq> 0 then Inr s
      else
        let id = iir AND UART_IIR_ID_MASK
        in if id = UART_IIR_ID_RX \<or> id = UART_IIR_ID_RXTO
           then bindE (uart_drain h (uart_rx s) s) (uart_irq_loop n h)
           else uart_irq_loop n h s)"

definition uart16550_irq_handler :: "nat \<Rightarrow> kstate \<Rightarrow> kstate kres" where
  "uart16550_irq_handler h s = uart_irq_loop 2 h s"

section \<open>Handler table and statistics\<close>

definition MAX_IRQ :: nat where "MAX_IRQ = 64"

definition platform_irq_table_init :: "kstate \<Rightarrow> kstate" where
  "platform_irq_table_init s =
     s\<lparr>s_irq_table := (\<lambda>i. if i < MAX_IRQ then None else s_irq_table s i)\<rparr>"

definition platform_register_irq_handler :: "nat \<Rightarrow> u32 \<Rightarrow> irq_handler \<Rightarrow> string \<Rightarrow> kstate \<Rightarrow> kstate" where
  "platform_register_irq_handler h irq handler name s =
     (if unat irq \<ge> MAX_IRQ then s
      else plic_enable_irq h irq (plic_set_priority irq 1
             (s\<lparr>s_irq_table := (s_irq_table s)(unat irq := Some handler),
                s_irq_name := (s_irq_name s)(unat irq := Some name)\<rparr>)))"

definition irq_account :: "u64 \<Rightarrow> irq_stat_t \<Rightarrow> irq_stat_t" where
  "irq_account now st =
     (let st1 = (if st_count st = 0 then st\<lparr>st_first_tick := now\<rparr>
                 else let delta = now - st_last_tick st
                      in if delta > st_max_delta st then st\<lparr>st_max_delta := delta\<rparr> else st)
      in st1\<lparr>st_last_tick := now, st_count := st_count st1 + 1\<rparr>)"

definition run_irq_handler :: "nat \<Rightarrow> irq_handler \<Rightarrow> kstate \<Rightarrow> kstate kres" where
  "run_irq_handler h handler s = (case handler of UART16550_IRQ_HANDLER \<Rightarrow> uart16550_irq_handler h s)"

text \<open>The body of the claim loop for one interrupt number.\<close>

definition handle_irq :: "nat \<Rightarrow> u32 \<Rightarrow> kstate \<Rightarrow> kstate kres" where
  "handle_irq h irq s =
     (let now = timer_now s;
          s1 = (if unat irq < MAX_IRQ
                then s\<lparr>s_irq_stats := (s_irq_stats s)(unat irq := irq_account now (s_irq_stats s (unat irq)))\<rparr>
                else s);
          handler = (if unat irq < MAX_IRQ then s_irq_table s1 (unat irq) else None)
      in case handler of
           Some f \<Rightarrow> run_irq_handler h f s1
         | None \<Rightarrow> Inr (platform_puts ''unknown PLIC irq\<newline>'' s1))"

fun handle_claims :: "nat \<Rightarrow> nat \<Rightarrow> u32 list \<Rightarrow> kstate \<Rightarrow> kstate kres" where
  "handle_claims h hid [] s = Inr s"
| "handle_claims h hid (irq # rest) s =
     (let s1 = s\<lparr>plic_claims := (plic_claims s)(hid := rest)\<rparr> in
      if irq = 0 then Inr s1
      else bindE (handle_irq h irq s1) (\<lambda>s2. handle_claims h hid rest (plic_complete h irq s2)))"

definition platform_handle_s_external :: "nat \<Rightarrow> kstate \<Rightarrow> kstate kres" where
  "platform_handle_s_external h s =
     (let s1 = plic_ensure_base s; hid = c_hartid (g_cpus s1 h) in
      if plic_base s1 = 0 then Inr s1 else handle_claims h hid (plic_claims s1 hid) s1)"

record platform_irq_stat_t =
  ps_irq :: u32
  ps_count :: u64
  ps_first_tick :: u64
  ps_last_tick :: u64
  ps_max_delta :: u64
  ps_name :: "string option"

definition platform_irq_get_stats :: "nat \<Rightarrow> kstate \<Rightarrow> platform_irq_stat_t list" where
  "platform_irq_get_stats mx s =
     (let n = (if mx < MAX_IRQ then mx else MAX_IRQ)
      in map (\<lambda>i. \<lparr>ps_irq = of_nat i, ps_count = st_count (s_irq_stats s i),
           ps_first_tick = st_first_tick (s_irq_stats s i), ps_last_tick = st_last_tick (s_irq_stats s i),
           ps_max_delta = st_max_delta (s_irq_stats s i), ps_name = s_irq_name s i\<rparr>) [0..<n])"

section \<open>Initialisation\<close>

definition platform_set_dtb :: "u64 \<Rightarrow> kstate \<Rightarrow> kstate kres" where
  "platform_set_dtb dtb_pa s =
     (if dtb_pa = 0 then Inr s
      else if g_dtb s = 0 then Inr (s\<lparr>g_dtb := dtb_pa\<rparr>)
      else if g_dtb s \<noteq> dtb_pa then Inl (Panic ''platform_set_dtb: dtb mismatch'')
      else Inr s)"

definition platform_plic_init :: "nat \<Rightarrow> kstate \<Rightarrow> kstate" where
  "platform_plic_init h s = plic_init_s_mode h s"

text \<open>\<open>timer_init\<close> only reports which timer node the device tree has.\<close>

definition timer_init :: "kstate \<Rightarrow> kstate" where
  "timer_init s =
     (if g_dtb s = 0 then platform_puts ''timer: no FDT, fallback to SBI\<newline>'' s
      else
        let (aclint, clint) = dtb_timer s;
            s1 = (if aclint then platform_puts ''timer: found riscv,aclint-mtimer\<newline>'' s else s)
        in if \<not> aclint \<and> \<not> clint then platform_puts ''timer: no CLINT/ACLINT in FDT, use SBI\<newline>'' s1 else s1)"

definition platform_init :: "nat \<Rightarrow> u64 \<Rightarrow> kstate \<Rightarrow> kstate kres" where
  "platform_init h dtb_pa s =
     bindE (platform_set_dtb dtb_pa s) (\<lambda>s1.
       Inr (platform_irq_table_init (platform_plic_init h (timer_init (uart16550_init s1)))))"

definition platform_boot_hart_init :: "nat \<Rightarrow> kstate \<Rightarrow> kstate kres" where
  "platform_boot_hart_init h s =
     (if g_dtb s = 0 then Inl (Panic ''ASSERT failed: g_dtb != NULL'')
      else Inr (platform_register_irq_handler h (uart16550_get_irq s) UART16550_IRQ_HANDLER ''uart0'' s))"

definition platform_secondary_hart_init :: "nat \<Rightarrow> kstate \<Rightarrow> kstate kres" where
  "platform_secondary_hart_init h s =
     (if g_dtb s = 0 then Inl (Panic ''ASSERT failed: g_dtb != NULL'')
      else Inr (platform_plic_init h s))"

end
