(* ===== verification/Frames.thy ===== *)
theory Frames
  imports Irq
begin

text \<open>
  What the operations of the thread subsystem leave alone. \<open>still\<close>: the receive ring of the console and
  the online flags, which no operation touches; \<open>calm\<close>: in addition the current thread of every hart,
  which only \<open>schedule\<close> changes. One lemma per operation, collected in \<open>frame\<close>.
\<close>

definition still :: "kstate \<Rightarrow> (nat \<Rightarrow> u8) \<times> u32 \<times> u32 \<times> (nat \<Rightarrow> bool)" where
  "still s = (g_rx_buf s, g_rx_head s, g_rx_tail s, \<lambda>k. c_online (g_cpus s k))"

definition calm :: "kstate \<Rightarrow> ((nat \<Rightarrow> u8) \<times> u32 \<times> u32 \<times> (nat \<Rightarrow> bool)) \<times> (nat \<Rightarrow> int)" where
  "calm s = (still s, cur s)"

lemma calm_still: "calm s' = calm s \<Longrightarrow> still s' = still s" and calm_cur: "calm s' = calm s \<Longrightarrow> cur s' = cur s"
  by (simp_all add: calm_def)

lemma still_rx_ok: "still s' = still s \<Longrightarrow> rx_ok s' = rx_ok s" and still_live: "still s' = still s \<Longrightarrow> live s' = live s"
  by (auto simp: still_def rx_ok_def live_def fun_eq_iff)

lemma still_updates [simp]:
  "still (upd_thread i f s) = still s" "still (upd_rq h r s) = still s"
  "still (emit e s) = still s" "still (store_int32 p v s) = still s" "still (s\<lparr>g_stdin_waiter := w\<rparr>) = still s"
  "still (s\<lparr>g_ticks := t\<rparr>) = still s" "still (s\<lparr>csr_sip := x\<rparr>) = still s" "still (s\<lparr>uart_rx := y\<rparr>) = still s"
  "still (s\<lparr>heap_u8 := m\<rparr>) = still s"
  by (simp_all add: still_def upd_thread_def upd_rq_def emit_def store_int32_def)

lemma calm_updates [simp]:
  "calm (upd_thread i f s) = calm s" "calm (upd_rq h r s) = calm s"
  "calm (emit e s) = calm s" "calm (store_int32 p v s) = calm s" "calm (s\<lparr>g_stdin_waiter := w\<rparr>) = calm s"
  "calm (s\<lparr>g_ticks := t\<rparr>) = calm s" "calm (s\<lparr>csr_sip := x\<rparr>) = calm s" "calm (s\<lparr>uart_rx := y\<rparr>) = calm s"
  "calm (s\<lparr>heap_u8 := m\<rparr>) = calm s"
  by (simp_all add: calm_def, simp_all add: cur_def fun_eq_iff)

lemma still_upd_cpu [simp]: "(\<And>c. c_online (f c) = c_online c) \<Longrightarrow> still (upd_cpu h f s) = still s"
  by (auto simp: still_def upd_cpu_def fun_eq_iff)

lemma calm_upd_cpu [simp]:
  "(\<And>c. c_online (f c) = c_online c) \<Longrightarrow> (\<And>c. c_current_tid (f c) = c_current_tid c) \<Longrightarrow> calm (upd_cpu h f s) = calm s"
  by (simp add: calm_def) (simp add: cur_def fun_eq_iff)

lemma calm_simple [simp]:
  "calm (smp_kick_hart k s) = calm s" "calm (recycle_thread t s) = calm s" "calm (rq_dec_len h s) = calm s"
  "calm (set_a0 tf v s) = calm s" "calm (sched_rearm_timer h s) = calm s"
  "calm (kill_signal h t s) = calm s" "calm (kill_finish t j s) = calm s" "calm (rq_unlink h c p s) = calm s"
  "calm (thread_sys_detach tf t s) = calm s"
proof -
  show a: "calm (smp_kick_hart k s) = calm s" "calm (recycle_thread t s) = calm s" "calm (rq_dec_len h s) = calm s" for k t h s
    by (simp_all add: smp_kick_hart_def recycle_thread_def rq_dec_len_def)
  show b: "calm (set_a0 tf v s) = calm s" for tf v s
    by (cases tf) (simp_all add: set_a0_def, simp_all add: calm_def still_def cur_def fun_eq_iff)
  show "calm (sched_rearm_timer h s) = calm s" by (simp add: sched_rearm_timer_eq calm_def still_def cur_def fun_eq_iff)
  show "calm (kill_signal h t s) = calm s" "calm (kill_finish t j s) = calm s" "calm (rq_unlink h c p s) = calm s"
    by (simp_all add: kill_signal_def kill_finish_def rq_unlink_def Let_def a)
  show "calm (thread_sys_detach tf t s) = calm s" by (simp add: thread_sys_detach_def Let_def a b)
qed

lemmas still_simple [simp] = calm_simple [THEN calm_still]

lemma still_schedule_in [simp]: "still (schedule_in h c t s) = still s"
  by (simp add: schedule_in_def Let_def thread_mark_running_def)

lemma calm_rq [frame]:
  "rq_push_tail h t s = Inr s' \<Longrightarrow> calm s' = calm s"
  "rq_pop_head h s = Inr (x, s') \<Longrightarrow> calm s' = calm s"
  by (auto simp: rq_push_tail_def rq_pop_head_def Let_def bindE_eq_Inr split: if_splits)

lemma calm_remove_loop: "rq_remove_loop n h t c p s = Inr (x, s') \<Longrightarrow> calm s' = calm s"
  by (induction n h t c p s rule: rq_remove_loop.induct) (auto split: if_splits)

lemma calm_remove_any_loop: "rq_remove_any_loop hs t s = Inr (x, s') \<Longrightarrow> calm s' = calm s"
proof (induction hs t s rule: rq_remove_any_loop.induct)
  case (2 h hs t s)
  then obtain rc s1 where r: "rq_remove h t s = Inr (rc, s1)"
    and n: "(if rc = 0 then Inr (int h, s1) else rq_remove_any_loop hs t s1) = Inr (x, s')"
    by (auto simp: bindE_eq_Inr)
  have "calm s1 = calm s" using r by (auto simp: rq_remove_def dest: calm_remove_loop split: if_splits)
  moreover have "calm s' = calm s1" using n 2(1) by (auto split: if_splits)
  ultimately show ?case by simp
qed simp

lemma calm_remove_any [frame]: "rq_remove_any t s = Inr (x, s') \<Longrightarrow> calm s' = calm s"
  by (auto simp: rq_remove_any_def dest: calm_remove_any_loop split: if_splits)

lemma calm_make_runnable [frame]: "thread_make_runnable h t p s = Inr s' \<Longrightarrow> calm s' = calm s"
  by (auto simp: thread_make_runnable_def bindE_eq_Inr dest!: calm_rq split: if_splits)

lemma calm_pick: "schedule_pick n h i s = Inr (t, s') \<Longrightarrow> calm s' = calm s"
proof (induction n h i s rule: schedule_pick.induct)
  case (2 n h i s)
  then obtain x s1 where "rq_pop_head h s = Inr (x, s1)"
    and n: "(if x < 0 then Inr (i, s1) else if t_state (g_threads s1 x) = THREAD_RUNNABLE then Inr (x, s1)
       else schedule_pick n h i s1) = Inr (t, s')"
    by (auto simp: bindE_eq_Inr)
  moreover from this have "calm s1 = calm s" by (auto dest: calm_rq)
  ultimately show ?case using 2(1) by (auto split: if_splits)
qed simp

lemmas still_rq = calm_rq [THEN calm_still]
lemmas still_pick = calm_pick [THEN calm_still]

lemma still_schedule_out: "schedule_out h c s = Inr s' \<Longrightarrow> still s' = still s"
  by (auto simp: schedule_out_def Let_def bindE_eq_Inr thread_mark_not_running_def dest!: still_rq split: if_splits)

lemma still_schedule [frame]: "schedule h tf s = Inr s' \<Longrightarrow> still s' = still s"
  by (auto simp: schedule_def Let_def bindE_eq_Inr simp del: schedule_pick.simps add_2_eq_Suc'
      dest!: still_schedule_out still_pick split: if_splits)

lemma calm_notify [frame]: "notify_joiner h j c s = Inr s' \<Longrightarrow> calm s' = calm s"
  by (auto simp: notify_joiner_def Let_def dest!: calm_make_runnable split: if_splits)

lemmas still_notify = calm_notify [THEN calm_still]

lemma still_exit [frame]: "thread_sys_exit h tf c s = Inr s' \<Longrightarrow> still s' = still s"
  by (auto simp: thread_sys_exit_def Let_def bindE_eq_Inr dest!: still_schedule still_notify split: if_splits)

lemma still_join [frame]: "thread_sys_join h tf t p s = Inr s' \<Longrightarrow> still s' = still s"
  by (auto simp: thread_sys_join_def Let_def dest!: still_schedule split: if_splits)

lemma still_sleep [frame]: "thread_sys_sleep h tf n s = Inr s' \<Longrightarrow> still s' = still s"
  by (auto simp: thread_sys_sleep_def Let_def dest!: still_schedule split: if_splits)

lemma still_wait [frame]: "thread_wait_for_stdin h b l tf s = Inr s' \<Longrightarrow> still s' = still s"
  by (auto simp: thread_wait_for_stdin_def thread_block_def Let_def dest!: still_schedule split: if_splits)

lemma calm_kill_thread:
  assumes "kill_thread h t s = Inr s'"
  shows "calm s' = calm s"
proof -
  let ?s1 = "upd_thread t (\<lambda>t. t\<lparr>t_exit_code := THREAD_EXITCODE_SIGKILL, t_state := THREAD_ZOMBIE, t_wakeup_tick := 0\<rparr>) s"
  let ?j = "t_join_waiter (g_threads s t)"
  obtain s2 s5 where s2: "(if t_on_rq (g_threads ?s1 t) then bindE (rq_remove_any t ?s1) (\<lambda>(_, s'). Inr s') else Inr ?s1) = Inr s2"
    and s5: "(if ?j \<ge> 0 \<and> ?j < THREAD_MAX
        then bindE (notify_joiner h ?j (t_exit_code (g_threads s2 t)) (kill_signal h t s2)) (\<lambda>s4.
               if t_running_hart (g_threads s4 t) < 0 \<and> \<not> t_on_rq (g_threads s4 t) then Inr (recycle_thread t s4)
               else Inr (upd_thread t (\<lambda>t. t\<lparr>t_join_waiter := ?j\<rparr>) s4))
        else Inr (kill_signal h t s2)) = Inr s5"
    and s': "s' = kill_finish t ?j s5"
    using assms unfolding kill_thread_def Let_def bindE_eq_Inr by blast
  have "calm s2 = calm s"
    using s2 by (cases "t_on_rq (g_threads ?s1 t)") (auto simp: bindE_eq_Inr dest!: calm_remove_any)
  moreover have "calm s5 = calm s2"
    using s5 by (cases "?j \<ge> 0 \<and> ?j < THREAD_MAX") (auto simp: bindE_eq_Inr dest!: calm_notify split: if_splits)
  ultimately show ?thesis by (simp add: s')
qed

lemma calm_kill [frame]: "thread_sys_kill h tf t s = Inr s' \<Longrightarrow> calm s' = calm s"
  by (auto simp: thread_sys_kill_def Let_def bindE_eq_Inr dest!: calm_kill_thread split: if_splits)

lemma calm_create [frame]: "thread_create_user h e a n s = Inr (t, s') \<Longrightarrow> calm s' = calm s"
  by (auto simp: thread_create_user_def init_thread_context_u_def Let_def bindE_eq_Inr dest!: calm_make_runnable split: if_splits)

lemma calm_tick_loop: "tick_loop h ts s = Inr s' \<Longrightarrow> calm s' = calm s"
  by (induction h ts s rule: tick_loop.induct) (auto simp: bindE_eq_Inr dest!: calm_make_runnable split: if_splits)

lemma calm_tick [frame]: "threads_tick h s = Inr s' \<Longrightarrow> calm s' = calm s"
  unfolding threads_tick_def by (drule calm_tick_loop) simp

lemmas still_tick = calm_tick [THEN calm_still]

lemma still_timer [frame]:
  assumes "sched_on_timer_irq h tf s = Inr s'"
  shows "still s' = still s"
proof -
  define s2 where "s2 = sched_rearm_timer h (upd_cpu h (\<lambda>c. c\<lparr>c_timer_irqs := c_timer_irqs c + 1\<rparr>) s)"
  obtain s3 where s3: "(if c_hartid (g_cpus s2 h) = g_boot_hartid s2 then threads_tick h s2 else Inr s2) = Inr s3"
    and r: "(let s4 = (if c_slice_left (g_cpus s3 h) > 0
                  then upd_cpu h (\<lambda>c. c\<lparr>c_slice_left := c_slice_left c - 1\<rparr>) s3 else s3)
        in if c_slice_left (g_cpus s4 h) = 0
           then schedule h tf (upd_cpu h (\<lambda>c. c\<lparr>c_slice_left := SCHED_SLICE_TICKS, c_need_resched := False\<rparr>) s4)
           else Inr s4) = Inr s'"
    using assms unfolding sched_on_timer_irq_def Let_def s2_def bindE_eq_Inr by blast
  have "still s3 = still s2" using s3 by (auto dest: still_tick split: if_splits)
  moreover have "still s2 = still s" by (simp add: s2_def)
  moreover have "still s' = still s3" using r by (auto simp: Let_def dest!: still_schedule split: if_splits)
  ultimately show ?thesis by simp
qed

lemma still_ipi [frame]: "sched_on_ipi_irq h tf s = Inr s' \<Longrightarrow> still s' = still s"
  by (auto simp: sched_on_ipi_irq_def Let_def dest!: still_schedule)

lemma calm_wake [frame]: "thread_wake h t s = Inr s' \<Longrightarrow> calm s' = calm s"
  by (auto simp: thread_wake_def dest!: calm_make_runnable split: if_splits)

section \<open>A hart that has scheduled runs a thread\<close>

lemma seat_schedule: "schedule h tf s = Inr s' \<Longrightarrow> valid_tid (cur s' h)"
  by (auto simp: schedule_def Let_def bindE_eq_Inr cur_def schedule_in_sel split: if_splits)

lemma seat_sleep: "thread_sys_sleep h tf n s = Inr s' \<Longrightarrow> valid_tid (cur s' h)"
  by (auto simp: thread_sys_sleep_def Let_def dest!: seat_schedule split: if_splits)

lemma seat_exit: "thread_sys_exit h tf c s = Inr s' \<Longrightarrow> valid_tid (cur s' h)"
  by (auto simp: thread_sys_exit_def Let_def bindE_eq_Inr dest!: seat_schedule split: if_splits)

lemma seat_wait: "thread_wait_for_stdin h b l tf s = Inr s' \<Longrightarrow> valid_tid (cur s' h)"
  by (auto simp: thread_wait_for_stdin_def thread_block_def Let_def dest!: seat_schedule split: if_splits)

lemma seat_join: "thread_sys_join h tf t p s = Inr s' \<Longrightarrow> valid_tid (cur s' h) \<or> cur s' = cur s"
  by (auto simp: thread_sys_join_def Let_def dest!: seat_schedule split: if_splits)

lemma seat_ipi: "sched_on_ipi_irq h tf s = Inr s' \<Longrightarrow> valid_tid (cur s' h)"
  by (auto simp: sched_on_ipi_irq_def Let_def dest!: seat_schedule)

lemma seat_timer:
  assumes "sched_on_timer_irq h tf s = Inr s'"
  shows "valid_tid (cur s' h) \<or> cur s' = cur s"
proof -
  define s2 where "s2 = sched_rearm_timer h (upd_cpu h (\<lambda>c. c\<lparr>c_timer_irqs := c_timer_irqs c + 1\<rparr>) s)"
  obtain s3 where s3: "(if c_hartid (g_cpus s2 h) = g_boot_hartid s2 then threads_tick h s2 else Inr s2) = Inr s3"
    and r: "(let s4 = (if c_slice_left (g_cpus s3 h) > 0
                  then upd_cpu h (\<lambda>c. c\<lparr>c_slice_left := c_slice_left c - 1\<rparr>) s3 else s3)
        in if c_slice_left (g_cpus s4 h) = 0
           then schedule h tf (upd_cpu h (\<lambda>c. c\<lparr>c_slice_left := SCHED_SLICE_TICKS, c_need_resched := False\<rparr>) s4)
           else Inr s4) = Inr s'"
    using assms unfolding sched_on_timer_irq_def Let_def s2_def bindE_eq_Inr by blast
  have "calm s3 = calm s2" using s3 by (auto dest: calm_tick split: if_splits)
  moreover have "calm s2 = calm s" by (simp add: s2_def)
  ultimately have c3: "calm s3 = calm s" by simp
  have c4: "calm (upd_cpu h (\<lambda>c. c\<lparr>c_slice_left := c_slice_left c - 1\<rparr>) s3) = calm s" using c3 by simp
  show ?thesis
    using r calm_cur [OF c3] calm_cur [OF c4] by (auto simp: Let_def dest!: seat_schedule split: if_splits)
qed

end
