(* ===== verification/Sysfile.thy ===== *)
theory Sysfile
  imports Frames
begin

text \<open>
  File descriptors, clocks and statistics: \<open>kernel/time.c\<close> and \<open>kernel/sysfile.c\<close>.
\<close>

section \<open>Time\<close>

definition ktime_get_real_ns :: "kstate \<Rightarrow> u64 \<times> kstate" where
  "ktime_get_real_ns s = platform_rtc_read_ns s"

definition ns_to_ts :: "u64 \<Rightarrow> timespec" where
  "ns_to_ts ns = \<lparr>tv_sec = ns div 1000000000, tv_nsec = ucast (ns mod 1000000000)\<rparr>"

definition ktime_get_real_ts :: "kstate \<Rightarrow> timespec \<times> kstate" where
  "ktime_get_real_ts s = (let (ns, s') = ktime_get_real_ns s in (ns_to_ts ns, s'))"

definition ktime_get_monotonic_ns :: "kstate \<Rightarrow> u64 \<times> kstate" where
  "ktime_get_monotonic_ns s = (let (now, s') = platform_rtc_read_ns s in (now - boot_real_ns s', s'))"

definition ktime_get_monotonic_ts :: "kstate \<Rightarrow> timespec \<times> kstate" where
  "ktime_get_monotonic_ts s = (let (ns, s') = ktime_get_monotonic_ns s in (ns_to_ts ns, s'))"

definition time_init :: "kstate \<Rightarrow> kstate" where
  "time_init s = (let (now, s') = platform_rtc_read_ns s in s'\<lparr>boot_real_ns := now\<rparr>)"

section \<open>Files\<close>

definition FD_STDIN :: int where "FD_STDIN = 0"
definition FD_STDOUT :: int where "FD_STDOUT = 1"
definition FD_STDERR :: int where "FD_STDERR = 2"

definition sys_write :: "int \<Rightarrow> u64 \<Rightarrow> u64 \<Rightarrow> kstate \<Rightarrow> u64 \<times> kstate" where
  "sys_write fd buf len s =
     (if len = 0 then (0, s)
      else if fd = FD_STDOUT \<or> fd = FD_STDERR then (len, console_write buf len s)
      else (- 1, s))"

text \<open>The result is the value for \<open>a0\<close>, the flag \<open>is_non_block_read\<close> and the state.\<close>

definition sys_read :: "nat \<Rightarrow> int \<Rightarrow> u64 \<Rightarrow> u64 \<Rightarrow> tfref \<Rightarrow> kstate \<Rightarrow> (u64 \<times> bool \<times> kstate) kres" where
  "sys_read h fd buf len tf s =
     (if fd \<noteq> FD_STDIN then Inr (- 1, True, s)
      else let (n, s1) = console_read_nonblock buf len s in
        if n > 0 then Inr (word_of_int n, True, s1)
        else bindE (thread_wait_for_stdin h buf len tf s1) (\<lambda>s2. Inr (0, False, s2)))"

section \<open>Clocks and statistics\<close>

definition CLOCK_REALTIME :: int where "CLOCK_REALTIME = 0"
definition CLOCK_MONOTONIC :: int where "CLOCK_MONOTONIC = 1"

definition copy_to_user_timespec :: "u64 \<Rightarrow> timespec \<Rightarrow> kstate \<Rightarrow> int \<times> kstate" where
  "copy_to_user_timespec u_ts k_ts s =
     (if u_ts = 0 then (-1, s)
      else (0, s\<lparr>heap_ts := (heap_ts s)(u_ts := \<lparr>tv_sec = tv_sec k_ts, tv_nsec = tv_nsec k_ts\<rparr>)\<rparr>))"

definition sys_clock_gettime :: "int \<Rightarrow> u64 \<Rightarrow> kstate \<Rightarrow> int \<times> kstate" where
  "sys_clock_gettime clock_id u_ts s =
     (if clock_id = CLOCK_REALTIME \<or> clock_id = CLOCK_MONOTONIC
      then
        let (kt, s1) = (if clock_id = CLOCK_REALTIME then ktime_get_real_ts s else ktime_get_monotonic_ts s);
            (rc, s2) = copy_to_user_timespec u_ts kt s1
        in if rc \<noteq> 0 then (-1, s2) else (0, s2)
      else (-1, s))"

definition IRQSTAT_MAX_IRQ :: nat where "IRQSTAT_MAX_IRQ = 64"
definition IRQSTAT_MAX_NAME :: nat where "IRQSTAT_MAX_NAME = 16"
definition sizeof_irqstat :: u64 where "sizeof_irqstat = 56"

text \<open>The C string that the name loop leaves in \<open>tmp.name\<close>; the bytes after the terminator are
  indeterminate.\<close>

definition irq_name_bytes :: "string option \<Rightarrow> u8 list" where
  "irq_name_bytes name =
     (case name of
        None \<Rightarrow> [0]
      | Some str \<Rightarrow> takeWhile (\<lambda>b. b \<noteq> 0) (map of_char (take (IRQSTAT_MAX_NAME - 1) str)) @ [0])"

definition irqstat_entry :: "platform_irq_stat_t \<Rightarrow> irqstat_user" where
  "irqstat_entry k = \<lparr>iu_irq = ps_irq k, iu_count = ps_count k, iu_first_tick = ps_first_tick k,
     iu_last_tick = ps_last_tick k, iu_max_delta = ps_max_delta k, iu_name = irq_name_bytes (ps_name k)\<rparr>"

fun copy_irqstats :: "u64 \<Rightarrow> nat \<Rightarrow> platform_irq_stat_t list \<Rightarrow> kstate \<Rightarrow> kstate" where
  "copy_irqstats ubuf i [] s = s"
| "copy_irqstats ubuf i (k # ks) s =
     copy_irqstats ubuf (Suc i) ks
       (s\<lparr>heap_irqstat := (heap_irqstat s)(ubuf + of_nat i * sizeof_irqstat := irqstat_entry k)\<rparr>)"

definition sys_irq_get_stats :: "u64 \<Rightarrow> u64 \<Rightarrow> kstate \<Rightarrow> int \<times> kstate" where
  "sys_irq_get_stats ubuf n s =
     (if ubuf = 0 then (-1, s)
      else
        let m = (if unat n > IRQSTAT_MAX_IRQ then IRQSTAT_MAX_IRQ else unat n);
            ks = platform_irq_get_stats m s
        in (int (length ks), copy_irqstats ubuf 0 ks s))"

section \<open>What these calls do\<close>

text \<open>A timespec is the quotient and remainder of the nanosecond count, and the nanosecond part is below
  one second.\<close>

lemma ns_to_ts_exact:
  "unat (tv_sec (ns_to_ts ns)) * 1000000000 + unat (tv_nsec (ns_to_ts ns)) = unat ns
   \<and> unat (tv_nsec (ns_to_ts ns)) < 1000000000"
proof -
  have m: "unat (ns mod 1000000000) = unat ns mod 1000000000" by (simp add: unat_mod)
  have "unat (ucast (ns mod 1000000000 :: u64) :: u32) = unat (ns mod 1000000000)"
    by (simp add: unsigned_ucast_eq take_bit_nat_eq_self m)
  then show ?thesis by (simp add: ns_to_ts_def m unat_div)
qed

text \<open>The events of a write: every byte of the buffer in order, each newline preceded by a carriage
  return.\<close>

definition crlf :: "u8 list \<Rightarrow> u8 list" where
  "crlf bs = concat (map (\<lambda>b. if b = CH_NL then [CH_CR, b] else [b]) bs)"

lemma uart_fold_eq:
  "fold (\<lambda>i s. uart_put_translated (heap_u8 s (buf + of_nat i)) s) js s
     = s\<lparr>k_events := k_events s @ map EvUart (crlf (map (\<lambda>i. heap_u8 s (buf + of_nat i)) js))\<rparr>"
proof (induction js arbitrary: s)
  case Nil
  show ?case by (simp add: crlf_def)
next
  case (Cons i js)
  have s1: "uart_put_translated b s = s\<lparr>k_events := k_events s @ map EvUart (crlf [b])\<rparr>" for b s
    by (simp add: uart_put_translated_def uart16550_putc_def emit_def crlf_def)
  let ?b = "heap_u8 s (buf + of_nat i)"
  let ?bs = "map (\<lambda>i. heap_u8 s (buf + of_nat i)) js"
  have c: "map EvUart (crlf (?b # ?bs)) = map EvUart (crlf [?b]) @ map EvUart (crlf ?bs)" by (simp add: crlf_def)
  have "fold (\<lambda>i s. uart_put_translated (heap_u8 s (buf + of_nat i)) s) (i # js) s
      = fold (\<lambda>i s. uart_put_translated (heap_u8 s (buf + of_nat i)) s) js
          (s\<lparr>k_events := k_events s @ map EvUart (crlf [?b])\<rparr>)" by (simp only: fold_simps o_apply s1)
  also have "\<dots> = s\<lparr>k_events := k_events s @ map EvUart (crlf [?b]) @ map EvUart (crlf (map (\<lambda>i. heap_u8 s (buf + of_nat i)) js))\<rparr>"
    by (simp add: Cons.IH)
  finally show ?case unfolding list.map c .
qed

lemma uart16550_write_eq:
  assumes "buf \<noteq> 0"
  shows "uart16550_write buf len s
     = s\<lparr>k_events := k_events s @ map EvUart (crlf (load_bytes buf (unat len) (heap_u8 s)))\<rparr>"
  using assms uart_fold_eq [of buf "[0..<unat len]" s]
  by (cases "len = 0") (simp_all add: uart16550_write_def load_bytes_def crlf_def)

end
