(* ===== verification/Trap.thy ===== *)
theory Trap
  imports Sysfile
begin

text \<open>
  Traps: \<open>kernel/trap.c\<close>. \<open>trap_entry_c\<close> is the function every interrupt, exception and system call goes
  through; it runs under the kernel lock, so one call is one atomic step of the machine. It returns the
  trapframe that the assembly stub restores. The diagnostic dumps are part of the model
  because they read memory through the interrupted thread's frame pointer.
\<close>

section \<open>Constants\<close>

definition SCAUSE_INT :: u64 where "SCAUSE_INT = push_bit 63 1"
definition SCAUSE_CODE_MASK :: u64 where "SCAUSE_CODE_MASK = SCAUSE_INT - 1"

definition scause_is_interrupt :: "u64 \<Rightarrow> bool" where
  "scause_is_interrupt scause \<longleftrightarrow> scause AND SCAUSE_INT \<noteq> 0"

definition scause_code :: "u64 \<Rightarrow> u64" where
  "scause_code scause = scause AND SCAUSE_CODE_MASK"

definition EXC_ILLEGAL_INSTR :: u64 where "EXC_ILLEGAL_INSTR = 2"
definition EXC_BREAKPOINT :: u64 where "EXC_BREAKPOINT = 3"
definition EXC_ENV_CALL_U :: u64 where "EXC_ENV_CALL_U = 8"
definition EXC_ENV_CALL_S :: u64 where "EXC_ENV_CALL_S = 9"
definition EXC_ENV_CALL_M :: u64 where "EXC_ENV_CALL_M = 11"
definition IRQ_SOFT_S :: u64 where "IRQ_SOFT_S = 1"
definition IRQ_TIMER_S :: u64 where "IRQ_TIMER_S = 5"
definition IRQ_EXT_S :: u64 where "IRQ_EXT_S = 9"

definition SYS_SLEEP :: u64 where "SYS_SLEEP = 1"
definition SYS_THREAD_EXIT :: u64 where "SYS_THREAD_EXIT = 2"
definition SYS_THREAD_JOIN :: u64 where "SYS_THREAD_JOIN = 3"
definition SYS_THREAD_CREATE :: u64 where "SYS_THREAD_CREATE = 4"
definition SYS_WRITE :: u64 where "SYS_WRITE = 5"
definition SYS_READ :: u64 where "SYS_READ = 6"
definition SYS_THREAD_LIST :: u64 where "SYS_THREAD_LIST = 7"
definition SYS_THREAD_KILL :: u64 where "SYS_THREAD_KILL = 8"
definition SYS_CLOCK_GETTIME :: u64 where "SYS_CLOCK_GETTIME = 9"
definition SYS_IRQ_GET_STATS :: u64 where "SYS_IRQ_GET_STATS = 10"
definition SYS_GET_HARTID :: u64 where "SYS_GET_HARTID = 11"
definition SYS_YIELD :: u64 where "SYS_YIELD = 12"
definition SYS_THREAD_DETACH :: u64 where "SYS_THREAD_DETACH = 13"
definition SYS_RUNQUEUE_SNAPSHOT :: u64 where "SYS_RUNQUEUE_SNAPSHOT = 14"

section \<open>Probes and set-up\<close>

definition trap_install_bootstrap_tf :: "nat \<Rightarrow> kstate \<Rightarrow> kstate" where
  "trap_install_bootstrap_tf h s = upd_cpu h (\<lambda>c. c\<lparr>c_cur_tf := TF_BOOTSTRAP\<rparr>) s"

definition trap_illegal_probe_enable :: "kstate \<Rightarrow> kstate" where
  "trap_illegal_probe_enable s = s\<lparr>g_illegal_probe_enabled := True\<rparr>"

definition trap_illegal_probe_disable :: "kstate \<Rightarrow> kstate" where
  "trap_illegal_probe_disable s = s\<lparr>g_illegal_probe_enabled := False\<rparr>"

definition trap_illegal_probe_clear :: "kstate \<Rightarrow> kstate" where
  "trap_illegal_probe_clear s = s\<lparr>g_illegal_probe_hit := False\<rparr>"

definition trap_illegal_probe_hit :: "kstate \<Rightarrow> bool" where
  "trap_illegal_probe_hit s = g_illegal_probe_hit s"

definition trap_wfi_probe_enable :: "kstate \<Rightarrow> kstate" where
  "trap_wfi_probe_enable s = s\<lparr>g_wfi_probe_enabled := True, g_wfi_probe_fired := False\<rparr>"

definition trap_wfi_probe_disable :: "kstate \<Rightarrow> kstate" where
  "trap_wfi_probe_disable s = s\<lparr>g_wfi_probe_enabled := False\<rparr>"

definition trap_wfi_probe_fired :: "kstate \<Rightarrow> bool" where
  "trap_wfi_probe_fired s = g_wfi_probe_fired s"

definition trap_wfi_probe_set_pc :: "u64 \<Rightarrow> kstate \<Rightarrow> kstate" where
  "trap_wfi_probe_set_pc pc s = s\<lparr>g_wfi_probe_pc := pc\<rparr>"

definition STVEC_MODE_MASK :: u64 where "STVEC_MODE_MASK = 3"
definition STVEC_MODE_DIRECT :: u64 where "STVEC_MODE_DIRECT = 0"

definition trap_init :: "nat \<Rightarrow> kstate \<Rightarrow> kstate" where
  "trap_init h s = s\<lparr>csr_stvec := (csr_stvec s)(h :=
     (trap_entry_addr s AND NOT STVEC_MODE_MASK) OR STVEC_MODE_DIRECT)\<rparr>"

section \<open>Diagnostic dumps\<close>

text \<open>\<open>*(uintptr_t * )p\<close>: eight bytes, little endian.\<close>

definition load_u64 :: "u64 \<Rightarrow> kstate \<Rightarrow> u64" where
  "load_u64 p s = foldr (\<lambda>b acc. push_bit 8 acc OR ucast b) (load_bytes p 8 (heap_u8 s)) 0"

text \<open>The loop over stack frames; \<open>room\<close> is \<open>MAX_DEPTH - depth\<close>.\<close>

fun backtrace_loop :: "nat \<Rightarrow> nat \<Rightarrow> u64 \<Rightarrow> u64 \<Rightarrow> u64 \<Rightarrow> kstate \<Rightarrow> kstate" where
  "backtrace_loop 0 depth fp stack_lo stack_hi s = s"
| "backtrace_loop (Suc room) depth fp stack_lo stack_hi s =
     (if fp < stack_lo + 2 * 8 \<or> fp > stack_hi then s
      else
        let saved_ra = load_u64 (fp - 8) s; prev_fp = load_u64 (fp - 16) s
        in if saved_ra = 0 \<or> prev_fp = 0 then s
           else if prev_fp \<le> fp then s
           else backtrace_loop room (Suc depth) prev_fp stack_lo stack_hi
                  (platform_puts ''\<newline>'' (platform_put_hex64 saved_ra (platform_puts ''  ra=''
                    (platform_put_dec_us (of_nat depth) (platform_puts ''    #'' s))))))"

definition dump_backtrace_from_tf :: "trapframe \<Rightarrow> kstate \<Rightarrow> kstate" where
  "dump_backtrace_from_tf f s =
     (if tf_s0 f = 0 then platform_puts ''  backtrace: <no frame pointer>\<newline>'' s
      else
        let approx_sp = tf_sp f;
            lo = approx_sp - 16 * 1024;
            stack_hi = approx_sp + 16 * 1024;
            stack_lo = (if lo > approx_sp then 0 else lo);
            s1 = platform_puts ''    #0  pc='' (platform_puts ''  backtrace:\<newline>'' s);
            s2 = platform_puts ''  ra='' (platform_put_hex64 (tf_sepc f) s1);
            s3 = platform_puts ''\<newline>'' (platform_put_hex64 (tf_ra f) s2)
        in backtrace_loop 15 1 (tf_s0 f) stack_lo stack_hi s3)"

text \<open>\<open>platform_puts(name)\<close>: a name handed in by user code is printed up to its terminating zero.\<close>

definition puts_cname :: "cname \<Rightarrow> kstate \<Rightarrow> kstate" where
  "puts_cname n s =
     (case n of CLit str \<Rightarrow> platform_puts str s
      | CUser p \<Rightarrow> if p = 0 then s
                   else fold uart_put_translated (cname_prefix s n (2 ^ 64)) s)"

definition exc_comment :: "u64 \<Rightarrow> string" where
  "exc_comment code =
     (if code = EXC_ILLEGAL_INSTR then '' (Illegal instruction)''
      else if code = EXC_ENV_CALL_M then '' (ECALL from M-mode)''
      else if code = EXC_ENV_CALL_S then '' (ECALL from S-mode)''
      else if code = EXC_ENV_CALL_U then '' (ECALL from U-mode)''
      else [])"

definition dump_trap :: "nat \<Rightarrow> tfref \<Rightarrow> kstate \<Rightarrow> kstate" where
  "dump_trap h tf s =
     (let f = get_tf tf s;
          is_interrupt = scause_is_interrupt (tf_scause f);
          code = scause_code (tf_scause f);
          tid = thread_current h s;
          mode_char = (if tf_sstatus f AND SSTATUS_SPP \<noteq> 0 then 83 else 85 :: u8);
          is_syscall = (\<not> is_interrupt \<and> code = EXC_ENV_CALL_U);
          s1 = platform_puts ''  thread=['' (platform_puts ''\<newline>*** TRAP ***\<newline>'' s);
          s2 = platform_putc 58 (platform_put_hex64 (of_tid tid) s1);
          s3 = platform_putc mode_char (platform_putc 58 (puts_cname (thread_name tid s) s2));
          s4 = platform_puts ''  kind='' (platform_puts '']\<newline>'' s3);
          s5 = platform_puts (if is_interrupt then ''interrupt'' else ''exception'') s4;
          s6 = platform_put_hex64 code (platform_puts '' code='' s5);
          s7 = (if \<not> is_interrupt \<and> exc_comment code \<noteq> [] then platform_puts (exc_comment code) s6 else s6);
          s8 = platform_put_hex64 (tf_sepc f) (platform_puts ''  sepc='' (platform_puts ''\<newline>'' s7));
          s9 = (if is_syscall then platform_put_hex64 (tf_a0 f) (platform_puts ''  syscall_id='' s8) else s8);
          s10 = platform_put_hex64 (tf_scause f) (platform_puts ''  scause='' (platform_puts ''\<newline>'' s9));
          s11 = platform_put_hex64 (tf_stval f) (platform_puts '' stval='' s10);
          s12 = platform_put_hex64 (tf_sstatus f) (platform_puts '' sstatus='' s11)
      in dump_backtrace_from_tf f (platform_puts ''\<newline>'' s12))"

section \<open>Exceptions and system calls\<close>

definition set_sepc :: "tfref \<Rightarrow> u64 \<Rightarrow> kstate \<Rightarrow> kstate" where
  "set_sepc tf pc s = upd_tf tf (\<lambda>f. f\<lparr>tf_sepc := pc\<rparr>) s"

definition breakpoint_handler :: "nat \<Rightarrow> tfref \<Rightarrow> kstate \<Rightarrow> kstate kres" where
  "breakpoint_handler h tf s =
     (let f = get_tf tf s;
          from_kernel = (tf_sstatus f AND SSTATUS_SPP \<noteq> 0);
          s1 = set_sepc tf (tf_sepc f + 4) (dump_backtrace_from_tf f s)
      in if \<not> from_kernel then thread_sys_exit h tf (- 1) s1 else Inr s1)"

definition syscall_handler :: "nat \<Rightarrow> tfref \<Rightarrow> kstate \<Rightarrow> kstate kres" where
  "syscall_handler h tf s0 =
     (let f = get_tf tf s0; sys_id = tf_a0 f; a1 = tf_a1 f; a2 = tf_a2 f; a3 = tf_a3 f;
          s = set_sepc tf (tf_sepc f + 4) s0
      in if sys_id = SYS_SLEEP then thread_sys_sleep h tf a1 s
         else if sys_id = SYS_THREAD_EXIT then thread_sys_exit h tf (ucast a1) s
         else if sys_id = SYS_THREAD_JOIN then thread_sys_join h tf (to_int32 a1) a2 s
         else if sys_id = SYS_THREAD_CREATE then thread_sys_create h tf a1 a2 a3 s
         else if sys_id = SYS_THREAD_KILL then thread_sys_kill h tf (to_int32 a1) s
         else if sys_id = SYS_THREAD_LIST then
           (let (n, s1) = thread_sys_list a1 (to_int32 a2) s in Inr (set_a0 tf (word_of_int n) s1))
         else if sys_id = SYS_WRITE then
           (let (n, s1) = sys_write (to_int32 a1) a2 a3 s in Inr (set_a0 tf n s1))
         else if sys_id = SYS_READ then
           bindE (sys_read h (to_int32 a1) a2 a3 tf s) (\<lambda>(n, nonblock, s1).
             Inr (if nonblock then set_a0 tf n s1 else s1))
         else if sys_id = SYS_CLOCK_GETTIME then
           (let (n, s1) = sys_clock_gettime (to_int32 a1) a2 s in Inr (set_a0 tf (word_of_int n) s1))
         else if sys_id = SYS_IRQ_GET_STATS then
           (let (n, s1) = sys_irq_get_stats a1 a2 s in Inr (set_a0 tf (word_of_int n) s1))
         else if sys_id = SYS_GET_HARTID then Inr (set_a0 tf (ucast (cpu_current_hartid h s)) s)
         else if sys_id = SYS_YIELD then thread_sys_yield h tf s
         else if sys_id = SYS_THREAD_DETACH then Inr (thread_sys_detach tf (to_int32 a1) s)
         else if sys_id = SYS_RUNQUEUE_SNAPSHOT then
           bindE (sys_runqueue_snapshot a1 a2 s) (\<lambda>(n, s1). Inr (set_a0 tf (word_of_int n) s1))
         else Inl (Panic ''unknown syscall''))"

definition wfi_probe_timer :: "nat \<Rightarrow> tfref \<Rightarrow> kstate \<Rightarrow> kstate" where
  "wfi_probe_timer h tf s =
     (let (d, s1) = platform_sched_delta_ticks s;
          s2 = (timer_start_after h (d * 100) s1)\<lparr>g_wfi_probe_fired := True\<rparr>
      in if tf_sepc (get_tf tf s2) = g_wfi_probe_pc s2
         then set_sepc tf (tf_sepc (get_tf tf s2) + 4) s2 else s2)"

text \<open>The two switches of \<open>trap_entry_c\<close>; falling out of them is the fatal path.\<close>

definition trap_interrupt :: "nat \<Rightarrow> tfref \<Rightarrow> u64 \<Rightarrow> kstate \<Rightarrow> kstate kres" where
  "trap_interrupt h tf code s =
     (if code = IRQ_SOFT_S then sched_on_ipi_irq h tf s
      else if code = IRQ_TIMER_S then
        (if g_wfi_probe_enabled s then Inr (wfi_probe_timer h tf s) else sched_on_timer_irq h tf s)
      else if code = IRQ_EXT_S then platform_handle_s_external h s
      else Inl (Panic ''unhandled trap''))"

definition trap_exception :: "nat \<Rightarrow> tfref \<Rightarrow> u64 \<Rightarrow> kstate \<Rightarrow> kstate kres" where
  "trap_exception h tf code s =
     (let f = get_tf tf s; user = (tf_sstatus f AND SSTATUS_SPP = 0)
      in if code = EXC_ENV_CALL_U then syscall_handler h tf s
         else if code = EXC_BREAKPOINT then breakpoint_handler h tf s
         else if code = EXC_ILLEGAL_INSTR then
           (if \<not> user \<and> g_illegal_probe_enabled s
            then Inr (set_sepc tf (tf_sepc f + 4) (s\<lparr>g_illegal_probe_hit := True\<rparr>))
            else
              let s1 = platform_puts ''Illegal instruction\<newline>'' s
              in if user then thread_sys_exit h tf (- 1) s1 else Inl (Panic ''unhandled trap''))
         else Inl (Panic ''unhandled trap''))"

definition trap_entry_c :: "nat \<Rightarrow> tfref \<Rightarrow> kstate \<Rightarrow> (tfref \<times> kstate) kres" where
  "trap_entry_c h tf s =
     (let scause = tf_scause (get_tf tf s); code = scause_code scause
      in bindE (if scause_is_interrupt scause then trap_interrupt h tf code s else trap_exception h tf code s)
        (\<lambda>s'. Inr (c_cur_tf (g_cpus s' h), s')))"

end
