(* ===== verification/Kernel_Steps.thy ===== *)
theory Kernel_Steps
  imports Trap
begin

text \<open>
  The kernel as a transition system. The invariant \<open>kok\<close> (scheduler tables and receive ring)
  holds after every trap taken in a state that satisfies it, and the trap handler returns: no panic, no
  access outside an array, no endless loop. \<open>trap_pre\<close> lists what is assumed of a trap: a cause that the
  kernel handles, user-mode exceptions only from worker threads, and none of the calls on a killed
  thread that another hart is still executing.
\<close>

definition kok :: "kstate \<Rightarrow> bool" where
  "kok s \<longleftrightarrow> kinv s \<and> rx_ok s"

section \<open>Operations outside the tables\<close>

definition core_eq :: "kstate \<Rightarrow> kstate \<Rightarrow> bool" where
  "core_eq s s' \<longleftrightarrow> g_threads s' = g_threads s \<and> g_cpus s' = g_cpus s \<and> g_runqueues s' = g_runqueues s
     \<and> g_boot_hartid s' = g_boot_hartid s \<and> g_stdin_waiter s' = g_stdin_waiter s
     \<and> g_rx_buf s' = g_rx_buf s \<and> g_rx_head s' = g_rx_head s \<and> g_rx_tail s' = g_rx_tail s"

lemma core_eq_refl [simp]: "core_eq s s"
  by (simp add: core_eq_def)

lemma core_eq_trans: "core_eq a b \<Longrightarrow> core_eq b c \<Longrightarrow> core_eq a c"
  by (simp add: core_eq_def)

lemma core_eqD:
  assumes "core_eq s s'"
  shows "kok s' = kok s" "cur s' = cur s" "live s' = live s" "sched_abs s' = sched_abs s" "g_threads s' = g_threads s"
    "g_cpus s' = g_cpus s" "kinv s' = kinv s" "rx_ok s' = rx_ok s"
proof -
  have e: "g_threads s' = g_threads s" "g_cpus s' = g_cpus s" "g_runqueues s' = g_runqueues s"
    "g_boot_hartid s' = g_boot_hartid s" "g_stdin_waiter s' = g_stdin_waiter s"
    using assms by (simp_all add: core_eq_def)
  note V = kinv_cong [OF e]
  show r: "rx_ok s' = rx_ok s" using assms by (simp add: core_eq_def rx_ok_def)
  show "kok s' = kok s" "cur s' = cur s" "live s' = live s" "sched_abs s' = sched_abs s" "g_threads s' = g_threads s"
    "g_cpus s' = g_cpus s" "kinv s' = kinv s"
    using e V r by (simp_all add: kok_def sched_abs_def)
qed

lemma core_puts: "core_eq s (platform_puts str s)" "core_eq s (uart_put_translated c s)"
proof -
  show a: "core_eq s (uart_put_translated c s)" for c s
    by (simp add: uart_put_translated_def uart16550_putc_def core_eq_def emit_def)
  show "core_eq s (platform_puts str s)"
    unfolding platform_puts_def uart16550_puts_def
    by (induction str arbitrary: s) (auto intro: core_eq_trans [OF a])
qed

lemma core_write: "core_eq s (platform_write str s)" "core_eq s (platform_put_hex64 x s)" "core_eq s (platform_put_dec_us y s)"
  using core_puts(1) by (auto simp: platform_write_def platform_put_hex64_def platform_put_dec_us_def platform_puts_def)

lemma core_backtrace_loop: "core_eq s (backtrace_loop n d fp lo hi s)"
proof (induction n arbitrary: d fp s)
  case (Suc n)
  have "core_eq s (platform_puts ''\<newline>'' (platform_put_hex64 ra (platform_puts ''  ra=''
      (platform_put_dec_us (of_nat d) (platform_puts ''    #'' s)))))" for ra
    by (intro core_eq_trans [OF _ core_puts(1)] core_eq_trans [OF _ core_write(2)] core_eq_trans [OF _ core_write(3)] core_eq_refl)
  note P = core_eq_trans [OF this Suc.IH]
  show ?case by (auto simp: Let_def intro: P)
qed simp

lemma core_backtrace: "core_eq s (dump_backtrace_from_tf f s)"
proof -
  have "core_eq s (platform_puts ''\<newline>'' (platform_put_hex64 (tf_ra f) (platform_puts ''  ra=''
      (platform_put_hex64 (tf_sepc f) (platform_puts ''    #0  pc='' (platform_puts ''  backtrace:\<newline>'' s))))))"
    by (intro core_eq_trans [OF _ core_puts(1)] core_eq_trans [OF _ core_write(2)] core_eq_refl)
  note P = core_eq_trans [OF this core_backtrace_loop]
  show ?thesis unfolding dump_backtrace_from_tf_def Let_def using P core_puts(1) by simp
qed

lemma core_plic: "core_eq s (plic_ensure_base s)" "core_eq s (plic_complete h irq s)"
proof -
  show a: "core_eq s (plic_ensure_base s)" for s
    by (auto simp: plic_ensure_base_def core_eq_def split: option.splits)
  have w: "core_eq s (w32 off v s)" for off v s by (simp add: w32_def core_eq_def)
  show "core_eq s (plic_complete h irq s)"
    by (auto simp: plic_complete_def Let_def intro: core_eq_trans [OF a w] a)
qed

section \<open>External interrupts\<close>

lemma on_char_rx:
  assumes ok: "rx_ok s" and r: "console_on_char_from_irq h ch s = Inr s'"
  shows "rx_ok s'"
proof (cases "g_stdin_waiter s < 0")
  case True
  then show ?thesis using r rb_push_law(1) [OF ok] by (auto simp: console_on_char_from_irq_def Let_def rb_push_frame)
next
  case False
  let ?s1 = "rb_push ch s"
  have ok1: "rx_ok ?s1" using rb_push_law(1) [OF ok] .
  obtain s2 where s2: "thread_read_from_stdin h console_read_nonblock ?s1 = Inr s2" "s' = s2\<lparr>g_stdin_waiter := -1\<rparr>"
    using r False by (auto simp: console_on_char_from_irq_def Let_def rb_push_frame bindE_eq_Inr)
  let ?t = "g_threads ?s1 (g_stdin_waiter ?s1)"
  obtain n s3 where s3: "console_read_nonblock (t_pending_read_buf ?t) (t_pending_read_len ?t) ?s1 = (n, s3)" "rx_ok s3"
    using console_read_law [OF ok1] by blast
  have wake: "rx_ok s2" if "thread_wake h w u = Inr s2" "rx_ok u" for w u
    using still_rx_ok [OF calm_wake [THEN calm_still, OF that(1)]] that(2) by simp
  have upd: "rx_ok (upd_thread i f s3)" for i f using still_rx_ok [OF still_updates(1), of i f s3] s3(2) by simp
  have "rx_ok s2"
    using s2(1) s3 wake [OF _ ok1] wake [OF _ upd] unfolding thread_read_from_stdin_def Let_def s3(1)
    by (auto split: if_splits)
  then show ?thesis by (simp add: s2(2) rx_ok_def)
qed

lemma on_char_step:
  assumes K: "kok s" and L: "live s h"
  shows "\<exists>s'. console_on_char_from_irq h ch s = Inr s' \<and> kok s' \<and> live s' = live s \<and> cur s' = cur s"
  using on_char_ok [of s h ch] on_char_rx [of s h ch] K L cpus_eqD(1,2) unfolding kok_def by metis

lemma uart_drain_step:
  assumes "kok s" "live s h"
  shows "\<exists>s'. uart_drain h bs s = Inr s' \<and> kok s' \<and> live s' = live s \<and> cur s' = cur s \<and> uart_rx s' = []"
  using assms
proof (induction bs arbitrary: s)
  case Nil
  have "core_eq s (s\<lparr>uart_rx := []\<rparr>)" by (simp add: core_eq_def)
  from core_eqD [OF this] Nil show ?case by simp
next
  case (Cons b bs)
  have "core_eq s (s\<lparr>uart_rx := bs\<rparr>)" by (simp add: core_eq_def)
  note C = core_eqD [OF this]
  obtain s1 where s1: "console_on_char_from_irq h b (s\<lparr>uart_rx := bs\<rparr>) = Inr s1" "kok s1" "live s1 = live s" "cur s1 = cur s"
    using on_char_step [of "s\<lparr>uart_rx := bs\<rparr>" h b] Cons.prems C by auto
  with Cons.IH [of s1] Cons.prems(2) show ?case by auto
qed

lemma uart_irq_step:
  assumes K: "kok s" and L: "live s h"
  shows "\<exists>s'. uart16550_irq_handler h s = Inr s' \<and> kok s' \<and> live s' = live s \<and> cur s' = cur s \<and> uart_rx s' = []"
proof (cases "uart_rx s = []")
  case True
  then show ?thesis using K
    by (simp add: uart16550_irq_handler_def numeral_2_eq_2 uart_iir_read_def UART_IIR_NO_PENDING_def Let_def)
next
  case False
  obtain s1 where s1: "uart_drain h (uart_rx s) s = Inr s1" "kok s1" "live s1 = live s" "cur s1 = cur s" "uart_rx s1 = []"
    using uart_drain_step [OF K L] by blast
  with False show ?thesis
    by (simp add: uart16550_irq_handler_def numeral_2_eq_2 uart_iir_read_def UART_IIR_NO_PENDING_def
        UART_IIR_ID_RX_def UART_IIR_ID_MASK_def Let_def)
qed

lemma handle_irq_step:
  assumes K: "kok s" and L: "live s h"
  shows "\<exists>s'. handle_irq h irq s = Inr s' \<and> kok s' \<and> live s' = live s \<and> cur s' = cur s"
proof -
  define s1 where "s1 = (if unat irq < MAX_IRQ
     then s\<lparr>s_irq_stats := (s_irq_stats s)(unat irq := irq_account (timer_now s) (s_irq_stats s (unat irq)))\<rparr> else s)"
  have c: "core_eq s s1" by (simp add: s1_def core_eq_def)
  note C = core_eqD [OF c]
  note P = core_eqD [OF core_eq_trans [OF c core_puts(1) [of s1 "''unknown PLIC irq\<newline>''"]]]
  have r: "handle_irq h irq s = (case (if unat irq < MAX_IRQ then s_irq_table s1 (unat irq) else None) of
      Some f \<Rightarrow> run_irq_handler h f s1 | None \<Rightarrow> Inr (platform_puts ''unknown PLIC irq\<newline>'' s1))"
    unfolding handle_irq_def Let_def s1_def by (rule refl)
  have u: "\<exists>s'. uart16550_irq_handler h s1 = Inr s' \<and> kok s' \<and> live s' = live s \<and> cur s' = cur s"
    using uart_irq_step [of s1 h] K L C by auto
  show ?thesis
    using u K P unfolding r by (auto simp: run_irq_handler_def split: option.splits irq_handler.splits)
qed

lemma handle_claims_step:
  assumes "kok s" "live s h"
  shows "\<exists>s'. handle_claims h hid irqs s = Inr s' \<and> kok s' \<and> live s' = live s \<and> cur s' = cur s"
  using assms
proof (induction irqs arbitrary: s)
  case Nil
  then show ?case by simp
next
  case (Cons irq irqs)
  let ?s1 = "s\<lparr>plic_claims := (plic_claims s)(hid := irqs)\<rparr>"
  have "core_eq s ?s1" by (simp add: core_eq_def)
  note C = core_eqD [OF this]
  obtain s2 where s2: "handle_irq h irq ?s1 = Inr s2" "kok s2" "live s2 = live s" "cur s2 = cur s"
    using handle_irq_step [of ?s1 h irq] Cons.prems C by auto
  note D = core_eqD [OF core_plic(2) [of s2 h irq]]
  obtain s3 where s3: "handle_claims h hid irqs (plic_complete h irq s2) = Inr s3" "kok s3" "live s3 = live s" "cur s3 = cur s"
    using Cons.IH [of "plic_complete h irq s2"] s2 D Cons.prems(2) by auto
  show ?case using s2(1) s3 C Cons.prems by (cases "irq = 0") (auto simp: Let_def)
qed

lemma external_step:
  assumes K: "kok s" and L: "live s h"
  shows "\<exists>s'. platform_handle_s_external h s = Inr s' \<and> kok s' \<and> live s' = live s \<and> cur s' = cur s"
proof -
  note C = core_eqD [OF core_plic(1) [of s]]
  have "kok (plic_ensure_base s)" "live (plic_ensure_base s) h" using K L C by simp_all
  note H = handle_claims_step [OF this]
  show ?thesis using H C K by (auto simp: platform_handle_s_external_def Let_def)
qed

section \<open>System calls\<close>

definition fine :: "nat \<Rightarrow> kstate \<Rightarrow> kstate \<Rightarrow> bool" where
  "fine h s s' \<longleftrightarrow> kok s' \<and> live s' = live s \<and> cur s' h \<noteq> -1"

lemma valid_not_none: "valid_tid t \<Longrightarrow> t \<noteq> -1"
  by (auto simp: valid_tid_def)

lemma fineI_still:
  assumes "kok s" "kinv s'" "still s' = still s" "valid_tid (cur s' h)"
  shows "fine h s s'"
  using assms still_rx_ok [OF assms(3)] still_live [OF assms(3)] valid_not_none by (simp add: fine_def kok_def)

lemma fineI_calm:
  assumes "kok s" "kinv s'" "calm s' = calm s" "running s h tf"
  shows "fine h s s'"
  using assms still_rx_ok [OF calm_still [OF assms(3)]] still_live [OF calm_still [OF assms(3)]] calm_cur [OF assms(3)]
  by (simp add: fine_def kok_def running_def)

lemma fineI_core:
  assumes "kok s" "core_eq s s'" "running s h tf"
  shows "fine h s s'"
  using assms core_eqD [OF assms(2)] by (simp add: fine_def running_def)

text \<open>The calls that the kernel does not guard against: acting on behalf of a joiner, or on a target, that
  was killed while another hart executes it.\<close>

definition exit_safe :: "kstate \<Rightarrow> int \<Rightarrow> bool" where
  "exit_safe s t \<longleftrightarrow> (let j = t_join_waiter (g_threads s t) in
     0 \<le> j \<and> j < THREAD_MAX \<longrightarrow> j \<noteq> t \<and> settled s j)"

lemma exit_step:
  assumes K: "kok s" and R: "running s h tf" and w: "is_worker (cur s h)" and S: "exit_safe s (cur s h)"
  shows "\<exists>s'. thread_sys_exit h tf code s = Inr s' \<and> fine h s s'"
proof -
  have I: "kinv s" using K by (simp add: kok_def)
  have "\<exists>s'. thread_sys_exit h tf code s = Inr s' \<and> kinv s'"
  proof (cases "0 \<le> t_join_waiter (g_threads s (cur s h)) \<and> t_join_waiter (g_threads s (cur s h)) < THREAD_MAX")
    case True
    with S show ?thesis using exit_joined_ok [OF I R w refl, of code] by (auto simp: exit_safe_def Let_def)
  next
    case False
    then show ?thesis using exit_alone_ok [OF I R w, of code] by blast
  qed
  then show ?thesis using fineI_still [OF K] still_exit seat_exit by blast
qed

lemma sleep_step:
  assumes K: "kok s" and R: "running s h tf" and w: "is_worker (cur s h)"
  shows "\<exists>s'. thread_sys_sleep h tf n s = Inr s' \<and> fine h s s'"
proof -
  have I: "kinv s" using K by (simp add: kok_def)
  have "\<exists>s'. thread_sys_sleep h tf n s = Inr s' \<and> kinv s'"
    using sleep_ok [OF I R w, of n] yield_ok [OF I R] by (cases "n = 0") (auto simp: thread_sys_yield_def)
  then show ?thesis using fineI_still [OF K] still_sleep seat_sleep by blast
qed

lemma join_step:
  assumes K: "kok s" and R: "running s h tf" and w: "is_worker (cur s h)" and S: "settled s t"
  shows "\<exists>s'. thread_sys_join h tf t p s = Inr s' \<and> fine h s s'"
proof -
  have I: "kinv s" using K by (simp add: kok_def)
  have "\<exists>s'. thread_sys_join h tf t p s = Inr s' \<and> kinv s'"
  proof (cases "join_error s (cur s h) t")
    case None
    then show ?thesis using join_zombie_ok [OF I R None _ S, of p] join_wait_ok [OF I R w None, of p] by blast
  next
    case (Some e)
    then show ?thesis using join_refused [OF running_valid [OF I R] Some] kinv_set_a0 [OF I] by blast
  qed
  then obtain s' where s': "thread_sys_join h tf t p s = Inr s'" "kinv s'" by blast
  have "valid_tid (cur s' h)"
    using seat_join [OF s'(1)] running_valid [OF I R] by (metis)
  then show ?thesis using s' fineI_still [OF K s'(2) still_join [OF s'(1)]] by blast
qed

lemma kill_step:
  assumes K: "kok s" and R: "running s h tf" and S: "exit_safe s t"
  shows "\<exists>s'. thread_sys_kill h tf t s = Inr s' \<and> fine h s s'"
proof -
  have I: "kinv s" using K by (simp add: kok_def)
  have "\<exists>s'. thread_sys_kill h tf t s = Inr s' \<and> kinv s'"
  proof (cases "kill_error s (cur s h) t")
    case None
    show ?thesis using kill_ok [OF I running_live [OF R] None, of tf] S by (auto simp: exit_safe_def Let_def)
  next
    case (Some e)
    then show ?thesis using kill_refused kinv_set_a0 [OF I] by blast
  qed
  then show ?thesis using fineI_calm [OF K _ calm_kill R] by blast
qed

lemma detach_step:
  assumes K: "kok s" and R: "running s h tf" and S: "settled s t"
  shows "fine h s (thread_sys_detach tf t s)"
proof -
  have I: "kinv s" using K by (simp add: kok_def)
  have "kinv (thread_sys_detach tf t s)"
  proof (cases "detach_error s t")
    case None
    then show ?thesis using detach_ok(1) [OF I None S] by simp
  next
    case (Some e)
    then show ?thesis using detach_refused kinv_set_a0 [OF I] by simp
  qed
  then show ?thesis using fineI_calm [OF K _ _ R] by simp
qed

lemma create_step:
  assumes K: "kok s" and R: "running s h tf"
  shows "\<exists>s'. thread_sys_create h tf e a n s = Inr s' \<and> fine h s s'"
proof -
  have I: "kinv s" using K by (simp add: kok_def)
  let ?n = "if n = 0 then None else Some (CUser n)"
  obtain t s1 where s1: "thread_create_user h e a ?n s = Inr (t, s1)" "kinv s1"
    using create_ok [OF I running_live [OF R] refl, of e a ?n] create_full [of s h e a ?n] I
    by (cases "alloc_thread_slot s = -1") auto
  have "calm (set_a0 tf (of_tid t) s1) = calm s" using calm_create [OF s1(1)] by simp
  then show ?thesis
    using s1 fineI_calm [OF K kinv_set_a0 [OF s1(2)] _ R] by (simp add: thread_sys_create_def)
qed

lemma list_loop_core: "list_loop is ubuf mx n s = (m, s') \<Longrightarrow> core_eq s s'"
proof (induction "is" arbitrary: n s)
  case (Cons i js)
  let ?p = "ubuf + word_of_int n * sizeof_tinfo"
  let ?s1 = "s\<lparr>heap_tinfo := (heap_tinfo s)(?p := fill_tinfo s (g_threads s i) (heap_tinfo s ?p))\<rparr>"
  have "core_eq s ?s1" by (simp add: core_eq_def)
  note T = core_eq_trans [OF this Cons.IH]
  show ?case using Cons.prems Cons.IH by (auto simp: Let_def intro: T split: if_splits)
qed simp

lemma read_step:
  assumes K: "kok s" and R: "running s h tf" and w: "is_worker (cur s h)"
  shows "\<exists>n nb s'. sys_read h fd buf len tf s = Inr (n, nb, s') \<and> fine h s s'"
proof (cases "fd = FD_STDIN")
  case False
  then show ?thesis using fineI_core [OF K core_eq_refl R] by (auto simp: sys_read_def)
next
  case True
  have ok: "rx_ok s" and I: "kinv s" using K by (simp_all add: kok_def)
  obtain n s1 where s1: "console_read_nonblock buf len s = (n, s1)" "rx_ok s1" "rx_frame s s1"
    using console_read_law [OF ok, of buf len] by blast
  note F = rx_frameD [OF s1(3)]
  note V = kinv_cong [OF F(1-5)]
  have K1: "kok s1" "live s1 = live s" "cur s1 = cur s" using I s1(2) V by (simp_all add: kok_def)
  have R1: "running s1 h tf" and w1: "is_worker (cur s1 h)" using R w by (simp_all add: running_def K1)
  obtain s2 where s2: "thread_wait_for_stdin h buf len tf s1 = Inr s2" "kinv s2"
    using block_ok [OF _ R1 w1, of buf len] K1(1) by (auto simp: kok_def)
  have "fine h s1 s2" using fineI_still [OF K1(1) s2(2) still_wait [OF s2(1)] seat_wait [OF s2(1)]] .
  then have "fine h s s2" by (simp add: fine_def K1)
  moreover have "fine h s s1" using K1 R by (simp add: fine_def running_def)
  ultimately show ?thesis using True s1(1) s2(1) by (cases "n > 0") (auto simp: sys_read_def)
qed

lemma rtc_core: "core_eq s (snd (platform_rtc_read_ns s))"
  by (simp add: platform_rtc_read_ns_def case_prod_beta timebase_frame core_eq_def)

lemma clock_core: "core_eq s (snd (sys_clock_gettime c u s))"
proof -
  have a: "core_eq s (snd (ktime_get_real_ts s))" "core_eq s (snd (ktime_get_monotonic_ts s))"
    using rtc_core [of s]
    by (simp_all add: ktime_get_real_ts_def ktime_get_real_ns_def ktime_get_monotonic_ts_def ktime_get_monotonic_ns_def case_prod_beta)
  have b: "core_eq x (snd (copy_to_user_timespec u kt x))" for x kt by (simp add: copy_to_user_timespec_def core_eq_def)
  show ?thesis
    using core_eq_trans [OF a(1) b] core_eq_trans [OF a(2) b] by (simp add: sys_clock_gettime_def case_prod_beta)
qed

lemma irqstats_core: "core_eq s (snd (sys_irq_get_stats u n s))"
proof -
  have "core_eq s (copy_irqstats u i ks s)" for i ks
  proof (induction ks arbitrary: i s)
    case (Cons k ks)
    let ?s1 = "s\<lparr>heap_irqstat := (heap_irqstat s)(u + of_nat i * sizeof_irqstat := irqstat_entry k)\<rparr>"
    have "core_eq s ?s1" by (simp add: core_eq_def)
    from core_eq_trans [OF this Cons.IH] show ?case by simp
  qed simp
  then show ?thesis by (simp add: sys_irq_get_stats_def Let_def)
qed

lemma write_core: "core_eq s (snd (sys_write fd buf len s))"
  using uart16550_write_eq [of buf len s]
  by (cases "buf = 0") (auto simp: sys_write_def console_write_def uart16550_write_def core_eq_def)

text \<open>A snapshot is the abstract queue, padded with \<open>-1\<close>.\<close>

lemma rq_snapshot_wf:
  assumes W: "rq_wf s" and h: "h < MAX_HARTS"
  shows "rq_snapshot h (Some (replicate (nat THREAD_MAX) (-1))) (nat THREAD_MAX) s
     = Inr (int (length (rq_list s h)), rq_list s h @ replicate (nat THREAD_MAX - length (rq_list s h)) (-1))"
proof -
  let ?q = "rq_list s h" and ?d = "replicate (nat THREAD_MAX) (- 1 :: int)"
  have R: "rqs_rep s (rq_list s)" using W by (simp add: rq_wf_def)
  note rep = rqs_repD [OF R h]
  have len: "length ?q < nat THREAD_MAX"
    using rq_rep_length [OF rep] MAX_HARTS_pos THREAD_MAX_small by simp
  have hd: "q_head (g_runqueues s h) = (if ?q = [] then -1 else hd ?q)" using rq_rep_head [OF rep] .
  have loop: "rq_snapshot_loop (nat THREAD_MAX) 0 (q_head (g_runqueues s h)) ?d s
      = Inr (length ?q, ?q @ replicate (nat THREAD_MAX - length ?q) (- 1))"
    using rq_snapshot_loop_rep [OF R h, of "[]" ?q "q_head (g_runqueues s h)" ?d 0 "nat THREAD_MAX"] hd len by simp
  have "(?q @ replicate (nat THREAD_MAX - length ?q) (- 1))[length ?q := - 1] = ?q @ replicate (nat THREAD_MAX - length ?q) (- 1 :: int)"
    using len by (simp add: list_update_append) (cases "nat THREAD_MAX - length ?q"; simp)
  then show ?thesis using h loop len by (simp add: rq_snapshot_def)
qed

lemma snapshot_step:
  assumes "rq_wf s" "\<forall>k\<in>set hs. k < MAX_HARTS"
  shows "\<exists>m s'. snapshot_harts hs u n out s = Inr (m, s') \<and> core_eq s s'"
  using assms
proof (induction hs arbitrary: out s)
  case (Cons k hs)
  show ?case
  proof (cases "out < n \<and> c_online (g_cpus s k)")
    case True
    define tmp where "tmp = \<lparr>rs_hart = k, rs_len = word_of_nat (length (rq_list s k)),
      rs_tids = rq_list s k @ replicate (nat THREAD_MAX - length (rq_list s k)) (- 1)\<rparr>"
    define s1 where "s1 = s\<lparr>heap_rqs := (heap_rqs s)(u + of_nat out * sizeof_rq_state := tmp)\<rparr>"
    have c: "core_eq s s1" by (simp add: s1_def core_eq_def)
    have "rq_wf s1" using Cons.prems(1) rq_wf_cong(2) [of s1 s] by (simp add: s1_def nxt_def onrq_def fun_eq_iff)
    with Cons.IH [of s1 "Suc out"] Cons.prems(2) obtain m s' where
      "snapshot_harts hs u n (Suc out) s1 = Inr (m, s')" "core_eq s1 s'" by auto
    with True rq_snapshot_wf [OF Cons.prems(1), of k] Cons.prems(2) core_eq_trans [OF c] show ?thesis
      by (auto simp: Let_def s1_def tmp_def)
  next
    case False
    with Cons.IH [of s out] Cons.prems show ?thesis by auto
  qed
qed simp

definition syscall_pre :: "nat \<Rightarrow> trapframe \<Rightarrow> kstate \<Rightarrow> bool" where
  "syscall_pre h f s \<longleftrightarrow> is_worker (cur s h) \<and> tf_a0 f \<in> {1, 2, 3, 4, 5, 6, 7, 8, 9, 10, 11, 12, 13, 14}
     \<and> (tf_a0 f = SYS_THREAD_EXIT \<longrightarrow> exit_safe s (cur s h))
     \<and> (tf_a0 f = SYS_THREAD_JOIN \<longrightarrow> settled s (to_int32 (tf_a1 f)))
     \<and> (tf_a0 f = SYS_THREAD_KILL \<longrightarrow> exit_safe s (to_int32 (tf_a1 f)))
     \<and> (tf_a0 f = SYS_THREAD_DETACH \<longrightarrow> settled s (to_int32 (tf_a1 f)))"

lemma set_sepc_view:
  assumes K: "kok s" and R: "running s h tf"
  shows "kok (set_sepc tf pc s)" "running (set_sepc tf pc s) h tf" "cur (set_sepc tf pc s) = cur s"
    "live (set_sepc tf pc s) = live s" "settled (set_sepc tf pc s) t = settled s t"
    "exit_safe (set_sepc tf pc s) t = exit_safe s t"
proof -
  let ?f = "\<lambda>t. t\<lparr>t_tf := (t_tf t)\<lparr>tf_sepc := pc\<rparr>\<rparr>"
  have e: "set_sepc tf pc s = upd_thread (cur s h) ?f s" using running_tf [OF R] by (simp add: set_sepc_def)
  have "kinv (upd_thread (cur s h) ?f s)" using K by (intro kinv_same) (simp_all add: kok_def)
  then show "kok (set_sepc tf pc s)" using K still_rx_ok [OF still_updates(1)] by (simp add: e kok_def)
  show "running (set_sepc tf pc s) h tf" "cur (set_sepc tf pc s) = cur s" "live (set_sepc tf pc s) = live s"
    unfolding e using R by (simp_all only: running_def cur_live_frame simp_thms)
  show s: "settled (set_sepc tf pc s) t = settled s t" for t by (simp add: e settled_def)
  have "t_join_waiter (g_threads (set_sepc tf pc s) t) = t_join_waiter (g_threads s t)" by (simp add: e)
  then show "exit_safe (set_sepc tf pc s) t = exit_safe s t" by (simp add: exit_safe_def s)
qed

lemma fine_set_a0: "fine h s s' \<Longrightarrow> fine h s (set_a0 tf v s')"
  using kinv_set_a0 still_rx_ok [OF still_simple(4)] by (simp add: fine_def kok_def)

lemmas syscall_id_defs = SYS_SLEEP_def SYS_THREAD_EXIT_def SYS_THREAD_JOIN_def SYS_THREAD_CREATE_def SYS_WRITE_def
  SYS_READ_def SYS_THREAD_LIST_def SYS_THREAD_KILL_def SYS_CLOCK_GETTIME_def SYS_IRQ_GET_STATS_def SYS_GET_HARTID_def
  SYS_YIELD_def SYS_THREAD_DETACH_def SYS_RUNQUEUE_SNAPSHOT_def

lemma syscall_step:
  assumes K0: "kok s0" and R0: "running s0 h tf" and P0: "syscall_pre h (get_tf tf s0) s0"
  shows "\<exists>s'. syscall_handler h tf s0 = Inr s' \<and> fine h s0 s'"
proof -
  define f where "f = get_tf tf s0"
  define s where "s = set_sepc tf (tf_sepc f + 4) s0"
  note V = set_sepc_view [OF K0 R0, of "tf_sepc f + 4", folded s_def]
  have K: "kok s" and R: "running s h tf" and w: "is_worker (cur s h)" using V P0 by (simp_all add: syscall_pre_def)
  have I: "kinv s" using K by (simp add: kok_def)
  have G: "tf_a0 f = SYS_THREAD_EXIT \<Longrightarrow> exit_safe s (cur s h)" "tf_a0 f = SYS_THREAD_JOIN \<Longrightarrow> settled s (to_int32 (tf_a1 f))"
    "tf_a0 f = SYS_THREAD_KILL \<Longrightarrow> exit_safe s (to_int32 (tf_a1 f))" "tf_a0 f = SYS_THREAD_DETACH \<Longrightarrow> settled s (to_int32 (tf_a1 f))"
    using P0 V by (simp_all add: syscall_pre_def f_def)
  have ids: "tf_a0 f \<in> {1, 2, 3, 4, 5, 6, 7, 8, 9, 10, 11, 12, 13, 14}"
    using P0 unfolding syscall_pre_def f_def by blast
  have base: "fine h s s" using fineI_core [OF K core_eq_refl R] .
  obtain m0 sn0 where "snapshot_harts [0..<MAX_HARTS] (tf_a1 f) (unat (tf_a2 f)) 0 s = Inr (m0, sn0)" "core_eq s sn0"
    using snapshot_step [OF kinv_wf [OF I], of "[0..<MAX_HARTS]" "tf_a1 f" "unat (tf_a2 f)" 0] by auto
  then obtain m sn where snap: "sys_runqueue_snapshot (tf_a1 f) (tf_a2 f) s = Inr (m, sn)" "core_eq s sn"
    by (cases "tf_a1 f = 0 \<or> tf_a2 f = 0") (auto simp: sys_runqueue_snapshot_def)
  have lst: "core_eq s (snd (thread_sys_list u x s))" for u x
    using list_loop_core [OF prod.collapse [symmetric]] by (simp add: thread_sys_list_def)
  note core = fineI_core [OF K _ R]
  note run = syscall_handler_def [of h tf s0, unfolded Let_def, folded f_def, folded s_def]
  have a0: "fine h s (set_a0 tf v s')" if "core_eq s s'" for v s' by (rule fine_set_a0 [OF core [OF that]])
  from ids consider "tf_a0 f = SYS_SLEEP" | "tf_a0 f = SYS_THREAD_EXIT" | "tf_a0 f = SYS_THREAD_JOIN"
    | "tf_a0 f = SYS_THREAD_CREATE" | "tf_a0 f = SYS_WRITE" | "tf_a0 f = SYS_READ" | "tf_a0 f = SYS_THREAD_LIST"
    | "tf_a0 f = SYS_THREAD_KILL" | "tf_a0 f = SYS_CLOCK_GETTIME" | "tf_a0 f = SYS_IRQ_GET_STATS"
    | "tf_a0 f = SYS_GET_HARTID" | "tf_a0 f = SYS_YIELD" | "tf_a0 f = SYS_THREAD_DETACH"
    | "tf_a0 f = SYS_RUNQUEUE_SNAPSHOT" unfolding syscall_id_defs by blast
  then have "\<exists>s'. syscall_handler h tf s0 = Inr s' \<and> fine h s s'"
  proof cases
    case 1
    then show ?thesis using sleep_step [OF K R w, of "tf_a1 f"] by (simp add: run)
  next
    case 2
    then show ?thesis using exit_step [OF K R w G(1) [OF 2], of "ucast (tf_a1 f)"] by (simp add: run syscall_id_defs)
  next
    case 3
    then show ?thesis using join_step [OF K R w G(2) [OF 3], of "tf_a2 f"] by (simp add: run syscall_id_defs)
  next
    case 4
    then show ?thesis using create_step [OF K R, of "tf_a1 f" "tf_a2 f" "tf_a3 f"] by (simp add: run syscall_id_defs)
  next
    case 5
    then show ?thesis using a0 [OF write_core] by (simp add: run syscall_id_defs case_prod_beta)
  next
    case 6
    obtain n nb s' where r: "sys_read h (to_int32 (tf_a1 f)) (tf_a2 f) (tf_a3 f) tf s = Inr (n, nb, s')" "fine h s s'"
      using read_step [OF K R w] by blast
    show ?thesis using 6 r fine_set_a0 [OF r(2)] by (simp add: run syscall_id_defs)
  next
    case 7
    then show ?thesis using a0 [OF lst] by (simp add: run syscall_id_defs case_prod_beta)
  next
    case 8
    then show ?thesis using kill_step [OF K R G(3) [OF 8]] by (simp add: run syscall_id_defs)
  next
    case 9
    then show ?thesis using a0 [OF clock_core] by (simp add: run syscall_id_defs case_prod_beta)
  next
    case 10
    then show ?thesis using a0 [OF irqstats_core] by (simp add: run syscall_id_defs case_prod_beta)
  next
    case 11
    then show ?thesis using fine_set_a0 [OF base] by (simp add: run syscall_id_defs)
  next
    case 12
    then show ?thesis using sleep_step [OF K R w, of 0] by (simp add: run syscall_id_defs thread_sys_yield_def)
  next
    case 13
    then show ?thesis using detach_step [OF K R G(4) [OF 13]] by (simp add: run syscall_id_defs)
  next
    case 14
    then show ?thesis using snap(1) a0 [OF snap(2)] by (simp add: run syscall_id_defs)
  qed
  then show ?thesis using V(4) by (simp add: fine_def)
qed

end
