(* ===== verification/Kernel_Machine.thy ===== *)
theory Kernel_Machine
  imports Kernel_Steps
begin

text \<open>
  One trap: its precondition on the trapframe, and the proof that \<open>trap_entry_c\<close> then returns to a thread that runs on
  the hart and keeps the kernel invariant, for every interrupt, exception and system call.
\<close>

section \<open>One trap\<close>

definition trap_pre :: "nat \<Rightarrow> tfref \<Rightarrow> kstate \<Rightarrow> bool" where
  "trap_pre h tf s \<longleftrightarrow>
     (let f = get_tf tf s; code = scause_code (tf_scause f); user = (tf_sstatus f AND SSTATUS_SPP = 0) in
      if scause_is_interrupt (tf_scause f) then code = IRQ_SOFT_S \<or> code = IRQ_TIMER_S \<or> code = IRQ_EXT_S
      else if code = EXC_ENV_CALL_U then syscall_pre h f s
      else if code = EXC_BREAKPOINT then user \<longrightarrow> is_worker (cur s h) \<and> exit_safe s (cur s h)
      else code = EXC_ILLEGAL_INSTR \<and>
        (if user then is_worker (cur s h) \<and> exit_safe s (cur s h) else g_illegal_probe_enabled s))"

lemma running_core:
  assumes "core_eq s s'"
  shows "running s' h tf = running s h tf" "settled s' t = settled s t" "exit_safe s' t = exit_safe s t"
  using core_eqD [OF assms] by (simp_all add: running_def settled_def exit_safe_def)

lemma fine_core: "core_eq s s1 \<Longrightarrow> fine h s1 s' \<Longrightarrow> fine h s s'"
  using core_eqD(3) by (simp add: fine_def)

lemma breakpoint_step:
  assumes K: "kok s" and R: "running s h tf"
    and u: "tf_sstatus (get_tf tf s) AND SSTATUS_SPP = 0 \<Longrightarrow> is_worker (cur s h) \<and> exit_safe s (cur s h)"
  shows "\<exists>s'. breakpoint_handler h tf s = Inr s' \<and> fine h s s'"
proof -
  define s0 where "s0 = dump_backtrace_from_tf (get_tf tf s) s"
  have c: "core_eq s s0" by (simp add: s0_def core_backtrace)
  note C = core_eqD [OF c] running_core [OF c]
  have K0: "kok s0" and R0: "running s0 h tf" using K R C by simp_all
  define s1 where "s1 = set_sepc tf (tf_sepc (get_tf tf s) + 4) s0"
  note V = set_sepc_view [OF K0 R0, of "tf_sepc (get_tf tf s) + 4", folded s1_def]
  have run: "breakpoint_handler h tf s = (if tf_sstatus (get_tf tf s) AND SSTATUS_SPP = 0
      then thread_sys_exit h tf (- 1) s1 else Inr s1)"
    by (simp add: breakpoint_handler_def Let_def s1_def s0_def)
  have base: "fine h s s1" using V R C by (simp add: fine_def running_def)
  show ?thesis
  proof (cases "tf_sstatus (get_tf tf s) AND SSTATUS_SPP = 0")
    case True
    have "is_worker (cur s1 h)" "exit_safe s1 (cur s1 h)" using u [OF True] V C by simp_all
    from exit_step [OF V(1,2) this, of "- 1"] obtain s' where "thread_sys_exit h tf (- 1) s1 = Inr s'" "fine h s1 s'"
      by blast
    then show ?thesis using run True V C by (auto simp: fine_def)
  next
    case False
    then show ?thesis using run base by simp
  qed
qed

lemma wfi_probe_step:
  assumes K: "kok s" and R: "running s h tf"
  shows "fine h s (wfi_probe_timer h tf s)"
proof -
  define s2 where "s2 = (timer_start_after h (fst (platform_sched_delta_ticks s) * 100) (snd (platform_sched_delta_ticks s)))
    \<lparr>g_wfi_probe_fired := True\<rparr>"
  have c: "core_eq s s2"
    by (simp add: s2_def sched_delta_frame timer_start_after_def timer_start_at_def emit_def core_eq_def)
  note C = core_eqD [OF c] running_core [OF c]
  have K2: "kok s2" and R2: "running s2 h tf" using K R C by simp_all
  define s3 where "s3 = set_sepc tf (tf_sepc (get_tf tf s2) + 4) s2"
  note V = set_sepc_view [OF K2 R2, of "tf_sepc (get_tf tf s2) + 4", folded s3_def]
  have f3: "fine h s s3" using V(1) R unfolding fine_def V(3,4) C running_def by simp
  have f2: "fine h s s2" using K R C by (simp add: fine_def running_def)
  have r: "wfi_probe_timer h tf s = (if tf_sepc (get_tf tf s2) = g_wfi_probe_pc s2
      then s3 else s2)"
    by (simp add: wfi_probe_timer_def case_prod_beta s2_def s3_def Let_def)
  show ?thesis unfolding r using f2 f3 by simp
qed

lemma interrupt_step:
  assumes K: "kok s" and R: "running s h tf"
  shows "\<exists>s'. sched_on_ipi_irq h tf s = Inr s' \<and> fine h s s'" "\<exists>s'. sched_on_timer_irq h tf s = Inr s' \<and> fine h s s'"
    "\<exists>s'. platform_handle_s_external h s = Inr s' \<and> fine h s s'"
proof -
  have I: "kinv s" using K by (simp add: kok_def)
  show "\<exists>s'. sched_on_ipi_irq h tf s = Inr s' \<and> fine h s s'"
    using ipi_ok [OF I R] fineI_still [OF K _ still_ipi seat_ipi] by blast
  obtain s' where s': "sched_on_timer_irq h tf s = Inr s'" "kinv s'" using timer_ok [OF I R] by blast
  have "valid_tid (cur s' h)" using seat_timer [OF s'(1)] running_valid [OF I R] by metis
  then show "\<exists>s'. sched_on_timer_irq h tf s = Inr s' \<and> fine h s s'"
    using s' fineI_still [OF K s'(2) still_timer [OF s'(1)]] by blast
  show "\<exists>s'. platform_handle_s_external h s = Inr s' \<and> fine h s s'"
    using external_step [OF K running_live [OF R]] R by (auto simp: fine_def running_def)
qed

lemma illegal_step:
  assumes K: "kok s" and R: "running s h tf" and w: "is_worker (cur s h)" "exit_safe s (cur s h)"
  shows "\<exists>s'. thread_sys_exit h tf (- 1) (platform_puts str s) = Inr s' \<and> fine h s s'"
proof -
  have c: "core_eq s (platform_puts str s)" by (rule core_puts)
  note C = core_eqD [OF c] running_core [OF c]
  have "\<exists>s'. thread_sys_exit h tf (- 1) (platform_puts str s) = Inr s' \<and> fine h (platform_puts str s) s'"
    using K R w C by (intro exit_step) simp_all
  then show ?thesis using fine_core [OF c] by blast
qed

lemma probe_hit_step:
  assumes K: "kok s" and R: "running s h tf"
  shows "fine h s (set_sepc tf pc (s\<lparr>g_illegal_probe_hit := True\<rparr>))"
proof -
  have c: "core_eq s (s\<lparr>g_illegal_probe_hit := True\<rparr>)" by (simp add: core_eq_def)
  note C = core_eqD [OF c] running_core [OF c]
  have "kok (s\<lparr>g_illegal_probe_hit := True\<rparr>)" "running (s\<lparr>g_illegal_probe_hit := True\<rparr>) h tf"
    using K R by (simp_all only: C)
  note V = set_sepc_view [OF this, of pc]
  show ?thesis using V(1) R unfolding fine_def V(3,4) C running_def by simp
qed

text \<open>The trapframe that is restored belongs to the thread the hart now runs.\<close>

lemma fine_running: "fine h s s' \<Longrightarrow> live s h \<Longrightarrow> running s' h (c_cur_tf (g_cpus s' h))"
  using hart_okD(2) [OF kinv_ok] by (simp add: fine_def kok_def running_def)

lemma trap_interrupt_step:
  assumes K: "kok s" and R: "running s h tf" and c: "code = IRQ_SOFT_S \<or> code = IRQ_TIMER_S \<or> code = IRQ_EXT_S"
  shows "\<exists>s'. trap_interrupt h tf code s = Inr s' \<and> fine h s s'"
  using c interrupt_step [OF K R] wfi_probe_step [OF K R]
  by (auto simp: trap_interrupt_def IRQ_SOFT_S_def IRQ_TIMER_S_def IRQ_EXT_S_def)

lemma trap_exception_step:
  assumes K: "kok s" and R: "running s h tf" and i: "\<not> scause_is_interrupt (tf_scause (get_tf tf s))"
    and P: "trap_pre h tf s"
  shows "\<exists>s'. trap_exception h tf (scause_code (tf_scause (get_tf tf s))) s = Inr s' \<and> fine h s s'"
proof -
  define f where "f = get_tf tf s"
  define code where "code = scause_code (tf_scause f)"
  define user where "user \<longleftrightarrow> tf_sstatus f AND SSTATUS_SPP = 0"
  note run = trap_exception_def [of h tf code s, unfolded Let_def, folded f_def, folded user_def]
  note Q = P [unfolded trap_pre_def Let_def if_not_P [OF i], folded f_def, folded code_def user_def]
  show ?thesis
    unfolding f_def [symmetric] code_def [symmetric]
  proof (cases "code = EXC_ENV_CALL_U")
    case True
    then show "\<exists>s'. trap_exception h tf code s = Inr s' \<and> fine h s s'"
      unfolding run using syscall_step [OF K R] Q by (simp add: f_def)
  next
    case c: False
    show "\<exists>s'. trap_exception h tf code s = Inr s' \<and> fine h s s'"
    proof (cases "code = EXC_BREAKPOINT")
      case True
      then show ?thesis unfolding run using c breakpoint_step [OF K R] Q by (simp add: user_def f_def)
    next
      case False
      then show ?thesis
        unfolding run using c Q illegal_step [OF K R] probe_hit_step [OF K R] by (cases user) simp_all
    qed
  qed
qed

lemma trap_step:
  assumes K: "kok s" and R: "running s h tf" and P: "trap_pre h tf s"
  shows "\<exists>tf' s'. trap_entry_c h tf s = Inr (tf', s') \<and> kok s' \<and> live s' = live s \<and> running s' h tf'"
proof -
  define f where "f = get_tf tf s"
  define m where "m = (if scause_is_interrupt (tf_scause f) then trap_interrupt h tf (scause_code (tf_scause f)) s
    else trap_exception h tf (scause_code (tf_scause f)) s)"
  obtain s' where s': "m = Inr s'" "fine h s s'"
  proof (cases "scause_is_interrupt (tf_scause f)")
    case True
    then show ?thesis
      using trap_interrupt_step [OF K R, of "scause_code (tf_scause f)"] P that by (auto simp: m_def trap_pre_def Let_def f_def)
  next
    case False
    then show ?thesis using trap_exception_step [OF K R _ P] that by (auto simp: m_def f_def)
  qed
  then have "trap_entry_c h tf s = Inr (c_cur_tf (g_cpus s' h), s')"
    unfolding trap_entry_c_def Let_def f_def [symmetric] m_def [symmetric] by simp
  with s'(2) fine_running [OF s'(2) running_live [OF R]] show ?thesis by (simp add: fine_def)
qed

end
