(* ===== verification/Bringup.thy ===== *)
theory Bringup
  imports Trap
begin

text \<open>
  The entry code: \<open>kernel/main.c\<close> and \<open>kernel/probe_illegal.c\<close>. The boot hart initialises the platform,
  probes privileged instructions, builds the thread table, starts the other harts through the
  firmware and enters its idle thread; a secondary hart only enters its own idle thread. What the
  firmware and the hart answer (whether a probed instruction traps, what the polls of a started hart
  see) is the argument \<open>boot_env\<close>. Log lines are not part of the state.
\<close>

section \<open>The early console\<close>

definition sbi_debug_console_write_byte :: "u8 \<Rightarrow> kstate \<Rightarrow> kstate" where
  "sbi_debug_console_write_byte b s = emit (EvSbiByte b) s"

definition sbi_console_puts :: "string \<Rightarrow> kstate \<Rightarrow> kstate" where
  "sbi_console_puts str s =
     fold (\<lambda>c s. sbi_debug_console_write_byte (of_char c)
                  (if c = CHR 0x0A then sbi_debug_console_write_byte 13 s else s)) str s"

definition sbi_put_hex64 :: "u64 \<Rightarrow> kstate \<Rightarrow> kstate" where
  "sbi_put_hex64 v s =
     fold (\<lambda>i s. sbi_debug_console_write_byte
       (of_char (''0123456789abcdef'' ! unat (drop_bit (i * 4) v AND 0xf))) s) (rev [0..<16]) s"

text \<open>\<open>buf\<close> holds 32 characters, least significant digit first.\<close>

fun sbi_dec_buf :: "nat \<Rightarrow> u64 \<Rightarrow> u8 list" where
  "sbi_dec_buf 0 v = []"
| "sbi_dec_buf (Suc room) v = (if v \<noteq> 0 then (48 + ucast (v mod 10)) # sbi_dec_buf room (v div 10) else [])"

definition sbi_put_dec :: "u64 \<Rightarrow> kstate \<Rightarrow> kstate" where
  "sbi_put_dec v s =
     (if v = 0 then sbi_debug_console_write_byte 48 s
      else fold sbi_debug_console_write_byte (rev (sbi_dec_buf 32 v)) s)"

definition sbi_early_banner :: "u64 \<Rightarrow> u64 \<Rightarrow> kstate \<Rightarrow> kstate" where
  "sbi_early_banner hartid dtb_pa s =
     sbi_console_puts ''\<newline>'' (sbi_put_hex64 dtb_pa (sbi_console_puts '' dtb_pa=0x''
       (sbi_put_dec hartid (sbi_console_puts ''kernel_main entry hart='' s))))"

section \<open>Probing privileged instructions\<close>

datatype probe = SFENCE_VMA | SFENCE_VM | CSRR_SATP | CSRW_SATP | FENCE_I

text \<open>One poll of a hart that was asked to start: the clock, what \<open>sbi_hart_status\<close> answers, and
  \<open>g_cpus[h].online\<close>.\<close>

record hart_poll =
  hp_now :: u64
  hp_error :: int
  hp_value :: int
  hp_online :: bool

text \<open>\<open>be_traps p\<close> is the frame the trap entry saves when instruction \<open>p\<close> is illegal, and \<open>None\<close> when it
  executes.\<close>

record boot_env =
  be_user_main :: u64
  be_traps :: "probe \<Rightarrow> trapframe option"
  be_start :: "nat \<Rightarrow> u64"
  be_polls :: "nat \<Rightarrow> hart_poll list"

definition probe_enter :: "nat \<Rightarrow> kstate \<Rightarrow> tfref \<times> kstate" where
  "probe_enter h s = (c_cur_tf (g_cpus s h), upd_cpu h (\<lambda>c. c\<lparr>c_cur_tf := TF_PROBE\<rparr>) s)"

definition probe_exit :: "nat \<Rightarrow> tfref \<Rightarrow> kstate \<Rightarrow> kstate" where
  "probe_exit h old s = upd_cpu h (\<lambda>c. c\<lparr>c_cur_tf := old\<rparr>) s"

definition probe_insn :: "nat \<Rightarrow> trapframe option \<Rightarrow> kstate \<Rightarrow> kstate kres" where
  "probe_insn h trap s =
     (let s1 = trap_illegal_probe_enable (trap_illegal_probe_clear s)
      in bindE (case trap of None \<Rightarrow> Inr s1
                | Some f \<Rightarrow> bindE (trap_entry_c h (c_cur_tf (g_cpus s1 h)) (upd_tf (c_cur_tf (g_cpus s1 h)) (\<lambda>_. f) s1))
                              (\<lambda>(_, s2). Inr s2))
          (\<lambda>s2. Inr (trap_illegal_probe_disable s2)))"

definition probe_privileged_isa :: "nat \<Rightarrow> (probe \<Rightarrow> trapframe option) \<Rightarrow> kstate \<Rightarrow> kstate kres" where
  "probe_privileged_isa h traps s =
     (let (old, s0) = probe_enter h s
      in bindE (probe_insn h (traps SFENCE_VMA) s0) (\<lambda>s1.
         bindE (probe_insn h (traps SFENCE_VM) s1) (\<lambda>s2.
         bindE (probe_insn h (traps CSRR_SATP) s2) (\<lambda>s3.
         bindE (if \<not> trap_illegal_probe_hit s3 then probe_insn h (traps CSRW_SATP) s3 else Inr s3) (\<lambda>s4.
         bindE (probe_insn h (traps FENCE_I) s4) (\<lambda>s5.
           Inr (probe_exit h old s5)))))))"

section \<open>Starting the other harts\<close>

definition SBI_HSM_STATUS_STARTED :: int where "SBI_HSM_STATUS_STARTED = 0"
definition SBI_HSM_STATUS_STOPPED :: int where "SBI_HSM_STATUS_STOPPED = 1"
definition SBI_HSM_STATUS_START_PENDING :: int where "SBI_HSM_STATUS_START_PENDING = 2"
definition SBI_HSM_STATUS_STOP_PENDING :: int where "SBI_HSM_STATUS_STOP_PENDING = 3"

definition hsm_status_str :: "int \<Rightarrow> string" where
  "hsm_status_str st =
     (if st = SBI_HSM_STATUS_STARTED then ''STARTED''
      else if st = SBI_HSM_STATUS_STOPPED then ''STOPPED''
      else if st = SBI_HSM_STATUS_START_PENDING then ''START_PENDING''
      else if st = SBI_HSM_STATUS_STOP_PENDING then ''STOP_PENDING''
      else ''unknown'')"

text \<open>The result is whether the hart came online, and the two statuses of the final log line.\<close>

fun start_wait_loop :: "u64 \<Rightarrow> u64 \<Rightarrow> hart_poll list \<Rightarrow> int \<Rightarrow> int \<Rightarrow> (bool \<times> int \<times> int) option" where
  "start_wait_loop start timeout [] last_status first_started = None"
| "start_wait_loop start timeout (p # ps) last_status first_started =
     (if hp_now p - start < timeout then
        let last' = (if hp_error p = 0 then hp_value p else last_status);
            first' = (if hp_error p = 0 \<and> hp_value p = SBI_HSM_STATUS_STARTED \<and> first_started = -1
                      then hp_value p else first_started)
        in if hp_online p then Some (True, if first' \<noteq> -1 then first' else last', last')
           else start_wait_loop start timeout ps last' first'
      else Some (False, last_status, last_status))"

fun start_harts :: "boot_env \<Rightarrow> u64 \<Rightarrow> u64 \<Rightarrow> nat list \<Rightarrow> kstate \<Rightarrow> kstate kres" where
  "start_harts env timeout dtb_pa [] s = Inr s"
| "start_harts env timeout dtb_pa (h # hs) s =
     (if h = g_boot_hartid s then start_harts env timeout dtb_pa hs s
      else case start_wait_loop (be_start env h) timeout (be_polls env h) (-1) (-1) of
             None \<Rightarrow> Inl Diverges
           | Some _ \<Rightarrow> start_harts env timeout dtb_pa hs (emit (EvHartStart h dtb_pa) s))"

definition start_other_harts :: "boot_env \<Rightarrow> u64 \<Rightarrow> kstate \<Rightarrow> kstate kres" where
  "start_other_harts env dtb_pa s =
     (if g_boot_hartid s = NO_BOOT_HART then Inl (Panic ''g_boot_hartid != NO_BOOT_HART'')
      else let (d, s1) = platform_sched_delta_ticks s
           in start_harts env (d * 100) dtb_pa [0..<MAX_HARTS] s1)"

section \<open>The entry points\<close>

definition primary_main :: "nat \<Rightarrow> u64 \<Rightarrow> boot_env \<Rightarrow> kstate \<Rightarrow> kstate kres" where
  "primary_main h dtb_pa env s =
     bindE (platform_init h dtb_pa s) (\<lambda>s1.
     bindE (platform_boot_hart_init h s1) (\<lambda>s2.
       let s3 = platform_puts ''Booting...\<newline>'' s2;
           s4 = console_init (trap_install_bootstrap_tf h (trap_init h s3))
       in bindE (probe_privileged_isa h (be_traps env) s4) (\<lambda>s5.
          bindE (threads_init h (be_user_main env) (time_init s5)) (\<lambda>s6.
          bindE (start_other_harts env dtb_pa (set_smp_boot_done s6)) (\<lambda>s7.
            cpu_enter_idle h h s7)))))"

definition secondary_main :: "nat \<Rightarrow> kstate \<Rightarrow> kstate kres" where
  "secondary_main h s =
     bindE (platform_secondary_hart_init h s) (\<lambda>s1. cpu_enter_idle h h (trap_init h s1))"

text \<open>The compare-and-swap on \<open>g_boot_hartid\<close> decides which path a hart takes.\<close>

definition kernel_main :: "nat \<Rightarrow> u64 \<Rightarrow> boot_env \<Rightarrow> kstate \<Rightarrow> kstate kres" where
  "kernel_main h dtb_pa env s =
     bindE (cpu_init_this_hart h (sbi_early_banner (of_nat h) dtb_pa s)) (\<lambda>s1.
       if g_boot_hartid s1 = NO_BOOT_HART
       then primary_main h dtb_pa env (s1\<lparr>g_boot_hartid := h\<rparr>)
       else bindE (wait_for_smp_boot_done s1) (secondary_main h))"

end
