(* ===== verification/Boot.thy ===== *)
theory Boot
  imports Kernel_Machine Bringup
begin

text \<open>
  Bring-up reaches the invariant: \<open>kernel_main\<close> on the boot hart builds, from a machine on which
  no hart runs, a state in which every queue, thread slot and hart satisfies the kernel invariant, and on
  a secondary hart it preserves the invariant.
\<close>

section \<open>A hart comes online\<close>

lemma cpu_init_sel:
  assumes "k < MAX_HARTS" "cpu_init_this_hart k s = Inr s'"
  shows "g_threads s' = g_threads s" "g_runqueues s' = g_runqueues s" "g_boot_hartid s' = g_boot_hartid s"
    "g_stdin_waiter s' = g_stdin_waiter s" "\<And>j. j \<noteq> k \<Longrightarrow> g_cpus s' j = g_cpus s j"
    "c_hartid (g_cpus s' k) = k" "c_idle_tid (g_cpus s' k) = int k" "c_online (g_cpus s' k)" "cur s' k = -1"
    "g_rx_head s' = g_rx_head s" "g_rx_tail s' = g_rx_tail s" "g_dtb s' = g_dtb s" "smp_boot_done s' = smp_boot_done s"
  using assms
  by (auto simp: cpu_init_this_hart_def sched_init_this_hart_def smp_set_online_def Let_def cur_def)
    (simp_all add: upd_cpu_def)

lemma online_kinv:
  assumes K: "kinv s" and k: "k < MAX_HARTS" "\<not> c_online (g_cpus s k)" and r: "cpu_init_this_hart k s = Inr s'"
  shows "kinv s'" "live s' = (live s)(k := True)" "rq_list s' = rq_list s"
proof -
  note S = cpu_init_sel [OF k(1) r]
  note C = kinv_common [OF K]
  have nl: "\<not> live s k" using k by (simp add: live_def)
  show lv: "live s' = (live s)(k := True)"
  proof
    fix j
    show "live s' j = ((live s)(k := True)) j" using S(5,8) k(1) by (cases "j = k") (simp_all add: live_def)
  qed
  have cu: "cur s' j = cur s j" if "j \<noteq> k" for j using S(5) [OF that] by (simp add: cur_def)
  have n: "nxt s' = nxt s" and o: "onrq s' = onrq s" using S(1) by (simp_all add: nxt_def onrq_def fun_eq_iff)
  note W = rq_wf_cong [OF n o S(2)]
  show "rq_list s' = rq_list s" by (rule W)
  have "common s'"
  proof (rule commonI)
    show "c_hartid (g_cpus s' j) = j \<and> c_idle_tid (g_cpus s' j) = int j" if "live s' j" for j
      using that C S by (cases "j = k") (simp_all add: lv common_hart common_idle_tid)
    show "t_state (g_threads s' (int j)) = (if live s' j \<and> cur s' j = int j then THREAD_RUNNING else THREAD_RUNNABLE)
        \<and> \<not> t_can_be_killed (g_threads s' (int j))" if "j < MAX_HARTS" for j
      using common_idle [OF C that] common_idle_kill [OF C that] S nl cu [of j] by (cases "j = k") (auto simp: lv)
    show "t_state (g_threads s' t) = THREAD_RUNNABLE \<longleftrightarrow> onrq s' t" if "is_worker t" for t
      using common_runnable [OF C that] by (simp add: S o)
    show "\<exists>j. live s' j \<and> cur s' j = t" if t: "is_worker t" "t_state (g_threads s' t) = THREAD_RUNNING" for t
    proof -
      obtain j where "live s j" "cur s j = t" using common_running [OF C t(1)] t(2) by (auto simp: S)
      then show ?thesis using nl cu [of j] by (intro exI [of _ j]) (auto simp: lv)
    qed
    show "\<exists>j. live s' j \<and> t_running_hart (g_threads s' t) = int j \<and> cur s' j = t"
      if t: "valid_tid t" "t_running_hart (g_threads s' t) \<ge> 0" for t
    proof -
      obtain j where "live s j" "t_running_hart (g_threads s t) = int j" "cur s j = t"
        using common_rh [OF C t(1)] t(2) by (auto simp: S)
      then show ?thesis using nl cu [of j] by (intro exI [of _ j]) (auto simp: lv S)
    qed
    show "t_id (g_threads s' t) = t" if "valid_tid t" for t using common_id [OF C that] by (simp add: S)
  qed (use common_boot [OF C] common_stdin [OF C] S in simp_all)
  moreover have "hart_ok s' j" if "live s' j" for j
    using that S kinv_ok [OF K, of j] cu [of j] by (cases "j = k") (simp_all add: hart_ok_def lv)
  ultimately show "kinv s'" using kinv_wf [OF K] by (simp add: kinv_def W)
qed

lemma arch_enable_core: "core_eq s (arch_enable h m s)"
  by (simp add: arch_enable_def core_eq_def)

lemma enter_idle_ok:
  assumes K: "kok s" and L: "live s h" and free: "cur s h = -1"
  shows "\<exists>s'. cpu_enter_idle h h s = Inr s' \<and> kok s' \<and> live s' = live s \<and> rq_list s' = rq_list s
    \<and> running s' h (TF_THREAD (int h)) \<and> (\<forall>k. k \<noteq> h \<longrightarrow> cur s' k = cur s k)
    \<and> (\<forall>i. i \<noteq> int h \<longrightarrow> g_threads s' i = g_threads s i)"
proof -
  have I: "kinv s" using K by (simp add: kok_def)
  note C = kinv_common [OF I] and H = live_bound [OF L]
  define s1 where "s1 = upd_cpu h (\<lambda>c. c\<lparr>c_idle_tid := int h, c_current_tid := int h, c_cur_tf := TF_THREAD (int h)\<rparr>) s"
  define f where "f = (\<lambda>t :: Thread. mark_running h (t\<lparr>t_state := THREAD_RUNNING\<rparr>))"
  define s3 where "s3 = upd_thread (int h) f s1"
  define s4 where "s4 = (if h = g_boot_hartid s3
    then arch_enable h SIE_SEIE (arch_enable h SIE_STIE (sched_rearm_timer h s3)) else s3)"
  define s' where "s' = arch_enable h SIE_SSIE s4"
  have hid: "c_hartid (g_cpus s h) = h" using common_hart [OF C L] .
  have run: "cpu_enter_idle h h s = Inr s'"
    using H hid by (simp add: cpu_enter_idle_def Let_def s'_def s4_def s3_def s1_def f_def thread_mark_running_def upd_thread_twice)
  have "core_eq s3 (sched_rearm_timer h s3)" by (simp add: sched_rearm_timer_eq core_eq_def)
  then have "core_eq s3 s4" unfolding s4_def by (auto intro: core_eq_trans [OF core_eq_trans [OF _ arch_enable_core] arch_enable_core])
  then have c: "core_eq s3 s'" unfolding s'_def by (rule core_eq_trans [OF _ arch_enable_core])
  note E = core_eqD [OF c]
  have cp: "g_cpus s3 h = (g_cpus s h)\<lparr>c_idle_tid := int h, c_current_tid := int h, c_cur_tf := TF_THREAD (int h)\<rparr>"
    "\<And>k. k \<noteq> h \<Longrightarrow> g_cpus s3 k = g_cpus s k" by (simp_all add: s3_def s1_def)
  have th: "g_threads s3 (int h) = f (g_threads s (int h))" "\<And>i. i \<noteq> int h \<Longrightarrow> g_threads s3 i = g_threads s i"
    by (simp_all add: s3_def s1_def)
  have o: "onrq s3 = onrq s" and n: "nxt s3 = nxt s"
    by (auto simp: onrq_def nxt_def fun_eq_iff s3_def s1_def f_def)
  note W = rq_wf_cong [OF n o, unfolded s3_def s1_def, simplified, folded s1_def, folded s3_def]
  have off: "\<not> onrq s (int h)"
    using rq_wf_onrq [OF kinv_wf [OF I] idle_valid [OF idle_of_hart [OF H]]] rq_wf_worker [OF kinv_wf [OF I]] idle_not_worker [OF H] by blast
  have "kinv s3"
    using L free cp th common_idle_tid [OF C L] common_id [OF C idle_valid [OF idle_of_hart [OF H]]] off kinv_wf [OF I] W
    by (intro kinv_attach [OF I L free, of "int h"]) (simp_all add: cur_def o f_def, simp_all add: s3_def s1_def)
  moreover have "rx_ok s3" using K by (simp add: kok_def s3_def s1_def rx_ok_def upd_thread_def upd_cpu_def)
  moreover have lv: "live s3 = live s"
  proof
    fix k
    show "live s3 k = live s k" using cp by (cases "k = h") (simp_all add: live_def)
  qed
  moreover have cu: "cur s3 h = int h" "\<And>k. k \<noteq> h \<Longrightarrow> cur s3 k = cur s k" using cp by (simp_all add: cur_def)
  moreover have "rq_list s' = rq_list s" using E(4) W(1) by (simp add: sched_abs_def)
  ultimately show ?thesis using run E(1-3,5) L th by (auto simp: running_def kok_def)
qed

section \<open>The thread table\<close>

definition slot0 :: "int \<Rightarrow> Thread \<Rightarrow> Thread" where
  "slot0 i t = t\<lparr>t_id := i, t_state := THREAD_UNUSED, t_wakeup_tick := 0,
     t_name := CLit ''unused'', t_stack_base := 0, t_can_be_killed := False, t_detached := False,
     t_exit_code := 0, t_join_waiter := -1, t_waiting_for := -1, t_join_status_ptr := 0,
     t_pending_read_buf := 0, t_pending_read_len := 0, t_running_hart := -1, t_last_hart := -1,
     t_migrations := 0, t_runs := 0, t_rq_next := -1, t_on_rq := False, t_tf := tf_clear\<rparr>"

lemma init_slots:
  "g_threads (fold init_slot is s) i = (if i \<in> set is then slot0 i (g_threads s i) else g_threads s i)"
  "g_cpus (fold init_slot is s) = g_cpus s" "g_boot_hartid (fold init_slot is s) = g_boot_hartid s"
  "g_stdin_waiter (fold init_slot is s) = g_stdin_waiter s" "still (fold init_slot is s) = still s"
  "smp_boot_done (fold init_slot is s) = smp_boot_done s"
proof -
  have i: "init_slot j s = upd_thread j (slot0 j) s" for j s by (simp add: init_slot_def slot0_def [abs_def])
  show "g_threads (fold init_slot is s) i = (if i \<in> set is then slot0 i (g_threads s i) else g_threads s i)"
    by (induction "is" arbitrary: s) (auto simp: i slot0_def)
  show "g_cpus (fold init_slot is s) = g_cpus s" "g_boot_hartid (fold init_slot is s) = g_boot_hartid s"
    "g_stdin_waiter (fold init_slot is s) = g_stdin_waiter s" "still (fold init_slot is s) = still s"
    "smp_boot_done (fold init_slot is s) = smp_boot_done s"
    by (induction "is" arbitrary: s; simp add: i)+
qed

lemma init_queues:
  "g_threads (fold rq_init ks s) = g_threads s" "g_cpus (fold rq_init ks s) = g_cpus s"
  "g_boot_hartid (fold rq_init ks s) = g_boot_hartid s" "g_stdin_waiter (fold rq_init ks s) = g_stdin_waiter s"
  "still (fold rq_init ks s) = still s" "smp_boot_done (fold rq_init ks s) = smp_boot_done s"
  "k \<in> set ks \<Longrightarrow> k < MAX_HARTS \<Longrightarrow> g_runqueues (fold rq_init ks s) k = \<lparr>q_head = -1, q_tail = -1, q_len = 0\<rparr>"
proof -
  show "g_threads (fold rq_init ks s) = g_threads s" "g_cpus (fold rq_init ks s) = g_cpus s"
    "g_boot_hartid (fold rq_init ks s) = g_boot_hartid s" "g_stdin_waiter (fold rq_init ks s) = g_stdin_waiter s"
    "still (fold rq_init ks s) = still s" "smp_boot_done (fold rq_init ks s) = smp_boot_done s"
    by (induction ks arbitrary: s; simp add: rq_init_def)+
  have e: "r\<lparr>q_head := -1, q_tail := -1, q_len := 0\<rparr> = \<lparr>q_head = -1, q_tail = -1, q_len = 0\<rparr>" for r :: runqueue_t
    by (cases r) simp
  have stay: "g_runqueues s k = \<lparr>q_head = -1, q_tail = -1, q_len = 0\<rparr> \<Longrightarrow>
      g_runqueues (fold rq_init ks s) k = \<lparr>q_head = -1, q_tail = -1, q_len = 0\<rparr>" for ks s k
    by (induction ks arbitrary: s) (simp_all add: rq_init_def)
  show "k \<in> set ks \<Longrightarrow> k < MAX_HARTS \<Longrightarrow> g_runqueues (fold rq_init ks s) k = \<lparr>q_head = -1, q_tail = -1, q_len = 0\<rparr>"
    by (induction ks arbitrary: s) (auto simp: rq_init_def e intro: stay)
qed

lemma init_idles:
  "i \<notin> int ` set ks \<Longrightarrow> g_threads (fold (init_idle h) ks s) i = g_threads s i"
  "k \<in> set ks \<Longrightarrow> t_state (g_threads (fold (init_idle h) ks s) (int k)) = THREAD_RUNNABLE
     \<and> \<not> t_can_be_killed (g_threads (fold (init_idle h) ks s) (int k))"
  "t_id (g_threads (fold (init_idle h) ks s) i) = t_id (g_threads s i)
   \<and> t_running_hart (g_threads (fold (init_idle h) ks s) i) = t_running_hart (g_threads s i)
   \<and> t_on_rq (g_threads (fold (init_idle h) ks s) i) = t_on_rq (g_threads s i)
   \<and> t_rq_next (g_threads (fold (init_idle h) ks s) i) = t_rq_next (g_threads s i)"
  "g_cpus (fold (init_idle h) ks s) = g_cpus s" "g_boot_hartid (fold (init_idle h) ks s) = g_boot_hartid s"
  "g_stdin_waiter (fold (init_idle h) ks s) = g_stdin_waiter s" "still (fold (init_idle h) ks s) = still s"
  "g_runqueues (fold (init_idle h) ks s) = g_runqueues s" "smp_boot_done (fold (init_idle h) ks s) = smp_boot_done s"
proof -
  show "i \<notin> int ` set ks \<Longrightarrow> g_threads (fold (init_idle h) ks s) i = g_threads s i"
    by (induction ks arbitrary: s) (auto simp: init_idle_def init_thread_context_s_def)
  show "t_id (g_threads (fold (init_idle h) ks s) i) = t_id (g_threads s i)
   \<and> t_running_hart (g_threads (fold (init_idle h) ks s) i) = t_running_hart (g_threads s i)
   \<and> t_on_rq (g_threads (fold (init_idle h) ks s) i) = t_on_rq (g_threads s i)
   \<and> t_rq_next (g_threads (fold (init_idle h) ks s) i) = t_rq_next (g_threads s i)"
    by (induction ks arbitrary: s) (simp_all add: init_idle_def init_thread_context_s_def)
  show "g_cpus (fold (init_idle h) ks s) = g_cpus s" "g_boot_hartid (fold (init_idle h) ks s) = g_boot_hartid s"
    "g_stdin_waiter (fold (init_idle h) ks s) = g_stdin_waiter s" "still (fold (init_idle h) ks s) = still s"
    "g_runqueues (fold (init_idle h) ks s) = g_runqueues s" "smp_boot_done (fold (init_idle h) ks s) = smp_boot_done s"
    by (induction ks arbitrary: s; simp add: init_idle_def init_thread_context_s_def)+
  let ?P = "\<lambda>s k. t_state (g_threads s (int k)) = THREAD_RUNNABLE \<and> \<not> t_can_be_killed (g_threads s (int k))"
  have stay: "?P s k \<Longrightarrow> ?P (fold (init_idle h) ks s) k" for ks s k
    by (induction ks arbitrary: s) (simp_all add: init_idle_def init_thread_context_s_def)
  have new: "?P (init_idle h k s) k" for s k by (simp add: init_idle_def init_thread_context_s_def)
  show "k \<in> set ks \<Longrightarrow> ?P (fold (init_idle h) ks s) k"
    by (induction ks arbitrary: s) (use stay [OF new] in auto)
qed

text \<open>The state of a hart before the scheduler exists.\<close>

definition fresh_harts :: "nat \<Rightarrow> kstate \<Rightarrow> bool" where
  "fresh_harts h s \<longleftrightarrow> (\<forall>k. live s k \<longleftrightarrow> k = h) \<and> c_hartid (g_cpus s h) = h \<and> c_idle_tid (g_cpus s h) = int h
     \<and> cur s h = -1 \<and> g_boot_hartid s = h \<and> g_stdin_waiter s = -1"

definition thread_tables :: "nat \<Rightarrow> kstate \<Rightarrow> kstate" where
  "thread_tables h s = fold (init_idle h) [0..<MAX_HARTS] (rq_init_all (fold init_slot [0..THREAD_MAX - 1] (s\<lparr>g_ticks := 0\<rparr>)))"

lemma thread_tables_view:
  shows "valid_tid i \<Longrightarrow> t_id (g_threads (thread_tables h s) i) = i \<and> t_running_hart (g_threads (thread_tables h s) i) = -1
      \<and> \<not> onrq (thread_tables h s) i"
    "is_worker i \<Longrightarrow> t_state (g_threads (thread_tables h s) i) = THREAD_UNUSED \<and> t_join_waiter (g_threads (thread_tables h s) i) = -1"
    "k < MAX_HARTS \<Longrightarrow> t_state (g_threads (thread_tables h s) (int k)) = THREAD_RUNNABLE
      \<and> \<not> t_can_be_killed (g_threads (thread_tables h s) (int k))"
    "g_cpus (thread_tables h s) = g_cpus s" "g_boot_hartid (thread_tables h s) = g_boot_hartid s"
    "g_stdin_waiter (thread_tables h s) = g_stdin_waiter s" "still (thread_tables h s) = still s"
    "smp_boot_done (thread_tables h s) = smp_boot_done s"
    "k < MAX_HARTS \<Longrightarrow> g_runqueues (thread_tables h s) k = \<lparr>q_head = -1, q_tail = -1, q_len = 0\<rparr>"
proof -
  define u where "u = rq_init_all (fold init_slot [0..THREAD_MAX - 1] (s\<lparr>g_ticks := 0\<rparr>))"
  have tt: "thread_tables h s = fold (init_idle h) [0..<MAX_HARTS] u" by (simp add: thread_tables_def u_def)
  have u0: "g_threads u i = slot0 i (g_threads s i)" if "valid_tid i" for i
    using that by (simp add: u_def rq_init_all_def init_queues init_slots valid_tid_def)
  show "valid_tid i \<Longrightarrow> t_id (g_threads (thread_tables h s) i) = i \<and> t_running_hart (g_threads (thread_tables h s) i) = -1
      \<and> \<not> onrq (thread_tables h s) i"
    using init_idles(3) [of h "[0..<MAX_HARTS]" u i] u0 [of i] by (simp add: tt onrq_def slot0_def)
  show "is_worker i \<Longrightarrow> t_state (g_threads (thread_tables h s) i) = THREAD_UNUSED \<and> t_join_waiter (g_threads (thread_tables h s) i) = -1"
    using init_idles(1) [of i "[0..<MAX_HARTS]" h u] u0 [of i] by (fastforce simp: tt slot0_def is_worker_def)
  show "k < MAX_HARTS \<Longrightarrow> t_state (g_threads (thread_tables h s) (int k)) = THREAD_RUNNABLE
      \<and> \<not> t_can_be_killed (g_threads (thread_tables h s) (int k))"
    using init_idles(2) [of k "[0..<MAX_HARTS]" h u] by (simp add: tt)
  show "g_cpus (thread_tables h s) = g_cpus s" "g_boot_hartid (thread_tables h s) = g_boot_hartid s"
    "g_stdin_waiter (thread_tables h s) = g_stdin_waiter s" "still (thread_tables h s) = still s"
    "smp_boot_done (thread_tables h s) = smp_boot_done s"
    by (simp_all add: tt init_idles u_def rq_init_all_def init_queues init_slots)
  show "k < MAX_HARTS \<Longrightarrow> g_runqueues (thread_tables h s) k = \<lparr>q_head = -1, q_tail = -1, q_len = 0\<rparr>"
    by (simp add: tt init_idles u_def rq_init_all_def init_queues)
qed

lemma thread_tables_kinv:
  assumes F: "fresh_harts h s" and H: "h < MAX_HARTS"
  shows "kinv (thread_tables h s)" "rq_list (thread_tables h s) = (\<lambda>_. [])"
    "live (thread_tables h s) = live s" "cur (thread_tables h s) = cur s"
proof -
  let ?t = "thread_tables h s"
  note V = thread_tables_view [where h = h and s = s]
  have R: "rqs_rep ?t (\<lambda>_. [])" using V(1,9) by (auto simp: rqs_rep_def rq_rep_def)
  show "rq_list ?t = (\<lambda>_. [])" using rqs_rep_list [OF R] .
  show l: "live ?t = live s" and c: "cur ?t = cur s" using V(4) by (simp_all add: live_def cur_def fun_eq_iff)
  have lv: "live s k \<longleftrightarrow> k = h" for k using F by (simp add: fresh_harts_def)
  have ch: "cur s h = -1" using F by (simp add: fresh_harts_def)
  have "common ?t"
  proof (rule commonI; (simp only: l c V(4))?)
    show "c_hartid (g_cpus s k) = k \<and> c_idle_tid (g_cpus s k) = int k" if "live s k" for k
      using that F lv by (simp add: fresh_harts_def)
    show "t_state (g_threads ?t (int k)) = (if live s k \<and> cur s k = int k then THREAD_RUNNING else THREAD_RUNNABLE)
        \<and> \<not> t_can_be_killed (g_threads ?t (int k))" if "k < MAX_HARTS" for k
      using V(3) [OF that] lv ch by auto
    show "t_state (g_threads ?t t) = THREAD_RUNNABLE \<longleftrightarrow> onrq ?t t" if "is_worker t" for t
      using V(1) [OF worker_valid [OF that]] V(2) [OF that] by simp
    show "\<exists>k. live s k \<and> cur s k = t" if "is_worker t" "t_state (g_threads ?t t) = THREAD_RUNNING" for t
      using V(2) [OF that(1)] that(2) by simp
    show "\<exists>k. live s k \<and> t_running_hart (g_threads ?t t) = int k \<and> cur s k = t"
      if "valid_tid t" "t_running_hart (g_threads ?t t) \<ge> 0" for t
      using V(1) [OF that(1)] that(2) by simp
    show "t_id (g_threads ?t t) = t" if "valid_tid t" for t using V(1) [OF that] by simp
  qed (use F H V THREAD_MAX_small in \<open>simp_all add: fresh_harts_def\<close>)
  moreover have "hart_ok ?t k" if "live ?t k" for k using that lv ch by (simp add: hart_ok_def l c)
  ultimately show "kinv ?t" using rqs_rep_wf [OF R] by (simp add: kinv_def)
qed

text \<open>The main thread of user space is the only worker, and nobody waits for it.\<close>

definition one_user :: "kstate \<Rightarrow> bool" where
  "one_user s \<longleftrightarrow> (\<forall>t. is_worker t \<longrightarrow> t_join_waiter (g_threads s t) = -1
       \<and> (t \<noteq> int MAX_HARTS \<longrightarrow> t_state (g_threads s t) = THREAD_UNUSED))
     \<and> \<not> t_detached (g_threads s (int MAX_HARTS)) \<and> t_can_be_killed (g_threads s (int MAX_HARTS))"

lemma one_user_cong:
  assumes "\<And>t. is_worker t \<Longrightarrow> rq_erase (g_threads s' t) = rq_erase (g_threads s t)"
  shows "one_user s' = one_user s"
proof -
  have w: "is_worker (int MAX_HARTS)" using MAX_HARTS_less by (simp add: is_worker_def)
  note E = erase_sel [OF assms]
  show ?thesis unfolding one_user_def using E(2,15) E(6,7) [OF w] by auto
qed

lemma threads_init_ok:
  assumes F: "fresh_harts h s" and H: "h < MAX_HARTS"
  shows "\<exists>s'. threads_init h um s = Inr s' \<and> kinv s' \<and> still s' = still s \<and> cur s' = cur s
    \<and> g_boot_hartid s' = g_boot_hartid s \<and> one_user s'
    \<and> rq_list s' = (\<lambda>_. [])(h := [int MAX_HARTS]) \<and> fresh_context um 0 (t_tf (g_threads s' (int MAX_HARTS)))"
proof -
  let ?t = "thread_tables h s"
  note V = thread_tables_view [where h = h and s = s]
  note T = thread_tables_kinv [OF F H]
  have L: "live ?t h" using F by (simp add: T fresh_harts_def)
  have w0: "is_worker (int MAX_HARTS)" using MAX_HARTS_less by (simp add: is_worker_def)
  define a where "a = alloc_thread_slot ?t"
  have a1: "a \<noteq> -1"
    unfolding a_def alloc_none using V(2) [OF w0] w0 MAX_HARTS_pos by (auto simp: is_worker_def intro!: exI [of _ "int MAX_HARTS"])
  note A = alloc_slot [OF a_def [symmetric] a1]
  have a: "a = int MAX_HARTS"
  proof (rule ccontr)
    assume ne: "a \<noteq> int MAX_HARTS"
    have "\<not> a < int MAX_HARTS"
    proof
      assume "a < int MAX_HARTS"
      with A have "nat a < MAX_HARTS" "int (nat a) = a" by auto
      with V(3) [of "nat a"] A show False by simp
    qed
    with ne A V(2) [OF w0] MAX_HARTS_pos show False by auto
  qed
  obtain s' where s': "thread_create_user h um 0 (Some (CLit ''user_main'')) ?t = Inr (a, s')" "kinv s'"
    "woken a (user_slot h um 0 (Some (CLit ''user_main'')) a ?t (g_threads ?t a)) ?t s'"
    "fresh_context um 0 (t_tf (g_threads s' a))"
    using create_ok [OF T(1) L a_def [symmetric] a1] by blast
  have run: "threads_init h um s = Inr s'"
    using s'(1) a by (simp add: threads_init_def thread_create_user_main_def Let_def thread_tables_def)
  have calm: "calm s' = calm ?t" using calm_create [OF s'(1)] .
  obtain k where k: "placed k ?t" "rq_list s' = (\<lambda>_. [])(k := [a])" using s'(3) by (auto simp: woken_def T)
  have "k = h" using k(1) F L by (auto simp: placed_def T fresh_harts_def)
  moreover have "g_boot_hartid s' = g_boot_hartid ?t" using s'(3) by (simp add: woken_def only_def)
  moreover have "one_user s'"
  proof -
    have O: "only a ?t s'" and E: "rq_erase (g_threads s' a)
        = rq_erase ((user_slot h um 0 (Some (CLit ''user_main'')) a ?t (g_threads ?t a))\<lparr>t_state := THREAD_RUNNABLE, t_wakeup_tick := 0\<rparr>)"
      using s'(3) by (simp_all add: woken_def)
    have "t_join_waiter (g_threads s' a) = -1" "\<not> t_detached (g_threads s' a)" "t_can_be_killed (g_threads s' a)"
      using erase_sel(6,7,15) [OF E] V(2) [OF w0] by (simp_all add: user_slot_def a)
    moreover have "t_state (g_threads s' t) = THREAD_UNUSED \<and> t_join_waiter (g_threads s' t) = -1" if "is_worker t" "t \<noteq> a" for t
      using erase_sel(2,15) [OF onlyD(3) [OF O that(2)]] V(2) [OF that(1)] by simp
    ultimately show ?thesis unfolding one_user_def using a by blast
  qed
  ultimately show ?thesis using run s' k a calm_still [OF calm] calm_cur [OF calm] by (simp add: V T)
qed

section \<open>The boot hart\<close>

definition dev_eq :: "kstate \<Rightarrow> kstate \<Rightarrow> bool" where
  "dev_eq s s' \<longleftrightarrow> core_eq s s' \<and> g_dtb s' = g_dtb s"

lemma dev_eq_trans: "dev_eq a b \<Longrightarrow> dev_eq b c \<Longrightarrow> dev_eq a c"
  using core_eq_trans by (auto simp: dev_eq_def)

lemma dev_puts: "dev_eq s (platform_puts str s)"
proof -
  have "g_dtb (fold (\<lambda>c s. uart_put_translated (of_char c) s) str s) = g_dtb s"
    by (induction str arbitrary: s) (simp_all add: uart_put_translated_def uart16550_putc_def emit_def)
  then show ?thesis using core_puts(1) by (simp add: dev_eq_def platform_puts_def uart16550_puts_def)
qed

lemma dev_plic: "dev_eq s (plic_ensure_base s)" "dev_eq s (w32 off v s)"
  by (auto simp: plic_ensure_base_def w32_def dev_eq_def core_eq_def split: option.splits)

lemma dev_init:
  "dev_eq s (uart16550_init s)" "dev_eq s (timer_init s)" "dev_eq s (platform_plic_init h s)"
  "dev_eq s (platform_irq_table_init s)" "dev_eq s (platform_register_irq_handler h irq f n s)" "dev_eq s (trap_init h s)"
proof -
  have r: "dev_eq s s" by (simp add: dev_eq_def)
  have p: "dev_eq s (uart16550_parse_dt_params s)" for s
    by (auto simp: uart16550_parse_dt_params_def dev_eq_def core_eq_def Let_def split: option.splits)
  have "dev_eq s (uart_ier_write v (uart16550_parse_dt_params (s\<lparr>uart_base := b, uart_irq := i\<rparr>)))" for v b i
  proof -
    have "dev_eq s (s\<lparr>uart_base := b, uart_irq := i\<rparr>)" by (simp add: dev_eq_def core_eq_def)
    moreover have "dev_eq x (uart_ier_write v x)" for x by (simp add: uart_ier_write_def emit_def dev_eq_def core_eq_def)
    ultimately show ?thesis using dev_eq_trans [OF dev_eq_trans [OF _ p]] by blast
  qed
  then show "dev_eq s (uart16550_init s)" using dev_puts by (auto simp: uart16550_init_def split: option.splits)
  show "dev_eq s (timer_init s)"
    using dev_puts dev_eq_trans [OF dev_puts dev_puts] r by (auto simp: timer_init_def Let_def case_prod_beta)
  show "dev_eq s (platform_plic_init h s)"
    using dev_plic(1) dev_eq_trans [OF dev_eq_trans [OF dev_plic(1) dev_plic(2)] dev_plic(2)]
    by (auto simp: platform_plic_init_def plic_init_s_mode_def Let_def)
  show "dev_eq s (platform_irq_table_init s)" by (simp add: platform_irq_table_init_def dev_eq_def core_eq_def)
  show "dev_eq s (trap_init h s)" by (simp add: trap_init_def dev_eq_def core_eq_def)
  have pr: "dev_eq s (plic_set_priority irq x s)" for x s
    using dev_plic(1) dev_eq_trans [OF dev_plic(1) dev_plic(2)] by (auto simp: plic_set_priority_def Let_def r dev_eq_def)
  have en: "dev_eq s (plic_enable_irq h irq s)" for s
    using dev_plic(1) dev_eq_trans [OF dev_plic(1) dev_plic(2)] by (auto simp: plic_enable_irq_def Let_def dev_eq_def)
  let ?u = "s\<lparr>s_irq_table := (s_irq_table s)(unat irq := Some f), s_irq_name := (s_irq_name s)(unat irq := Some n)\<rparr>"
  have "dev_eq s ?u" by (simp add: dev_eq_def core_eq_def)
  from dev_eq_trans [OF dev_eq_trans [OF this pr [where x = 1]] en] show "dev_eq s (platform_register_irq_handler h irq f n s)"
    by (simp add: platform_register_irq_handler_def r)
qed

lemma platform_up:
  assumes "dtb \<noteq> 0" "g_dtb s = 0"
  shows "\<exists>s1 s2. platform_init h dtb s = Inr s1 \<and> platform_boot_hart_init h s1 = Inr s2 \<and> core_eq s s2 \<and> g_dtb s2 = dtb"
proof -
  have d: "platform_set_dtb dtb s = Inr (s\<lparr>g_dtb := dtb\<rparr>)" "core_eq s (s\<lparr>g_dtb := dtb\<rparr>)"
    using assms by (simp_all add: platform_set_dtb_def core_eq_def)
  define s1 where "s1 = platform_irq_table_init (platform_plic_init h (timer_init (uart16550_init (s\<lparr>g_dtb := dtb\<rparr>))))"
  have e: "dev_eq (s\<lparr>g_dtb := dtb\<rparr>) s1"
    unfolding s1_def by (rule dev_eq_trans [OF dev_eq_trans [OF dev_eq_trans [OF dev_init(1) dev_init(2)] dev_init(3)] dev_init(4)])
  define s2 where "s2 = platform_register_irq_handler h (uart16550_get_irq s1) UART16550_IRQ_HANDLER ''uart0'' s1"
  have e2: "dev_eq s1 s2" unfolding s2_def by (rule dev_init)
  have "platform_init h dtb s = Inr s1" by (simp add: platform_init_def d s1_def)
  moreover have "platform_boot_hart_init h s1 = Inr s2" using e assms(1) by (simp add: platform_boot_hart_init_def dev_eq_def s2_def)
  moreover have "core_eq s s2" using core_eq_trans [OF d(2)] dev_eq_trans [OF e e2] by (simp add: dev_eq_def)
  moreover have "g_dtb s2 = dtb" using dev_eq_trans [OF e e2] by (simp add: dev_eq_def)
  ultimately show ?thesis by blast
qed

subsection \<open>Firmware calls and probes\<close>

lemma fold_events:
  assumes "\<And>x s. \<exists>e. f x s = s\<lparr>k_events := e\<rparr>"
  shows "\<exists>e. fold f xs s = s\<lparr>k_events := e\<rparr>"
proof (induction xs arbitrary: s)
  case Nil
  show ?case by (rule exI [of _ "k_events s"]) simp
next
  case (Cons x xs)
  obtain e where "f x s = s\<lparr>k_events := e\<rparr>" using assms by blast
  with Cons [of "s\<lparr>k_events := e\<rparr>"] show ?case by auto
qed

lemma banner_events: "\<exists>e. sbi_early_banner h dtb s = s\<lparr>k_events := e\<rparr>"
proof -
  have p: "\<exists>e. sbi_console_puts str s = s\<lparr>k_events := e\<rparr>" for str s
    unfolding sbi_console_puts_def by (rule fold_events) (auto simp: sbi_debug_console_write_byte_def emit_def)
  have h: "\<exists>e. sbi_put_hex64 v s = s\<lparr>k_events := e\<rparr>" for v s
    unfolding sbi_put_hex64_def by (rule fold_events) (auto simp: sbi_debug_console_write_byte_def emit_def)
  have b: "\<exists>e. fold sbi_debug_console_write_byte bs s = s\<lparr>k_events := e\<rparr>" for bs s
    by (rule fold_events) (auto simp: sbi_debug_console_write_byte_def emit_def)
  have d: "\<exists>e. sbi_put_dec v s = s\<lparr>k_events := e\<rparr>" for v s
    using b by (auto simp: sbi_put_dec_def sbi_debug_console_write_byte_def emit_def)
  define s1 where "s1 = sbi_console_puts ''kernel_main entry hart='' s"
  define s2 where "s2 = sbi_put_dec h s1"
  define s3 where "s3 = sbi_console_puts '' dtb_pa=0x'' s2"
  define s4 where "s4 = sbi_put_hex64 dtb s3"
  obtain e1 e2 e3 e4 e5 where "s1 = s\<lparr>k_events := e1\<rparr>" "s2 = s1\<lparr>k_events := e2\<rparr>" "s3 = s2\<lparr>k_events := e3\<rparr>"
    "s4 = s3\<lparr>k_events := e4\<rparr>" "sbi_console_puts ''\<newline>'' s4 = s4\<lparr>k_events := e5\<rparr>"
    using p h d unfolding s1_def s2_def s3_def s4_def by metis
  moreover have "sbi_early_banner h dtb s = sbi_console_puts ''\<newline>'' s4"
    unfolding sbi_early_banner_def s4_def s3_def s2_def s1_def ..
  ultimately have "sbi_early_banner h dtb s = s\<lparr>k_events := e5\<rparr>" by simp
  then show ?thesis by blast
qed

text \<open>The frame of an illegal instruction met in supervisor mode.\<close>

definition probe_frame :: "trapframe \<Rightarrow> bool" where
  "probe_frame f \<longleftrightarrow> \<not> scause_is_interrupt (tf_scause f) \<and> scause_code (tf_scause f) = EXC_ILLEGAL_INSTR
     \<and> tf_sstatus f AND SSTATUS_SPP \<noteq> 0"

lemma probe_insn_ok:
  assumes c: "c_cur_tf (g_cpus s h) = TF_PROBE" and f: "\<And>f. t = Some f \<Longrightarrow> probe_frame f"
  shows "\<exists>s'. probe_insn h t s = Inr s' \<and> dev_eq s s' \<and> trap_illegal_probe_hit s' = (t \<noteq> None)"
proof (cases t)
  case None
  then show ?thesis
    by (simp add: probe_insn_def trap_illegal_probe_enable_def trap_illegal_probe_clear_def trap_illegal_probe_disable_def
        trap_illegal_probe_hit_def dev_eq_def core_eq_def)
next
  case (Some g)
  then have g: "probe_frame g" using f by simp
  have "EXC_ILLEGAL_INSTR \<noteq> EXC_ENV_CALL_U" "EXC_ILLEGAL_INSTR \<noteq> EXC_BREAKPOINT"
    by (simp_all add: EXC_ILLEGAL_INSTR_def EXC_ENV_CALL_U_def EXC_BREAKPOINT_def)
  with g c Some show ?thesis
    by (simp add: probe_insn_def trap_illegal_probe_enable_def trap_illegal_probe_clear_def trap_illegal_probe_disable_def
        trap_illegal_probe_hit_def dev_eq_def core_eq_def trap_entry_c_def trap_exception_def Let_def probe_frame_def set_sepc_def)
qed

lemma dev_eq_tf: "dev_eq s s' \<Longrightarrow> c_cur_tf (g_cpus s' h) = c_cur_tf (g_cpus s h)"
  by (simp add: dev_eq_def core_eq_def)

lemma probe_ok:
  assumes f: "\<And>p f. traps p = Some f \<Longrightarrow> probe_frame f"
  shows "\<exists>s'. probe_privileged_isa h traps s = Inr s' \<and> dev_eq s s'"
proof -
  define s0 where "s0 = upd_cpu h (\<lambda>c. c\<lparr>c_cur_tf := TF_PROBE\<rparr>) s"
  have c0: "c_cur_tf (g_cpus s0 h) = TF_PROBE" by (simp add: s0_def)
  have step: "\<exists>s'. probe_insn h (traps p) s = Inr s' \<and> dev_eq s s'" if "c_cur_tf (g_cpus s h) = TF_PROBE" for p s
    using probe_insn_ok [of s h "traps p", OF that] f by blast
  obtain s1 where s1: "probe_insn h (traps SFENCE_VMA) s0 = Inr s1" "dev_eq s0 s1" using step [OF c0] by blast
  have c1: "c_cur_tf (g_cpus s1 h) = TF_PROBE" using dev_eq_tf [OF s1(2)] c0 by simp
  obtain s2 where s2: "probe_insn h (traps SFENCE_VM) s1 = Inr s2" "dev_eq s1 s2" using step [OF c1] by blast
  have c2: "c_cur_tf (g_cpus s2 h) = TF_PROBE" using dev_eq_tf [OF s2(2)] c1 by simp
  obtain s3 where s3: "probe_insn h (traps CSRR_SATP) s2 = Inr s3" "dev_eq s2 s3" using step [OF c2] by blast
  have c3: "c_cur_tf (g_cpus s3 h) = TF_PROBE" using dev_eq_tf [OF s3(2)] c2 by simp
  obtain s4 where s4: "(if \<not> trap_illegal_probe_hit s3 then probe_insn h (traps CSRW_SATP) s3 else Inr s3) = Inr s4" "dev_eq s3 s4"
    using step [OF c3, of CSRW_SATP] by (cases "trap_illegal_probe_hit s3") (auto simp: dev_eq_def)
  have c4: "c_cur_tf (g_cpus s4 h) = TF_PROBE" using dev_eq_tf [OF s4(2)] c3 by simp
  obtain s5 where s5: "probe_insn h (traps FENCE_I) s4 = Inr s5" "dev_eq s4 s5" using step [OF c4] by blast
  have e: "dev_eq s0 s5" using dev_eq_trans [OF dev_eq_trans [OF dev_eq_trans [OF dev_eq_trans [OF s1(2) s2(2)] s3(2)] s4(2)] s5(2)] .
  have "probe_privileged_isa h traps s = Inr (probe_exit h (c_cur_tf (g_cpus s h)) s5)"
    unfolding probe_privileged_isa_def probe_enter_def Let_def prod.case s0_def [symmetric] s1 bindE_simps s2 s3 s4 s5 ..
  moreover have "dev_eq s (probe_exit h (c_cur_tf (g_cpus s h)) s5)"
    using e by (auto simp: probe_exit_def s0_def dev_eq_def core_eq_def upd_cpu_def)
  ultimately show ?thesis by blast
qed

text \<open>The wait for a started hart ends when it is seen online or when the deadline has passed.\<close>

lemma start_wait_ends:
  assumes "p \<in> set ps" "hp_online p \<or> \<not> hp_now p - start < timeout"
  shows "\<exists>r. start_wait_loop start timeout ps l f = Some r"
  using assms by (induction ps arbitrary: l f) (auto simp: Let_def)

lemma start_harts_ok:
  assumes "\<And>k. k \<in> set ks \<Longrightarrow> k \<noteq> g_boot_hartid s \<Longrightarrow>
      \<exists>p\<in>set (be_polls env k). hp_online p \<or> \<not> hp_now p - be_start env k < timeout"
  shows "start_harts env timeout dtb ks s = Inr (s\<lparr>k_events := k_events s @
    map (\<lambda>k. EvHartStart k dtb) (List.filter (\<lambda>k. k \<noteq> g_boot_hartid s) ks)\<rparr>)"
  using assms
proof (induction ks arbitrary: s)
  case (Cons k ks)
  show ?case
  proof (cases "k = g_boot_hartid s")
    case True
    then show ?thesis using Cons by simp
  next
    case False
    obtain r where "start_wait_loop (be_start env k) timeout (be_polls env k) (-1) (-1) = Some r"
      using Cons.prems [of k] False start_wait_ends [of _ "be_polls env k"] by (metis list.set_intros(1))
    then show ?thesis using Cons.IH [of "emit (EvHartStart k dtb) s"] Cons.prems False by (simp add: emit_def)
  qed
qed simp

text \<open>The firmware and the clock behave: an illegal probe traps as such, and each started hart is polled
  until it is online or \<open>2 ^ 29\<close> ticks, more than the longest time-out, have passed.\<close>

definition env_ok :: "nat \<Rightarrow> boot_env \<Rightarrow> bool" where
  "env_ok h env \<longleftrightarrow> (\<forall>p f. be_traps env p = Some f \<longrightarrow> probe_frame f)
     \<and> (\<forall>k<MAX_HARTS. k \<noteq> h \<longrightarrow> (\<exists>p\<in>set (be_polls env k). hp_online p \<or> 2 ^ 29 \<le> hp_now p - be_start env k))"

lemma start_timeout_bound: "fst (platform_sched_delta_ticks s) * 100 \<le> (2 ^ 29 :: u64)"
proof -
  obtain hz where hz: "fst (platform_timebase_hz s) = hz" by blast
  have "unat (hz div 1000) \<le> 4294967" using unat_lt [of hz] by (simp add: unat_div)
  then have u: "unat (ucast (hz div 1000) :: u64) \<le> 4294967" by (simp add: unsigned_ucast_eq)
  have d: "fst (platform_sched_delta_ticks s) \<in> {1, ucast (hz div 1000)}"
    using hz by (simp add: platform_sched_delta_ticks_def Let_def case_prod_beta)
  have "unat (fst (platform_sched_delta_ticks s)) \<le> 4294967" using d u by (elim insertE) auto
  then have "unat (fst (platform_sched_delta_ticks s) * 100) \<le> 429496700"
    by (simp add: unat_word_ariths(2))
  then show ?thesis by (simp add: word_le_nat_alt)
qed

lemma start_other_ok:
  assumes "env_ok h env" "g_boot_hartid s = h" "h < MAX_HARTS"
  shows "\<exists>s'. start_other_harts env dtb s = Inr s' \<and> dev_eq s s'
    \<and> k_events s' = k_events s @ map (\<lambda>k. EvHartStart k dtb) (List.filter (\<lambda>k. k \<noteq> h) [0..<MAX_HARTS])"
proof -
  define d where "d = fst (platform_sched_delta_ticks s)"
  define s1 where "s1 = snd (platform_sched_delta_ticks s)"
  have b: "g_boot_hartid s1 = h" "k_events s1 = k_events s" "dev_eq s s1"
    using assms(2) by (simp_all add: s1_def sched_delta_frame dev_eq_def core_eq_def)
  have "start_harts env (d * 100) dtb [0..<MAX_HARTS] s1 = Inr (s1\<lparr>k_events := k_events s1 @
    map (\<lambda>k. EvHartStart k dtb) (List.filter (\<lambda>k. k \<noteq> g_boot_hartid s1) [0..<MAX_HARTS])\<rparr>)"
  proof (rule start_harts_ok)
    fix k assume "k \<in> set [0..<MAX_HARTS]" "k \<noteq> g_boot_hartid s1"
    with assms(1) b obtain p where "p \<in> set (be_polls env k)" "hp_online p \<or> 2 ^ 29 \<le> hp_now p - be_start env k"
      by (auto simp: env_ok_def)
    then show "\<exists>p\<in>set (be_polls env k). hp_online p \<or> \<not> hp_now p - be_start env k < d * 100"
      using start_timeout_bound [of s, folded d_def] by (meson leD order.trans)
  qed
  moreover have "g_boot_hartid s \<noteq> NO_BOOT_HART" using assms by (simp add: NO_BOOT_HART_def MAX_HARTS_def)
  ultimately have r: "start_other_harts env dtb s = Inr (s1\<lparr>k_events := k_events s @
    map (\<lambda>k. EvHartStart k dtb) (List.filter (\<lambda>k. k \<noteq> h) [0..<MAX_HARTS])\<rparr>)"
    by (simp add: start_other_harts_def case_prod_beta d_def s1_def [symmetric] b)
  show ?thesis unfolding r using b(3) by (simp add: dev_eq_def core_eq_def)
qed

text \<open>A machine before any hart has entered the kernel.\<close>

definition cold :: "kstate \<Rightarrow> bool" where
  "cold s \<longleftrightarrow> g_boot_hartid s = NO_BOOT_HART \<and> g_dtb s = 0 \<and> (\<forall>k. \<not> live s k)"

lemma banner_view:
  "core_eq s (sbi_early_banner h dtb s)" "g_dtb (sbi_early_banner h dtb s) = g_dtb s"
  "smp_boot_done (sbi_early_banner h dtb s) = smp_boot_done s"
  using banner_events [of h dtb s] by (auto simp: core_eq_def)

lemma cold_boot:
  assumes C: "cold s" and H: "h < MAX_HARTS" and d: "dtb \<noteq> 0" and env: "env_ok h env"
  shows "\<exists>s'. kernel_main h dtb env s = Inr s' \<and> kok s' \<and> running s' h (TF_THREAD (int h))
    \<and> (\<forall>k. live s' k \<longleftrightarrow> k = h) \<and> rq_list s' = (\<lambda>_. [])(h := [int MAX_HARTS]) \<and> one_user s'
    \<and> fresh_context (be_user_main env) 0 (t_tf (g_threads s' (int MAX_HARTS)))"
proof -
  define s0 where "s0 = sbi_early_banner (of_nat h) dtb s"
  note b0 = banner_view [where s = s and h = "of_nat h" and dtb = dtb, folded s0_def]
  have C0: "cold s0" using C b0 core_eqD(3) [OF b0(1)] by (simp add: cold_def core_eq_def)
  obtain s1 where s1: "cpu_init_this_hart h s0 = Inr s1" using H by (simp add: cpu_init_this_hart_def Let_def)
  note S = cpu_init_sel [OF H s1]
  have lv1: "live s1 k \<longleftrightarrow> k = h" for k
    using C0 S(5,8) H by (cases "k = h") (simp_all add: live_def cold_def)
  define s2 where "s2 = s1\<lparr>g_boot_hartid := h\<rparr>"
  have d2: "g_dtb s2 = 0" using C0 by (simp add: s2_def S cold_def)
  obtain s3 s4 where s3: "platform_init h dtb s2 = Inr s3" "platform_boot_hart_init h s3 = Inr s4" "core_eq s2 s4"
    using platform_up [OF d d2] by blast
  define s5 where "s5 = trap_init h (platform_puts ''Booting...\<newline>'' s4)"
  have c5: "core_eq s2 s5"
    unfolding s5_def
    by (rule core_eq_trans [OF core_eq_trans [OF s3(3) core_puts(1)] dev_init(6) [unfolded dev_eq_def, THEN conjunct1]])
  define s6 where "s6 = console_init (trap_install_bootstrap_tf h s5)"
  obtain p6 where p6: "probe_privileged_isa h (be_traps env) s6 = Inr p6" "dev_eq s6 p6"
    using probe_ok [of "be_traps env"] env unfolding env_ok_def by blast
  define s7 where "s7 = time_init p6"
  have "core_eq x (time_init x)" for x
    using rtc_core [of x] by (simp add: time_init_def case_prod_beta core_eq_def)
  then have c7: "core_eq s6 s7" using core_eq_trans p6(2) by (auto simp: s7_def dev_eq_def)
  have g5: "g_cpus s5 = g_cpus s1" "g_boot_hartid s5 = h" using c5 by (simp_all add: core_eq_def s2_def)
  have lv6: "live s6 = live s1" "cur s6 = cur s1" "g_boot_hartid s6 = h" "g_stdin_waiter s6 = -1"
    "c_hartid (g_cpus s6 h) = h" "c_idle_tid (g_cpus s6 h) = int h" "rx_ok s6"
    by (auto simp: s6_def console_init_def trap_install_bootstrap_tf_def live_def cur_def fun_eq_iff g5 S rx_ok_def RB_def)
  note E7 = core_eqD [OF c7]
  have "fresh_harts h s7"
    using lv1 lv6 S(9) c7 by (simp add: fresh_harts_def E7) (simp add: core_eq_def)
  from threads_init_ok [OF this H, of "be_user_main env"] obtain s8 where
    s8: "threads_init h (be_user_main env) s7 = Inr s8" "kinv s8"
    "still s8 = still s7" "cur s8 = cur s7" "g_boot_hartid s8 = g_boot_hartid s7" "rq_list s8 = (\<lambda>_. [])(h := [int MAX_HARTS])"
    "one_user s8" "fresh_context (be_user_main env) 0 (t_tf (g_threads s8 (int MAX_HARTS)))" by blast
  define s9 where "s9 = set_smp_boot_done s8"
  have c9: "core_eq s8 s9" by (simp add: s9_def set_smp_boot_done_def core_eq_def)
  have "g_boot_hartid s9 = h" using c9 c7 lv6 s8(5) by (simp add: core_eq_def)
  from start_other_ok [OF env this H] obtain sA where sA: "start_other_harts env dtb s9 = Inr sA" "dev_eq s9 sA" by blast
  have "core_eq s8 sA" using core_eq_trans [OF c9] sA(2) by (simp add: dev_eq_def)
  note E9 = core_eqD [OF this]
  have K9: "kok sA" using s8(2) still_rx_ok [OF s8(3)] E7 lv6(7) by (simp add: E9 kok_def)
  have L9: "live sA = live s1" "cur sA h = -1" using still_live [OF s8(3)] E7 lv6 s8(4) S(9) by (simp_all add: E9)
  obtain s' where s': "cpu_enter_idle h h sA = Inr s'" "kok s'" "live s' = live sA" "rq_list s' = rq_list sA"
    "running s' h (TF_THREAD (int h))" "\<forall>i. i \<noteq> int h \<longrightarrow> g_threads s' i = g_threads sA i"
    using enter_idle_ok [OF K9 _ L9(2)] lv1 by (auto simp: L9)
  have th: "g_threads s' i = g_threads s8 i" if "is_worker i" for i
    using s'(6) that E9(5) idle_not_worker [OF H] by metis
  have "one_user s'" using s8(7) one_user_cong [of s' s8] th by simp
  moreover have "fresh_context (be_user_main env) 0 (t_tf (g_threads s' (int MAX_HARTS)))"
    using s8(8) th [of "int MAX_HARTS"] MAX_HARTS_less by (simp add: is_worker_def)
  moreover have "rq_list sA = rq_list s8" using E9(4) by (simp add: sched_abs_def)
  moreover have "primary_main h dtb env s2 = Inr s'"
    unfolding primary_main_def s3 bindE_simps Let_def s5_def [symmetric] s6_def [symmetric] p6 s7_def [symmetric] s8(1)
      s9_def [symmetric] sA(1) by (rule s'(1))
  then have "kernel_main h dtb env s = Inr s'"
    using s1 C0 S(3) by (simp add: kernel_main_def s0_def [symmetric] s2_def [symmetric] cold_def)
  ultimately show ?thesis using s' s8(6) lv1 by (simp add: L9)
qed

section \<open>A secondary hart\<close>

lemma secondary_boot:
  assumes K: "kok s" and k: "k < MAX_HARTS" "\<not> c_online (g_cpus s k)" and d: "g_dtb s \<noteq> 0" "smp_boot_done s"
  shows "\<exists>s'. kernel_main k dtb env s = Inr s' \<and> kok s' \<and> running s' k (TF_THREAD (int k))
    \<and> live s' = (live s)(k := True) \<and> rq_list s' = rq_list s"
proof -
  define s0 where "s0 = sbi_early_banner (of_nat k) dtb s"
  note b0 = banner_view [where s = s and h = "of_nat k" and dtb = dtb, folded s0_def]
  note C0 = core_eqD [OF b0(1)]
  have k0: "\<not> c_online (g_cpus s0 k)" using k(2) by (simp add: C0)
  obtain s1 where s1: "cpu_init_this_hart k s0 = Inr s1" using k(1) by (simp add: cpu_init_this_hart_def Let_def)
  note S = cpu_init_sel [OF k(1) s1]
  have K0: "kok s0" using K by (simp add: C0)
  then have I: "kinv s0" by (simp add: kok_def)
  note O = online_kinv [OF I k(1) k0 s1]
  have K1: "kok s1" using O(1) K0 S by (simp add: kok_def rx_ok_def)
  have "g_boot_hartid s1 < MAX_HARTS" using common_boot [OF kinv_common [OF O(1)]] .
  then have nb: "g_boot_hartid s1 \<noteq> NO_BOOT_HART" by (simp add: NO_BOOT_HART_def MAX_HARTS_def)
  define s2 where "s2 = trap_init k (platform_plic_init k s1)"
  have "core_eq s1 s2" unfolding s2_def using dev_eq_trans [OF dev_init(3) dev_init(6)] by (simp add: dev_eq_def)
  note E = core_eqD [OF this]
  have "kok s2" "live s2 k" "cur s2 k = -1" using K1 O(2) S(9) by (simp_all add: E)
  from enter_idle_ok [OF this] obtain s' where s': "cpu_enter_idle k k s2 = Inr s'" "kok s'" "live s' = live s2"
    "rq_list s' = rq_list s2" "running s' k (TF_THREAD (int k))" by blast
  have "secondary_main k s1 = Inr s'"
    using s'(1) d(1) S(12) b0(2) by (simp add: secondary_main_def platform_secondary_hart_init_def s2_def)
  then have "kernel_main k dtb env s = Inr s'"
    using s1 nb d(2) S(13) b0(3) by (simp add: kernel_main_def s0_def [symmetric] wait_for_smp_boot_done_def)
  moreover have "rq_list s2 = rq_list s" using E(4) O(3) C0(4) by (simp add: sched_abs_def)
  ultimately show ?thesis using s' O(2) by (simp add: E C0)
qed

end
