(* ===== verification/Transition.thy ===== *)
theory Transition
  imports Main
begin

text \<open>
  State machines: the states a machine can reach, and the interface an invariant has to meet.
  The kernel lock and the kernel itself are instances.
\<close>

inductive reachable :: "('s \<Rightarrow> bool) \<Rightarrow> ('s \<Rightarrow> 's \<Rightarrow> bool) \<Rightarrow> 's \<Rightarrow> bool"
  for init :: "'s \<Rightarrow> bool" and step :: "'s \<Rightarrow> 's \<Rightarrow> bool"
where
  reach_init: "init s \<Longrightarrow> reachable init step s"
| reach_step: "reachable init step s \<Longrightarrow> step s s' \<Longrightarrow> reachable init step s'"

locale invariant_system =
  fixes init :: "'s \<Rightarrow> bool" and step :: "'s \<Rightarrow> 's \<Rightarrow> bool" and inv :: "'s \<Rightarrow> bool"
  assumes init_inv: "init s \<Longrightarrow> inv s"
    and step_inv: "inv s \<Longrightarrow> step s s' \<Longrightarrow> inv s'"
begin

lemma reachable_inv: "reachable init step s \<Longrightarrow> inv s"
  by (induction rule: reachable.induct) (auto intro: init_inv step_inv)

lemma steps_inv: "step\<^sup>*\<^sup>* s s' \<Longrightarrow> inv s \<Longrightarrow> inv s'"
  by (induction rule: rtranclp_induct) (auto intro: step_inv)

lemma reachable_steps: "step\<^sup>*\<^sup>* s s' \<Longrightarrow> reachable init step s \<Longrightarrow> reachable init step s'"
  by (induction rule: rtranclp_induct) (auto intro: reach_step)

end

text \<open>A machine in which something can always happen.\<close>

locale live_system = invariant_system init step inv
  for init :: "'s \<Rightarrow> bool" and step :: "'s \<Rightarrow> 's \<Rightarrow> bool" and inv :: "'s \<Rightarrow> bool" +
  fixes busy :: "'s \<Rightarrow> bool" and advance :: "'s \<Rightarrow> 's \<Rightarrow> bool"
  assumes advance_step: "advance s s' \<Longrightarrow> step s s'"
    and can_advance: "inv s \<Longrightarrow> busy s \<Longrightarrow> \<exists>s'. advance s s'"
begin

lemma not_stuck: "reachable init step s \<Longrightarrow> busy s \<Longrightarrow> \<exists>s'. advance s s' \<and> reachable init step s'"
  using can_advance [OF reachable_inv] advance_step reach_step by meson

end

end
