(* ===== verification/Spinlock.thy ===== *)
theory Spinlock
  imports Thread Transition
begin

text \<open>
  The lock that serialises traps: \<open>spin_lock_irqsave\<close> and \<open>spin_unlock_irqrestore\<close> of
  \<open>kernel/include/spinlock.h\<close>, as \<open>kernel_lock\<close> and \<open>kernel_unlock\<close> use them on \<open>g_kernel_lock\<close>. Every atomic
  instruction is a step of one hart, and the steps of the harts interleave in any order. At most one hart
  is between \<open>kernel_lock\<close> and \<open>kernel_unlock\<close>, its interrupts stay disabled, and it leaves with the
  interrupt state it came with.
\<close>

section \<open>The lock and the harts\<close>

text \<open>Where a hart is: outside; about to clear \<open>SIE\<close> after reading \<open>sstatus\<close>; in the loop of \<open>spin_lock\<close>;
  in the critical section; between the two statements of \<open>spin_unlock_irqrestore\<close>. The argument
  is the value of the local variable \<open>sstatus\<close>.\<close>

datatype lock_pc = Outside | Saved u64 | Spinning u64 | Holding u64 | Restoring u64

record lock_state =
  lk_locked :: u32
  lk_pc :: "nat \<Rightarrow> lock_pc"
  lk_sstatus :: "nat \<Rightarrow> u64"

definition spinlock_init :: "lock_state \<Rightarrow> lock_state" where
  "spinlock_init s = s\<lparr>lk_locked := 0\<rparr>"

text \<open>\<open>amoswap.w\<close>: the old value and the new memory.\<close>

definition amoswap :: "u32 \<Rightarrow> lock_state \<Rightarrow> u32 \<times> lock_state" where
  "amoswap v s = (lk_locked s, s\<lparr>lk_locked := v\<rparr>)"

definition goto :: "nat \<Rightarrow> lock_pc \<Rightarrow> lock_state \<Rightarrow> lock_state" where
  "goto h pc s = s\<lparr>lk_pc := (lk_pc s)(h := pc)\<rparr>"

definition csr_write_sstatus :: "nat \<Rightarrow> u64 \<Rightarrow> lock_state \<Rightarrow> lock_state" where
  "csr_write_sstatus h v s = s\<lparr>lk_sstatus := (lk_sstatus s)(h := v)\<rparr>"

text \<open>The next instruction of hart \<open>h\<close>; outside it enters \<open>kernel_lock\<close>, in the critical section it enters
  \<open>kernel_unlock\<close>.\<close>

definition lock_op :: "nat \<Rightarrow> lock_state \<Rightarrow> lock_state" where
  "lock_op h s =
     (case lk_pc s h of
        Outside \<Rightarrow> goto h (Saved (lk_sstatus s h)) s
      | Saved v \<Rightarrow> goto h (Spinning v) (csr_write_sstatus h (lk_sstatus s h AND NOT SSTATUS_SIE) s)
      | Spinning v \<Rightarrow> (let (tmp, s1) = amoswap 1 s in if tmp \<noteq> 0 then s1 else goto h (Holding v) s1)
      | Holding v \<Rightarrow> goto h (Restoring v) (snd (amoswap 0 s))
      | Restoring v \<Rightarrow> goto h Outside (csr_write_sstatus h v s))"

text \<open>Between kernel entries a hart may change its own status register.\<close>

inductive lock_step :: "lock_state \<Rightarrow> lock_state \<Rightarrow> bool" where
  lock_instr: "h < MAX_HARTS \<Longrightarrow> lock_step s (lock_op h s)"
| lock_outside: "lk_pc s h = Outside \<Longrightarrow> lock_step s (csr_write_sstatus h v s)"

inductive_cases lock_stepE: "lock_step s s'"

definition lock_start :: "lock_state \<Rightarrow> bool" where
  "lock_start s \<longleftrightarrow> (\<exists>s0. s = spinlock_init s0) \<and> (\<forall>h. lk_pc s h = Outside)"

section \<open>The invariant\<close>

definition holds :: "lock_state \<Rightarrow> nat \<Rightarrow> bool" where
  "holds s h \<longleftrightarrow> (\<exists>v. lk_pc s h = Holding v)"

definition masked :: "lock_state \<Rightarrow> nat \<Rightarrow> bool" where
  "masked s h \<longleftrightarrow> lk_sstatus s h AND SSTATUS_SIE = 0"

definition entry_sstatus :: "lock_pc \<Rightarrow> u64 option" where
  "entry_sstatus pc = (case pc of Outside \<Rightarrow> None | Saved v \<Rightarrow> Some v | Spinning v \<Rightarrow> Some v | Holding v \<Rightarrow> Some v
     | Restoring v \<Rightarrow> Some v)"

definition lock_inv :: "lock_state \<Rightarrow> bool" where
  "lock_inv s \<longleftrightarrow> lk_locked s \<in> {0, 1} \<and> (lk_locked s = 1 \<longleftrightarrow> (\<exists>h. holds s h))
     \<and> (\<forall>h k. holds s h \<longrightarrow> holds s k \<longrightarrow> h = k)
     \<and> (\<forall>h. holds s h \<longrightarrow> h < MAX_HARTS)
     \<and> (\<forall>h v. lk_pc s h \<in> {Spinning v, Holding v, Restoring v} \<longrightarrow> masked s h)"

lemma lock_op_other: "k \<noteq> h \<Longrightarrow> lk_pc (lock_op h s) k = lk_pc s k \<and> lk_sstatus (lock_op h s) k = lk_sstatus s k"
  by (auto simp: lock_op_def goto_def csr_write_sstatus_def amoswap_def Let_def split: lock_pc.split)

lemma lock_op_own: "lk_pc (lock_op h s) h = (case lk_pc s h of
    Outside \<Rightarrow> Saved (lk_sstatus s h) | Saved v \<Rightarrow> Spinning v
  | Spinning v \<Rightarrow> if lk_locked s = 0 then Holding v else Spinning v
  | Holding v \<Rightarrow> Restoring v | Restoring v \<Rightarrow> Outside)"
  by (simp add: lock_op_def goto_def csr_write_sstatus_def amoswap_def Let_def split: lock_pc.split)

lemma lock_op_status: "lk_sstatus (lock_op h s) h = (case lk_pc s h of
    Saved v \<Rightarrow> lk_sstatus s h AND NOT SSTATUS_SIE | Restoring v \<Rightarrow> v | _ \<Rightarrow> lk_sstatus s h)"
  by (simp add: lock_op_def goto_def csr_write_sstatus_def amoswap_def Let_def split: lock_pc.split)

lemma lock_op_locked: "lk_locked (lock_op h s) = (case lk_pc s h of
    Spinning v \<Rightarrow> 1 | Holding v \<Rightarrow> 0 | _ \<Rightarrow> lk_locked s)"
  by (simp add: lock_op_def goto_def csr_write_sstatus_def amoswap_def Let_def split: lock_pc.split)

lemmas lock_op_view = lock_op_own lock_op_status lock_op_locked

lemma masked_clear: "(x AND NOT SSTATUS_SIE) AND SSTATUS_SIE = 0"
  by (simp add: and.assoc)

lemma lock_op_inv:
  assumes I: "lock_inv s" and h: "h < MAX_HARTS"
  shows "lock_inv (lock_op h s)"
proof -
  have o: "holds (lock_op h s) k = holds s k" "masked (lock_op h s) k = masked s k" if "k \<noteq> h" for k
    using lock_op_other [OF that, of s] by (simp_all add: holds_def masked_def)
  have m: "lk_pc (lock_op h s) k \<in> {Spinning v, Holding v, Restoring v} \<Longrightarrow> masked (lock_op h s) k" for k v
  proof (cases "k = h")
    case False
    then show "lk_pc (lock_op h s) k \<in> {Spinning v, Holding v, Restoring v} \<Longrightarrow> masked (lock_op h s) k"
      using I o [OF False] lock_op_other [OF False, of s] unfolding lock_inv_def by metis
  next
    case True
    then show "lk_pc (lock_op h s) k \<in> {Spinning v, Holding v, Restoring v} \<Longrightarrow> masked (lock_op h s) k"
      using I masked_clear
      by (auto simp: lock_inv_def masked_def lock_op_view split: lock_pc.splits if_splits)
  qed
  have same: "holds (lock_op h s) k = holds s k" if "lk_pc s h \<in> {Outside} \<union> range Saved \<union> range Restoring" for k
    using o [of k] that by (cases "k = h") (auto simp: holds_def lock_op_own)
  show ?thesis
  proof (cases "lk_pc s h")
    case (Spinning v)
    show ?thesis
    proof (cases "lk_locked s = 0")
      case True
      then have "\<not> holds s k" for k using I by (auto simp: lock_inv_def)
      then have "holds (lock_op h s) k \<longleftrightarrow> k = h" for k
        using o [of k] Spinning True by (cases "k = h") (auto simp: holds_def lock_op_own)
      then show ?thesis unfolding lock_inv_def using m h Spinning by (auto simp: lock_op_locked)
    next
      case False
      then have "holds (lock_op h s) k = holds s k" for k
        using o [of k] Spinning by (cases "k = h") (auto simp: holds_def lock_op_own)
      then show ?thesis unfolding lock_inv_def using m I False Spinning by (auto simp: lock_op_locked lock_inv_def)
    qed
  next
    case (Holding v)
    then have "holds s k \<longleftrightarrow> k = h" for k using I by (auto simp: lock_inv_def holds_def)
    then have "\<not> holds (lock_op h s) k" for k
      using o [of k] Holding by (cases "k = h") (auto simp: holds_def lock_op_own)
    then show ?thesis unfolding lock_inv_def using m Holding by (auto simp: lock_op_locked)
  qed (use same m I in \<open>(simp add: lock_inv_def lock_op_locked, blast?)+\<close>)
qed

lemma lock_outside_inv:
  assumes "lock_inv s" "lk_pc s h = Outside"
  shows "lock_inv (csr_write_sstatus h v s)"
  using assms by (auto simp: lock_inv_def csr_write_sstatus_def holds_def masked_def)

interpretation lock: invariant_system lock_start lock_step lock_inv
proof
  show "lock_inv s" if "lock_start s" for s
    using that by (auto simp: lock_start_def lock_inv_def holds_def spinlock_init_def)
  show "lock_inv s'" if "lock_inv s" "lock_step s s'" for s s'
    using that(2,1) by cases (auto intro: lock_op_inv lock_outside_inv)
qed

text \<open>A hart is inside the section from taking the lock to giving it back.\<close>

definition contending :: "lock_state \<Rightarrow> bool" where
  "contending s \<longleftrightarrow> (\<exists>h<MAX_HARTS. \<exists>v. lk_pc s h = Spinning v)"

text \<open>Progress: with a hart at the lock, some hart's next instruction takes it or gives it back.\<close>

definition hands_over :: "lock_state \<Rightarrow> lock_state \<Rightarrow> bool" where
  "hands_over s s' \<longleftrightarrow> (\<exists>h<MAX_HARTS. s' = lock_op h s \<and> holds s h \<noteq> holds s' h)"

lemma hands_over_ex:
  assumes I: "lock_inv s" and c: "contending s"
  shows "\<exists>s'. hands_over s s'"
proof (cases "lk_locked s = 0")
  case True
  from c obtain h v where "h < MAX_HARTS" "lk_pc s h = Spinning v" by (auto simp: contending_def)
  with True have "hands_over s (lock_op h s)"
    unfolding hands_over_def by (intro exI [of _ h]) (auto simp: holds_def lock_op_own)
  then show ?thesis ..
next
  case False
  then obtain h where h: "holds s h" "h < MAX_HARTS" using I by (auto simp: lock_inv_def)
  then have "hands_over s (lock_op h s)"
    unfolding hands_over_def by (intro exI [of _ h]) (auto simp: holds_def lock_op_own)
  then show ?thesis ..
qed

interpretation lock: live_system lock_start lock_step lock_inv contending hands_over
proof
  show "lock_step s s'" if "hands_over s s'" for s s'
    using that by (auto simp: hands_over_def intro: lock_instr)
qed (rule hands_over_ex)

section \<open>What the lock guarantees\<close>

definition lock0 :: lock_state where
  "lock0 = \<lparr>lk_locked = 0, lk_pc = (\<lambda>_. Outside), lk_sstatus = (\<lambda>_. 2)\<rparr>"

lemma lock0_reachable: "reachable lock_start lock_step lock0"
proof (rule reach_init)
  have "lock0 = spinlock_init lock0" by (simp add: lock0_def spinlock_init_def)
  then show "lock_start lock0" unfolding lock_start_def by (auto simp: lock0_def)
qed

lemma run_reachable:
  "reachable lock_start lock_step s \<Longrightarrow> \<forall>h\<in>set hs. h < MAX_HARTS \<Longrightarrow> reachable lock_start lock_step (fold lock_op hs s)"
  by (induction hs arbitrary: s) (auto intro: reach_step lock_instr)

text \<open>Outside the section the hart has status \<open>v\<close>; inside it has saved \<open>v\<close>.\<close>

definition carries :: "u64 \<Rightarrow> nat \<Rightarrow> lock_state \<Rightarrow> bool" where
  "carries v h s \<longleftrightarrow> (case entry_sstatus (lk_pc s h) of None \<Rightarrow> lk_sstatus s h = v | Some w \<Rightarrow> w = v)"

lemma carries_step: "carries v h s \<Longrightarrow> carries v h (lock_op k s)"
  by (cases "k = h") (auto simp: carries_def entry_sstatus_def lock_op_view lock_op_other split: lock_pc.splits if_splits)

lemma carries_run: "carries v h s \<Longrightarrow> carries v h (fold lock_op ks s)"
  by (induction ks arbitrary: s) (auto intro: carries_step)

text \<open>C22: the kernel lock, in every interleaving of the harts' instructions: at most one hart is between \<open>kernel_lock\<close> and
  \<open>kernel_unlock\<close>, the lock word is 1 exactly while there is one, and that hart's interrupts are masked; whatever the other harts
  do, a hart carries the \<open>sstatus\<close> it entered \<open>kernel_lock\<close> with and writes it back when it leaves \<open>kernel_unlock\<close>; and whenever a
  hart waits for the lock, some hart's next instruction takes it or gives it back.\<close>

theorem kernel_lock_correct:
  assumes "reachable lock_start lock_step s"
  shows "(\<forall>h k. holds s h \<longrightarrow> holds s k \<longrightarrow> h = k) \<and> (lk_locked s = 1 \<longleftrightarrow> (\<exists>h. holds s h)) \<and> (\<forall>h. holds s h \<longrightarrow> masked s h)
    \<and> (\<forall>h ks. lk_pc s h = Outside \<longrightarrow> carries (lk_sstatus s h) h (fold lock_op ks s))
    \<and> (contending s \<longrightarrow> (\<exists>h<MAX_HARTS. holds s h \<noteq> holds (lock_op h s) h))"
proof (intro conjI)
  note I = lock.reachable_inv [OF assms]
  show "\<forall>h k. holds s h \<longrightarrow> holds s k \<longrightarrow> h = k" "lk_locked s = 1 \<longleftrightarrow> (\<exists>h. holds s h)" "\<forall>h. holds s h \<longrightarrow> masked s h"
    using I by (auto simp: lock_inv_def holds_def)
  show "\<forall>h ks. lk_pc s h = Outside \<longrightarrow> carries (lk_sstatus s h) h (fold lock_op ks s)"
    by (intro allI impI carries_run) (simp add: carries_def entry_sstatus_def)
  show "contending s \<longrightarrow> (\<exists>h<MAX_HARTS. holds s h \<noteq> holds (lock_op h s) h)"
    using lock.not_stuck [OF assms] by (auto simp: hands_over_def)
qed

text \<open>Hart 0 takes the lock, hart 1 tries twice and waits; hart 0 leaves with the status it came with.\<close>

theorem kernel_lock_correct_witness:
  "(let s = fold lock_op [0, 1, 0, 1, 0, 1, 1] lock0
    in lk_locked s = 1 \<and> \<not> holds s 1 \<and> (\<exists>h<MAX_HARTS. holds s h \<noteq> holds (lock_op h s) h))
    \<and> lk_sstatus (fold lock_op [0, 1, 0, 0, 1, 0, 0] lock0) 0 = 2"
proof -
  define s t where "s = fold lock_op [0, 1, 0, 1, 0, 1, 1] lock0" and "t = fold lock_op [0, 1, 0, 0, 1, 0, 0] lock0"
  have r: "reachable lock_start lock_step s" unfolding s_def by (rule run_reachable [OF lock0_reachable]) (simp add: MAX_HARTS_def)
  have h: "holds s 0"
    by (simp add: s_def holds_def lock_op_def lock0_def goto_def csr_write_sstatus_def amoswap_def)
  have c: "contending s"
    unfolding contending_def
    by (rule exI [of _ 1]) (simp add: s_def MAX_HARTS_def lock_op_def lock0_def goto_def csr_write_sstatus_def amoswap_def)
  have "lk_locked s = 1" "\<not> holds s 1" "\<exists>h<MAX_HARTS. holds s h \<noteq> holds (lock_op h s) h"
    using kernel_lock_correct [OF r] h c by auto
  moreover have "lk_sstatus t 0 = 2"
  proof -
    have o: "lk_pc lock0 0 = Outside" "lk_sstatus lock0 0 = 2" by (simp_all add: lock0_def)
    have "lk_pc t 0 = Outside" by (simp add: t_def lock_op_def lock0_def goto_def csr_write_sstatus_def amoswap_def)
    moreover have "carries 2 0 t" unfolding t_def using kernel_lock_correct [OF lock0_reachable] o by metis
    ultimately show ?thesis by (simp add: carries_def entry_sstatus_def)
  qed
  ultimately show ?thesis unfolding Let_def s_def [symmetric] t_def [symmetric] by blast
qed

end
