(* ===== verification/Machine.thy ===== *)
theory Machine
  imports Boot Spinlock
begin

text \<open>
  The kernel as a state machine. Because \<open>trap_entry_c\<close> runs under the kernel lock (theory \<open>Spinlock\<close>), one
  trap is one step. Before a trap the interrupted code may have left any values in the trapframe;
  between traps devices and user code may change everything outside the kernel's tables; and a hart that
  is not online may come up. Every reachable state satisfies the kernel invariant, and no trap that
  meets its precondition gets stuck or panics.
\<close>

section \<open>Steps\<close>

text \<open>What user code, devices and the clock may change: everything but the kernel's tables, the receive
  ring, the address of the device tree and the boot flag.\<close>

definition outside_step :: "kstate \<Rightarrow> kstate \<Rightarrow> bool" where
  "outside_step s s' \<longleftrightarrow> dev_eq s s' \<and> smp_boot_done s' = smp_boot_done s"

inductive kstep :: "kstate \<Rightarrow> kstate \<Rightarrow> bool" where
  k_trap: "running s h tf \<Longrightarrow> s1 = upd_tf tf (\<lambda>_. f) s \<Longrightarrow> trap_pre h tf s1 \<Longrightarrow> trap_entry_c h tf s1 = Inr (tf', s')
     \<Longrightarrow> kstep s s'"
| k_outside: "outside_step s s' \<Longrightarrow> kstep s s'"
| k_hart: "k < MAX_HARTS \<Longrightarrow> \<not> c_online (g_cpus s k) \<Longrightarrow> g_dtb s \<noteq> 0 \<Longrightarrow> smp_boot_done s
     \<Longrightarrow> kernel_main k dtb env s = Inr s' \<Longrightarrow> kstep s s'"

inductive_cases kstepE: "kstep s s'"

definition kinit :: "kstate \<Rightarrow> bool" where
  "kinit s \<longleftrightarrow> (\<exists>s0 h dtb env. cold s0 \<and> h < MAX_HARTS \<and> dtb \<noteq> 0 \<and> env_ok h env \<and> kernel_main h dtb env s0 = Inr s)"

section \<open>The invariant holds in every reachable state\<close>

lemma upd_tf_view:
  assumes K: "kok s" and R: "running s h tf"
  shows "kok (upd_tf tf (\<lambda>_. f) s)" "running (upd_tf tf (\<lambda>_. f) s) h tf" "live (upd_tf tf (\<lambda>_. f) s) = live s"
proof -
  let ?f = "\<lambda>t. t\<lparr>t_tf := f\<rparr>"
  have e: "upd_tf tf (\<lambda>_. f) s = upd_thread (cur s h) ?f s" using running_tf [OF R] by simp
  have "kinv (upd_thread (cur s h) ?f s)" using K by (intro kinv_same) (simp_all add: kok_def)
  then show "kok (upd_tf tf (\<lambda>_. f) s)" using K still_rx_ok [OF still_updates(1)] by (simp add: e kok_def)
  show "running (upd_tf tf (\<lambda>_. f) s) h tf" "live (upd_tf tf (\<lambda>_. f) s) = live s"
    unfolding e using R by (simp_all only: running_def cur_live_frame simp_thms)
qed

lemma kstep_kok:
  assumes "kstep s s'" "kok s"
  shows "kok s'"
  using assms
proof cases
  case (k_trap h tf s1 f tf')
  then show ?thesis using trap_step [of s1 h tf] upd_tf_view [OF assms(2) k_trap(1), of f] by auto
next
  case k_outside
  then show ?thesis using core_eqD(1) assms(2) by (auto simp: outside_step_def dev_eq_def)
next
  case (k_hart k dtb env)
  then show ?thesis using secondary_boot [OF assms(2), of k dtb env] by auto
qed

interpretation kernel: invariant_system kinit kstep kok
proof
  show "kok s" if "kinit s" for s
    using that cold_boot unfolding kinit_def by (metis sum.inject(2))
qed (rule kstep_kok)

text \<open>A trap of a thread that runs, with any register contents that meet the precondition.\<close>

definition trapping :: "nat \<Rightarrow> trapframe \<Rightarrow> kstate \<Rightarrow> bool" where
  "trapping h f s \<longleftrightarrow> (\<exists>tf. running s h tf \<and> trap_pre h tf (upd_tf tf (\<lambda>_. f) s))"

definition resumes :: "nat \<Rightarrow> trapframe \<Rightarrow> kstate \<Rightarrow> kstate \<Rightarrow> bool" where
  "resumes h f s s' \<longleftrightarrow> (\<exists>tf tf'. running s h tf \<and> trap_pre h tf (upd_tf tf (\<lambda>_. f) s)
     \<and> trap_entry_c h tf (upd_tf tf (\<lambda>_. f) s) = Inr (tf', s') \<and> running s' h tf')"

interpretation trap: live_system kinit kstep kok "trapping h f" "resumes h f" for h f
proof
  show "kstep s s'" if "resumes h f s s'" for s s' using that by (auto simp: resumes_def intro: k_trap)
  show "\<exists>s'. resumes h f s s'" if a: "kok s" "trapping h f s" for s
  proof -
    obtain tf where t: "running s h tf" "trap_pre h tf (upd_tf tf (\<lambda>_. f) s)" using a(2) by (auto simp: trapping_def)
    note V = upd_tf_view [OF a(1) t(1), of f]
    from trap_step [OF V(1,2) t(2)] t show ?thesis by (auto simp: resumes_def)
  qed
qed

end
