(* ===== verification/Scenario.thy ===== *)
theory Scenario
  imports Machine
begin

text \<open>
  A concrete machine: two harts, a device tree at address 1 and the first user thread. It is booted
  on hart 0, and then run through the life of a second thread: \<open>m0\<close> after boot, \<open>m1\<close> with the main
  thread (tid 2) running, \<open>m2\<close> after it created thread 3, \<open>m3\<close> while it waits in \<open>join\<close> for
  thread 3, which runs, \<open>m4\<close> with thread 3 running and the main thread ready, and \<open>m5\<close> after thread
  3 has exited. The theorems of the other theories are applied to these states.
\<close>

section \<open>The machine before boot\<close>

definition thread0 :: Thread where
  "thread0 = \<lparr>t_id = 0, t_state = THREAD_UNUSED, t_wakeup_tick = 0, t_name = CLit ''unused'', t_is_user = False,
     t_can_be_killed = False, t_detached = False, t_running_hart = -1, t_last_hart = -1, t_migrations = 0, t_runs = 0,
     t_rq_next = -1, t_on_rq = False, t_tf = tf_clear, t_stack_base = 0, t_exit_code = 0, t_join_waiter = -1,
     t_waiting_for = -1, t_join_status_ptr = 0, t_pending_read_buf = 0, t_pending_read_len = 0\<rparr>"

definition cpu0 :: cpu where
  "cpu0 = \<lparr>c_kstack_top = 0, c_cur_tf = TF_NULL, c_hartid = 0, c_online = False, c_current_tid = 0, c_idle_tid = 0,
     c_timer_irqs = 0, c_ctx_switches = 0, c_need_resched = False, c_slice_left = 0\<rparr>"

definition cold0 :: kstate where
  "cold0 = \<lparr>g_threads = (\<lambda>_. thread0), g_runqueues = (\<lambda>_. \<lparr>q_head = 0, q_tail = 0, q_len = 0\<rparr>), g_cpus = (\<lambda>_. cpu0),
     g_ticks = 0, g_stdin_waiter = 0, g_boot_hartid = NO_BOOT_HART, smp_boot_done = False, g_rx_buf = (\<lambda>_. 0),
     g_rx_head = 0, g_rx_tail = 0, boot_real_ns = 0, g_bootstrap_tf = tf_clear, g_probe_tf = tf_clear,
     g_illegal_probe_enabled = False, g_illegal_probe_hit = False, g_wfi_probe_enabled = False,
     g_wfi_probe_fired = False, g_wfi_probe_pc = 0, g_dtb = 0, g_timebase_hz = 0, dtb_timebase = Some 10000000,
     dtb_plic = Some (0x0C000000, Some 95), uart_base = 0, uart_irq = 0, uart_reg_shift = 0, uart_reg_io_width = 1,
     uart_reg_offset = 0,
     dtb_uart = Some \<lparr>du_reg = Some 0x10000000, du_irq = Some 10, du_shift = None, du_width = None, du_offset = None\<rparr>,
     dtb_timer = (False, True), plic_base = 0, plic_num_sources = 0, plic_regs = (\<lambda>_. 0), s_irq_table = (\<lambda>_. None),
     s_irq_stats = (\<lambda>_. \<lparr>st_count = 0, st_last_tick = 0, st_first_tick = 0, st_max_delta = 0\<rparr>),
     s_irq_name = (\<lambda>_. None), g_thread_stacks = 0x80400000, g_kstack = 0x80300000, idle_main_addr = 0x80201000,
     trap_entry_addr = 0x80200100, heap_u8 = (\<lambda>_. 0),
     heap_tinfo = (\<lambda>_. \<lparr>ui_tid = 0, ui_state = 0, ui_is_user = 0, ui_exit_code = 0, ui_name = [], ui_cpu = 0,
       ui_last_hart = 0, ui_migrations = 0, ui_runs = 0\<rparr>),
     heap_rqs = (\<lambda>_. \<lparr>rs_hart = 0, rs_len = 0, rs_tids = []\<rparr>), heap_ts = (\<lambda>_. \<lparr>tv_sec = 0, tv_nsec = 0\<rparr>),
     heap_irqstat = (\<lambda>_. \<lparr>iu_irq = 0, iu_count = 0, iu_first_tick = 0, iu_last_tick = 0, iu_max_delta = 0, iu_name = []\<rparr>),
     csr_sstatus = (\<lambda>_. 0), csr_sie = (\<lambda>_. 0), csr_sip = (\<lambda>_. 0), csr_stvec = (\<lambda>_. 0), csr_time = 0,
     plic_claims = (\<lambda>_. []), uart_rx = [], k_events = []\<rparr>"

definition env0 :: boot_env where
  "env0 = \<lparr>be_user_main = 0x80210000, be_traps = (\<lambda>_. None), be_start = (\<lambda>_. 0),
     be_polls = (\<lambda>_. [\<lparr>hp_now = 1000, hp_error = 0, hp_value = 2, hp_online = False\<rparr>,
                        \<lparr>hp_now = 2000, hp_error = 0, hp_value = 0, hp_online = True\<rparr>])\<rparr>"

lemma cold0_cold: "cold cold0"
  by (simp add: cold_def cold0_def live_def cpu0_def)

lemma env0_ok: "env_ok h env0"
  by (simp add: env_ok_def env0_def)

lemma two_harts: "int MAX_HARTS = 2" "is_worker 2" "is_worker 3" "\<not> is_worker 0" "valid_tid 2" "valid_tid 3" "(0::nat) < MAX_HARTS"
  by (simp_all add: MAX_HARTS_def THREAD_MAX_def is_worker_def valid_tid_def)

definition after :: "kstate kres \<Rightarrow> kstate" where
  "after r = (case r of Inl e \<Rightarrow> cold0 | Inr s \<Rightarrow> s)"

section \<open>The first thread runs\<close>

definition m0 :: kstate where "m0 = after (kernel_main 0 1 env0 cold0)"

lemma m0_boot:
  "kernel_main 0 1 env0 cold0 = Inr m0" "kok m0" "running m0 0 (TF_THREAD 0)" "live m0 k \<longleftrightarrow> k = 0"
  "rq_list m0 = (\<lambda>_. [])(0 := [2])" "one_user m0"
  using cold_boot [OF cold0_cold two_harts(7), of 1 env0] env0_ok by (auto simp: m0_def after_def two_harts)

definition m1 :: kstate where "m1 = after (thread_sys_yield 0 (TF_THREAD 0) m0)"

lemma m0_kinv: "kinv m0" "cur m0 0 = 0"
  using m0_boot(2,3) by (simp_all add: kok_def running_def)

lemma m1_run:
  "thread_sys_yield 0 (TF_THREAD 0) m0 = Inr m1" "kinv m1" "switched 0 m0 m1"
  using yield_ok [OF m0_kinv(1) m0_boot(3)] by (auto simp: m1_def after_def)

lemma m1_view:
  "cur m1 0 = 2" "rq_list m1 = (\<lambda>_. [])" "live m1 k \<longleftrightarrow> k = 0" "running m1 0 (TF_THREAD 2)" "is_worker (cur m1 0)"
proof -
  have "sched_abs m1 = dispatch 0 (keeps m0 0) (sched_abs m0)" using switchedD(1) [OF m1_run(3)] .
  moreover have "\<not> keeps m0 0" using m0_kinv(2) two_harts by (simp add: keeps_def)
  ultimately have s: "sched_abs m1 = ((cur m0)(0 := 2), \<lambda>_. [])"
    using m0_boot(5) by (auto simp: dispatch_def requeue_def sched_abs_def fun_eq_iff)
  then show c: "cur m1 0 = 2" and "rq_list m1 = (\<lambda>_. [])" by (simp_all add: sched_abs_def)
  show l: "live m1 k \<longleftrightarrow> k = 0" for k using switchedD(2) [OF m1_run(3)] m0_boot(4) by simp
  show "running m1 0 (TF_THREAD 2)" using c l by (simp add: running_def)
  show "is_worker (cur m1 0)" using c two_harts by simp
qed

text \<open>What a switch from an idle hart leaves unchanged of a worker.\<close>

lemma m1_one_user: "one_user m1" "t_state (g_threads m1 2) = THREAD_RUNNING"
proof -
  have o: "own_part (g_threads m1 t) = own_part (g_threads m0 t)" for t
    using switchedD(6) [OF m1_run(3)] m0_kinv(2) by auto
  have u: "t_state (g_threads m1 t) = THREAD_UNUSED" if "is_worker t" "t \<noteq> 2" for t
    using erase_sel(2) [OF switchedD(5) [OF m1_run(3)], of t] that m0_kinv(2) m1_view(1) two_harts m0_boot(6)
    by (auto simp: one_user_def)
  show "one_user m1"
    unfolding one_user_def using u m0_boot(6) own_part_sel [OF o] by (auto simp: one_user_def two_harts)
  show "t_state (g_threads m1 2) = THREAD_RUNNING" using switchedD(3) [OF m1_run(3)] m1_view(1) by simp
qed

section \<open>A second thread\<close>

lemma m1_alloc: "alloc_thread_slot m1 = 3"
proof -
  have u: "t_state (g_threads m1 3) = THREAD_UNUSED" using m1_one_user(1) two_harts by (auto simp: one_user_def)
  have i: "t_state (g_threads m1 1) = THREAD_RUNNABLE"
    using common_idle [OF kinv_common [OF m1_run(2)], of 1] m1_view(3) by (simp add: MAX_HARTS_def)
  have "alloc_thread_slot m1 \<noteq> -1" using u by (auto simp: alloc_none THREAD_MAX_def intro: exI [of _ 3])
  note a = alloc_slot [OF refl this]
  have "alloc_thread_slot m1 \<noteq> 1" "alloc_thread_slot m1 \<noteq> 2" using a i m1_one_user(2) by auto
  moreover have "\<not> 3 < alloc_thread_slot m1" using a u by auto
  ultimately show ?thesis using a by linarith
qed

definition m2 :: kstate where
  "m2 = (case thread_create_user 0 0x80220000 7 None m1 of Inl e \<Rightarrow> cold0 | Inr (t, s) \<Rightarrow> s)"

lemma m2_run:
  "thread_create_user 0 0x80220000 7 None m1 = Inr (3, m2)" "kinv m2"
  "woken 3 (user_slot 0 0x80220000 7 None 3 m1 (g_threads m1 3)) m1 m2"
proof -
  have L: "live m1 0" using m1_view(3) by simp
  obtain s' where s': "thread_create_user 0 0x80220000 7 None m1 = Inr (3, s')" "kinv s'"
    "woken 3 (user_slot 0 0x80220000 7 None 3 m1 (g_threads m1 3)) m1 s'"
    using create_ok [OF m1_run(2) L m1_alloc] by fastforce
  have "m2 = s'" unfolding m2_def s'(1) by simp
  then show "thread_create_user 0 0x80220000 7 None m1 = Inr (3, m2)" "kinv m2"
    "woken 3 (user_slot 0 0x80220000 7 None 3 m1 (g_threads m1 3)) m1 m2" using s' by simp_all
qed

lemma m2_view:
  "cur m2 = cur m1" "live m2 = live m1" "rq_list m2 = (\<lambda>_. [])(0 := [3])" "running m2 0 (TF_THREAD 2)"
  "t_state (g_threads m2 3) = THREAD_RUNNABLE" "t_state (g_threads m2 2) = THREAD_RUNNING"
  "t_join_waiter (g_threads m2 3) = -1" "t_join_waiter (g_threads m2 2) = -1"
  "\<not> t_detached (g_threads m2 3)" "\<not> t_detached (g_threads m2 2)" "t_can_be_killed (g_threads m2 3)"
proof -
  note W = wokenD [OF m2_run(3)]
  note C = cpus_eqD [OF onlyD(1) [OF W(1)]]
  show c: "cur m2 = cur m1" "live m2 = live m1" using C by simp_all
  obtain k where k: "placed k m1" "rq_list m2 = (rq_list m1)(k := rq_list m1 k @ [3])" using m2_run(3) by (auto simp: woken_def)
  have "k = 0" using k(1) m1_view(3) by (auto simp: placed_def)
  then show "rq_list m2 = (\<lambda>_. [])(0 := [3])" using k m1_view(2) by simp
  show "running m2 0 (TF_THREAD 2)" using c m1_view by (simp add: running_def)
  note E = erase_sel [OF W(5)]
  show "t_state (g_threads m2 3) = THREAD_RUNNABLE" using E(2) by simp
  show "t_join_waiter (g_threads m2 3) = -1" "\<not> t_detached (g_threads m2 3)" "t_can_be_killed (g_threads m2 3)"
    using E(6,7,15) m1_one_user(1) two_harts by (auto simp: user_slot_def one_user_def)
  have "rq_erase (g_threads m2 2) = rq_erase (g_threads m1 2)" by (rule onlyD(3) [OF W(1)]) simp
  note F = erase_sel [OF this]
  show "t_state (g_threads m2 2) = THREAD_RUNNING" "t_join_waiter (g_threads m2 2) = -1" "\<not> t_detached (g_threads m2 2)"
    using F(2,7,15) m1_one_user two_harts by (auto simp: one_user_def)
qed

definition m3 :: kstate where "m3 = after (thread_sys_join 0 (TF_THREAD 2) 3 0x1000 m2)"

lemma m2_cur: "cur m2 0 = 2" "is_worker (cur m2 0)"
  using m2_view(1) m1_view by simp_all

lemma m2_join: "join_error m2 (cur m2 0) 3 = None" "t_state (g_threads m2 3) \<noteq> THREAD_ZOMBIE"
  using m2_view m2_cur by (simp_all add: join_error_def THREAD_MAX_def)

lemma m3_run:
  "thread_sys_join 0 (TF_THREAD 2) 3 0x1000 m2 = Inr m3" "kinv m3" "sched_abs m3 = dispatch 0 False (sched_abs m2)"
  "t_state (g_threads m3 2) = THREAD_WAITING" "t_waiting_for (g_threads m3 2) = 3"
  "t_join_status_ptr (g_threads m3 2) = 0x1000" "t_join_waiter (g_threads m3 3) = 2"
  using join_wait_ok [OF m2_run(2) m2_view(4) m2_cur(2) m2_join, of "0x1000"] by (auto simp: m3_def after_def m2_cur)

text \<open>In every state of the scenario hart 0 is the only one online.\<close>

lemma alone_running:
  assumes "kinv s" "\<And>k. live s k \<Longrightarrow> k = 0" "cur s 0 \<noteq> t" "valid_tid t"
  shows "settled s t"
proof -
  have "\<not> 0 \<le> t_running_hart (g_threads s t)"
  proof
    assume "0 \<le> t_running_hart (g_threads s t)"
    from common_rh [OF kinv_common [OF assms(1)] assms(4) this] obtain k where "live s k" "cur s k = t" by blast
    then show False using assms(2,3) by auto
  qed
  then show ?thesis by (simp add: settled_def)
qed

lemma m3_view:
  "cur m3 0 = 3" "rq_list m3 = (\<lambda>_. [])" "settled m3 2" "is_worker (cur m3 0)"
proof -
  show "cur m3 0 = 3" "rq_list m3 = (\<lambda>_. [])"
    using m3_run(3) m2_view(3) by (auto simp: sched_abs_def dispatch_def requeue_def fun_eq_iff)
  then show "is_worker (cur m3 0)" using two_harts by simp
  show "settled m3 2" using m3_run(4) by (simp add: settled_def)
qed

definition m4 :: kstate where "m4 = after (thread_sys_yield 0 (TF_THREAD 2) m2)"

lemma m4_run: "thread_sys_yield 0 (TF_THREAD 2) m2 = Inr m4" "kinv m4" "switched 0 m2 m4"
  using yield_ok [OF m2_run(2) m2_view(4)] by (auto simp: m4_def after_def)

lemma m4_view:
  "cur m4 0 = 3" "rq_list m4 = (\<lambda>_. [])(0 := [2])" "live m4 k \<longleftrightarrow> k = 0" "running m4 0 (TF_THREAD 3)" "is_worker (cur m4 0)"
  "t_join_waiter (g_threads m4 3) = -1" "\<not> t_detached (g_threads m4 3)"
proof -
  have "keeps m2 0" using m2_cur m2_view(6) by (simp add: keeps_def)
  then have "sched_abs m4 = ((cur m2)(0 := 3), (\<lambda>_. [])(0 := [2]))"
    using switchedD(1) [OF m4_run(3)] m2_view(3) m2_cur by (auto simp: dispatch_def requeue_def sched_abs_def fun_eq_iff)
  then show c: "cur m4 0 = 3" and "rq_list m4 = (\<lambda>_. [])(0 := [2])" by (simp_all add: sched_abs_def)
  show l: "live m4 k \<longleftrightarrow> k = 0" for k using switchedD(2) [OF m4_run(3)] m2_view(2) m1_view(3) by simp
  show "running m4 0 (TF_THREAD 3)" using c l by (simp add: running_def)
  show "is_worker (cur m4 0)" using c two_harts by simp
  have "own_part (g_threads m4 3) = own_part (g_threads m2 3)" using switchedD(6) [OF m4_run(3), of 3] m2_cur by simp
  from own_part_sel(6,7) [OF this] show "t_join_waiter (g_threads m4 3) = -1" "\<not> t_detached (g_threads m4 3)"
    using m2_view by simp_all
qed

definition m5 :: kstate where "m5 = after (thread_sys_exit 0 (TF_THREAD 3) 42 m4)"

lemma m5_run:
  "thread_sys_exit 0 (TF_THREAD 3) 42 m4 = Inr m5" "kinv m5" "sched_abs m5 = dispatch 0 False (sched_abs m4)"
  "t_state (g_threads m5 3) = THREAD_ZOMBIE" "t_exit_code (g_threads m5 3) = 42" "t_join_waiter (g_threads m5 3) = -1"
  "\<not> t_detached (g_threads m5 3)"
proof -
  have "\<not> (0 \<le> t_join_waiter (g_threads m4 (cur m4 0)) \<and> t_join_waiter (g_threads m4 (cur m4 0)) < THREAD_MAX)"
    using m4_view(1,6) by simp
  from exit_alone_ok [OF m4_run(2) m4_view(4,5) this, of 42] obtain s' where
    s': "thread_sys_exit 0 (TF_THREAD 3) 42 m4 = Inr s'" "kinv s'" "sched_abs s' = dispatch 0 False (sched_abs m4)"
    "t_state (g_threads s' 3) = THREAD_ZOMBIE" "t_exit_code (g_threads s' 3) = 42" "t_join_waiter (g_threads s' 3) = -1"
    "\<not> t_detached (g_threads s' 3)"
    unfolding m4_view(1) using m4_view(7) by auto
  have "m5 = s'" unfolding m5_def s'(1) after_def by simp
  then show "thread_sys_exit 0 (TF_THREAD 3) 42 m4 = Inr m5" "kinv m5" "sched_abs m5 = dispatch 0 False (sched_abs m4)"
    "t_state (g_threads m5 3) = THREAD_ZOMBIE" "t_exit_code (g_threads m5 3) = 42" "t_join_waiter (g_threads m5 3) = -1"
    "\<not> t_detached (g_threads m5 3)"
    using s' by simp_all
qed

end
