(* ===== verification/Thread_Props.thy ===== *)
theory Thread_Props
  imports Scenario
begin

text \<open>
  What the scheduler and the thread system calls do, stated on the functions of \<open>kernel/thread.c\<close>,
  \<open>kernel/runqueue.c\<close> and \<open>kernel/sched.c\<close>. Each theorem is followed by an application to the machine of
  theory \<open>Scenario\<close>.
\<close>

section \<open>Scheduling\<close>

text \<open>C5: \<open>schedule\<close> always returns, re-establishes the invariant and refines the abstract round-robin
  dispatcher: a running worker goes to the tail of its hart's queue, the head of the queue (or
  the idle thread of the hart) becomes current with a full time slice, and nothing changes on other harts.\<close>

theorem schedule_refines_dispatch:
  assumes "kmid h s"
  shows "\<exists>s'. schedule h (TF_THREAD (cur s h)) s = Inr s' \<and> kinv s'
    \<and> sched_abs s' = dispatch h (keeps s h) (sched_abs s)
    \<and> t_state (g_threads s' (cur s' h)) = THREAD_RUNNING \<and> c_slice_left (g_cpus s' h) = SCHED_SLICE_TICKS
    \<and> c_cur_tf (g_cpus s' h) = TF_THREAD (cur s' h) \<and> (\<forall>k. k \<noteq> h \<longrightarrow> g_cpus s' k = g_cpus s k)"
  using schedule_ok [OF assms] by (auto simp: switched_def)

theorem schedule_refines_dispatch_witness:
  "kmid 0 m2 \<and> (\<exists>s'. schedule 0 (TF_THREAD 2) m2 = Inr s' \<and> cur s' 0 = 3 \<and> rq_list s' 0 = [2])"
proof -
  have k: "kmid 0 m2" using kinv_mid [OF m2_run(2) m2_view(4)] .
  have "keeps m2 0" using m2_cur m2_view(6) by (simp add: keeps_def)
  then have d: "dispatch 0 (keeps m2 0) (sched_abs m2) = ((cur m2)(0 := 3), (\<lambda>_. [])(0 := [2]))"
    using m2_view(3) m2_cur by (auto simp: dispatch_def requeue_def sched_abs_def fun_eq_iff)
  show ?thesis using schedule_refines_dispatch [OF k] k unfolding d m2_cur(1) by (auto simp: sched_abs_def)
qed

text \<open>\<open>n\<close> successive yields on one hart.\<close>

fun yields :: "nat \<Rightarrow> nat \<Rightarrow> kstate \<Rightarrow> kstate kres" where
  "yields 0 h s = Inr s"
| "yields (Suc n) h s = bindE (thread_sys_yield h (TF_THREAD (cur s h)) s) (yields n h)"

lemma switched_queue:
  assumes "switched h s s'" "rq_list s h = t # ts"
  shows "cur s' h = t" "\<exists>us. rq_list s' h = ts @ us"
proof -
  have "sched_abs s' = dispatch h (keeps s h) (sched_abs s)" using switchedD(1) [OF assms(1)] .
  then have "cur s' h = t \<and> (\<exists>us. rq_list s' h = ts @ us)"
    using assms(2) by (cases "keeps s h") (auto simp: dispatch_def requeue_def sched_abs_def)
  then show "cur s' h = t" "\<exists>us. rq_list s' h = ts @ us" by auto
qed

lemma yield_running:
  assumes "kinv s" "running s h tf"
  shows "\<exists>s'. thread_sys_yield h tf s = Inr s' \<and> kinv s' \<and> switched h s s' \<and> running s' h (TF_THREAD (cur s' h))"
proof -
  obtain s' where s': "thread_sys_yield h tf s = Inr s'" "kinv s'" "switched h s s'" using yield_ok [OF assms] by blast
  have "valid_tid (cur s' h)" using s'(1) seat_sleep by (simp add: thread_sys_yield_def)
  then have "running s' h (TF_THREAD (cur s' h))"
    using switchedD(2) [OF s'(3)] assms(2) by (auto simp: running_def valid_tid_def)
  with s' show ?thesis by blast
qed

lemma yields_turn:
  assumes "kinv s" "running s h tf" "n < length (rq_list s h)"
  shows "\<exists>s'. yields (Suc n) h s = Inr s' \<and> kinv s' \<and> cur s' h = rq_list s h ! n"
  using assms
proof (induction n arbitrary: s tf)
  case 0
  then obtain t ts where q: "rq_list s h = t # ts" by (cases "rq_list s h") auto
  from yield_running [OF 0(1,2)] obtain s' where
    s': "thread_sys_yield h tf s = Inr s'" "kinv s'" "switched h s s'" by blast
  then show ?case using switched_queue(1) [OF s'(3) q] running_tf [OF 0(2)] q by simp
next
  case (Suc n)
  then obtain t ts where q: "rq_list s h = t # ts" "n < length ts" by (cases "rq_list s h") auto
  from yield_running [OF Suc.prems(1,2)] obtain s1 where
    s1: "thread_sys_yield h tf s = Inr s1" "kinv s1" "switched h s s1" "running s1 h (TF_THREAD (cur s1 h))" by blast
  obtain us where us: "rq_list s1 h = ts @ us" using switched_queue(2) [OF s1(3) q(1)] by blast
  have "n < length (rq_list s1 h)" using us q(2) by simp
  from Suc.IH [OF s1(2,4) this] obtain s' where "yields (Suc n) h s1 = Inr s'" "kinv s'" "cur s' h = rq_list s1 h ! n" by blast
  then show ?case using s1(1) running_tf [OF Suc.prems(2)] us q by (simp add: nth_append)
qed

text \<open>C6: round robin is fair: the thread at position \<open>n\<close> of a hart's queue is the running thread of
  that hart after \<open>n + 1\<close> yields of its predecessors, and all those yields return.\<close>

theorem ready_thread_gets_turn:
  assumes "kinv s" "running s h tf" "n < length (rq_list s h)"
  shows "\<exists>s'. yields (Suc n) h s = Inr s' \<and> kinv s' \<and> cur s' h = rq_list s h ! n"
  using yields_turn [OF assms] .

theorem ready_thread_gets_turn_witness:
  "\<exists>s'. yields 1 0 m4 = Inr s' \<and> cur s' 0 = 2"
  using ready_thread_gets_turn [OF m4_run(2) m4_view(4), of 0] m4_view(2) by auto

text \<open>C7: a timer interrupt counts the slice down and never fails: while slices remain the running thread
  keeps the hart, and on the last one the dispatcher runs and a full slice begins. On the boot hart the
  sleepers whose time has come are made runnable first.\<close>

theorem timer_interrupt_slices:
  assumes "kinv s" "running s h tf"
  shows "\<exists>s' s3. sched_on_timer_irq h tf s = Inr s' \<and> kinv s'
    \<and> (if h = g_boot_hartid s then awoke {t. valid_tid t} ((timer_entry h s)\<lparr>g_ticks := g_ticks s + 1\<rparr>) s3
       else s3 = timer_entry h s)
    \<and> (if c_slice_left (g_cpus s h) \<le> 1
       then sched_abs s' = dispatch h (keeps s h) (sched_abs s3) \<and> c_slice_left (g_cpus s' h) = SCHED_SLICE_TICKS
       else sched_abs s' = sched_abs s3 \<and> c_slice_left (g_cpus s' h) = c_slice_left (g_cpus s h) - 1)"
  using timer_ok [OF assms] .

theorem timer_interrupt_slices_witness:
  "\<exists>s'. sched_on_timer_irq 0 (TF_THREAD 2) m2 = Inr s' \<and> kinv s'"
  using timer_interrupt_slices [OF m2_run(2) m2_view(4)] by blast

text \<open>C8: the clock tick makes exactly the sleeping threads runnable whose wake-up tick has been
  reached, appends them to the queues, and leaves every other thread alone.\<close>

theorem tick_wakes_exactly_due:
  assumes "kinv s" "live s h"
  shows "\<exists>s'. threads_tick h s = Inr s' \<and> kinv s' \<and> g_ticks s' = g_ticks s + 1
    \<and> (\<forall>i. valid_tid i \<longrightarrow> t_state (g_threads s i) = THREAD_SLEEPING \<and> t_wakeup_tick (g_threads s i) \<le> g_ticks s + 1
          \<longrightarrow> t_state (g_threads s' i) = THREAD_RUNNABLE \<and> onrq s' i)
    \<and> (\<forall>i. valid_tid i \<longrightarrow> \<not> (t_state (g_threads s i) = THREAD_SLEEPING \<and> t_wakeup_tick (g_threads s i) \<le> g_ticks s + 1)
          \<longrightarrow> rq_erase (g_threads s' i) = rq_erase (g_threads s i) \<and> onrq s' i = onrq s i)
    \<and> (\<forall>k. \<exists>ts. rq_list s' k = rq_list s k @ ts)"
proof -
  let ?u = "s\<lparr>g_ticks := g_ticks s + 1\<rparr>"
  obtain s' where s': "threads_tick h s = Inr s'" "kinv s'" "awoke {t. valid_tid t} ?u s'" using tick_ok [OF assms] by blast
  have u: "due ?u i \<longleftrightarrow> t_state (g_threads s i) = THREAD_SLEEPING \<and> t_wakeup_tick (g_threads s i) \<le> g_ticks s + 1" for i
    by (simp add: due_def)
  have n: "nxt ?u = nxt s" and o: "onrq ?u = onrq s" by (auto simp: nxt_def onrq_def fun_eq_iff)
  have v: "rq_list ?u = rq_list s" using rq_wf_cong(1) [OF n o] by simp
  show ?thesis using s' unfolding awoke_def u v o by auto
qed

theorem tick_wakes_exactly_due_witness: "\<exists>s'. threads_tick 0 m2 = Inr s' \<and> kinv s' \<and> g_ticks s' = g_ticks m2 + 1"
  using tick_wakes_exactly_due [OF m2_run(2), of 0] m2_view(2) m1_view(3) by auto



end
