(* ===== verification/Syscall_Props.thy ===== *)
theory Syscall_Props
  imports Scenario
begin

text \<open>
  The thread system calls: create, sleep, exit, join, kill and detach, on every branch, and the
  runqueue operations under them.
\<close>

section \<open>Runqueues\<close>

text \<open>C10: the runqueues, linked lists through the thread table, implement one list of threads per hart: a push appends to the tail of one queue,
  a pop takes the oldest entry or reports \<open>-1\<close> for an empty queue, a removal takes a thread out of the queue that holds it, keeps the
  order of the others and names the hart, and a snapshot is the queue in order, filled up with \<open>-1\<close>. No other queue changes.\<close>

theorem runqueue_refines_lists:
  assumes "rq_wf s" "h < MAX_HARTS"
  shows "(is_worker t \<and> \<not> onrq s t \<longrightarrow> (\<exists>s'. rq_push_tail h t s = Inr s' \<and> rq_wf s' \<and> rq_list s' = (rq_list s)(h := rq_list s h @ [t])))
    \<and> (case rq_list s h of [] \<Rightarrow> rq_pop_head h s = Inr (-1, s)
       | x # xs \<Rightarrow> \<exists>s'. rq_pop_head h s = Inr (x, s') \<and> rq_wf s' \<and> rq_list s' = (rq_list s)(h := xs))
    \<and> (t \<in> set (rq_list s h) \<longrightarrow> (\<exists>s'. rq_remove_any t s = Inr (int h, s') \<and> rq_wf s' \<and> \<not> onrq s' t
         \<and> rq_list s' = (rq_list s)(h := remove1 t (rq_list s h)) \<and> (\<forall>k. t \<notin> set (rq_list s' k))))
    \<and> rq_snapshot h (Some (replicate (nat THREAD_MAX) (-1))) (nat THREAD_MAX) s
       = Inr (int (length (rq_list s h)), rq_list s h @ replicate (nat THREAD_MAX - length (rq_list s h)) (-1))"
proof (intro conjI impI)
  show "\<exists>s'. rq_push_tail h t s = Inr s' \<and> rq_wf s' \<and> rq_list s' = (rq_list s)(h := rq_list s h @ [t])" if "is_worker t \<and> \<not> onrq s t"
    using rq.push_law [OF assms that] .
  show "case rq_list s h of [] \<Rightarrow> rq_pop_head h s = Inr (-1, s)
       | x # xs \<Rightarrow> \<exists>s'. rq_pop_head h s = Inr (x, s') \<and> rq_wf s' \<and> rq_list s' = (rq_list s)(h := xs)"
    using rq.pop_empty [OF assms(1)] rq.pop_law [OF assms] by (cases "rq_list s h") simp_all
  show "\<exists>s'. rq_remove_any t s = Inr (int h, s') \<and> rq_wf s' \<and> \<not> onrq s' t
         \<and> rq_list s' = (rq_list s)(h := remove1 t (rq_list s h)) \<and> (\<forall>k. t \<notin> set (rq_list s' k))" if t: "t \<in> set (rq_list s h)"
  proof -
    obtain s' where s': "rq_remove_any t s = Inr (int h, s')" "rq_wf s'" "rq_list s' = (rq_list s)(h := remove1 t (rq_list s h))"
      "onrq s' = (onrq s)(t := False)" using rq_remove_any_wf [OF assms t] by blast
    have "t \<notin> set (rq_list s' k)" for k using rq_wf_worker [OF s'(2), of t k] s'(4) by auto
    with s' show ?thesis by auto
  qed
qed (rule rq_snapshot_wf [OF assms])

theorem runqueue_refines_lists_witness:
  "(\<exists>s1. rq_push_tail 0 5 m2 = Inr s1 \<and> rq_list s1 0 = [3, 5]) \<and> (\<exists>s2. rq_pop_head 0 m2 = Inr (3, s2) \<and> rq_list s2 0 = [])
    \<and> (\<exists>s3. rq_remove_any 3 m2 = Inr (0, s3) \<and> rq_list s3 0 = []) \<and> rq_snapshot 0 (Some (replicate 64 (-1))) 64 m2 = Inr (1, 3 # replicate 63 (-1))"
proof -
  have w: "is_worker 5" by (simp add: is_worker_def MAX_HARTS_def THREAD_MAX_def)
  moreover have "\<not> onrq m2 5"
    using rq_wf_onrq [OF kinv_wf [OF m2_run(2)], of 5] m2_view(3) by (auto simp: valid_tid_def THREAD_MAX_def split: if_splits)
  ultimately show ?thesis
    using runqueue_refines_lists [OF kinv_wf [OF m2_run(2)] two_harts(7), of 5] runqueue_refines_lists [OF kinv_wf [OF m2_run(2)] two_harts(7), of 3] m2_view(3)
    by (auto simp: THREAD_MAX_def)
qed

section \<open>Creation\<close>

text \<open>C11: creating a thread takes the lowest free slot, gives it a user context that starts at the entry
  point with its argument, an aligned stack pointer and interrupts to be enabled on return, and queues it on
  an online hart with the shortest queue. With every slot taken, and only then, creation fails with \<open>-1\<close> and changes nothing.\<close>

theorem create_starts_thread:
  assumes "kinv s" "live s h"
  shows "if \<exists>j\<ge>1. j < THREAD_MAX \<and> t_state (g_threads s j) = THREAD_UNUSED
    then \<exists>tid s' k. tid \<noteq> -1 \<and> thread_create_user h entry arg name s = Inr (tid, s') \<and> kinv s'
      \<and> t_state (g_threads s tid) = THREAD_UNUSED \<and> (\<forall>j. 1 \<le> j \<longrightarrow> j < tid \<longrightarrow> t_state (g_threads s j) \<noteq> THREAD_UNUSED)
      \<and> t_state (g_threads s' tid) = THREAD_RUNNABLE \<and> fresh_context entry arg (t_tf (g_threads s' tid))
      \<and> live s k \<and> rq_list s' = (rq_list s)(k := rq_list s k @ [tid])
      \<and> (\<forall>i. i \<noteq> tid \<longrightarrow> rq_erase (g_threads s' i) = rq_erase (g_threads s i))
    else thread_create_user h entry arg name s = Inr (-1, s)"
proof (cases "alloc_thread_slot s = -1")
  case True
  then show ?thesis using create_full [OF True] alloc_none [of s] by auto
next
  case False
  let ?t = "alloc_thread_slot s"
  obtain s' where s': "thread_create_user h entry arg name s = Inr (?t, s')" "kinv s'"
    "woken ?t (user_slot h entry arg name ?t s (g_threads s ?t)) s s'" "fresh_context entry arg (t_tf (g_threads s' ?t))"
    using create_ok [OF assms refl False] by blast
  obtain k where k: "placed k s" "rq_list s' = (rq_list s)(k := rq_list s k @ [?t])" using s'(3) by (auto simp: woken_def)
  have l: "live s k" using k(1) assms(2) by (auto simp: placed_def)
  have r: "t_state (g_threads s' ?t) = THREAD_RUNNABLE" using erase_sel(2) [OF wokenD(5) [OF s'(3)]] by simp
  have "\<exists>j\<ge>1. j < THREAD_MAX \<and> t_state (g_threads s j) = THREAD_UNUSED" using False alloc_none [of s] by auto
  moreover have "\<exists>tid s' k. tid \<noteq> -1 \<and> thread_create_user h entry arg name s = Inr (tid, s') \<and> kinv s'
      \<and> t_state (g_threads s tid) = THREAD_UNUSED \<and> (\<forall>j. 1 \<le> j \<longrightarrow> j < tid \<longrightarrow> t_state (g_threads s j) \<noteq> THREAD_UNUSED)
      \<and> t_state (g_threads s' tid) = THREAD_RUNNABLE \<and> fresh_context entry arg (t_tf (g_threads s' tid))
      \<and> live s k \<and> rq_list s' = (rq_list s)(k := rq_list s k @ [tid])
      \<and> (\<forall>i. i \<noteq> tid \<longrightarrow> rq_erase (g_threads s' i) = rq_erase (g_threads s i))"
    using s' k l r False alloc_slot [OF refl False] onlyD(3) [OF wokenD(1) [OF s'(3)]] by blast
  ultimately show ?thesis by (simp only: if_True)
qed

theorem create_starts_thread_witness:
  "\<exists>tid s'. tid \<noteq> -1 \<and> thread_create_user 0 0x80220000 7 None m1 = Inr (tid, s')
     \<and> fresh_context 0x80220000 7 (t_tf (g_threads s' tid))"
proof -
  have "t_state (g_threads m1 3) = THREAD_UNUSED" using m1_one_user(1) two_harts by (auto simp: one_user_def)
  then have "\<exists>j\<ge>1. j < THREAD_MAX \<and> t_state (g_threads m1 j) = THREAD_UNUSED"
    by (intro exI [of _ 3]) (simp add: THREAD_MAX_def)
  then show ?thesis using create_starts_thread [OF m1_run(2), of 0 "0x80220000" 7 None] m1_view(3) by auto
qed

section \<open>Sleeping and exiting\<close>

text \<open>C13: \<open>sleep(n)\<close> with \<open>n > 0\<close> puts the caller to sleep until tick \<open>now + n\<close>, with its registers
  kept, and hands the hart to the next ready thread.\<close>

theorem sleep_suspends:
  assumes "kinv s" "running s h tf" "is_worker (cur s h)" "ticks \<noteq> 0"
  shows "\<exists>s'. thread_sys_sleep h tf ticks s = Inr s' \<and> kinv s'
    \<and> sched_abs s' = dispatch h False (sched_abs s)
    \<and> t_state (g_threads s' (cur s h)) = THREAD_SLEEPING
    \<and> t_wakeup_tick (g_threads s' (cur s h)) = g_ticks s + ticks
    \<and> t_tf (g_threads s' (cur s h)) = t_tf (g_threads s (cur s h))"
  using sleep_ok [OF assms] .

theorem sleep_suspends_witness:
  "\<exists>s'. thread_sys_sleep 0 (TF_THREAD 2) 10 m2 = Inr s' \<and> cur s' 0 = 3 \<and> t_wakeup_tick (g_threads s' 2) = g_ticks m2 + 10"
  using sleep_suspends [OF m2_run(2) m2_view(4) m2_cur(2), of 10] m2_view(3) m2_cur
  by (auto simp: sched_abs_def dispatch_def requeue_def)

text \<open>C15: a thread that exits while nobody waits for it becomes a zombie that keeps its exit code, or,
  when it is detached, frees its slot at once. When another thread waits for it in \<open>join\<close>, it hands over its exit code, makes the
  waiter runnable with result 0, and frees its slot. The hart goes on with the next ready thread.\<close>

theorem exit_settles:
  assumes "kinv s" "running s h tf" "is_worker (cur s h)" "j = t_join_waiter (g_threads s (cur s h))"
    "0 \<le> j \<and> j < THREAD_MAX \<longrightarrow> j \<noteq> cur s h \<and> t_state (g_threads s j) = THREAD_WAITING"
  shows "\<exists>s'. thread_sys_exit h tf code s = Inr s' \<and> kinv s'
    \<and> (if 0 \<le> j \<and> j < THREAD_MAX
       then t_state (g_threads s' (cur s h)) = THREAD_UNUSED \<and> tf_a0 (t_tf (g_threads s' j)) = 0
         \<and> (t_join_status_ptr (g_threads s j) \<noteq> 0 \<longrightarrow> load_int32 (t_join_status_ptr (g_threads s j)) s' = code)
         \<and> (\<exists>k<MAX_HARTS. sched_abs s' = dispatch h False (cur s, (rq_list s)(k := rq_list s k @ [j])))
       else sched_abs s' = dispatch h False (sched_abs s)
         \<and> (if t_detached (g_threads s (cur s h)) then t_state (g_threads s' (cur s h)) = THREAD_UNUSED
            else t_state (g_threads s' (cur s h)) = THREAD_ZOMBIE \<and> t_exit_code (g_threads s' (cur s h)) = code
              \<and> t_join_waiter (g_threads s' (cur s h)) = -1))"
proof (cases "0 \<le> j \<and> j < THREAD_MAX")
  case True
  then have w: "j \<noteq> cur s h" "t_state (g_threads s j) = THREAD_WAITING" using assms(5) by simp_all
  have "settled s j" using w(2) by (simp add: settled_def)
  from exit_joined_ok [OF assms(1-4) _ _ w(1) this] True w(2) show ?thesis by auto
next
  case False
  then have n: "\<not> (0 \<le> t_join_waiter (g_threads s (cur s h)) \<and> t_join_waiter (g_threads s (cur s h)) < THREAD_MAX)"
    using assms(4) by simp
  then show ?thesis using exit_alone_ok [OF assms(1-3) n, of code] False
    by (cases "t_detached (g_threads s (cur s h))") auto
qed

lemma m3_running: "running m3 0 (TF_THREAD 3)"
proof -
  have "live m3 0" using still_live [OF still_join [OF m3_run(1)]] m2_view(2) m1_view(3) by simp
  then show ?thesis using m3_view(1) by (simp add: running_def)
qed

theorem exit_settles_witness:
  "(\<exists>s'. thread_sys_exit 0 (TF_THREAD 3) 42 m3 = Inr s' \<and> tf_a0 (t_tf (g_threads s' 2)) = 0 \<and> load_int32 0x1000 s' = 42)
    \<and> (\<exists>s'. thread_sys_exit 0 (TF_THREAD 3) 42 m4 = Inr s' \<and> t_state (g_threads s' 3) = THREAD_ZOMBIE)"
proof -
  have "2 = t_join_waiter (g_threads m3 (cur m3 0))" "(2::int) < THREAD_MAX" "2 \<noteq> cur m3 0"
    using m3_view(1) m3_run(7) by (simp_all add: THREAD_MAX_def)
  with exit_settles [OF m3_run(2) m3_running m3_view(4) this(1), of 42] exit_settles [OF m4_run(2) m4_view(4,5) refl, of 42]
  show ?thesis using m3_run(4,6) m4_view by auto
qed

section \<open>Joining, killing and detaching\<close>

text \<open>C16: \<open>join\<close> refuses a target that is out of range, the caller itself, unused, detached or already
  joined by another thread; \<open>kill\<close> refuses a target out of range, thread 0, the caller, a thread that must not be
  killed or an unused slot, and reports success for a zombie without touching it. Each returns the error code of the
  first check that fails, and only \<open>a0\<close> changes.\<close>

theorem join_kill_reject:
  assumes "valid_tid (cur s h)"
  shows "(join_error s (cur s h) t = Some e \<longrightarrow> thread_sys_join h tf t p s = Inr (set_a0 tf e s))
    \<and> (kill_error s (cur s h) t = Some e \<longrightarrow> thread_sys_kill h tf t s = Inr (set_a0 tf e s))"
  using join_refused [OF assms] kill_refused by simp

theorem join_kill_reject_witness:
  "thread_sys_join 0 (TF_THREAD 2) 2 0 m2 = Inr (set_a0 (TF_THREAD 2) (- 2) m2)
    \<and> thread_sys_kill 0 (TF_THREAD 2) 2 m2 = Inr (set_a0 (TF_THREAD 2) (- 4) m2)"
proof -
  have v: "valid_tid (cur m2 0)" using m2_cur two_harts(5) by simp
  have "join_error m2 (cur m2 0) 2 = Some (- 2)" "kill_error m2 (cur m2 0) 2 = Some (- 4)"
    using m2_cur by (simp_all add: join_error_def kill_error_def THREAD_MAX_def)
  then show ?thesis using join_kill_reject [OF v] by blast
qed

text \<open>C17: \<open>join\<close> of a zombie that no hart still runs returns at once: the caller gets 0 in \<open>a0\<close> and the
  exit code through the status pointer, and the slot becomes free. \<open>join\<close> of a thread that has not ended makes the caller wait
  for it, records the status pointer and the waiter, and hands the hart to the next ready thread.\<close>

theorem join_collects_or_waits:
  assumes "kinv s" "running s h tf" "is_worker (cur s h)" "join_error s (cur s h) t = None"
    "t_state (g_threads s t) = THREAD_ZOMBIE \<Longrightarrow> settled s t"
  shows "\<exists>s'. thread_sys_join h tf t p s = Inr s' \<and> kinv s'
    \<and> (if t_state (g_threads s t) = THREAD_ZOMBIE
       then sched_abs s' = sched_abs s \<and> t_state (g_threads s' t) = THREAD_UNUSED
         \<and> tf_a0 (get_tf tf s') = 0 \<and> (p \<noteq> 0 \<longrightarrow> load_int32 p s' = t_exit_code (g_threads s t))
       else sched_abs s' = dispatch h False (sched_abs s)
         \<and> t_state (g_threads s' (cur s h)) = THREAD_WAITING \<and> t_waiting_for (g_threads s' (cur s h)) = t
         \<and> t_join_status_ptr (g_threads s' (cur s h)) = p \<and> t_join_waiter (g_threads s' t) = cur s h)"
proof (cases "t_state (g_threads s t) = THREAD_ZOMBIE")
  case True
  then show ?thesis using join_zombie_ok [OF assms(1,2,4) True assms(5)] by auto
next
  case False
  then show ?thesis using join_wait_ok [OF assms(1-4) False] by auto
qed

lemma m5_view: "cur m5 0 = 2" "running m5 0 (TF_THREAD 2)" "settled m5 3" "join_error m5 (cur m5 0) 3 = None"
proof -
  show c: "cur m5 0 = 2" using m5_run(3) m4_view(2) by (simp add: sched_abs_def dispatch_def requeue_def prod_eq_iff)
  have l: "live m5 k \<longleftrightarrow> k = 0" for k using still_live [OF still_exit [OF m5_run(1)]] m4_view(3) by simp
  show "running m5 0 (TF_THREAD 2)" using c l by (simp add: running_def)
  show "settled m5 3" by (rule alone_running [OF m5_run(2)]) (use c l two_harts in auto)
  show "join_error m5 (cur m5 0) 3 = None" using m5_run(4,6,7) c by (simp add: join_error_def THREAD_MAX_def)
qed

theorem join_collects_or_waits_witness:
  "(\<exists>s'. thread_sys_join 0 (TF_THREAD 2) 3 0x1000 m5 = Inr s' \<and> load_int32 0x1000 s' = 42 \<and> t_state (g_threads s' 3) = THREAD_UNUSED)
    \<and> (\<exists>s'. thread_sys_join 0 (TF_THREAD 2) 3 0x1000 m2 = Inr s' \<and> t_state (g_threads s' 2) = THREAD_WAITING \<and> t_join_waiter (g_threads s' 3) = 2)"
proof -
  have w: "is_worker (cur m5 0)" using m5_view(1) m2_cur by simp
  show ?thesis
    using join_collects_or_waits [OF m5_run(2) m5_view(2) w m5_view(4), of "0x1000"] m5_view(3) m5_run(4,5)
      join_collects_or_waits [OF m2_run(2) m2_view(4) m2_cur(2) m2_join(1), of "0x1000"] m2_join(2) m2_cur by auto
qed

text \<open>C19: \<open>kill\<close> of a killable thread leaves it dead: in no queue, and a zombie or already recycled; the caller
  gets 0 and goes on.\<close>

theorem kill_kills:
  assumes "kinv s" "live s h" "kill_error s (cur s h) t = None"
    "0 \<le> t_join_waiter (g_threads s t) \<Longrightarrow> t_join_waiter (g_threads s t) < THREAD_MAX \<Longrightarrow>
      t_join_waiter (g_threads s t) \<noteq> t \<and> settled s (t_join_waiter (g_threads s t))"
  shows "\<exists>s'. thread_sys_kill h tf t s = Inr (set_a0 tf 0 s') \<and> kinv (set_a0 tf 0 s') \<and> dead (set_a0 tf 0 s') t
    \<and> (\<forall>k. t \<notin> set (rq_list (set_a0 tf 0 s') k))"
proof -
  obtain s' where s': "thread_sys_kill h tf t s = Inr (set_a0 tf 0 s')" "kinv (set_a0 tf 0 s')" "dead (set_a0 tf 0 s') t"
    using kill_ok [OF assms] by blast
  have "t \<notin> set (rq_list (set_a0 tf 0 s') k)" for k
    using rq_wf_worker [OF kinv_wf [OF s'(2)], of t k] s'(3) by (auto simp: dead_def)
  with s' show ?thesis by blast
qed

lemma m2_kill: "kill_error m2 (cur m2 0) 3 = None"
  using m2_view m2_cur by (simp add: kill_error_def THREAD_MAX_def)

theorem kill_kills_witness:
  "\<exists>s'. thread_sys_kill 0 (TF_THREAD 2) 3 m2 = Inr (set_a0 (TF_THREAD 2) 0 s') \<and> dead (set_a0 (TF_THREAD 2) 0 s') 3"
  using kill_kills [OF m2_run(2) _ m2_kill, of "TF_THREAD 2"] m2_view(2,7) m1_view(3) by auto

text \<open>C21: \<open>detach\<close> of a joinable thread marks it, or frees its slot when it is a zombie that no hart still
  runs; otherwise the error code of the first failing check is returned. No thread changes its queue.\<close>

theorem detach_detaches:
  assumes "kinv s" "settled s t"
  shows "case detach_error s t of
      Some e \<Rightarrow> thread_sys_detach tf t s = set_a0 tf e s
    | None \<Rightarrow> kinv (thread_sys_detach tf t s) \<and> sched_abs (thread_sys_detach tf t s) = sched_abs s
        \<and> (if t_state (g_threads s t) = THREAD_ZOMBIE then t_state (g_threads (thread_sys_detach tf t s) t) = THREAD_UNUSED
           else t_detached (g_threads (thread_sys_detach tf t s) t)
             \<and> t_state (g_threads (thread_sys_detach tf t s) t) = t_state (g_threads s t))"
  using detach_ok [OF assms(1) _ assms(2)] detach_refused by (simp split: option.split)

theorem detach_detaches_witness: "t_detached (g_threads (thread_sys_detach (TF_THREAD 2) 3 m2) 3)"
proof -
  have "settled m2 3" using m2_view(5) by (simp add: settled_def)
  moreover have "detach_error m2 3 = None" using m2_view by (simp add: detach_error_def THREAD_MAX_def MAX_HARTS_def)
  ultimately show ?thesis using detach_detaches [OF m2_run(2), of 3 "TF_THREAD 2"] m2_view(5) by simp
qed

end
