(* ===== verification/Digits.thy ===== *)
theory Digits
  imports Prelude
begin

text \<open>
  Digits of a number in a base, least significant first, and the value of a digit sequence. The loops that
  print numbers, in the kernel (\<open>platform_put_dec_us\<close>), in the early console (\<open>sbi_put_dec\<close>) and in the user library
  (\<open>u_itoa\<close>), all produce these digits; their results are read back here.
\<close>

function udigits :: "nat \<Rightarrow> nat \<Rightarrow> nat list" where
  "udigits b n = (if b < 2 \<or> n = 0 then [] else n mod b # udigits b (n div b))"
  by pat_completeness auto
termination
  by (relation "measure snd") auto

declare udigits.simps [simp del]

primrec digits_val :: "nat \<Rightarrow> nat list \<Rightarrow> nat" where
  "digits_val b [] = 0"
| "digits_val b (d # ds) = d + b * digits_val b ds"

lemma udigits_0 [simp]: "udigits b 0 = []"
  by (simp add: udigits.simps)

lemma udigits_step: "2 \<le> b \<Longrightarrow> 0 < n \<Longrightarrow> udigits b n = n mod b # udigits b (n div b)"
  by (simp add: udigits.simps [of b n])

lemma digits_val_udigits [simp]: "2 \<le> b \<Longrightarrow> digits_val b (udigits b n) = n"
proof (induction b n rule: udigits.induct)
  case (1 b n)
  then show ?case by (cases "n = 0") (simp_all add: udigits_step)
qed

lemma udigits_less: "2 \<le> b \<Longrightarrow> d \<in> set (udigits b n) \<Longrightarrow> d < b"
proof (induction b n rule: udigits.induct)
  case (1 b n)
  then show ?case by (cases "n = 0") (auto simp: udigits_step)
qed

lemma udigits_length: "2 \<le> b \<Longrightarrow> n < b ^ k \<Longrightarrow> length (udigits b n) \<le> k"
proof (induction k arbitrary: n)
  case (Suc k)
  show ?case
  proof (cases "n = 0")
    case False
    have "n div b < b ^ k" using Suc.prems by (simp add: less_mult_imp_div_less mult.commute)
    then show ?thesis using Suc False by (simp add: udigits_step)
  qed simp
qed simp

lemma udigits_nonempty: "2 \<le> b \<Longrightarrow> 0 < n \<Longrightarrow> udigits b n \<noteq> []"
  by (simp add: udigits_step)

lemma udigits_last: "2 \<le> b \<Longrightarrow> 0 < n \<Longrightarrow> last (udigits b n) \<noteq> 0"
proof (induction b n rule: udigits.induct)
  case (1 b n)
  show ?case
  proof (cases "n div b = 0")
    case True
    then have "n < b" using 1(2,3) by (simp add: div_eq_0_iff)
    then show ?thesis using 1(2,3) True by (simp add: udigits_step)
  next
    case False
    then show ?thesis using 1 udigits_nonempty [of b "n div b"] by (simp add: udigits_step)
  qed
qed

text \<open>Reading a number, most significant digit first.\<close>

definition read_digits :: "nat \<Rightarrow> nat list \<Rightarrow> nat" where
  "read_digits b ds = foldl (\<lambda>a d. a * b + d) 0 ds"

lemma read_digits_rev: "read_digits b (rev ds) = digits_val b ds"
proof -
  have "foldr (\<lambda>d a. a * b + d) ds 0 = digits_val b ds" by (induction ds) (simp_all add: algebra_simps)
  then show ?thesis by (simp add: read_digits_def foldl_conv_foldr)
qed

lemma read_udigits: "2 \<le> b \<Longrightarrow> read_digits b (rev (udigits b n)) = n"
  by (simp add: read_digits_rev)

text \<open>A fixed number of digits: \<open>k\<close> digits of a number below \<open>b ^ k\<close>, by division by powers.\<close>

lemma read_fixed_aux:
  assumes "2 \<le> b" "n < b ^ k" "m \<le> k"
  shows "read_digits b (map (\<lambda>i. n div b ^ (k - 1 - i) mod b) [0..<m]) = n div b ^ (k - m)"
  using assms(3)
proof (induction m)
  case 0
  then show ?case using assms(2) by (simp add: read_digits_def)
next
  case (Suc m)
  have e: "k - m = Suc (k - 1 - m)" using Suc.prems by simp
  have "n div b ^ (k - m) * b + n div b ^ (k - 1 - m) mod b = n div b ^ (k - 1 - m)"
  proof -
    have "n div b ^ (k - m) = n div b ^ (k - 1 - m) div b" unfolding e by (simp add: div_mult2_eq [symmetric] mult.commute)
    then show ?thesis by (metis div_mult_mod_eq)
  qed
  then show ?case using Suc by (simp add: read_digits_def)
qed

lemma read_fixed:
  assumes "2 \<le> b" "n < b ^ k"
  shows "read_digits b (map (\<lambda>i. n div b ^ (k - 1 - i) mod b) [0..<k]) = n"
  using read_fixed_aux [OF assms, of k] by simp

section \<open>Numbers as text\<close>

text \<open>The digits of a number: at least one, no leading zero.\<close>

definition num_digits :: "nat \<Rightarrow> nat \<Rightarrow> nat list" where
  "num_digits b n = (if n = 0 then [0] else rev (udigits b n))"

lemma read_num_digits: "2 \<le> b \<Longrightarrow> read_digits b (num_digits b n) = n"
  by (simp add: num_digits_def read_udigits) (simp add: read_digits_def)

lemma num_digits_less: "2 \<le> b \<Longrightarrow> d \<in> set (num_digits b n) \<Longrightarrow> d < b"
  using udigits_less [of b d n] by (auto simp: num_digits_def split: if_splits)

text \<open>A digit as a character, with lower-case letters above nine.\<close>

definition digit_char :: "nat \<Rightarrow> u8" where
  "digit_char d = of_nat (if d < 10 then 48 + d else 87 + d)"

lemma ucast_unat: "ucast (w :: 'a::len word) = (of_nat (unat w) :: 'b::len word)"
  by (simp add: word_of_nat_eq_iff)

text \<open>A printing loop takes the last digit off a 64-bit value and turns it into a character at 32 and 8 bits.\<close>

lemma word_digit:
  fixes v :: u64 and base :: u32
  assumes "2 \<le> unat base" "unat base \<le> 16"
  shows "unat (ucast (v mod ucast base) :: u32) = unat v mod unat base" "unat (v div ucast base) = unat v div unat base"
proof -
  have "unat v mod unat base < 16" using mod_less_divisor [of "unat base" "unat v"] assms by linarith
  then show "unat (ucast (v mod ucast base) :: u32) = unat v mod unat base"
    by (simp add: unsigned_ucast_eq unat_mod take_bit_nat_eq_self)
  show "unat (v div ucast base) = unat v div unat base" by (simp add: unat_div)
qed

lemma digit_byte:
  fixes d :: u32 and a :: u8
  shows "(if d < 10 then 48 + ucast d else a + ucast (d - 10))
    = (if unat d < 10 then of_nat (48 + unat d) else a + of_nat (unat d - 10))"
proof -
  have u: "(ucast x :: u8) = of_nat (unat x)" for x :: u32 by (rule ucast_unat)
  have lt: "d < 10 \<longleftrightarrow> unat d < 10" by (simp add: word_less_nat_alt)
  show ?thesis
  proof (cases "unat d < 10")
    case True
    then show ?thesis by (simp only: lt u if_True of_nat_add of_nat_numeral)
  next
    case False
    then have "unat (d - 10) = unat d - 10" by (simp add: unat_sub word_le_nat_alt)
    then show ?thesis using False by (simp only: lt u if_False)
  qed
qed

end
