(* ===== verification/Device_Props.thy ===== *)
theory Device_Props
  imports Scenario Digits
begin

text \<open>
  What the console, the clock, the number printing and the interrupt controller do, stated on the functions of
  \<open>kernel/console.c\<close>, \<open>kernel/sysfile.c\<close>, \<open>kernel/time.c\<close> and \<open>platform/qemu-virt-sbi\<close>. Each theorem is followed
  by an application to a concrete state.
\<close>

text \<open>What waking and switching leave of the console's waiter and of the interrupt lines.\<close>

definition lines :: "kstate \<Rightarrow> (nat \<Rightarrow> u32 list) \<times> u64 \<times> (nat \<Rightarrow> nat)" where
  "lines s = (plic_claims s, plic_base s, \<lambda>k. c_hartid (g_cpus s k))"

lemma lines_upd [simp]:
  "lines (upd_thread i f s) = lines s" "lines (upd_rq h r s) = lines s" "lines (emit e s) = lines s"
  "lines (s\<lparr>uart_rx := y\<rparr>) = lines s" "lines (s\<lparr>g_stdin_waiter := w\<rparr>) = lines s" "lines (w32 a v s) = lines s"
  "lines (smp_kick_hart k s) = lines s" "lines (rb_push ch s) = lines s" "lines (s\<lparr>s_irq_stats := st\<rparr>) = lines s"
  "lines (upd_cpu h (\<lambda>c. c\<lparr>c_need_resched := b\<rparr>) s) = lines s"
  by (simp_all add: lines_def upd_thread_def upd_rq_def emit_def w32_def smp_kick_hart_def rb_push_def upd_cpu_def fun_eq_iff)

lemma lines_push: "rq_push_tail h t s = Inr s' \<Longrightarrow> lines s' = lines s \<and> g_stdin_waiter s' = g_stdin_waiter s"
  by (auto simp: rq_push_tail_def Let_def upd_rq_def upd_thread_def lines_def split: if_splits)

lemma lines_wake: "thread_wake h t s = Inr s' \<Longrightarrow> lines s' = lines s"
  by (auto simp: thread_wake_def thread_make_runnable_def bindE_eq_Inr dest!: lines_push split: if_splits)

section \<open>Console\<close>

lemma drain_idle:
  assumes "g_stdin_waiter s < 0"
  shows "uart_drain h bs s = Inr ((fold rb_push bs s)\<lparr>uart_rx := []\<rparr>)"
  using assms
proof (induction bs arbitrary: s)
  case (Cons b bs)
  have w: "g_stdin_waiter (rb_push b s) < 0" using Cons.prems by (simp add: rb_push_frame)
  have c: "rb_push b (s\<lparr>uart_rx := bs\<rparr>) = (rb_push b s)\<lparr>uart_rx := bs\<rparr>" for b bs s
    by (simp add: rb_push_def rb_is_full_def)
  have cs: "fold rb_push xs (s\<lparr>uart_rx := ys\<rparr>) = (fold rb_push xs s)\<lparr>uart_rx := ys\<rparr>" for xs ys s
    by (induction xs arbitrary: s) (simp_all add: c)
  show ?case
    using Cons.IH [of "(rb_push b s)\<lparr>uart_rx := bs\<rparr>"] w by (simp add: console_on_char_from_irq_def Let_def c cs)
qed simp

lemma rx_list_uart [simp]: "rx_list (s\<lparr>uart_rx := y\<rparr>) = rx_list s" "rx_ok (s\<lparr>uart_rx := y\<rparr>) = rx_ok s"
  by (simp_all add: rx_list_def rx_count_def rx_ok_def)

lemma uart_handler_idle:
  assumes "g_stdin_waiter s < 0"
  shows "uart16550_irq_handler h s = Inr (if uart_rx s = [] then s else (fold rb_push (uart_rx s) s)\<lparr>uart_rx := []\<rparr>)"
  using drain_idle [OF assms]
  by (simp add: uart16550_irq_handler_def numeral_2_eq_2 Let_def uart_iir_read_def UART_IIR_NO_PENDING_def
      UART_IIR_ID_RX_def UART_IIR_ID_RXTO_def UART_IIR_ID_MASK_def)

text \<open>C27: Input typed ahead is not lost: the interrupt handler empties the receiver into the ring, as far as the
  ring has room, and a later read delivers the ring's bytes, oldest first, into the caller's buffer.\<close>

theorem typed_ahead_is_read:
  assumes "rx_ok s" "g_stdin_waiter s < 0"
  defines "kept \<equiv> rx_list s @ take (RB - 1 - length (rx_list s)) (uart_rx s)"
  shows "\<exists>s1 s2. uart16550_irq_handler h s = Inr s1 \<and> uart_rx s1 = [] \<and> rx_ok s1 \<and> rx_list s1 = kept
    \<and> console_read_nonblock buf len s1 = (int (min (unat len) (length kept)), s2)
    \<and> heap_u8 s2 = store_bytes buf (take (unat len) kept) (heap_u8 s1) \<and> rx_list s2 = drop (unat len) kept"
proof -
  define s1 where "s1 = (if uart_rx s = [] then s else (fold rb_push (uart_rx s) s)\<lparr>uart_rx := []\<rparr>)"
  have r: "uart16550_irq_handler h s = Inr s1" using uart_handler_idle [OF assms(2)] by (simp add: s1_def)
  have k: "rx_ok s1" "rx_list s1 = kept" "uart_rx s1 = []"
    using rx.put_all [OF assms(1), of "uart_rx s"] assms(1) by (auto simp: s1_def kept_def)
  show ?thesis using r k console_read_law [OF k(1), of buf len] by auto
qed

definition cold_rx :: kstate where "cold_rx = cold0\<lparr>g_stdin_waiter := -1, uart_rx := [104, 105]\<rparr>"

theorem typed_ahead_is_read_witness:
  "\<exists>s1 s2. uart16550_irq_handler 0 cold_rx = Inr s1 \<and> console_read_nonblock 0x2000 8 s1 = (2, s2)
    \<and> heap_u8 s2 = store_bytes 0x2000 [104, 105] (heap_u8 s1)"
proof -
  have e: "rx_ok cold_rx" "g_stdin_waiter cold_rx < 0" "rx_list cold_rx = []" "uart_rx cold_rx = [104, 105]"
    by (simp_all add: cold_rx_def cold0_def rx_ok_def RB_def rx_list_def rx_count_def)
  show ?thesis using typed_ahead_is_read [OF e(1,2), of 0 "0x2000" 8] by (auto simp: e RB_def)
qed

text \<open>A character arrives for a blocked reader.\<close>

lemma on_char_delivers:
  fixes ch :: u8
  assumes K: "kinv s" and L: "live s h" and ok: "rx_ok s" and w: "0 \<le> w" "g_stdin_waiter s = w"
    and b: "t_state (g_threads s w) = THREAD_BLOCKED" "t_pending_read_buf (g_threads s w) = buf"
      "t_pending_read_len (g_threads s w) = len" "buf \<noteq> 0" "len \<noteq> 0"
  defines "ring \<equiv> rx_list (rb_push ch s)"
  shows "\<exists>s'. console_on_char_from_irq h ch s = Inr s' \<and> kinv s' \<and> g_stdin_waiter s' = -1
    \<and> heap_u8 s' = store_bytes buf (take (unat len) ring) (heap_u8 s) \<and> t_state (g_threads s' w) = THREAD_RUNNABLE
    \<and> tf_a0 (t_tf (g_threads s' w)) = of_nat (min (unat len) (length ring))
    \<and> (\<exists>k. live s k \<and> rq_list s' = (rq_list s)(k := rq_list s k @ [w]))"
proof -
  note F = rb_push_frame [of ch s]
  note V = kinv_cong [OF F(1-5)]
  note P = rb_push_law [OF ok, of ch]
  have K0: "kinv (rb_push ch s)" using K V(1) by simp
  obtain s1 where r: "console_read_nonblock buf len (rb_push ch s) = (int (min (unat len) (length ring)), s1)"
    "rx_frame (rb_push ch s) s1" "heap_u8 s1 = store_bytes buf (take (unat len) ring) (heap_u8 (rb_push ch s))"
    using console_read_law [OF P(1), of buf len] by (auto simp: ring_def)
  note F1 = rx_frameD [OF r(2), unfolded F]
  note V1 = kinv_cong [OF rx_frameD(1-5) [OF r(2)]]
  have K1: "kinv s1" using K0 V1(1) by simp
  let ?f = "\<lambda>t. t\<lparr>t_tf := (t_tf t)\<lparr>tf_a0 := word_of_int (int (min (unat len) (length ring)))\<rparr>,
    t_pending_read_buf := 0, t_pending_read_len := 0\<rparr>"
  let ?s2 = "upd_thread w ?f s1"
  have K2: "kinv ?s2" by (rule kinv_same [OF K1]) simp_all
  have vw: "valid_tid w" using w common_stdin [OF kinv_common [OF K]] by (simp add: valid_tid_def)
  have L2: "live ?s2 h" using L by (simp add: V V1)
  obtain s3 where s3: "thread_wake h w ?s2 = Inr s3" "kinv s3" "woken w (g_threads ?s2 w) ?s2 s3"
    using wake_ok [OF K2 L2, of w] vw b(1) by (auto simp: valid_tid_def F1)
  have ne: "ring \<noteq> []" using P(2) by (auto simp: ring_def RB_def)
  then have n: "min (unat len) (length ring) \<noteq> 0" using b(5) by (simp add: unat_gt_0 not_le min_def)
  have run: "console_on_char_from_irq h ch s = Inr (s3\<lparr>g_stdin_waiter := -1\<rparr>)"
    using w vw b r(1) s3(1)
    by (simp add: console_on_char_from_irq_def thread_read_from_stdin_def Let_def F F1 n)
  obtain k where k: "placed k ?s2" "rq_list s3 = (rq_list ?s2)(k := rq_list ?s2 k @ [w])"
    using s3(3) by (auto simp: woken_def)
  have q: "rq_list ?s2 = rq_list s" "live ?s2 = live s"
    using wf_upd_thread(2,3) [of ?f s1 w] V V1 by simp_all
  have lk: "live s k" using k(1) L q(2) by (auto simp: placed_def)
  note E = erase_sel [OF wokenD(5) [OF s3(3)]]
  have h3: "heap_u8 s3 = heap_u8 s1" using wokenD(6) [OF s3(3)] by simp
  have "kinv (s3\<lparr>g_stdin_waiter := -1\<rparr>)" using kinv_no_waiter [OF s3(2)] .
  moreover have "rq_list (s3\<lparr>g_stdin_waiter := -1\<rparr>) = (rq_list s)(k := rq_list s k @ [w])"
    using k(2) q(1) by (simp add: stdin_upd_view)
  ultimately show ?thesis
    using run lk E(2,12) h3 r(3) F(6) by auto
qed

text \<open>C28: A read from an empty console completes with the next character: \<open>read\<close> blocks the caller, and when a character
  arrives, on whichever hart takes the interrupt, it is stored in the caller's buffer, the call's result becomes 1, and the
  caller is put on the queue of an online hart.\<close>

theorem blocked_read_completes:
  assumes "kinv s" "running s h tf" "is_worker (cur s h)" "rx_ok s" "rx_list s = []" "buf \<noteq> 0" "len \<noteq> 0"
  shows "\<exists>s1. sys_read h FD_STDIN buf len tf s = Inr (0, False, s1) \<and> kinv s1 \<and> heap_u8 s1 = heap_u8 s \<and> live s1 = live s
    \<and> t_state (g_threads s1 (cur s h)) = THREAD_BLOCKED \<and> sched_abs s1 = dispatch h False (sched_abs s)
    \<and> (\<forall>i ch. live s1 i \<longrightarrow> (\<exists>s2. console_on_char_from_irq i ch s1 = Inr s2 \<and> kinv s2
        \<and> heap_u8 s2 = (heap_u8 s)(buf := ch) \<and> tf_a0 (t_tf (g_threads s2 (cur s h))) = 1
        \<and> t_state (g_threads s2 (cur s h)) = THREAD_RUNNABLE
        \<and> (\<exists>k. live s1 k \<and> rq_list s2 = (rq_list s1)(k := rq_list s1 k @ [cur s h]))))"
proof -
  have rd: "console_read_nonblock buf len s = (0, s)"
  proof -
    have "rb_is_empty s" using rb_empty_count [OF assms(4)] assms(5) by (simp add: rx_list_def)
    then have "console_read_loop (unat len) buf 0 s = (0, s)" by (cases "unat len") simp_all
    then show ?thesis by (simp add: console_read_nonblock_def to_int32_def)
  qed
  obtain s1 where s1: "thread_wait_for_stdin h buf len tf s = Inr s1" "kinv s1"
    "sched_abs s1 = dispatch h False (sched_abs s)" "t_state (g_threads s1 (cur s h)) = THREAD_BLOCKED"
    "t_pending_read_buf (g_threads s1 (cur s h)) = buf" "t_pending_read_len (g_threads s1 (cur s h)) = len"
    "g_stdin_waiter s1 = cur s h" "heap_u8 s1 = heap_u8 s"
    using block_ok [OF assms(1-3), of buf len] by blast
  have r: "sys_read h FD_STDIN buf len tf s = Inr (0, False, s1)" by (simp add: sys_read_def rd s1(1))
  have st: "still s1 = still s" using still_wait [OF s1(1)] .
  have ok: "rx_ok s1" "rx_list s1 = []" using assms(4,5) st still_rx_ok [OF st] by (simp_all add: still_def rx_list_def rx_count_def)
  have c: "0 \<le> cur s h" using assms(3) by (simp add: is_worker_def)
  have one: "rx_list (rb_push ch s1) = [ch]" for ch using rb_push_law(2) [OF ok(1)] ok(2) by (simp add: RB_def)
  have l: "0 < unat len" using assms(7) by (simp add: unat_gt_0)
  have "\<exists>s2. console_on_char_from_irq i ch s1 = Inr s2 \<and> kinv s2
        \<and> heap_u8 s2 = (heap_u8 s)(buf := ch) \<and> tf_a0 (t_tf (g_threads s2 (cur s h))) = 1
        \<and> t_state (g_threads s2 (cur s h)) = THREAD_RUNNABLE
        \<and> (\<exists>k. live s1 k \<and> rq_list s2 = (rq_list s1)(k := rq_list s1 k @ [cur s h]))" if "live s1 i" for i ch
  proof -
    have t: "take (unat len) [ch] = [ch]" "min (unat len) (length [ch]) = 1" using l by (simp_all add: take_Cons')
    show ?thesis
      using on_char_delivers [OF s1(2) that ok(1) c s1(7,4,5,6) assms(6,7), of ch]
      unfolding one t by (simp add: s1(8)) blast
  qed
  with r s1 still_live [OF st] show ?thesis by blast
qed

text \<open>The first thread of the scenario, with an empty receive ring.\<close>

definition m1_rx :: kstate where "m1_rx = m1\<lparr>g_rx_head := 0, g_rx_tail := 0\<rparr>"

lemma m1_rx_facts:
  "kinv m1_rx" "running m1_rx 0 (TF_THREAD 2)" "is_worker (cur m1_rx 0)" "rx_ok m1_rx" "rx_list m1_rx = []" "cur m1_rx 0 = 2"
  "live m1_rx k \<longleftrightarrow> k = 0"
proof -
  have e: "g_threads m1_rx = g_threads m1" "g_cpus m1_rx = g_cpus m1" "g_runqueues m1_rx = g_runqueues m1"
    "g_boot_hartid m1_rx = g_boot_hartid m1" "g_stdin_waiter m1_rx = g_stdin_waiter m1"
    by (simp_all add: m1_rx_def)
  show "kinv m1_rx" using kinv_cong(1) [OF e] m1_run(2) by simp
  show "running m1_rx 0 (TF_THREAD 2)" "is_worker (cur m1_rx 0)" "cur m1_rx 0 = 2" "live m1_rx k \<longleftrightarrow> k = 0"
    using m1_view by (simp_all add: running_def live_def cur_def e)
  show "rx_ok m1_rx" "rx_list m1_rx = []" by (simp_all add: m1_rx_def rx_ok_def rx_list_def rx_count_def RB_def)
qed

theorem blocked_read_completes_witness:
  "\<exists>s1 s2. sys_read 0 FD_STDIN 0x2000 16 (TF_THREAD 2) m1_rx = Inr (0, False, s1)
    \<and> console_on_char_from_irq 0 65 s1 = Inr s2 \<and> heap_u8 s2 0x2000 = 65 \<and> tf_a0 (t_tf (g_threads s2 2)) = 1"
proof -
  have nz: "(0x2000 :: u64) \<noteq> 0" "(16 :: u64) \<noteq> 0" by simp_all
  obtain s1 where s1: "sys_read 0 FD_STDIN 0x2000 16 (TF_THREAD 2) m1_rx = Inr (0, False, s1)"
    and l: "live s1 = live m1_rx" and r: "\<And>i ch. live s1 i \<Longrightarrow> \<exists>s2. console_on_char_from_irq i ch s1 = Inr s2
      \<and> heap_u8 s2 = (heap_u8 m1_rx)(0x2000 := ch) \<and> tf_a0 (t_tf (g_threads s2 2)) = 1"
    using blocked_read_completes [OF m1_rx_facts(1-5) nz]
    unfolding m1_rx_facts(6) by blast
  have "live s1 0" using l m1_rx_facts(7) by simp
  from r [OF this, of 65] s1 show ?thesis by auto
qed

text \<open>C29: \<open>write\<close> sends the bytes of the buffer to the UART in order, a carriage return before each newline, and
  returns the length; it writes to standard output and standard error only.\<close>

theorem write_outputs:
  assumes "buf \<noteq> 0"
  shows "sys_write fd buf len s =
    (if len = 0 then (0, s)
     else if fd = FD_STDOUT \<or> fd = FD_STDERR
     then (len, s\<lparr>k_events := k_events s @ map EvUart (crlf (load_bytes buf (unat len) (heap_u8 s)))\<rparr>)
     else (- 1, s))"
  by (simp add: sys_write_def console_write_def uart16550_write_eq [OF assms])

theorem write_outputs_witness:
  "k_events (snd (sys_write 1 0x2000 3 (cold0\<lparr>heap_u8 := store_bytes 0x2000 [104, 105, 10] (\<lambda>_. 0)\<rparr>)))
    = [EvUart 104, EvUart 105, EvUart 13, EvUart 10]"
proof -
  have "load_bytes 0x2000 3 (store_bytes 0x2000 [104, 105, 10] (\<lambda>_. 0)) = [104, 105, 10]"
    using load_store_bytes [of "[104, 105, 10]" "0x2000" "\<lambda>_. 0"] by (simp add: numeral_3_eq_3 del: store_bytes.simps)
  then show ?thesis
    by (simp add: write_outputs [of "0x2000"] FD_STDOUT_def crlf_def CH_NL_def CH_CR_def cold0_def del: store_bytes.simps)
qed

section \<open>Clock\<close>

lemma timebase_again: "platform_timebase_hz (snd (platform_timebase_hz s)) = platform_timebase_hz s"
  by (simp add: platform_timebase_hz_def Let_def)

lemma rtc_read_eq:
  "platform_rtc_read_ns s = (rtc_ns (fst (platform_timebase_hz s)) (csr_time s), s\<lparr>g_timebase_hz := fst (platform_timebase_hz s)\<rparr>)"
  by (simp add: platform_rtc_read_ns_def case_prod_beta timebase_frame)

text \<open>C30: \<open>clock_gettime\<close> stores the exact time: seconds and nanoseconds add up to the time counter scaled by the time base
  (less the boot time for the monotonic clock), and the nanosecond part is below one second. The two error cases
  store nothing.\<close>

theorem clock_gettime_exact:
  fixes s :: kstate
  defines "hz \<equiv> fst (platform_timebase_hz s)"
  defines "ns \<equiv> unat (csr_time s) * 1000000000 div unat hz"
  assumes "ns < 2 ^ 64" "unat (boot_real_ns s) \<le> ns"
  shows "case sys_clock_gettime clock_id p s of (rc, s') \<Rightarrow>
    if p \<noteq> 0 \<and> clock_id \<in> {CLOCK_REALTIME, CLOCK_MONOTONIC}
    then rc = 0 \<and> unat (tv_nsec (heap_ts s' p)) < 1000000000
      \<and> unat (tv_sec (heap_ts s' p)) * 1000000000 + unat (tv_nsec (heap_ts s' p))
          = (if clock_id = CLOCK_REALTIME then ns else ns - unat (boot_real_ns s))
    else rc = -1 \<and> heap_ts s' = heap_ts s"
proof -
  have e: "unat (rtc_ns hz (csr_time s)) = ns"
    using rtc_ns_exact [of hz "csr_time s"] timebase_pos [of s] assms(3) by (simp add: ns_def hz_def)
  have d: "unat (rtc_ns hz (csr_time s) - boot_real_ns s) = ns - unat (boot_real_ns s)"
    using assms(4) e by (simp add: unat_sub word_le_nat_alt)
  note T = ns_to_ts_exact [of "rtc_ns hz (csr_time s)"] ns_to_ts_exact [of "rtc_ns hz (csr_time s) - boot_real_ns s"]
  show ?thesis
    using T e d
    by (simp add: sys_clock_gettime_def ktime_get_real_ts_def ktime_get_monotonic_ts_def ktime_get_real_ns_def
        ktime_get_monotonic_ns_def rtc_read_eq hz_def [symmetric] copy_to_user_timespec_def CLOCK_REALTIME_def
        CLOCK_MONOTONIC_def)
qed

theorem clock_gettime_exact_witness:
  "fst (sys_clock_gettime 0 0x2000 (cold0\<lparr>csr_time := 12345678\<rparr>)) = 0
    \<and> unat (tv_sec (heap_ts (snd (sys_clock_gettime 0 0x2000 (cold0\<lparr>csr_time := 12345678\<rparr>))) 0x2000)) * 1000000000
      + unat (tv_nsec (heap_ts (snd (sys_clock_gettime 0 0x2000 (cold0\<lparr>csr_time := 12345678\<rparr>))) 0x2000)) = 1234567800"
  using clock_gettime_exact [where s = "cold0\<lparr>csr_time := 12345678\<rparr>" and clock_id = 0 and p = "0x2000"]
  by (simp add: case_prod_beta CLOCK_REALTIME_def platform_timebase_hz_def cold0_def Let_def)

section \<open>Interrupt statistics\<close>

text \<open>The gaps between successive interrupts.\<close>

fun gaps :: "u64 list \<Rightarrow> u64 list" where
  "gaps (a # b # ts) = (b - a) # gaps (b # ts)"
| "gaps _ = []"

lemma account_run:
  assumes "0 < unat (st_count st)" "unat (st_count st) + length ts < 2 ^ 64"
  shows "unat (st_count (fold irq_account ts st)) = unat (st_count st) + length ts
    \<and> st_first_tick (fold irq_account ts st) = st_first_tick st
    \<and> st_last_tick (fold irq_account ts st) = last (st_last_tick st # ts)
    \<and> st_max_delta (fold irq_account ts st) = fold max (gaps (st_last_tick st # ts)) (st_max_delta st)"
  using assms
proof (induction ts arbitrary: st)
  case (Cons t ts)
  have c: "unat (st_count (irq_account t st)) = Suc (unat (st_count st))"
    using Cons.prems(2) by (simp add: irq_account_def Let_def unat_inc)
  have o: "st_first_tick (irq_account t st) = st_first_tick st" "st_last_tick (irq_account t st) = t"
    "st_max_delta (irq_account t st) = max (t - st_last_tick st) (st_max_delta st)"
    using Cons.prems(1) by (auto simp: irq_account_def Let_def max_def unat_gt_0)
  show ?case using Cons.IH [of "irq_account t st"] Cons.prems(2) by (simp add: c o)
qed simp

text \<open>C31: The statistics of an interrupt line are exact: after interrupts at the times \<open>t # ts\<close> the counter is their number,
  the first and last time are recorded, and the largest gap is the maximum of the gaps between neighbours.\<close>

theorem irq_statistics_exact:
  fixes t :: u64 and ts :: "u64 list"
  assumes "st_count st = 0" "length ts < 2 ^ 64 - 1"
  defines "st' \<equiv> fold irq_account (t # ts) st"
  shows "unat (st_count st') = length (t # ts) \<and> st_first_tick st' = t \<and> st_last_tick st' = last (t # ts)
    \<and> st_max_delta st' = fold max (gaps (t # ts)) (st_max_delta st)"
proof -
  let ?st = "irq_account t st"
  have o: "unat (st_count ?st) = 1" "st_first_tick ?st = t" "st_last_tick ?st = t" "st_max_delta ?st = st_max_delta st"
    using assms(1) by (simp_all add: irq_account_def Let_def)
  show ?thesis using account_run [of ?st ts] assms(2) by (simp add: o st'_def)
qed

theorem irq_statistics_exact_witness:
  "fold irq_account [10, 25, 31] \<lparr>st_count = 0, st_last_tick = 0, st_first_tick = 0, st_max_delta = 0\<rparr>
    = \<lparr>st_count = 3, st_last_tick = 31, st_first_tick = 10, st_max_delta = 15\<rparr>"
  using irq_statistics_exact [where st = "\<lparr>st_count = 0, st_last_tick = 0, st_first_tick = 0, st_max_delta = 0\<rparr>" and ts = "[25, 31]" and t = 10]
  by (simp add: irq_account_def Let_def)

section \<open>Printing numbers\<close>

lemma dec_tmp_digits: "dec_tmp x = map (\<lambda>d. char_of (48 + d)) (udigits 10 (unat x))"
proof (induction x rule: dec_tmp.induct)
  case (1 x)
  show ?case
  proof (cases "x = 0")
    case True
    then show ?thesis by (simp add: dec_tmp.simps)
  next
    case False
    have m: "unat (x - x div 10 * 10) = unat x mod 10" by (simp add: minus_div_mult_eq_mod unat_mod)
    have "dec_tmp x = char_of (48 + unat x mod 10) # dec_tmp (x div 10)"
      using False by (subst dec_tmp.simps) (simp add: m word_gt_0)
    moreover have "udigits 10 (unat x) = unat x mod 10 # udigits 10 (unat x div 10)"
      using False by (simp add: udigits_step unat_gt_0)
    ultimately show ?thesis using 1 False by (simp add: word_gt_0 unat_div)
  qed
qed

text \<open>The digit a character stands for.\<close>

definition char_digit :: "char \<Rightarrow> nat" where "char_digit c = of_char c - 48"

lemma char_digit_dec: "d < 10 \<Longrightarrow> char_digit (char_of (48 + d)) = d"
  by (simp add: char_digit_def)

lemma put_dec_us_digits:
  "map char_digit (put_dec_us_buf x) = (if x = 0 then [0] else rev (udigits 10 (unat x)))"
proof (cases "x = 0")
  case False
  have "map char_digit (map (\<lambda>d. char_of (48 + d)) (udigits 10 (unat x))) = udigits 10 (unat x)"
    unfolding map_map by (rule map_idI) (simp add: char_digit_dec udigits_less)
  then show ?thesis using False by (simp add: put_dec_us_buf_def dec_tmp_digits rev_map [symmetric] del: map_map)
qed (simp add: put_dec_us_buf_def char_digit_def)

lemma put_dec_facts:
  "(\<forall>c\<in>set (put_dec_us_buf x). of_char c \<in> {48..57::nat})
   \<and> read_digits 10 (map char_digit (put_dec_us_buf x)) = unat x
   \<and> (x \<noteq> 0 \<longrightarrow> char_digit (hd (put_dec_us_buf x)) \<noteq> 0) \<and> length (put_dec_us_buf x) \<in> {1..20}"
proof (cases "x = 0")
  case True
  then show ?thesis by (simp add: put_dec_us_buf_def char_digit_def read_digits_def)
next
  case False
  let ?ds = "udigits 10 (unat x)"
  have n: "?ds \<noteq> []" "last ?ds \<noteq> 0" using False by (simp_all add: udigits_nonempty udigits_last unat_gt_0)
  have b: "put_dec_us_buf x = map (\<lambda>d. char_of (48 + d)) (rev ?ds)" using False by (simp add: put_dec_us_buf_def dec_tmp_digits rev_map)
  have "last ?ds < 10" using udigits_less [of 10 "last ?ds" "unat x"] n(1) by simp
  then have h: "char_digit (hd (put_dec_us_buf x)) \<noteq> 0" using n by (simp add: b hd_map hd_rev char_digit_dec)
  have "unat x < 10 ^ 20" using unat_lt [of x] by (rule less_le_trans) simp
  then have l: "length ?ds \<le> 20" by (simp add: udigits_length)
  have r: "read_digits 10 (map char_digit (put_dec_us_buf x)) = unat x"
    using False by (simp add: put_dec_us_digits read_udigits)
  have c: "of_char c \<in> {48..57::nat}" if "c \<in> set (put_dec_us_buf x)" for c
    using that udigits_less [of 10 _ "unat x"] by (auto simp: b dest!: udigits_less [rotated]) 
  show ?thesis using c r h l n(1) by (simp add: b Suc_le_eq)
qed

text \<open>Reading back a hexadecimal digit.\<close>

definition hex_value :: "char \<Rightarrow> nat" where
  "hex_value c = (if of_char c < (97::nat) then of_char c - 48 else of_char c - 87)"

lemma unat_nibble: "unat (nibble x i) = unat x div 2 ^ i mod 16"
proof -
  have "drop_bit i x AND 0xF = take_bit 4 (drop_bit i x)" by (simp add: take_bit_eq_mask mask_numeral)
  then have "unat (drop_bit i x AND 0xF) = take_bit 4 (drop_bit i (unat x))"
    using unat_lt [of x] by (simp only: unsigned_take_bit_eq unsigned_drop_bit_eq) (simp add: take_bit_nat_eq_self)
  then have "unat (drop_bit i x AND 0xF) = unat x div 2 ^ i mod 16"
    by (simp only: take_bit_eq_mod drop_bit_eq_div) simp
  then show ?thesis by (simp add: nibble_def unsigned_ucast_eq take_bit_nat_eq_self)
qed

lemma hex_value_digit: "unat n < 16 \<Longrightarrow> hex_value (char_of (unat (hex_digit n))) = unat n"
proof -
  assume n: "unat n < 16"
  have "hex_digit n = of_nat (if unat n < 10 then 48 + unat n else 87 + unat n)"
    by (simp add: hex_digit_def word_less_nat_alt)
  then have "unat (hex_digit n) = (if unat n < 10 then 48 + unat n else 87 + unat n)"
    using n by (simp add: unat_of_nat)
  then show ?thesis using n by (simp add: hex_value_def)
qed

lemma put_hex_facts:
  "take 2 (put_hex64_buf x) = ''0x'' \<and> length (put_hex64_buf x) = 18
   \<and> read_digits 16 (map hex_value (drop 2 (put_hex64_buf x))) = unat x"
proof -
  have p: "2 ^ (60 - 4 * k) = (16::nat) ^ (16 - 1 - k)" if "k < 16" for k
  proof -
    have "60 - 4 * k = 4 * (16 - 1 - k)" using that by simp
    then show ?thesis by (simp add: power_mult)
  qed
  have "map hex_value (drop 2 (put_hex64_buf x)) = map (\<lambda>k. unat x div 16 ^ (16 - 1 - k) mod 16) [0..<16]"
    by (simp add: put_hex64_buf_def nibble_positions_def hex_value_digit unat_nibble p del: upt.simps upt_Suc)
  moreover have "unat x < 16 ^ 16" using unat_lt [of x] by simp
  ultimately have "read_digits 16 (map hex_value (drop 2 (put_hex64_buf x))) = unat x"
    using read_fixed [of 16 "unat x" 16] by simp
  then show ?thesis by (simp add: put_hex64_buf_def nibble_positions_def del: upt.simps upt_Suc)
qed

text \<open>C32: The kernel prints numbers right. The characters of \<open>platform_put_dec_us\<close> are decimal digits, read as a decimal
  number they give the argument, there is no leading zero, and at most 20 characters are written, which is what its buffers
  hold. \<open>platform_put_hex64\<close> prints \<open>0x\<close> and sixteen hexadecimal digits, which read as a number give the
  argument.\<close>

theorem put_numbers_correct:
  "(\<forall>c\<in>set (put_dec_us_buf x). of_char c \<in> {48..57::nat})
   \<and> read_digits 10 (map char_digit (put_dec_us_buf x)) = unat x
   \<and> (x \<noteq> 0 \<longrightarrow> char_digit (hd (put_dec_us_buf x)) \<noteq> 0) \<and> length (put_dec_us_buf x) \<in> {1..20}
   \<and> take 2 (put_hex64_buf x) = ''0x'' \<and> length (put_hex64_buf x) = 18
   \<and> read_digits 16 (map hex_value (drop 2 (put_hex64_buf x))) = unat x"
  using put_dec_facts [of x] put_hex_facts [of x] by blast

theorem put_numbers_correct_witness:
  "read_digits 10 (map char_digit (put_dec_us_buf 4096)) = 4096 \<and> put_dec_us_buf 4096 = ''4096''"
proof -
  have "put_dec_us_buf 4096 = ''4096''" by code_simp
  then show ?thesis using put_numbers_correct [of 4096] by simp
qed

section \<open>Interrupt controller\<close>

definition irq_enabled :: "nat \<Rightarrow> u32 \<Rightarrow> kstate \<Rightarrow> bool" where
  "irq_enabled h irq s \<longleftrightarrow> bit (r32 (plic_word_off h irq s) s) (unat (irq mod 32))"

lemma plic_off_value:
  assumes "c_hartid (g_cpus s h) < 2 ^ 16" "unat irq < 1024"
  shows "unat (plic_word_off h irq s) = 0x2080 + 256 * c_hartid (g_cpus s h) + 4 * (unat irq div 32)"
proof -
  have "plic_word_off h irq s = of_nat (0x2080 + 256 * c_hartid (g_cpus s h) + 4 * (unat irq div 32))"
    by (simp add: plic_word_off_def plic_senable_offset_for_hart_def cpu_current_hartid_def
        PLIC_SENABLE_HART0_OFFSET_def PLIC_CONTEXTS_PER_HART_def PLIC_ENABLE_PER_CONTEXT_STRIDE_def
        word_arith_nat_div)
  moreover have "0x2080 + 256 * c_hartid (g_cpus s h) + 4 * (unat irq div 32) < 2 ^ 32" using assms by simp
  ultimately show ?thesis by (simp only: unat_of_nat) (simp add: take_bit_nat_eq_self)
qed

lemma stride_inj: "b < 64 \<Longrightarrow> b' < 64 \<Longrightarrow> 256 * a + 4 * b = 256 * a' + 4 * b' \<longleftrightarrow> a = a' \<and> b = (b' :: nat)"
proof
  assume b: "b < 64" "b' < 64" and e: "256 * a + 4 * b = 256 * a' + 4 * b'"
  have "(256 * a + 4 * b) div 256 = a" "(256 * a' + 4 * b') div 256 = a'" using b by simp_all
  with e show "a = a' \<and> b = b'" by simp
qed simp

lemma plic_off_inj:
  assumes "c_hartid (g_cpus s h) < 2 ^ 16" "unat irq < 1024" "c_hartid (g_cpus s h') < 2 ^ 16" "unat irq' < 1024"
  shows "plic_word_off h irq s = plic_word_off h' irq' s
    \<longleftrightarrow> c_hartid (g_cpus s h) = c_hartid (g_cpus s h') \<and> unat irq div 32 = unat irq' div 32"
proof -
  have "unat irq div 32 < 32" "unat irq' div 32 < 32" using assms by simp_all
  then show ?thesis
    unfolding word_unat_eq_iff plic_off_value [OF assms(1,2)] plic_off_value [OF assms(3,4)]
    using stride_inj [of "unat irq div 32" "unat irq' div 32"] by simp
qed

lemma irq_split: "unat irq div 32 = unat irq' div 32 \<Longrightarrow> unat (irq mod 32) = unat (irq' mod 32) \<longleftrightarrow> irq = (irq' :: u32)"
  unfolding word_unat_eq_iff [of irq] by (simp add: unat_mod) (metis div_mult_mod_eq)

lemma word_off_w32 [simp]: "plic_word_off h irq (w32 a v s) = plic_word_off h irq s"
  by (simp add: plic_word_off_def cpu_current_hartid_def w32_def)

lemma r32_w32 [simp]: "r32 b (w32 a v s) = (if b = a then v else r32 b s)"
  by (simp add: r32_def w32_def)

text \<open>C34: Enabling and disabling an interrupt changes the enable bit of that interrupt for the calling hart and no other: the
  words of different harts are disjoint, and the other bits of the word are kept.\<close>

theorem plic_enable_exact:
  assumes "plic_base s \<noteq> 0" "irq \<noteq> 0" "irq \<le> plic_num_sources s" "unat irq < 1024" "unat irq' < 1024"
    "c_hartid (g_cpus s h) < 2 ^ 16" "c_hartid (g_cpus s h') < 2 ^ 16"
  defines "same \<equiv> c_hartid (g_cpus s h') = c_hartid (g_cpus s h) \<and> irq' = irq"
  shows "irq_enabled h' irq' (plic_enable_irq h irq s) = (same \<or> irq_enabled h' irq' s)
    \<and> irq_enabled h' irq' (plic_disable_irq h irq s) = (\<not> same \<and> irq_enabled h' irq' s)"
proof -
  have b: "plic_ensure_base s = s" using assms(1) by (simp add: plic_ensure_base_def)
  have g: "\<not> (plic_num_sources s \<noteq> 0 \<and> irq > plic_num_sources s)" using assms(3) by auto
  have m: "unat (irq mod 32) < 32" "unat (irq' mod 32) < 32" by (simp_all add: unat_mod)
  note I = plic_off_inj [OF assms(7,5,6,4)]
  show ?thesis
  proof (cases "plic_word_off h' irq' s = plic_word_off h irq s")
    case True
    then have same: "same \<longleftrightarrow> unat (irq' mod 32) = unat (irq mod 32)" using I irq_split [of irq' irq] by (auto simp: same_def)
    show ?thesis
      using assms(1,2) g m
      by (simp add: irq_enabled_def plic_enable_irq_def plic_disable_irq_def Let_def b True same)
        (auto simp: bit_simps)
  next
    case False
    then have "\<not> same" using I by (auto simp: same_def)
    then show ?thesis
      using assms(1,2) g False by (simp add: irq_enabled_def plic_enable_irq_def plic_disable_irq_def Let_def b)
  qed
qed

theorem plic_enable_exact_witness:
  "irq_enabled 0 10 (plic_enable_irq 0 10 (cold0\<lparr>plic_base := 0x0C000000, plic_num_sources := 95\<rparr>))
   \<and> \<not> irq_enabled 0 11 (plic_enable_irq 0 10 (cold0\<lparr>plic_base := 0x0C000000, plic_num_sources := 95\<rparr>))"
  using plic_enable_exact [of "cold0\<lparr>plic_base := 0x0C000000, plic_num_sources := 95\<rparr>" 10 10 0 0]
    plic_enable_exact [of "cold0\<lparr>plic_base := 0x0C000000, plic_num_sources := 95\<rparr>" 10 11 0 0]
  by (simp add: cold0_def cpu0_def irq_enabled_def r32_def)

lemma lines_char:
  assumes "console_on_char_from_irq h ch s = Inr s'"
  shows "lines s' = lines s"
proof -
  have rd: "lines s2 = lines s1" if "console_read_nonblock b l s1 = (n, s2)" for b l s1 n s2
  proof -
    have "lines (snd (console_read_loop k b m s1)) = lines s1" for k m s1
      by (induction k b m s1 rule: console_read_loop.induct) (simp_all add: lines_def)
    then show ?thesis using that by (auto simp: console_read_nonblock_def split: prod.splits dest!: arg_cong [where f = snd])
  qed
  show ?thesis
    using assms
    by (auto simp: console_on_char_from_irq_def thread_read_from_stdin_def Let_def bindE_eq_Inr
        split: if_splits prod.splits dest!: lines_wake rd)
qed

lemma lines_drain: "uart_drain h bs s = Inr s' \<Longrightarrow> lines s' = lines s"
  by (induction h bs s rule: uart_drain.induct) (auto simp: bindE_eq_Inr dest!: lines_char)

lemma lines_uart_loop: "uart_irq_loop n h s = Inr s' \<Longrightarrow> lines s' = lines s"
  by (induction n h s rule: uart_irq_loop.induct) (auto simp: Let_def bindE_eq_Inr split: if_splits dest!: lines_drain)

lemma lines_puts [simp]: "lines (platform_puts str s) = lines s"
proof -
  have "lines (fold (\<lambda>c s. uart_put_translated (of_char c) s) str s) = lines s"
    by (induction str arbitrary: s) (simp_all add: uart_put_translated_def uart16550_putc_def)
  then show ?thesis by (simp add: platform_puts_def uart16550_puts_def)
qed

lemma lines_handle: "handle_irq h irq s = Inr s' \<Longrightarrow> lines s' = lines s"
  by (auto simp: handle_irq_def Let_def run_irq_handler_def uart16550_irq_handler_def
      split: option.splits irq_handler.splits if_splits dest!: lines_uart_loop)

lemma plic_base_set: "plic_base s \<noteq> 0 \<Longrightarrow> plic_ensure_base s = s"
  by (simp add: plic_ensure_base_def)

lemma claims_used_up:
  assumes "handle_claims h hid cs s = Inr s'" "plic_claims s hid = cs" "plic_base s \<noteq> 0"
  shows "plic_claims s' hid = tl (dropWhile ((\<noteq>) 0) cs)"
  using assms
proof (induction h hid cs s rule: handle_claims.induct)
  case (2 h hid irq rest s)
  let ?s1 = "s\<lparr>plic_claims := (plic_claims s)(hid := rest)\<rparr>"
  show ?case
  proof (cases "irq = 0")
    case True
    then show ?thesis using 2(2) by auto
  next
    case False
    then obtain s2 where s2: "handle_irq h irq ?s1 = Inr s2" and n: "handle_claims h hid rest (plic_complete h irq s2) = Inr s'"
      using 2(2) by (auto simp: Let_def bindE_eq_Inr)
    have l: "lines s2 = lines ?s1" using lines_handle [OF s2] .
    then have b: "plic_base s2 \<noteq> 0" "plic_claims s2 hid = rest" using 2(4) by (simp_all add: lines_def)
    then have "plic_base (plic_complete h irq s2) \<noteq> 0" "plic_claims (plic_complete h irq s2) hid = rest"
      by (simp_all add: plic_complete_def plic_base_set Let_def w32_def)
    from 2(1) [OF refl False n this(2,1)] False show ?thesis by simp
  qed
qed simp


definition cold_irq :: kstate where
  "cold_irq = cold0\<lparr>plic_base := 0x0C000000, plic_claims := (\<lambda>_. [7, 9])\<rparr>"


end
