(* ===== verification/Lib_String.thy ===== *)
theory Lib_String
  imports Memory
begin

text \<open>
  The string routines of the kernel (\<open>lib/string.c\<close>) and of the user library (\<open>user/ulib_string.c\<close>), on
  byte-addressed memory with 64-bit address arithmetic. A loop that counts to \<open>n\<close> is a recursion on the
  rounds left; a loop that looks for the terminating zero byte is a partial function, since it does not
  end in a memory without one. The routines of the two libraries have the same loops; these are defined
  once. Plain \<open>char\<close> is unsigned on this platform, so bytes stand for both.
\<close>

section \<open>Loops\<close>

text \<open>\<open>for (i = 0; i < n; ++i) d[i] = s[i]\<close>, with \<open>k = n - i\<close> rounds left.\<close>

fun copy_up :: "nat \<Rightarrow> u64 \<Rightarrow> u64 \<Rightarrow> nat \<Rightarrow> mem \<Rightarrow> mem" where
  "copy_up 0 d s i m = m"
| "copy_up (Suc k) d s i m = copy_up k d s (Suc i) (m(d + of_nat i := m (s + of_nat i)))"

text \<open>\<open>for (i = n; i > 0; i--) d[i - 1] = s[i - 1]\<close>\<close>

fun copy_down :: "u64 \<Rightarrow> u64 \<Rightarrow> nat \<Rightarrow> mem \<Rightarrow> mem" where
  "copy_down d s 0 m = m"
| "copy_down d s (Suc i) m = copy_down d s i (m(d + of_nat i := m (s + of_nat i)))"

fun fill_up :: "nat \<Rightarrow> u64 \<Rightarrow> u8 \<Rightarrow> nat \<Rightarrow> mem \<Rightarrow> mem" where
  "fill_up 0 p v i m = m"
| "fill_up (Suc k) p v i m = fill_up k p v (Suc i) (m(p + of_nat i := v))"

fun compare_up :: "nat \<Rightarrow> u64 \<Rightarrow> u64 \<Rightarrow> nat \<Rightarrow> mem \<Rightarrow> int" where
  "compare_up 0 a b i m = 0"
| "compare_up (Suc k) a b i m =
     (if m (a + of_nat i) \<noteq> m (b + of_nat i) then uint (m (a + of_nat i)) - uint (m (b + of_nat i))
      else compare_up k a b (Suc i) m)"

fun find_up :: "nat \<Rightarrow> u64 \<Rightarrow> u8 \<Rightarrow> nat \<Rightarrow> mem \<Rightarrow> u64" where
  "find_up 0 p c i m = 0"
| "find_up (Suc k) p c i m = (if m (p + of_nat i) = c then p + of_nat i else find_up k p c (Suc i) m)"

text \<open>The cast \<open>(unsigned char)c\<close> of an \<open>int\<close>.\<close>

definition to_char :: "int \<Rightarrow> u8" where "to_char c = word_of_int c"

section \<open>lib/string.c\<close>

definition memmove :: "u64 \<Rightarrow> u64 \<Rightarrow> u64 \<Rightarrow> mem \<Rightarrow> u64 \<times> mem" where
  "memmove dest src n m =
     (if dest = src \<or> n = 0 then (dest, m)
      else if dest < src then (dest, copy_up (unat n) dest src 0 m)
      else (dest, copy_down dest src (unat n) m))"

definition memchr :: "u64 \<Rightarrow> int \<Rightarrow> u64 \<Rightarrow> mem \<Rightarrow> u64" where
  "memchr s c n m = find_up (unat n) s (to_char c) 0 m"

definition memset :: "u64 \<Rightarrow> int \<Rightarrow> u64 \<Rightarrow> mem \<Rightarrow> u64 \<times> mem" where
  "memset s c n m = (s, fill_up (unat n) s (to_char c) 0 m)"

definition memcpy :: "u64 \<Rightarrow> u64 \<Rightarrow> u64 \<Rightarrow> mem \<Rightarrow> u64 \<times> mem" where
  "memcpy dest src n m = (dest, copy_up (unat n) dest src 0 m)"

definition memcmp :: "u64 \<Rightarrow> u64 \<Rightarrow> u64 \<Rightarrow> mem \<Rightarrow> int" where
  "memcmp s1 s2 n m = compare_up (unat n) s1 s2 0 m"

partial_function (option) strlen_loop :: "u64 \<Rightarrow> u64 \<Rightarrow> mem \<Rightarrow> u64 option" where
  "strlen_loop s n m = (if m (s + n) \<noteq> 0 then strlen_loop s (n + 1) m else Some n)"

definition strlen :: "u64 \<Rightarrow> mem \<Rightarrow> u64 option" where
  "strlen s m = strlen_loop s 0 m"

text \<open>The scan of \<open>strchr\<close>; 0 is the null pointer.\<close>

partial_function (option) strchr_loop :: "u64 \<Rightarrow> u8 \<Rightarrow> mem \<Rightarrow> u64 option" where
  "strchr_loop s ch m =
     (if m s \<noteq> 0 then (if m s = ch then Some s else strchr_loop (s + 1) ch m)
      else Some (if ch = 0 then s else 0))"

definition strchr :: "u64 \<Rightarrow> int \<Rightarrow> mem \<Rightarrow> u64 option" where
  "strchr s c m = strchr_loop s (to_char c) m"

partial_function (option) strrchr_loop :: "u64 \<Rightarrow> u8 \<Rightarrow> u64 \<Rightarrow> mem \<Rightarrow> u64 option" where
  "strrchr_loop s ch lst m =
     (if m s \<noteq> 0 then strrchr_loop (s + 1) ch (if m s = ch then s else lst) m
      else Some (if ch = 0 then s else lst))"

definition strrchr :: "u64 \<Rightarrow> int \<Rightarrow> mem \<Rightarrow> u64 option" where
  "strrchr s c m = strrchr_loop s (to_char c) 0 m"

text \<open>The loop of \<open>strnlen\<close>, with \<open>k = maxlen - i\<close> rounds left.\<close>

fun strnlen_loop :: "nat \<Rightarrow> u64 \<Rightarrow> nat \<Rightarrow> mem \<Rightarrow> nat" where
  "strnlen_loop 0 s i m = i"
| "strnlen_loop (Suc k) s i m = (if m (s + of_nat i) \<noteq> 0 then strnlen_loop k s (Suc i) m else i)"

definition strnlen :: "u64 \<Rightarrow> u64 \<Rightarrow> mem \<Rightarrow> u64" where
  "strnlen s maxlen m = of_nat (strnlen_loop (unat maxlen) s 0 m)"

section \<open>user/ulib_string.c\<close>

definition u_memcpy :: "u64 \<Rightarrow> u64 \<Rightarrow> u64 \<Rightarrow> mem \<Rightarrow> u64 \<times> mem" where
  "u_memcpy dst src n m = (dst, copy_up (unat n) dst src 0 m)"

definition u_memmove :: "u64 \<Rightarrow> u64 \<Rightarrow> u64 \<Rightarrow> mem \<Rightarrow> u64 \<times> mem" where
  "u_memmove dst src n m =
     (if dst = src \<or> n = 0 then (dst, m)
      else if dst < src then (dst, copy_up (unat n) dst src 0 m)
      else (dst, copy_down dst src (unat n) m))"

definition u_memset :: "u64 \<Rightarrow> int \<Rightarrow> u64 \<Rightarrow> mem \<Rightarrow> u64 \<times> mem" where
  "u_memset s c n m = (s, fill_up (unat n) s (to_char c) 0 m)"

definition u_memcmp :: "u64 \<Rightarrow> u64 \<Rightarrow> u64 \<Rightarrow> mem \<Rightarrow> int" where
  "u_memcmp s1 s2 n m = compare_up (unat n) s1 s2 0 m"

definition u_strlen :: "u64 \<Rightarrow> mem \<Rightarrow> u64 option" where
  "u_strlen s m = strlen_loop s 0 m"

partial_function (option) u_strcmp :: "u64 \<Rightarrow> u64 \<Rightarrow> mem \<Rightarrow> int option" where
  "u_strcmp a b m =
     (if m a \<noteq> 0 \<and> m a = m b then u_strcmp (a + 1) (b + 1) m else Some (uint (m a) - uint (m b)))"

fun strncmp_loop :: "nat \<Rightarrow> u64 \<Rightarrow> u64 \<Rightarrow> nat \<Rightarrow> mem \<Rightarrow> int" where
  "strncmp_loop 0 a b i m = 0"
| "strncmp_loop (Suc k) a b i m =
     (let ca = m (a + of_nat i); cb = m (b + of_nat i) in
      if ca \<noteq> cb then uint ca - uint cb else if ca = 0 then 0 else strncmp_loop k a b (Suc i) m)"

definition u_strncmp :: "u64 \<Rightarrow> u64 \<Rightarrow> u64 \<Rightarrow> mem \<Rightarrow> int" where
  "u_strncmp a b n m = strncmp_loop (unat n) a b 0 m"

partial_function (option) strcpy_loop :: "u64 \<Rightarrow> u64 \<Rightarrow> mem \<Rightarrow> mem option" where
  "strcpy_loop dst src m =
     (let c = m src; m' = m(dst := c) in if c \<noteq> 0 then strcpy_loop (dst + 1) (src + 1) m' else Some m')"

definition u_strcpy :: "u64 \<Rightarrow> u64 \<Rightarrow> mem \<Rightarrow> (u64 \<times> mem) option" where
  "u_strcpy dst src m = map_option (\<lambda>m'. (dst, m')) (strcpy_loop dst src m)"

text \<open>The first loop of \<open>u_strncpy\<close>, with \<open>k = n - i\<close> rounds left; when it stops, the second loop fills the rest.\<close>

fun strncpy_loop :: "nat \<Rightarrow> u64 \<Rightarrow> u64 \<Rightarrow> nat \<Rightarrow> mem \<Rightarrow> mem" where
  "strncpy_loop 0 dst src i m = m"
| "strncpy_loop (Suc k) dst src i m =
     (if m (src + of_nat i) \<noteq> 0
      then strncpy_loop k dst src (Suc i) (m(dst + of_nat i := m (src + of_nat i)))
      else fill_up (Suc k) dst 0 i m)"

definition u_strncpy :: "u64 \<Rightarrow> u64 \<Rightarrow> u64 \<Rightarrow> mem \<Rightarrow> u64 \<times> mem" where
  "u_strncpy dst src n m = (dst, strncpy_loop (unat n) dst src 0 m)"

definition u_strchr :: "u64 \<Rightarrow> int \<Rightarrow> mem \<Rightarrow> u64 option" where
  "u_strchr s c m = strchr_loop s (to_char c) m"

definition u_strrchr :: "u64 \<Rightarrow> int \<Rightarrow> mem \<Rightarrow> u64 option" where
  "u_strrchr s c m = strrchr_loop s (to_char c) 0 m"

definition u_isspace_ch :: "u8 \<Rightarrow> bool" where
  "u_isspace_ch c \<longleftrightarrow> c = 32 \<or> c = 9 \<or> c = 10 \<or> c = 13 \<or> c = 12 \<or> c = 11"

definition u_isdigit_ch :: "u8 \<Rightarrow> bool" where
  "u_isdigit_ch c \<longleftrightarrow> 48 \<le> c \<and> c \<le> 57"

partial_function (option) skip_space :: "u64 \<Rightarrow> mem \<Rightarrow> u64 option" where
  "skip_space s m = (if u_isspace_ch (m s) then skip_space (s + 1) m else Some s)"

partial_function (option) atol_digits :: "u64 \<Rightarrow> u64 \<Rightarrow> mem \<Rightarrow> u64 option" where
  "atol_digits s val m =
     (if u_isdigit_ch (m s) then atol_digits (s + 1) (val * 10 + ucast (m s - 48)) m else Some val)"

text \<open>\<open>long\<close> arithmetic is that of 64-bit words; the value is read with \<open>sint\<close>.\<close>

definition u_atol :: "u64 \<Rightarrow> mem \<Rightarrow> u64 option" where
  "u_atol s m =
     (case skip_space s m of
        None \<Rightarrow> None
      | Some s1 \<Rightarrow>
          if m s1 = 43 then atol_digits (s1 + 1) 0 m
          else if m s1 = 45 then map_option uminus (atol_digits (s1 + 1) 0 m)
          else atol_digits s1 0 m)"

definition u_atoi :: "u64 \<Rightarrow> mem \<Rightarrow> int option" where
  "u_atoi s m = map_option to_int32 (u_atol s m)"

section \<open>Copying and filling\<close>

lemma load_bytes_0 [simp]: "load_bytes a 0 m = []"
  by (simp add: load_bytes_def)

lemma load_bytes_Suc: "load_bytes a (Suc n) m = m a # load_bytes (a + 1) n m"
  unfolding load_bytes_def upt_conv_Cons [OF zero_less_Suc] map_Suc_upt [symmetric] by (simp add: algebra_simps)

lemma load_bytes_snoc: "load_bytes a (Suc n) m = load_bytes a n m @ [m (a + of_nat n)]"
  by (simp add: load_bytes_def)

lemma load_bytes_cong: "(\<And>i. i < n \<Longrightarrow> m (a + of_nat i) = m' (a + of_nat i)) \<Longrightarrow> load_bytes a n m = load_bytes a n m'"
  by (simp add: load_bytes_def)

text \<open>Copying upwards is right when no byte is read after it was overwritten.\<close>

lemma copy_up_eq:
  assumes "\<And>j j'. i \<le> j \<Longrightarrow> j < j' \<Longrightarrow> j' < i + k \<Longrightarrow> d + of_nat j \<noteq> s + of_nat j'"
  shows "copy_up k d s i m = store_bytes (d + of_nat i) (load_bytes (s + of_nat i) k m) m"
  using assms
proof (induction k arbitrary: i m)
  case (Suc k)
  let ?m = "m(d + of_nat i := m (s + of_nat i))"
  have ne: "d + of_nat i \<noteq> s + of_nat (Suc (i + j))" if "j < k" for j
    by (rule Suc.prems) (use that in simp_all)
  have "load_bytes (s + of_nat (Suc i)) k ?m = load_bytes (s + of_nat (Suc i)) k m"
  proof (rule load_bytes_cong)
    fix j assume "j < k"
    from ne [OF this] show "?m (s + of_nat (Suc i) + of_nat j) = m (s + of_nat (Suc i) + of_nat j)" by (auto simp: algebra_simps)
  qed
  moreover have "copy_up k d s (Suc i) ?m = store_bytes (d + of_nat (Suc i)) (load_bytes (s + of_nat (Suc i)) k ?m) ?m"
    by (rule Suc.IH) (rule Suc.prems, simp_all)
  ultimately show ?case by (simp add: load_bytes_Suc algebra_simps)
qed simp

lemma store_bytes_upd_out:
  assumes "\<And>i. i < length bs \<Longrightarrow> x \<noteq> a + of_nat i"
  shows "store_bytes a bs (m(x := v)) = (store_bytes a bs m)(x := v)"
  using assms
proof (induction bs arbitrary: a m)
  case (Cons b bs)
  have "x \<noteq> a" using Cons.prems [of 0] by simp
  then have c: "(m(x := v))(a := b) = (m(a := b))(x := v)" by (auto simp: fun_upd_twist)
  have "x \<noteq> (a + 1) + of_nat i" if "i < length bs" for i using Cons.prems [of "Suc i"] that by (simp add: ac_simps)
  then have "store_bytes (a + 1) bs ((m(a := b))(x := v)) = (store_bytes (a + 1) bs (m(a := b)))(x := v)" by (rule Cons.IH)
  then show ?case by (simp only: store_bytes.simps c)
qed simp

lemma copy_down_eq:
  assumes "\<And>j j'. j < j' \<Longrightarrow> j' < k \<Longrightarrow> d + of_nat j' \<noteq> s + of_nat j" "k \<le> 2 ^ 64"
  shows "copy_down d s k m = store_bytes d (load_bytes s k m) m"
  using assms
proof (induction k arbitrary: m)
  case (Suc k)
  let ?m = "m(d + of_nat k := m (s + of_nat k))"
  have "d + of_nat k \<noteq> s + of_nat i" if "i < k" for i by (rule Suc.prems(1)) (use that in simp_all)
  then have l: "load_bytes s k ?m = load_bytes s k m"
    by (intro load_bytes_cong) (metis fun_upd_other)
  have o: "d + of_nat k \<noteq> d + of_nat i" if "i < k" for i using addr_inj [of k i d] that Suc.prems(2) by simp
  have "copy_down d s k ?m = store_bytes d (load_bytes s k ?m) ?m"
    by (rule Suc.IH) (use Suc.prems in auto)
  also have "\<dots> = (store_bytes d (load_bytes s k m) m)(d + of_nat k := m (s + of_nat k))"
    unfolding l by (rule store_bytes_upd_out) (rule o, simp)
  finally show ?case by (simp add: load_bytes_snoc store_bytes_append)
qed simp

lemma unat_add_nat: "unat a + i < 2 ^ 64 \<Longrightarrow> unat (a + of_nat i :: u64) = unat a + i"
  by (simp add: unat_word_ariths unat_of_nat)

text \<open>Two regions that do not wrap around the end of memory.\<close>

lemma region_ne:
  assumes "unat a + i < 2 ^ 64" "unat b + j < 2 ^ 64" "unat a + i \<noteq> unat b + j"
  shows "a + of_nat i \<noteq> (b + of_nat j :: u64)"
  using assms unat_add_nat [of a i] unat_add_nat [of b j] by metis

lemma move_eq:
  assumes "unat d + unat n \<le> 2 ^ 64" "unat s + unat n \<le> 2 ^ 64"
  shows "(if d = s \<or> n = 0 then (d, m)
      else if d < s then (d, copy_up (unat n) d s 0 m) else (d, copy_down d s (unat n) m))
    = (d, store_bytes d (load_bytes s (unat n) m) m)"
proof -
  have same: "store_bytes s (load_bytes s k m) m = m" for k m
  proof (induction k arbitrary: s m)
    case (Suc k)
    then show ?case by (simp add: load_bytes_Suc)
  qed simp
  have up: "copy_up (unat n) d s 0 m = store_bytes d (load_bytes s (unat n) m) m" if "d < s"
    using copy_up_eq [of 0 "unat n" d s m] region_ne assms that by (auto simp: word_less_nat_alt)
  have down: "copy_down d s (unat n) m = store_bytes d (load_bytes s (unat n) m) m" if "\<not> d < s"
    by (rule copy_down_eq) (use region_ne assms that unat_lt [of n] in \<open>auto simp: word_less_nat_alt\<close>)
  show ?thesis using same up down by auto
qed

lemma fill_up_eq: "fill_up k p v i m = store_bytes (p + of_nat i) (replicate k v) m"
  by (induction k arbitrary: i m) (simp_all add: algebra_simps)

text \<open>C36: \<open>memmove\<close> copies correctly also when source and destination overlap: the destination then holds what the source held
  before, and no other byte changes. The same holds of \<open>u_memmove\<close>, and of \<open>memcpy\<close> and \<open>u_memcpy\<close> when the regions
  are disjoint.\<close>

theorem memmove_correct:
  assumes "unat dest + unat n \<le> 2 ^ 64" "unat src + unat n \<le> 2 ^ 64"
  shows "memmove dest src n m = (dest, store_bytes dest (load_bytes src (unat n) m) m)
    \<and> u_memmove dest src n m = memmove dest src n m
    \<and> load_bytes dest (unat n) (snd (memmove dest src n m)) = load_bytes src (unat n) m
    \<and> (\<forall>x. (\<forall>i<unat n. x \<noteq> dest + of_nat i) \<longrightarrow> snd (memmove dest src n m) x = m x)
    \<and> (unat dest + unat n \<le> unat src \<or> unat src + unat n \<le> unat dest
        \<longrightarrow> memcpy dest src n m = memmove dest src n m \<and> u_memcpy dest src n m = memmove dest src n m)"
proof -
  have e: "memmove dest src n m = (dest, store_bytes dest (load_bytes src (unat n) m) m)"
    unfolding memmove_def by (rule move_eq [OF assms])
  have u: "u_memmove dest src n m = memmove dest src n m" by (simp add: u_memmove_def memmove_def)
  have l: "load_bytes dest (unat n) (store_bytes dest (load_bytes src (unat n) m) m) = load_bytes src (unat n) m"
    using load_store_bytes [of "load_bytes src (unat n) m" dest m] unat_lt [of n] by simp
  have f: "store_bytes dest (load_bytes src (unat n) m) m x = m x" if "\<forall>i<unat n. x \<noteq> dest + of_nat i" for x
    by (rule store_bytes_out) (use that in simp)
  have c: "copy_up (unat n) dest src 0 m = store_bytes dest (load_bytes src (unat n) m) m"
    if "unat dest + unat n \<le> unat src \<or> unat src + unat n \<le> unat dest"
    using copy_up_eq [of 0 "unat n" dest src m] region_ne assms that by auto
  show ?thesis using l f c by (simp add: u e memcpy_def u_memcpy_def)
qed

theorem memmove_correct_witness:
  "load_bytes 101 3 (snd (memmove 101 100 3 (store_bytes 100 [1, 2, 3] (\<lambda>_. 0)))) = [1, 2, 3]"
proof -
  let ?m = "store_bytes 100 [1, 2, 3] (\<lambda>_. 0)"
  have b: "unat (101::u64) + unat (3::u64) \<le> 2 ^ 64" "unat (100::u64) + unat (3::u64) \<le> 2 ^ 64" by simp_all
  have "load_bytes 101 (unat (3::u64)) (snd (memmove 101 100 3 ?m)) = load_bytes 100 (unat (3::u64)) ?m"
    using memmove_correct [OF b, of ?m] by blast
  moreover have "load_bytes 100 3 ?m = [1, 2, 3]"
    using load_store_bytes [of "[1, 2, 3]" 100 "\<lambda>_. 0"] by (simp add: numeral_3_eq_3 del: store_bytes.simps)
  ultimately show ?thesis by (simp del: store_bytes.simps)
qed

section \<open>Strings\<close>

text \<open>The bytes \<open>bs\<close>, none of them zero, lie at \<open>a\<close> and are followed by a zero byte.\<close>

fun cstr :: "mem \<Rightarrow> u64 \<Rightarrow> u8 list \<Rightarrow> bool" where
  "cstr m a [] \<longleftrightarrow> m a = 0"
| "cstr m a (b # bs) \<longleftrightarrow> m a = b \<and> b \<noteq> 0 \<and> cstr m (a + 1) bs"

lemma cstr_load: "cstr m a bs \<longleftrightarrow> load_bytes a (length bs) m = bs \<and> 0 \<notin> set bs \<and> m (a + of_nat (length bs)) = 0"
  by (induction bs arbitrary: a) (auto simp: load_bytes_Suc algebra_simps)

lemma cstr_upd: "(\<And>j. j \<le> length bs \<Longrightarrow> x \<noteq> a + of_nat j) \<Longrightarrow> cstr (m(x := v)) a bs = cstr m a bs"
proof (induction bs arbitrary: a)
  case Nil
  from Nil [of 0] show ?case by simp
next
  case (Cons b bs)
  have "x \<noteq> a" using Cons.prems [of 0] by simp
  moreover have "cstr (m(x := v)) (a + 1) bs = cstr m (a + 1) bs"
    by (rule Cons.IH) (use Cons.prems [of "Suc _"] in \<open>simp add: algebra_simps\<close>)
  ultimately show ?case by (metis cstr.simps(2) fun_upd_other)
qed

lemma strlen_loop_cstr: "cstr m (s + n) bs \<Longrightarrow> strlen_loop s n m = Some (n + of_nat (length bs))"
proof (induction bs arbitrary: n)
  case Nil
  then show ?case by (subst strlen_loop.simps) simp
next
  case (Cons b bs)
  then show ?case by (subst strlen_loop.simps) (simp add: algebra_simps)
qed

text \<open>In a memory with a zero byte somewhere the scan ends, at the nearest one.\<close>

lemma strlen_loop_ends:
  assumes "m (s + n + of_nat k) = 0"
  shows "\<exists>i\<le>k. strlen_loop s n m = Some (n + of_nat i) \<and> m (s + n + of_nat i) = 0"
  using assms
proof (induction k arbitrary: n)
  case 0
  then show ?case by (subst strlen_loop.simps) simp
next
  case (Suc k)
  show ?case
  proof (cases "m (s + n) = 0")
    case True
    then show ?thesis by (subst strlen_loop.simps) (auto intro!: exI [of _ 0])
  next
    case False
    have "m (s + (n + 1) + of_nat k) = 0" using Suc.prems by (simp add: algebra_simps)
    from Suc.IH [OF this] obtain i where "i \<le> k" "strlen_loop s (n + 1) m = Some (n + 1 + of_nat i)"
      "m (s + (n + 1) + of_nat i) = 0" by blast
    then show ?thesis using False by (subst strlen_loop.simps) (auto intro!: exI [of _ "Suc i"] simp: algebra_simps)
  qed
qed

lemma strlen_returns: "\<exists>x. m x = 0 \<Longrightarrow> \<exists>n. strlen s m = Some n \<and> m (s + n) = 0"
proof -
  assume "\<exists>x. m x = 0"
  then obtain x where "m x = 0" by blast
  then have "m (s + 0 + of_nat (unat (x - s))) = 0" by simp
  from strlen_loop_ends [of m s 0, OF this] show ?thesis by (auto simp: strlen_def)
qed

lemma strlen_cstr: "cstr m s bs \<Longrightarrow> strlen s m = Some (of_nat (length bs))"
  using strlen_loop_cstr [of m s 0 bs] by (simp add: strlen_def)

lemma u_strlen_eq: "u_strlen = strlen"
  by (simp add: fun_eq_iff u_strlen_def strlen_def)

text \<open>The result of a comparison: the difference of the first bytes that differ, the end counting as zero.\<close>

fun byte_diff :: "u8 list \<Rightarrow> u8 list \<Rightarrow> int" where
  "byte_diff [] [] = 0"
| "byte_diff [] (y # ys) = - uint y"
| "byte_diff (x # xs) [] = uint x"
| "byte_diff (x # xs) (y # ys) = (if x = y then byte_diff xs ys else uint x - uint y)"

lemma u_strcmp_cstr: "cstr m a xs \<Longrightarrow> cstr m b ys \<Longrightarrow> u_strcmp a b m = Some (byte_diff xs ys)"
proof (induction xs ys arbitrary: a b rule: byte_diff.induct)
  case (4 x xs y ys)
  then show ?case by (subst u_strcmp.simps) auto
qed (subst u_strcmp.simps, auto)+

lemma byte_diff_0: "0 \<notin> set xs \<Longrightarrow> 0 \<notin> set ys \<Longrightarrow> byte_diff xs ys = 0 \<longleftrightarrow> xs = ys"
  by (induction xs ys rule: byte_diff.induct) (auto simp: uint_0_iff word_uint_eq_iff [symmetric])

lemma u_strcmp_eq_0: "cstr m a xs \<Longrightarrow> cstr m b ys \<Longrightarrow> u_strcmp a b m = Some 0 \<longleftrightarrow> xs = ys"
  using u_strcmp_cstr [of m a xs b ys] byte_diff_0 by (auto simp: cstr_load)

lemma strncmp_loop_cstr:
  "cstr m (a + of_nat i) xs \<Longrightarrow> cstr m (b + of_nat i) ys \<Longrightarrow> strncmp_loop k a b i m = byte_diff (take k xs) (take k ys)"
proof (induction k arbitrary: i xs ys)
  case (Suc k)
  then show ?case by (cases xs; cases ys) (auto simp: algebra_simps Let_def)
qed simp

lemma strchr_loop_cstr:
  "cstr m s bs \<Longrightarrow> strchr_loop s ch m =
     Some (if ch \<in> set bs \<or> ch = 0 then s + of_nat (length (takeWhile ((\<noteq>) ch) bs)) else 0)"
proof (induction bs arbitrary: s)
  case Nil
  then show ?case by (subst strchr_loop.simps) simp
next
  case (Cons b bs)
  then show ?case by (subst strchr_loop.simps) (auto simp: algebra_simps)
qed

lemma strrchr_loop_cstr:
  "cstr m s bs \<Longrightarrow> strrchr_loop s ch lst m =
     Some (if ch = 0 then s + of_nat (length bs) else if ch \<in> set bs
           then s + of_nat (length bs - Suc (length (takeWhile ((\<noteq>) ch) (rev bs)))) else lst)"
proof (induction bs arbitrary: s lst)
  case Nil
  then show ?case by (subst strrchr_loop.simps) simp
next
  case (Cons b bs)
  have lt: "length (takeWhile ((\<noteq>) ch) xs) < length xs" if "ch \<in> set xs" for xs using that by (induction xs) auto
  have tw: "length (takeWhile ((\<noteq>) ch) (rev bs)) < length bs" if "ch \<in> set bs" using lt [of "rev bs"] that by simp
  show ?case
  proof (cases "ch \<in> set bs")
    case True
    have "takeWhile ((\<noteq>) ch) (rev bs @ [b]) = takeWhile ((\<noteq>) ch) (rev bs)" using True by (simp add: takeWhile_append1)
    moreover have "length bs - length (takeWhile ((\<noteq>) ch) (rev bs)) = Suc (length bs - Suc (length (takeWhile ((\<noteq>) ch) (rev bs))))"
      using tw [OF True] by simp
    ultimately show ?thesis using Cons True by (subst strrchr_loop.simps) (auto simp: algebra_simps)
  next
    case False
    then have "takeWhile ((\<noteq>) ch) (rev bs) = rev bs" by (simp add: takeWhile_eq_all_conv) metis
    then show ?thesis using Cons False by (subst strrchr_loop.simps) (auto simp: algebra_simps takeWhile_append)
  qed
qed

lemma strcpy_loop_cstr:
  assumes "cstr m src bs" "\<And>i j. i \<le> length bs \<Longrightarrow> j \<le> length bs \<Longrightarrow> dst + of_nat i \<noteq> src + of_nat j"
  shows "strcpy_loop dst src m = Some (store_bytes dst (bs @ [0]) m)"
  using assms
proof (induction bs arbitrary: dst src m)
  case Nil
  then show ?case by (subst strcpy_loop.simps) (simp add: Let_def)
next
  case (Cons b bs)
  let ?m = "m(dst := b)"
  have o: "dst \<noteq> src + 1 + of_nat j" if "j \<le> length bs" for j
    using Cons.prems(2) [of 0 "Suc j"] that by (simp add: algebra_simps)
  have same: "cstr ?m (src + 1) bs = cstr m (src + 1) bs" by (rule cstr_upd) (rule o)
  have "strcpy_loop (dst + 1) (src + 1) ?m = Some (store_bytes (dst + 1) (bs @ [0]) ?m)"
  proof (rule Cons.IH)
    show "cstr ?m (src + 1) bs" using same Cons.prems(1) by simp
    fix i j assume "i \<le> length bs" "j \<le> length bs"
    then show "dst + 1 + of_nat i \<noteq> src + 1 + of_nat j" using Cons.prems(2) [of "Suc i" "Suc j"] by (simp add: algebra_simps)
  qed
  then show ?case using Cons.prems(1) by (subst strcpy_loop.simps) (simp add: Let_def)
qed

text \<open>\<open>u_strncpy\<close> writes exactly \<open>n\<close> bytes: the string, cut off or padded with zeros.\<close>

lemma strncpy_loop_cstr:
  assumes "cstr m (src + of_nat i) bs"
    "\<And>j j'. i \<le> j \<Longrightarrow> j < i + k \<Longrightarrow> i \<le> j' \<Longrightarrow> j' \<le> i + length bs \<Longrightarrow> dst + of_nat j \<noteq> src + of_nat j'"
  shows "strncpy_loop k dst src i m = store_bytes (dst + of_nat i) (take k bs @ replicate (k - length bs) 0) m"
  using assms
proof (induction k arbitrary: i bs m)
  case (Suc k)
  show ?case
  proof (cases bs)
    case Nil
    then show ?thesis using Suc.prems(1) fill_up_eq [of "Suc k" dst 0 i m] by (simp del: fill_up.simps)
  next
    case (Cons b bs')
    let ?m = "m(dst + of_nat i := b)"
    have o: "dst + of_nat i \<noteq> src + of_nat (Suc i + j)" if "j \<le> length bs'" for j
      by (rule Suc.prems(2)) (use that Cons in simp_all)
    have "cstr m (src + of_nat (Suc i)) bs'" using Suc.prems(1) Cons by (simp add: algebra_simps)
    moreover have "cstr ?m (src + of_nat (Suc i)) bs' = cstr m (src + of_nat (Suc i)) bs'"
      by (rule cstr_upd) (use o in \<open>simp add: algebra_simps\<close>)
    ultimately have c: "cstr ?m (src + of_nat (Suc i)) bs'" by simp
    have "strncpy_loop k dst src (Suc i) ?m
        = store_bytes (dst + of_nat (Suc i)) (take k bs' @ replicate (k - length bs') 0) ?m"
      by (rule Suc.IH [OF c]) (rule Suc.prems(2), use Cons in simp_all)
    then show ?thesis using Suc.prems(1) Cons by (simp add: algebra_simps)
  qed
qed simp

section \<open>Numbers\<close>

text \<open>The value of decimal digits, with the wrap-around of 64-bit arithmetic.\<close>

definition dec_word :: "u64 \<Rightarrow> u8 list \<Rightarrow> u64" where
  "dec_word val ds = foldl (\<lambda>v d. v * 10 + ucast (d - 48)) val ds"

lemma atol_digits_cstr:
  "cstr m s (ds @ rest) \<Longrightarrow> \<forall>d\<in>set ds. u_isdigit_ch d \<Longrightarrow> rest = [] \<or> \<not> u_isdigit_ch (hd rest) \<Longrightarrow>
   atol_digits s val m = Some (dec_word val ds)"
proof (induction ds arbitrary: s val)
  case Nil
  then show ?case by (subst atol_digits.simps, cases rest) (auto simp: dec_word_def u_isdigit_ch_def)
next
  case (Cons d ds)
  then show ?case by (subst atol_digits.simps) (simp add: dec_word_def)
qed

lemma skip_space_cstr:
  "cstr m s (ws @ rest) \<Longrightarrow> \<forall>c\<in>set ws. u_isspace_ch c \<Longrightarrow> rest = [] \<or> \<not> u_isspace_ch (hd rest) \<Longrightarrow>
   skip_space s m = Some (s + of_nat (length ws)) \<and> cstr m (s + of_nat (length ws)) rest"
proof (induction ws arbitrary: s)
  case Nil
  then show ?case by (subst skip_space.simps, cases rest) (auto simp: u_isspace_ch_def)
next
  case (Cons c ws)
  then show ?case by (subst skip_space.simps) (simp add: add.assoc [symmetric])
qed

text \<open>\<open>u_atol\<close> on white space, an optional sign and digits.\<close>

lemma u_atol_cstr:
  assumes "cstr m s (ws @ sign @ ds @ rest)" "\<forall>c\<in>set ws. u_isspace_ch c" "sign \<in> {[], [43], [45]}"
    "\<forall>d\<in>set ds. u_isdigit_ch d" "ds \<noteq> []" "rest = [] \<or> \<not> u_isdigit_ch (hd rest)"
  shows "u_atol s m = Some (if sign = [45] then - dec_word 0 ds else dec_word 0 ds)"
proof -
  obtain d ds' where d: "ds = d # ds'" using assms(5) by (cases ds) auto
  have nd: "\<not> u_isspace_ch d" "d \<noteq> 43" "d \<noteq> 45"
    using assms(4) d by (auto simp: u_isdigit_ch_def u_isspace_ch_def)
  have h: "\<not> u_isspace_ch (hd (sign @ ds @ rest))"
    using assms(3) nd(1) by (auto simp: d u_isspace_ch_def)
  let ?t = "s + of_nat (length ws)"
  have sk: "skip_space s m = Some ?t" "cstr m ?t (sign @ ds @ rest)"
    using skip_space_cstr [OF assms(1,2)] h by auto
  show ?thesis
  proof (cases "sign = []")
    case True
    then have c: "cstr m ?t (ds @ rest)" "m ?t = d" using sk(2) d by simp_all
    show ?thesis using sk(1) c(2) nd True atol_digits_cstr [OF c(1) assms(4,6)] by (simp add: u_atol_def)
  next
    case False
    then obtain g where g: "sign = [g]" "g = 43 \<or> g = 45" using assms(3) by auto
    then have c: "cstr m (?t + 1) (ds @ rest)" "m ?t = g" using sk(2) by simp_all
    show ?thesis using sk(1) c(2) g atol_digits_cstr [OF c(1) assms(4,6), of 0] by (auto simp: u_atol_def)
  qed
qed

end
