(* ===== verification/Buffer.thy ===== *)
theory Buffer
  imports Lib_String
begin

text \<open>
  Byte buffers with checked reads, for code that walks untrusted data: a pointer is a position in a buffer, and a
  read at a position outside is the result \<open>BadIndex\<close>. The string routines of \<open>lib/string.c\<close> are restated
  on buffers, with the same loops and the same reads, and shown to give the results of the routines on memory. C
  integers are \<open>int\<close> here, with the conversions to 32 bits written out.
\<close>

section \<open>Conversions\<close>

text \<open>Conversion to \<open>uint32_t\<close> and to \<open>int\<close>.\<close>

definition wrap_u32 :: "int \<Rightarrow> int" where "wrap_u32 x = x mod 4294967296"

definition wrap_i32 :: "int \<Rightarrow> int" where "wrap_i32 x = (x + 2147483648) mod 4294967296 - 2147483648"

definition INT32_MAX :: int where [simp]: "INT32_MAX = 2147483647"

lemma wrap_u32_id [simp]: "0 \<le> x \<Longrightarrow> x < 4294967296 \<Longrightarrow> wrap_u32 x = x"
  by (simp add: wrap_u32_def)

lemma wrap_i32_id [simp]: "- 2147483648 \<le> x \<Longrightarrow> x < 2147483648 \<Longrightarrow> wrap_i32 x = x"
  by (simp add: wrap_i32_def)

lemma wrap_u32_range: "0 \<le> wrap_u32 x" "wrap_u32 x < 4294967296"
  by (simp_all add: wrap_u32_def)

lemma wrap_i32_range: "- 2147483648 \<le> wrap_i32 x" "wrap_i32 x < 2147483648"
proof -
  have "0 \<le> (x + 2147483648) mod 4294967296" "(x + 2147483648) mod 4294967296 < 4294967296" by simp_all
  then show "- 2147483648 \<le> wrap_i32 x" "wrap_i32 x < 2147483648" by (simp_all add: wrap_i32_def)
qed

lemma wrap_i32_mod: "wrap_i32 x mod 4294967296 = x mod 4294967296"
  unfolding wrap_i32_def by (simp add: mod_diff_left_eq)

lemma wrap_u32_wrap_i32 [simp]: "wrap_u32 (wrap_i32 x - y) = wrap_u32 (x - y)" "wrap_u32 (wrap_i32 x) = wrap_u32 x"
  "wrap_u32 (wrap_i32 x + y) = wrap_u32 (x + y)"
  unfolding wrap_u32_def by (metis mod_diff_left_eq wrap_i32_mod, rule wrap_i32_mod, metis mod_add_left_eq wrap_i32_mod)

lemma wrap_i32_add [simp]: "wrap_i32 (wrap_i32 x + y) = wrap_i32 (x + y)"
proof -
  have "wrap_i32 (wrap_i32 x + y) = (wrap_i32 x + (y + 2147483648)) mod 4294967296 - 2147483648"
    by (simp add: wrap_i32_def [of "wrap_i32 x + y"] add.assoc)
  also have "\<dots> = (x + (y + 2147483648)) mod 4294967296 - 2147483648"
    using mod_add_left_eq [of "wrap_i32 x" 4294967296 "y + 2147483648"] mod_add_left_eq [of x 4294967296 "y + 2147483648"]
    by (simp add: wrap_i32_mod)
  finally show ?thesis by (simp add: wrap_i32_def add.assoc)
qed

lemma wrap_i32_add2 [simp]: "wrap_i32 (y + wrap_i32 x) = wrap_i32 (y + x)"
  by (metis add.commute wrap_i32_add)

lemma wrap_hi:
  "2147483648 \<le> x \<Longrightarrow> x < 6442450944 \<Longrightarrow> wrap_i32 x = x - 4294967296"
  "4294967296 \<le> x \<Longrightarrow> x < 8589934592 \<Longrightarrow> wrap_u32 x = x - 4294967296"
proof -
  have "y mod 4294967296 = y - 4294967296" if "4294967296 \<le> y" "y < 8589934592" for y :: int
    using that by (intro int_mod_pos_eq [where q = 1]) simp_all
  then show "2147483648 \<le> x \<Longrightarrow> x < 6442450944 \<Longrightarrow> wrap_i32 x = x - 4294967296"
    "4294967296 \<le> x \<Longrightarrow> x < 8589934592 \<Longrightarrow> wrap_u32 x = x - 4294967296"
    by (simp_all add: wrap_i32_def wrap_u32_def)
qed

section \<open>Results\<close>

lemma bindE_cong [fundef_cong]: "m = m' \<Longrightarrow> (\<And>x. m' = Inr x \<Longrightarrow> f x = f' x) \<Longrightarrow> bindE m f = bindE m' f'"
  by (cases m') simp_all

lemma returns_bindE: "returns m \<Longrightarrow> (\<And>x. m = Inr x \<Longrightarrow> returns (f x)) \<Longrightarrow> returns (bindE m f)"
  by (auto simp: returns_def)

lemma returnsE: "returns m \<Longrightarrow> (\<And>x. m = Inr x \<Longrightarrow> P) \<Longrightarrow> P"
  by (auto simp: returns_def)

lemma bindE_assoc: "bindE (bindE m f) g = bindE m (\<lambda>x. bindE (f x) g)"
  by (cases m) simp_all

section \<open>Reads\<close>

type_synonym buf = "u8 list"

definition rd :: "buf \<Rightarrow> int \<Rightarrow> u8 kres" where
  "rd b p = (if 0 \<le> p \<and> p < int (length b) then Inr (b ! nat p) else Inl BadIndex)"

lemma rd_in [simp]: "0 \<le> p \<Longrightarrow> p < int (length b) \<Longrightarrow> rd b p = Inr (b ! nat p)"
  by (simp add: rd_def)

lemma rd_Inr: "rd b p = Inr c \<longleftrightarrow> 0 \<le> p \<and> p < int (length b) \<and> c = b ! nat p"
  by (auto simp: rd_def)

text \<open>The loops of \<open>memcmp\<close>, \<open>memchr\<close>, \<open>strnlen\<close>, with the rounds left as first argument.\<close>

fun buf_memcmp :: "nat \<Rightarrow> buf \<Rightarrow> int \<Rightarrow> buf \<Rightarrow> int \<Rightarrow> int kres" where
  "buf_memcmp 0 a p b q = Inr 0"
| "buf_memcmp (Suc n) a p b q =
     bindE (rd a p) (\<lambda>x. bindE (rd b q) (\<lambda>y.
       if x \<noteq> y then Inr (uint x - uint y) else buf_memcmp n a (p + 1) b (q + 1)))"

fun buf_memchr :: "nat \<Rightarrow> buf \<Rightarrow> int \<Rightarrow> u8 \<Rightarrow> int option kres" where
  "buf_memchr 0 a p c = Inr None"
| "buf_memchr (Suc n) a p c = bindE (rd a p) (\<lambda>x. if x = c then Inr (Some p) else buf_memchr n a (p + 1) c)"

fun buf_strnlen :: "nat \<Rightarrow> buf \<Rightarrow> int \<Rightarrow> int kres" where
  "buf_strnlen 0 a p = Inr 0"
| "buf_strnlen (Suc n) a p =
     bindE (rd a p) (\<lambda>x. if x = 0 then Inr 0 else bindE (buf_strnlen n a (p + 1)) (\<lambda>k. Inr (k + 1)))"

text \<open>The scans that look for the terminating zero byte stop at the end of the buffer at the latest.\<close>

function buf_strlen :: "buf \<Rightarrow> int \<Rightarrow> int kres" where
  "buf_strlen a p = bindE (rd a p) (\<lambda>x. if x = 0 then Inr 0 else bindE (buf_strlen a (p + 1)) (\<lambda>k. Inr (k + 1)))"
  by auto
termination by (relation "measure (\<lambda>(a, p). nat (int (length a) - p))") (auto simp: rd_Inr)

function buf_strrchr :: "buf \<Rightarrow> int \<Rightarrow> u8 \<Rightarrow> int option \<Rightarrow> int option kres" where
  "buf_strrchr a p c lst =
     bindE (rd a p) (\<lambda>x. if x \<noteq> 0 then buf_strrchr a (p + 1) c (if x = c then Some p else lst)
                         else Inr (if c = 0 then Some p else lst))"
  by auto
termination by (relation "measure (\<lambda>(a, p, c, l). nat (int (length a) - p))") (auto simp: rd_Inr)

declare buf_strlen.simps [simp del] buf_strrchr.simps [simp del]

section \<open>Agreement with the routines on memory\<close>

text \<open>\<open>holds_buf m A a\<close>: the memory holds the buffer at address \<open>A\<close>, which does not wrap around.\<close>

definition holds_buf :: "mem \<Rightarrow> u64 \<Rightarrow> buf \<Rightarrow> bool" where
  "holds_buf m A a \<longleftrightarrow> load_bytes A (length a) m = a \<and> 0 < unat A \<and> unat A + length a \<le> 2 ^ 64"

lemma holds_rd:
  assumes "holds_buf m A a" "rd a p = Inr c"
  shows "m (A + word_of_int p) = c"
proof -
  obtain k where k: "p = int k" "k < length a" "c = a ! k" using assms(2) by (metis rd_Inr nat_0_le zless_nat_conj nat_less_iff)
  have "load_bytes A (length a) m ! k = a ! k" using assms(1) by (simp add: holds_buf_def)
  then show ?thesis using k by (simp add: load_bytes_def)
qed

lemma addr_shift: "(A :: u64) + word_of_int (p - int i) + of_nat i = A + word_of_int p"
  by (simp add: wi_hom_sub [symmetric])

lemma buf_memcmp_mem:
  "buf_memcmp n a p b q = Inr r \<Longrightarrow> holds_buf m A a \<Longrightarrow> holds_buf m B b \<Longrightarrow>
   compare_up n (A + word_of_int (p - int i)) (B + word_of_int (q - int i)) i m = r"
proof (induction n a p b q arbitrary: i rule: buf_memcmp.induct)
  case (2 n a p b q)
  from 2(2) obtain x y where xy: "rd a p = Inr x" "rd b q = Inr y"
    "(if x \<noteq> y then Inr (uint x - uint y) else buf_memcmp n a (p + 1) b (q + 1)) = Inr r"
    by (auto simp: bindE_eq_Inr)
  have mm: "m (A + word_of_int (p - int i) + of_nat i) = x" "m (B + word_of_int (q - int i) + of_nat i) = y"
    unfolding addr_shift using holds_rd [OF 2(3) xy(1)] holds_rd [OF 2(4) xy(2)] by simp_all
  have ih: "compare_up n (A + word_of_int (p - int i)) (B + word_of_int (q - int i)) (Suc i) m = r" if "x = y"
    using 2(1) [OF xy(1,2), of "Suc i"] that xy(3) 2(3,4) by simp
  show ?case using mm ih xy(3) by (auto split: if_splits)
qed simp

lemma buf_memchr_mem:
  "buf_memchr n a p c = Inr r \<Longrightarrow> holds_buf m A a \<Longrightarrow>
   find_up n (A + word_of_int (p - int i)) c i m = (case r of None \<Rightarrow> 0 | Some q \<Rightarrow> A + word_of_int q)"
proof (induction n a p c arbitrary: i rule: buf_memchr.induct)
  case (2 n a p c)
  from 2(2) obtain x where x: "rd a p = Inr x" "(if x = c then Inr (Some p) else buf_memchr n a (p + 1) c) = Inr r"
    by (auto simp: bindE_eq_Inr)
  have ih: "find_up n (A + word_of_int (p - int i)) c (Suc i) m = (case r of None \<Rightarrow> 0 | Some q \<Rightarrow> A + word_of_int q)" if "x \<noteq> c"
    using 2(1) [OF x(1) that, of "Suc i"] that x(2) 2(3) by simp
  show ?case using x(2) ih addr_shift [of A p i] holds_rd [OF 2(3) x(1)] by (auto split: if_splits)
qed simp

lemma buf_strlen_mem:
  "buf_strlen a p = Inr n \<Longrightarrow> holds_buf m A a \<Longrightarrow> strlen_loop (A + word_of_int p - k) k m = Some (k + word_of_int n)"
proof (induction a p arbitrary: n k rule: buf_strlen.induct)
  case (1 a p)
  from 1(2) obtain x where x: "rd a p = Inr x" "(if x = 0 then Inr 0 else bindE (buf_strlen a (p + 1)) (\<lambda>k. Inr (k + 1))) = Inr n"
    by (auto simp: bindE_eq_Inr buf_strlen.simps [of a p])
  have mx: "m (A + word_of_int p) = x" by (rule holds_rd [OF 1(3) x(1)])
  show ?case
  proof (cases "x = 0")
    case True
    then show ?thesis using x(2) mx by (simp add: strlen_loop.simps [of "A + word_of_int p - k"])
  next
    case False
    then obtain n' where n': "buf_strlen a (p + 1) = Inr n'" "n = n' + 1" using x(2) by (auto simp: bindE_eq_Inr)
    have "strlen_loop (A + word_of_int (p + 1) - (k + 1)) (k + 1) m = Some (k + 1 + word_of_int n')"
      by (rule 1(1) [OF x(1) False n'(1) 1(3)])
    moreover have "A + word_of_int (p + 1) - (k + 1) = A + word_of_int p - k" by (simp add: wi_hom_add [symmetric])
    ultimately have "strlen_loop (A + word_of_int p - k) (k + 1) m = Some (k + (1 + word_of_int n'))" by (simp only: add.assoc)
    then show ?thesis using False mx n'(2)
      by (simp add: strlen_loop.simps [of "A + word_of_int p - k" k] wi_hom_add [symmetric] add.commute)
  qed
qed

lemma buf_strnlen_mem:
  "buf_strnlen n a p = Inr r \<Longrightarrow> holds_buf m A a \<Longrightarrow>
   int (strnlen_loop n (A + word_of_int (p - int i)) i m) = int i + r"
proof (induction n a p arbitrary: i r rule: buf_strnlen.induct)
  case (2 n a p)
  from 2(2) obtain x where x: "rd a p = Inr x" "(if x = 0 then Inr 0 else bindE (buf_strnlen n a (p + 1)) (\<lambda>k. Inr (k + 1))) = Inr r"
    by (auto simp: bindE_eq_Inr)
  have mx: "m (A + word_of_int (p - int i) + of_nat i) = x" unfolding addr_shift by (rule holds_rd [OF 2(3) x(1)])
  show ?case
  proof (cases "x = 0")
    case True
    then show ?thesis using x(2) mx by simp
  next
    case False
    then obtain r' where r': "buf_strnlen n a (p + 1) = Inr r'" "r = r' + 1" using x(2) by (auto simp: bindE_eq_Inr)
    have "int (strnlen_loop n (A + word_of_int (p + 1 - int (Suc i))) (Suc i) m) = int (Suc i) + r'"
      by (rule 2(1) [OF x(1) False r'(1) 2(3)])
    then show ?thesis using False mx r'(2) by simp
  qed
qed simp

lemma buf_strrchr_mem:
  "buf_strrchr a p c lst = Inr r \<Longrightarrow> holds_buf m A a \<Longrightarrow>
   strrchr_loop (A + word_of_int p) c (case lst of None \<Rightarrow> 0 | Some q \<Rightarrow> A + word_of_int q) m
     = Some (case r of None \<Rightarrow> 0 | Some q \<Rightarrow> A + word_of_int q)"
proof (induction a p c lst rule: buf_strrchr.induct)
  case (1 a p c lst)
  from 1(2) obtain x where x: "rd a p = Inr x"
    "(if x \<noteq> 0 then buf_strrchr a (p + 1) c (if x = c then Some p else lst) else Inr (if c = 0 then Some p else lst)) = Inr r"
    by (auto simp: bindE_eq_Inr buf_strrchr.simps [of a p])
  have mx: "m (A + word_of_int p) = x" by (rule holds_rd [OF 1(3) x(1)])
  show ?case
  proof (cases "x = 0")
    case True
    then show ?thesis using x(2) mx by (auto simp: strrchr_loop.simps [of "A + word_of_int p"])
  next
    case False
    have "strrchr_loop (A + word_of_int (p + 1)) c (case (if x = c then Some p else lst) of None \<Rightarrow> 0 | Some q \<Rightarrow> A + word_of_int q) m
       = Some (case r of None \<Rightarrow> 0 | Some q \<Rightarrow> A + word_of_int q)"
      using 1(1) [OF x(1) False _ 1(3)] x(2) False by simp
    then show ?thesis using False mx
      by (auto simp: strrchr_loop.simps [of "A + word_of_int p"] wi_hom_add [symmetric] ac_simps split: if_splits)
  qed
qed

end
