(* ===== verification/Fdt.thy ===== *)
theory Fdt
  imports Buffer
begin

unbundle bit_operations_syntax

text \<open>
  The device tree library: its data (\<open>fdt.h\<close>, \<open>libfdt.h\<close>, \<open>libfdt_env.h\<close>, \<open>libfdt_internal.h\<close>) and the
  walk over the structure block (\<open>fdt.c\<close>). A device tree blob is a buffer of bytes at an address; pointers into it are
  offsets from its start, the null pointer is \<open>None\<close>, and a read outside the buffer is \<open>BadIndex\<close>. Output
  parameters are further results; a null output parameter is \<open>None\<close>. The library is built without assumptions
  (\<open>FDT_ASSUME_MASK\<close> is 0), so the conditions on \<open>can_assume\<close> are resolved accordingly, by \<open>can_assume_none\<close>.
  \<open>int\<close> arithmetic wraps around; within a blob that fits into \<open>int\<close> it never does.
\<close>

section \<open>Constants\<close>

definition FDT_MAGIC :: int where [simp]: "FDT_MAGIC = 0xd00dfeed"
definition FDT_SW_MAGIC :: int where [simp]: "FDT_SW_MAGIC = 0x2ff20112"
definition FDT_TAGSIZE :: int where [simp]: "FDT_TAGSIZE = 4"
definition FDT_BEGIN_NODE :: int where [simp]: "FDT_BEGIN_NODE = 1"
definition FDT_END_NODE :: int where [simp]: "FDT_END_NODE = 2"
definition FDT_PROP :: int where [simp]: "FDT_PROP = 3"
definition FDT_NOP :: int where [simp]: "FDT_NOP = 4"
definition FDT_END :: int where [simp]: "FDT_END = 9"
definition FDT_V1_SIZE :: int where [simp]: "FDT_V1_SIZE = 7 * 4"
definition FDT_V2_SIZE :: int where [simp]: "FDT_V2_SIZE = FDT_V1_SIZE + 4"
definition FDT_V3_SIZE :: int where [simp]: "FDT_V3_SIZE = FDT_V2_SIZE + 4"
definition FDT_V16_SIZE :: int where [simp]: "FDT_V16_SIZE = FDT_V3_SIZE"
definition FDT_V17_SIZE :: int where [simp]: "FDT_V17_SIZE = FDT_V16_SIZE + 4"

definition FDT_FIRST_SUPPORTED_VERSION :: int where [simp]: "FDT_FIRST_SUPPORTED_VERSION = 0x02"
definition FDT_LAST_SUPPORTED_VERSION :: int where [simp]: "FDT_LAST_SUPPORTED_VERSION = 0x11"
definition FDT_ERR_NOTFOUND :: int where [simp]: "FDT_ERR_NOTFOUND = 1"
definition FDT_ERR_EXISTS :: int where [simp]: "FDT_ERR_EXISTS = 2"
definition FDT_ERR_NOSPACE :: int where [simp]: "FDT_ERR_NOSPACE = 3"
definition FDT_ERR_BADOFFSET :: int where [simp]: "FDT_ERR_BADOFFSET = 4"
definition FDT_ERR_BADPATH :: int where [simp]: "FDT_ERR_BADPATH = 5"
definition FDT_ERR_BADPHANDLE :: int where [simp]: "FDT_ERR_BADPHANDLE = 6"
definition FDT_ERR_BADSTATE :: int where [simp]: "FDT_ERR_BADSTATE = 7"
definition FDT_ERR_TRUNCATED :: int where [simp]: "FDT_ERR_TRUNCATED = 8"
definition FDT_ERR_BADMAGIC :: int where [simp]: "FDT_ERR_BADMAGIC = 9"
definition FDT_ERR_BADVERSION :: int where [simp]: "FDT_ERR_BADVERSION = 10"
definition FDT_ERR_BADSTRUCTURE :: int where [simp]: "FDT_ERR_BADSTRUCTURE = 11"
definition FDT_ERR_BADLAYOUT :: int where [simp]: "FDT_ERR_BADLAYOUT = 12"
definition FDT_ERR_INTERNAL :: int where [simp]: "FDT_ERR_INTERNAL = 13"
definition FDT_ERR_BADNCELLS :: int where [simp]: "FDT_ERR_BADNCELLS = 14"
definition FDT_ERR_BADVALUE :: int where [simp]: "FDT_ERR_BADVALUE = 15"
definition FDT_ERR_BADOVERLAY :: int where [simp]: "FDT_ERR_BADOVERLAY = 16"
definition FDT_ERR_NOPHANDLES :: int where [simp]: "FDT_ERR_NOPHANDLES = 17"
definition FDT_ERR_BADFLAGS :: int where [simp]: "FDT_ERR_BADFLAGS = 18"
definition FDT_ERR_ALIGNMENT :: int where [simp]: "FDT_ERR_ALIGNMENT = 19"
definition FDT_MAX_PHANDLE :: int where [simp]: "FDT_MAX_PHANDLE = 0xfffffffe"

definition FDT_ASSUME_MASK :: int where "FDT_ASSUME_MASK = 0"

definition can_assume :: "int \<Rightarrow> bool" where "can_assume m \<longleftrightarrow> FDT_ASSUME_MASK AND m \<noteq> 0"

lemma can_assume_none: "\<not> can_assume m"
  by (simp add: can_assume_def FDT_ASSUME_MASK_def)

section \<open>Loads and stores\<close>

text \<open>\<open>((uint8_t *)&x)[n]\<close> on a little-endian machine.\<close>

definition EXTRACT_BYTE :: "nat \<Rightarrow> 'a::len word \<Rightarrow> 'b::len word" where
  "EXTRACT_BYTE n x = ucast (ucast (drop_bit (8 * n) x) :: u8)"

definition fdt16_to_cpu :: "u16 \<Rightarrow> u16" where
  "fdt16_to_cpu x = push_bit 8 (EXTRACT_BYTE 0 x) OR EXTRACT_BYTE 1 x"

definition fdt32_to_cpu :: "u32 \<Rightarrow> u32" where
  "fdt32_to_cpu x = push_bit 24 (EXTRACT_BYTE 0 x) OR push_bit 16 (EXTRACT_BYTE 1 x) OR push_bit 8 (EXTRACT_BYTE 2 x)
     OR EXTRACT_BYTE 3 x"

definition fdt64_to_cpu :: "u64 \<Rightarrow> u64" where
  "fdt64_to_cpu x = push_bit 56 (EXTRACT_BYTE 0 x) OR push_bit 48 (EXTRACT_BYTE 1 x) OR push_bit 40 (EXTRACT_BYTE 2 x)
     OR push_bit 32 (EXTRACT_BYTE 3 x) OR push_bit 24 (EXTRACT_BYTE 4 x) OR push_bit 16 (EXTRACT_BYTE 5 x)
     OR push_bit 8 (EXTRACT_BYTE 6 x) OR EXTRACT_BYTE 7 x"

text \<open>The bytes of a big-endian number.\<close>

definition be16 :: "u8 \<Rightarrow> u8 \<Rightarrow> u16" where
  "be16 b0 b1 = push_bit 8 (ucast b0) OR ucast b1"

definition be32 :: "u8 \<Rightarrow> u8 \<Rightarrow> u8 \<Rightarrow> u8 \<Rightarrow> u32" where
  "be32 b0 b1 b2 b3 = push_bit 24 (ucast b0) OR push_bit 16 (ucast b1) OR push_bit 8 (ucast b2) OR ucast b3"

definition be64 :: "u8 \<Rightarrow> u8 \<Rightarrow> u8 \<Rightarrow> u8 \<Rightarrow> u8 \<Rightarrow> u8 \<Rightarrow> u8 \<Rightarrow> u8 \<Rightarrow> u64" where
  "be64 b0 b1 b2 b3 b4 b5 b6 b7 = push_bit 56 (ucast b0) OR push_bit 48 (ucast b1) OR push_bit 40 (ucast b2)
     OR push_bit 32 (ucast b3) OR push_bit 24 (ucast b4) OR push_bit 16 (ucast b5) OR push_bit 8 (ucast b6) OR ucast b7"

definition fdt16_ld :: "buf \<Rightarrow> int \<Rightarrow> int kres" where
  "fdt16_ld b p = bindE (rd b p) (\<lambda>b0. bindE (rd b (p + 1)) (\<lambda>b1. Inr (uint (be16 b0 b1))))"

definition fdt32_ld :: "buf \<Rightarrow> int \<Rightarrow> int kres" where
  "fdt32_ld b p = bindE (rd b p) (\<lambda>b0. bindE (rd b (p + 1)) (\<lambda>b1. bindE (rd b (p + 2)) (\<lambda>b2. bindE (rd b (p + 3)) (\<lambda>b3.
     Inr (uint (be32 b0 b1 b2 b3))))))"

definition fdt64_ld :: "buf \<Rightarrow> int \<Rightarrow> int kres" where
  "fdt64_ld b p = bindE (rd b p) (\<lambda>b0. bindE (rd b (p + 1)) (\<lambda>b1. bindE (rd b (p + 2)) (\<lambda>b2. bindE (rd b (p + 3)) (\<lambda>b3.
     bindE (rd b (p + 4)) (\<lambda>b4. bindE (rd b (p + 5)) (\<lambda>b5. bindE (rd b (p + 6)) (\<lambda>b6. bindE (rd b (p + 7)) (\<lambda>b7.
     Inr (uint (be64 b0 b1 b2 b3 b4 b5 b6 b7))))))))))"

text \<open>Loads of the machine, which is little-endian, and the internal loads on top of them.\<close>

definition ld_u32 :: "buf \<Rightarrow> int \<Rightarrow> u32 kres" where
  "ld_u32 b p = bindE (rd b p) (\<lambda>b0. bindE (rd b (p + 1)) (\<lambda>b1. bindE (rd b (p + 2)) (\<lambda>b2. bindE (rd b (p + 3)) (\<lambda>b3.
     Inr (be32 b3 b2 b1 b0)))))"

definition ld_u64 :: "buf \<Rightarrow> int \<Rightarrow> u64 kres" where
  "ld_u64 b p = bindE (rd b p) (\<lambda>b0. bindE (rd b (p + 1)) (\<lambda>b1. bindE (rd b (p + 2)) (\<lambda>b2. bindE (rd b (p + 3)) (\<lambda>b3.
     bindE (rd b (p + 4)) (\<lambda>b4. bindE (rd b (p + 5)) (\<lambda>b5. bindE (rd b (p + 6)) (\<lambda>b6. bindE (rd b (p + 7)) (\<lambda>b7.
     Inr (be64 b7 b6 b5 b4 b3 b2 b1 b0)))))))))"

definition fdt32_ld_int :: "buf \<Rightarrow> int \<Rightarrow> int kres" where
  "fdt32_ld_int b p = bindE (ld_u32 b p) (\<lambda>x. Inr (uint (fdt32_to_cpu x)))"

definition fdt64_ld_int :: "buf \<Rightarrow> int \<Rightarrow> int kres" where
  "fdt64_ld_int b p = bindE (ld_u64 b p) (\<lambda>x. Inr (uint (fdt64_to_cpu x)))"

text \<open>The stores, as the bytes that they write.\<close>

definition fdt32_st :: "u32 \<Rightarrow> u8 list" where
  "fdt32_st v = [ucast (drop_bit 24 v), ucast (drop_bit 16 v AND 0xff), ucast (drop_bit 8 v AND 0xff), ucast (v AND 0xff)]"

definition fdt64_st :: "u64 \<Rightarrow> u8 list" where
  "fdt64_st v = [ucast (drop_bit 56 v), ucast (drop_bit 48 v AND 0xff), ucast (drop_bit 40 v AND 0xff),
     ucast (drop_bit 32 v AND 0xff), ucast (drop_bit 24 v AND 0xff), ucast (drop_bit 16 v AND 0xff),
     ucast (drop_bit 8 v AND 0xff), ucast (v AND 0xff)]"

section \<open>The blob and its header\<close>

record fdt =
  fdt_addr :: u64
  fdt_bytes :: buf

definition fdt_get_header :: "fdt \<Rightarrow> int \<Rightarrow> int kres" where
  "fdt_get_header f field = fdt32_ld (fdt_bytes f) field"

definition fdt_magic :: "fdt \<Rightarrow> int kres" where "fdt_magic f = fdt_get_header f 0"
definition fdt_totalsize :: "fdt \<Rightarrow> int kres" where "fdt_totalsize f = fdt_get_header f 4"
definition fdt_off_dt_struct :: "fdt \<Rightarrow> int kres" where "fdt_off_dt_struct f = fdt_get_header f 8"
definition fdt_off_dt_strings :: "fdt \<Rightarrow> int kres" where "fdt_off_dt_strings f = fdt_get_header f 12"
definition fdt_off_mem_rsvmap :: "fdt \<Rightarrow> int kres" where "fdt_off_mem_rsvmap f = fdt_get_header f 16"
definition fdt_version :: "fdt \<Rightarrow> int kres" where "fdt_version f = fdt_get_header f 20"
definition fdt_last_comp_version :: "fdt \<Rightarrow> int kres" where "fdt_last_comp_version f = fdt_get_header f 24"
definition fdt_boot_cpuid_phys :: "fdt \<Rightarrow> int kres" where "fdt_boot_cpuid_phys f = fdt_get_header f 28"
definition fdt_size_dt_strings :: "fdt \<Rightarrow> int kres" where "fdt_size_dt_strings f = fdt_get_header f 32"
definition fdt_size_dt_struct :: "fdt \<Rightarrow> int kres" where "fdt_size_dt_struct f = fdt_get_header f 36"

section \<open>Header checks\<close>

definition fdt_ro_probe :: "fdt \<Rightarrow> int kres" where
  "fdt_ro_probe f =
     bindE (fdt_totalsize f) (\<lambda>totalsize.
     if fdt_addr f AND 7 \<noteq> 0 then Inr (- FDT_ERR_ALIGNMENT)
     else bindE (fdt_magic f) (\<lambda>magic.
     bindE (if magic = FDT_MAGIC
            then bindE (fdt_version f) (\<lambda>version.
                 if version < FDT_FIRST_SUPPORTED_VERSION then Inr (- FDT_ERR_BADVERSION)
                 else bindE (fdt_last_comp_version f) (\<lambda>last_comp.
                 Inr (if last_comp > FDT_LAST_SUPPORTED_VERSION then - FDT_ERR_BADVERSION else 0)))
            else if magic = FDT_SW_MAGIC
            then bindE (fdt_size_dt_struct f) (\<lambda>size. Inr (if size = 0 then - FDT_ERR_BADSTATE else 0))
            else Inr (- FDT_ERR_BADMAGIC)) (\<lambda>err.
     Inr (if err < 0 then err else if totalsize < INT32_MAX then totalsize else - FDT_ERR_TRUNCATED))))"

text \<open>\<open>FDT_RO_PROBE\<close>: return the error of the probe, or go on.\<close>

definition FDT_RO_PROBE :: "fdt \<Rightarrow> (int \<Rightarrow> 'a kres) \<Rightarrow> 'a kres \<Rightarrow> 'a kres" where
  "FDT_RO_PROBE f err k = bindE (fdt_ro_probe f) (\<lambda>t. if t < 0 then err t else k)"

definition check_off :: "int \<Rightarrow> int \<Rightarrow> int \<Rightarrow> bool" where
  "check_off hdrsize totalsize off \<longleftrightarrow> hdrsize \<le> off \<and> off \<le> totalsize"

definition check_block :: "int \<Rightarrow> int \<Rightarrow> int \<Rightarrow> int \<Rightarrow> bool" where
  "check_block hdrsize totalsize base sz \<longleftrightarrow>
     (if \<not> check_off hdrsize totalsize base then False
      else if wrap_u32 (base + sz) < base then False
      else if \<not> check_off hdrsize totalsize (wrap_u32 (base + sz)) then False
      else True)"

definition fdt_header_size_v :: "int \<Rightarrow> int" where
  "fdt_header_size_v version =
     (if version \<le> 1 then FDT_V1_SIZE else if version \<le> 2 then FDT_V2_SIZE else if version \<le> 3 then FDT_V3_SIZE
      else if version \<le> 16 then FDT_V16_SIZE else FDT_V17_SIZE)"

definition fdt_header_size :: "fdt \<Rightarrow> int kres" where
  "fdt_header_size f = bindE (fdt_version f) (\<lambda>v. Inr (fdt_header_size_v v))"

definition fdt_check_header :: "fdt \<Rightarrow> int kres" where
  "fdt_check_header f =
     (if fdt_addr f AND 7 \<noteq> 0 then Inr (- FDT_ERR_ALIGNMENT)
      else bindE (fdt_magic f) (\<lambda>magic.
      if magic \<noteq> FDT_MAGIC then Inr (- FDT_ERR_BADMAGIC)
      else bindE (fdt_version f) (\<lambda>version. bindE (fdt_last_comp_version f) (\<lambda>last_comp.
      if version < FDT_FIRST_SUPPORTED_VERSION \<or> last_comp > FDT_LAST_SUPPORTED_VERSION then Inr (- FDT_ERR_BADVERSION)
      else if version < last_comp then Inr (- FDT_ERR_BADVERSION)
      else bindE (fdt_header_size f) (\<lambda>hdrsize. bindE (fdt_totalsize f) (\<lambda>totalsize.
      if totalsize < hdrsize \<or> totalsize > INT32_MAX then Inr (- FDT_ERR_TRUNCATED)
      else bindE (fdt_off_mem_rsvmap f) (\<lambda>off_rsv.
      if \<not> check_off hdrsize totalsize off_rsv then Inr (- FDT_ERR_TRUNCATED)
      else bindE (fdt_off_dt_struct f) (\<lambda>off_struct.
      bindE (if version < 17 then Inr (check_off hdrsize totalsize off_struct)
             else bindE (fdt_size_dt_struct f) (\<lambda>size. Inr (check_block hdrsize totalsize off_struct size))) (\<lambda>ok.
      if \<not> ok then Inr (- FDT_ERR_TRUNCATED)
      else bindE (fdt_off_dt_strings f) (\<lambda>off_str. bindE (fdt_size_dt_strings f) (\<lambda>size_str.
      if \<not> check_block hdrsize totalsize off_str size_str then Inr (- FDT_ERR_TRUNCATED)
      else Inr 0)))))))))))"

section \<open>The structure block\<close>

definition fdt_offset_ptr_raw :: "fdt \<Rightarrow> int \<Rightarrow> int kres" where
  "fdt_offset_ptr_raw f offset = bindE (fdt_off_dt_struct f) (\<lambda>off. Inr (off + offset))"

definition fdt_offset_ptr :: "fdt \<Rightarrow> int \<Rightarrow> int \<Rightarrow> int option kres" where
  "fdt_offset_ptr f offset len =
     (let uoffset = wrap_u32 offset in
      bindE (fdt_off_dt_struct f) (\<lambda>off.
      let absoffset = wrap_u32 (offset + off) in
      if offset < 0 then Inr None
      else bindE (fdt_totalsize f) (\<lambda>totalsize.
      if absoffset < uoffset \<or> wrap_u32 (absoffset + len) < absoffset \<or> wrap_u32 (absoffset + len) > totalsize then Inr None
      else bindE (fdt_version f) (\<lambda>version. bindE (fdt_size_dt_struct f) (\<lambda>size.
      if version \<ge> 0x11 \<and> (wrap_u32 (uoffset + len) < uoffset \<or> wrap_u32 (offset + len) > size) then Inr None
      else bindE (fdt_offset_ptr_raw f offset) (\<lambda>p. Inr (Some p)))))))"

lemma fdt_offset_ptr_nonneg: "fdt_offset_ptr f offset len = Inr (Some q) \<Longrightarrow> 0 \<le> offset"
  by (auto simp: fdt_offset_ptr_def Let_def bindE_eq_Inr split: if_splits)

text \<open>Offsets that a loop can still go through: a loop that advances an \<open>int\<close> offset, and ends when it is negative.\<close>

definition offsets_left :: "int \<Rightarrow> nat" where
  "offsets_left offset = (if offset < 0 then 0 else if offset < 2147483648 then Suc (nat (2147483648 - offset)) else 2147483650)"

lemma offsets_left_step:
  assumes "0 \<le> offset" "offset' < 0 \<or> offset < offset' \<or> 2147483648 \<le> offset" "offset' < 2147483648"
  shows "offsets_left offset' < offsets_left offset"
  using assms by (auto simp: offsets_left_def)

lemma offsets_left_wrap: "0 \<le> offset \<Longrightarrow> offsets_left (wrap_i32 (offset + 1)) < offsets_left offset"
proof (cases "offset < 2147483647")
  case False
  assume "0 \<le> offset"
  with False show ?thesis
    using wrap_i32_range [of "offset + 1"] by (cases "offset = 2147483647") (auto simp: offsets_left_def wrap_i32_def)
qed (auto simp: offsets_left_def)

text \<open>The loop over the name of a node: \<open>do { p = fdt_offset_ptr(fdt, offset++, 1); } while (p && *p)\<close>. Position and
  offset after the loop.\<close>

function skip_name :: "fdt \<Rightarrow> int \<Rightarrow> (int option \<times> int) kres" where
  "skip_name f offset =
     bindE (fdt_offset_ptr f offset 1) (\<lambda>p.
     case p of None \<Rightarrow> Inr (None, wrap_i32 (offset + 1))
     | Some q \<Rightarrow> bindE (rd (fdt_bytes f) q) (\<lambda>c.
         if c \<noteq> 0 then skip_name f (wrap_i32 (offset + 1)) else Inr (Some q, wrap_i32 (offset + 1))))"
  by auto
termination by (relation "measure (\<lambda>(f, offset). offsets_left offset)") (auto dest: fdt_offset_ptr_nonneg offsets_left_wrap)

declare skip_name.simps [simp del]

definition FDT_ALIGN :: "int \<Rightarrow> int \<Rightarrow> int" where
  "FDT_ALIGN x a = (x + a - 1) AND NOT (a - 1)"

definition FDT_TAGALIGN :: "int \<Rightarrow> int" where
  "FDT_TAGALIGN x = wrap_i32 (FDT_ALIGN x FDT_TAGSIZE)"

text \<open>The part of \<open>fdt_next_tag\<close> after the \<open>switch\<close>: the result and \<open>*nextoffset\<close>, for the offset after the tag's data.\<close>

definition next_tag_end :: "fdt \<Rightarrow> int \<Rightarrow> int \<Rightarrow> int \<Rightarrow> (int \<times> int) kres" where
  "next_tag_end f startoffset tag offset =
     bindE (fdt_offset_ptr f startoffset (wrap_u32 (offset - startoffset))) (\<lambda>p.
     Inr (if p = None then (FDT_END, - FDT_ERR_BADSTRUCTURE) else (tag, FDT_TAGALIGN offset)))"

text \<open>\<open>case FDT_PROP\<close>: the offset after the value, or \<open>None\<close> for a premature end.\<close>

definition next_tag_prop :: "fdt \<Rightarrow> int \<Rightarrow> int option kres" where
  "next_tag_prop f offset =
     bindE (fdt_offset_ptr f offset 4) (\<lambda>lenp. case lenp of None \<Rightarrow> Inr None | Some lp \<Rightarrow>
     bindE (fdt32_ld_int (fdt_bytes f) lp) (\<lambda>len.
     let sum = wrap_u32 (len + offset) in
     if INT32_MAX \<le> sum \<or> sum < wrap_u32 offset then Inr None
     else bindE (fdt_version f) (\<lambda>version.
     let offset1 = wrap_i32 (offset + (12 - FDT_TAGSIZE + len))
     in Inr (Some (if version < 0x10 \<and> len \<ge> 8 \<and> wrap_u32 (offset1 - len) mod 8 \<noteq> 0 then wrap_i32 (offset1 + 4) else offset1)))))"

definition fdt_next_tag :: "fdt \<Rightarrow> int \<Rightarrow> (int \<times> int) kres" where
  "fdt_next_tag f startoffset =
     bindE (fdt_offset_ptr f startoffset FDT_TAGSIZE) (\<lambda>tagp. case tagp of None \<Rightarrow> Inr (FDT_END, - FDT_ERR_TRUNCATED) | Some tp \<Rightarrow>
     bindE (fdt32_ld_int (fdt_bytes f) tp) (\<lambda>tag.
     let offset = wrap_i32 (startoffset + FDT_TAGSIZE) in
     if tag = FDT_BEGIN_NODE then
       bindE (skip_name f offset) (\<lambda>(p, offset1).
       if p = None then Inr (FDT_END, - FDT_ERR_BADSTRUCTURE) else next_tag_end f startoffset tag offset1)
     else if tag = FDT_PROP then
       bindE (next_tag_prop f offset) (\<lambda>r. case r of None \<Rightarrow> Inr (FDT_END, - FDT_ERR_BADSTRUCTURE)
         | Some offset1 \<Rightarrow> next_tag_end f startoffset tag offset1)
     else if tag = FDT_END \<or> tag = FDT_END_NODE \<or> tag = FDT_NOP then next_tag_end f startoffset tag offset
     else Inr (FDT_END, - FDT_ERR_BADSTRUCTURE)))"

definition fdt_check_node_offset :: "fdt \<Rightarrow> int \<Rightarrow> int kres" where
  "fdt_check_node_offset f offset =
     (if offset < 0 \<or> offset mod FDT_TAGSIZE \<noteq> 0 then Inr (- FDT_ERR_BADOFFSET)
      else bindE (fdt_next_tag f offset) (\<lambda>(tag, next). Inr (if tag \<noteq> FDT_BEGIN_NODE then - FDT_ERR_BADOFFSET else next)))"

definition fdt_check_prop_offset :: "fdt \<Rightarrow> int \<Rightarrow> int kres" where
  "fdt_check_prop_offset f offset =
     (if offset < 0 \<or> offset mod FDT_TAGSIZE \<noteq> 0 then Inr (- FDT_ERR_BADOFFSET)
      else bindE (fdt_next_tag f offset) (\<lambda>(tag, next). Inr (if tag \<noteq> FDT_PROP then - FDT_ERR_BADOFFSET else next)))"

subsection \<open>Progress\<close>

lemma FDT_ALIGN_4: "FDT_ALIGN x 4 = 4 * ((x + 3) div 4)"
proof -
  have "FDT_ALIGN x 4 = (x + 3) AND NOT (mask 2)" by (simp add: FDT_ALIGN_def mask_eq_exp_minus_1 add.commute)
  also have "\<dots> = push_bit 2 (drop_bit 2 (x + 3))" by (rule bit_eqI) (auto simp: bit_simps simp flip: numeral_2_eq_2 add_2_eq_Suc')
  finally show ?thesis by (simp add: push_bit_eq_mult drop_bit_eq_div mult.commute)
qed

lemma FDT_TAGALIGN_bounds:
  assumes "- 2147483648 \<le> x" "x < 2147483648"
  shows "FDT_TAGALIGN x < 2147483648" "FDT_TAGALIGN x < 0 \<or> x \<le> FDT_TAGALIGN x" "x < - 4 \<Longrightarrow> FDT_TAGALIGN x < 0"
proof -
  have a: "x \<le> FDT_ALIGN x 4" "FDT_ALIGN x 4 < x + 4" "x < - 4 \<longrightarrow> FDT_ALIGN x 4 < 0" unfolding FDT_ALIGN_4 by presburger+
  show "FDT_TAGALIGN x < 2147483648" using wrap_i32_range by (simp add: FDT_TAGALIGN_def)
  have *: "FDT_TAGALIGN x = FDT_ALIGN x 4 \<or> FDT_TAGALIGN x < 0"
  proof (cases "FDT_ALIGN x 4 < 2147483648")
    case True
    then show ?thesis using a assms by (simp add: FDT_TAGALIGN_def)
  next
    case False
    then have "FDT_ALIGN x 4 = 2147483648" unfolding FDT_ALIGN_4 using a(2) assms(2) by (simp add: FDT_ALIGN_4)
    then show ?thesis by (simp add: FDT_TAGALIGN_def wrap_i32_def)
  qed
  then show "FDT_TAGALIGN x < 0 \<or> x \<le> FDT_TAGALIGN x" using a by auto
  show "FDT_TAGALIGN x < 0" if "x < - 4" using * a that by auto
qed

lemma skip_name_progress:
  "skip_name f offset = Inr (Some q, o1) \<Longrightarrow> offset < 2147483648 \<Longrightarrow>
   0 \<le> offset \<and> (o1 = - 2147483648 \<or> offset < o1 \<and> o1 < 2147483648)"
proof (induction f offset rule: skip_name.induct)
  case (1 f offset)
  from 1(2) obtain p c where p: "fdt_offset_ptr f offset 1 = Inr (Some p)" "rd (fdt_bytes f) p = Inr c"
    "(if c \<noteq> 0 then skip_name f (wrap_i32 (offset + 1)) else Inr (Some p, wrap_i32 (offset + 1))) = Inr (Some q, o1)"
    by (auto simp: skip_name.simps [of f offset] bindE_eq_Inr split: option.splits)
  have nn: "0 \<le> offset" by (rule fdt_offset_ptr_nonneg [OF p(1)])
  have w: "wrap_i32 (offset + 1) = (if offset = 2147483647 then - 2147483648 else offset + 1)"
    using nn 1(3) by (auto simp: wrap_i32_def)
  show ?case
  proof (cases "c = 0")
    case True
    then show ?thesis using p(3) w nn 1(3) by (auto split: if_splits)
  next
    case False
    then have "0 \<le> wrap_i32 (offset + 1) \<and> (o1 = - 2147483648 \<or> wrap_i32 (offset + 1) < o1 \<and> o1 < 2147483648)"
      using 1(1) [OF p(1) _ p(2) False] p(3) wrap_i32_range by simp
    then show ?thesis using w nn by (auto split: if_splits)
  qed
qed

text \<open>What \<open>fdt_next_tag\<close> leaves behind when it finds a tag: the offset behind its data, before alignment.\<close>

lemma fdt_next_tag_cases:
  assumes "fdt_next_tag f start = Inr (tag, next)"
  obtains (stop) "tag = FDT_END" "next = - FDT_ERR_TRUNCATED \<or> next = - FDT_ERR_BADSTRUCTURE"
  | (tag) tp o1 p where "fdt_offset_ptr f start FDT_TAGSIZE = Inr (Some tp)" "fdt32_ld_int (fdt_bytes f) tp = Inr tag"
      "fdt_offset_ptr f start (wrap_u32 (o1 - start)) = Inr (Some p)" "next = FDT_TAGALIGN o1"
      "if tag = FDT_BEGIN_NODE then \<exists>q. skip_name f (wrap_i32 (start + 4)) = Inr (Some q, o1)
       else if tag = FDT_PROP then next_tag_prop f (wrap_i32 (start + 4)) = Inr (Some o1)
       else o1 = wrap_i32 (start + 4) \<and> (tag = FDT_END \<or> tag = FDT_END_NODE \<or> tag = FDT_NOP)"
proof -
  obtain tagp where tagp: "fdt_offset_ptr f start FDT_TAGSIZE = Inr tagp"
    using assms by (auto simp: fdt_next_tag_def bindE_eq_Inr)
  show thesis
  proof (cases tagp)
    case None
    then show thesis using assms tagp stop by (simp add: fdt_next_tag_def)
  next
    case (Some tp)
    then obtain t where t: "fdt32_ld_int (fdt_bytes f) tp = Inr t"
      using assms tagp by (auto simp: fdt_next_tag_def bindE_eq_Inr)
    have fin: thesis if e: "next_tag_end f start t o1 = Inr (tag, next)" and "if t = FDT_BEGIN_NODE then \<exists>q. skip_name f (wrap_i32 (start + 4)) = Inr (Some q, o1)
       else if t = FDT_PROP then next_tag_prop f (wrap_i32 (start + 4)) = Inr (Some o1)
       else o1 = wrap_i32 (start + 4) \<and> (t = FDT_END \<or> t = FDT_END_NODE \<or> t = FDT_NOP)" for o1
    proof -
      obtain p where p: "fdt_offset_ptr f start (wrap_u32 (o1 - start)) = Inr p"
        "(tag, next) = (if p = None then (FDT_END, - FDT_ERR_BADSTRUCTURE) else (t, FDT_TAGALIGN o1))"
        using e by (auto simp: next_tag_end_def bindE_eq_Inr)
      show thesis
      proof (cases p)
        case None
        then show thesis using p(2) stop by simp
      next
        case (Some q)
        then have "tag = t" "next = FDT_TAGALIGN o1" using p(2) by simp_all
        with Some that(2) tagp t p(1) \<open>tagp = Some tp\<close> show thesis by (intro tag [of tp o1 q]) (simp_all split: if_splits)
      qed
    qed
    note def = assms [unfolded fdt_next_tag_def Let_def, simplified tagp Some t bindE_simps option.case]
    show thesis
    proof (cases "t = FDT_BEGIN_NODE \<or> t = FDT_PROP")
      case True
      then show thesis using def fin stop
        by (elim disjE) (auto simp: bindE_eq_Inr split: if_splits option.splits)
    next
      case False
      then show thesis using def fin stop by (auto split: if_splits)
    qed
  qed
qed

lemma next_tag_prop_bounds:
  assumes "next_tag_prop f offset = Inr (Some o1)" "offset < 2147483648"
  obtains lp len where "fdt_offset_ptr f offset 4 = Inr (Some lp)" "fdt32_ld_int (fdt_bytes f) lp = Inr len"
    "0 \<le> offset" "0 \<le> len" "offset + len < 2147483647"
    "o1 = wrap_i32 (offset + 8 + len) \<or> o1 = wrap_i32 (offset + 12 + len)"
proof -
  obtain lp len where lp: "fdt_offset_ptr f offset 4 = Inr (Some lp)" "fdt32_ld_int (fdt_bytes f) lp = Inr len"
    "\<not> INT32_MAX \<le> wrap_u32 (len + offset)" "\<not> wrap_u32 (len + offset) < wrap_u32 offset"
    "o1 = wrap_i32 (offset + (8 + len)) \<or> o1 = wrap_i32 (wrap_i32 (offset + (8 + len)) + 4)"
    using assms(1) unfolding next_tag_prop_def Let_def
    by (auto simp: bindE_eq_Inr split: option.splits if_splits)
  have o: "0 \<le> offset" by (rule fdt_offset_ptr_nonneg [OF lp(1)])
  obtain x :: u32 where "len = uint x" using lp(2) by (auto simp: fdt32_ld_int_def bindE_eq_Inr)
  then have len: "0 \<le> len" "len < 4294967296" using uint_range_size [of x] by (auto simp: word_size)
  have s: "offset + len < 2147483647"
  proof (cases "offset + len < 4294967296")
    case True
    then show ?thesis using lp(3) o len by (simp add: add.commute)
  next
    case False
    then have "wrap_u32 (len + offset) = len + offset - 4294967296"
      using len assms(2) by (intro wrap_hi) simp_all
    then show ?thesis using lp(4) len o assms(2) by simp
  qed
  have "o1 = wrap_i32 (offset + 8 + len) \<or> o1 = wrap_i32 (offset + 12 + len)"
    using lp(5) by (simp add: add.assoc)
  then show ?thesis using that lp(1,2) o len s by blast
qed

lemma fdt_next_tag_progress:
  assumes "fdt_next_tag f start = Inr (tag, next)"
  shows "next < 2147483648" "tag \<noteq> FDT_END \<Longrightarrow> 0 \<le> start \<and> (next < 0 \<or> start < next \<or> 2147483648 \<le> start)"
proof -
  have "next < 2147483648 \<and> (tag \<noteq> FDT_END \<longrightarrow> 0 \<le> start \<and> (next < 0 \<or> start < next \<or> 2147483648 \<le> start))"
    using assms
  proof (cases rule: fdt_next_tag_cases)
    case stop
    then show ?thesis by auto
  next
    case (tag tp o1 p)
    have nn: "0 \<le> start" by (rule fdt_offset_ptr_nonneg [OF tag(1)])
    have w4: "wrap_i32 (start + 4) < 2147483648" by (rule wrap_i32_range)
    have r: "- 2147483648 \<le> o1 \<and> o1 < 2147483648"
      using tag(5) skip_name_progress [OF _ w4] next_tag_prop_bounds [OF _ w4, of f o1] wrap_i32_range
      by (fastforce split: if_splits)
    have o1: "- 2147483648 \<le> o1 \<and> o1 < 2147483648 \<and> (start < 2147483648 \<longrightarrow> o1 < - 4 \<or> start < o1)"
    proof (cases "start < 2147483644")
      case True
      then have w: "wrap_i32 (start + 4) = start + 4" using nn by simp
      consider (name) q where "skip_name f (start + 4) = Inr (Some q, o1)" | (property) "next_tag_prop f (start + 4) = Inr (Some o1)" | (plain) "o1 = start + 4"
        using tag(5) w by (auto split: if_splits)
      then show ?thesis
      proof cases
        case name
        then show ?thesis using skip_name_progress [OF name] True nn by auto
      next
        case property
        have "start + 4 < 2147483648" using True by simp
        from next_tag_prop_bounds [OF property this] obtain len where len: "0 \<le> len" "start + 4 + len < 2147483647"
          "o1 = wrap_i32 (start + 4 + 8 + len) \<or> o1 = wrap_i32 (start + 4 + 12 + len)" by metis
        have near: "- 2147483648 \<le> wrap_i32 x \<and> wrap_i32 x < 2147483648 \<and> (wrap_i32 x < - 4 \<or> start < wrap_i32 x)"
          if "start < x" "x < 2147483680" for x using that nn by (cases "x < 2147483648") (simp_all add: wrap_hi)
        show ?thesis using near [of "start + 4 + 8 + len"] near [of "start + 4 + 12 + len"] len nn by auto
      qed (use nn True in simp)
    next
      case False
      then have w: "wrap_i32 (start + 4) < - 4" if "start < 2147483648" using that by (simp add: wrap_hi)
      have "o1 = wrap_i32 (start + 4)" if "start < 2147483648"
        using tag(5) w [OF that] skip_name_progress [OF _ w4, of f _ o1] next_tag_prop_bounds [OF _ w4, of f o1 False]
        by (auto split: if_splits)
      then show ?thesis using w r by auto
    qed
    then show ?thesis using nn FDT_TAGALIGN_bounds [of o1] tag(4) by auto
  qed
  then show "next < 2147483648" "tag \<noteq> FDT_END \<Longrightarrow> 0 \<le> start \<and> (next < 0 \<or> start < next \<or> 2147483648 \<le> start)"
    by simp_all
qed

section \<open>Nodes\<close>

text \<open>The loop of \<open>fdt_next_node\<close>: the result and \<open>*depth\<close>, which is the number of nodes that are open at the offset, plus
  its first value; a blob has far fewer nodes than an \<open>int\<close> can count.\<close>

function next_node_loop :: "fdt \<Rightarrow> int \<Rightarrow> int option \<Rightarrow> (int \<times> int option) kres" where
  "next_node_loop f offset depth =
     bindE (fdt_next_tag f offset) (\<lambda>(tag, nextoffset).
     if tag = FDT_END then
       Inr (if 0 \<le> nextoffset \<or> nextoffset = - FDT_ERR_TRUNCATED \<and> depth = None then - FDT_ERR_NOTFOUND else nextoffset, depth)
     else if tag = FDT_BEGIN_NODE then Inr (offset, map_option (\<lambda>d. d + 1) depth)
     else if tag = FDT_END_NODE then
       let depth1 = map_option (\<lambda>d. d - 1) depth
       in case depth1 of
            Some d \<Rightarrow> if d < 0 then Inr (nextoffset, depth1) else next_node_loop f nextoffset depth1
          | None \<Rightarrow> next_node_loop f nextoffset depth1
     else next_node_loop f nextoffset depth)"
  by auto
termination
  by (relation "measure (\<lambda>(f, offset, depth). offsets_left offset)")
     (auto intro!: offsets_left_step dest: fdt_next_tag_progress)

declare next_node_loop.simps [simp del]

definition fdt_next_node :: "fdt \<Rightarrow> int \<Rightarrow> int option \<Rightarrow> (int \<times> int option) kres" where
  "fdt_next_node f offset depth =
     bindE (if 0 \<le> offset then fdt_check_node_offset f offset else Inr 0) (\<lambda>nextoffset.
     if nextoffset < 0 then Inr (nextoffset, depth) else next_node_loop f nextoffset depth)"

definition fdt_first_subnode :: "fdt \<Rightarrow> int \<Rightarrow> int kres" where
  "fdt_first_subnode f offset =
     bindE (fdt_next_node f offset (Some 0)) (\<lambda>(offset1, depth).
     Inr (if offset1 < 0 \<or> depth \<noteq> Some 1 then - FDT_ERR_NOTFOUND else offset1))"

lemma next_node_loop_ge:
  "next_node_loop f offset depth = Inr (o1, d1) \<Longrightarrow> offset < 2147483648 \<Longrightarrow> 0 \<le> o1 \<Longrightarrow>
   0 \<le> offset \<and> offset \<le> o1 \<and> o1 < 2147483648"
proof (induction f offset depth rule: next_node_loop.induct)
  case (1 f offset depth)
  from "1.prems"(1) obtain r where "fdt_next_tag f offset = Inr r"
    unfolding next_node_loop.simps [of f offset] by (auto simp: bindE_eq_Inr)
  then obtain tag n where t: "fdt_next_tag f offset = Inr (tag, n)" by (cases r) simp
  note g = fdt_next_tag_progress [OF t]
  note e = "1.prems"(1) [unfolded next_node_loop.simps [of f offset depth] t bindE_simps prod.case]
  have stop: ?case if "tag = FDT_END" using e that "1.prems"(3) by (auto split: if_splits)
  have later: ?case if "tag \<noteq> FDT_END" "0 \<le> n \<and> n \<le> o1 \<and> o1 < 2147483648" using that g "1.prems"(2,3) by auto
  show ?case
  proof (cases "tag = FDT_END \<or> tag = FDT_BEGIN_NODE")
    case True
    then show ?thesis using stop e "1.prems"(2,3) by auto
  next
    case False
    have "0 \<le> n \<and> n \<le> o1 \<and> o1 < 2147483648"
    proof (cases "tag = FDT_END_NODE")
      case True
      then show ?thesis using e False "1.prems"(3) g(1) "1.IH"(1) [OF t refl] "1.IH"(2) [OF t refl]
        by (cases depth) (auto simp: Let_def split: if_splits)
    next
      case neq: False
      then show ?thesis using e False "1.prems"(3) "1.IH"(3) [OF t refl] t g(1) by simp
    qed
    with later False show ?thesis by simp
  qed
qed

lemma fdt_check_offset_progress:
  "fdt_check_node_offset f offset = Inr n \<Longrightarrow> 0 \<le> n \<Longrightarrow> 0 \<le> offset \<and> n < 2147483648 \<and> (offset < n \<or> 2147483648 \<le> offset)"
  "fdt_check_prop_offset f offset = Inr n \<Longrightarrow> 0 \<le> n \<Longrightarrow> 0 \<le> offset \<and> n < 2147483648 \<and> (offset < n \<or> 2147483648 \<le> offset)"
  by (auto simp: fdt_check_node_offset_def fdt_check_prop_offset_def bindE_eq_Inr dest: fdt_next_tag_progress split: if_splits)

lemma fdt_next_node_progress:
  assumes "fdt_next_node f offset depth = Inr (o1, d1)" "0 \<le> o1"
  shows "o1 < 2147483648" "offset < o1 \<or> 2147483648 \<le> offset"
proof -
  obtain n where n: "(if 0 \<le> offset then fdt_check_node_offset f offset else Inr 0) = Inr n"
    "\<not> n < 0" "next_node_loop f n depth = Inr (o1, d1)"
    using assms by (auto simp: fdt_next_node_def bindE_eq_Inr split: if_splits)
  have "n < 2147483648 \<and> (offset < n \<or> 2147483648 \<le> offset)"
    using n(1,2) fdt_check_offset_progress(1) [of f offset n] by (auto split: if_splits)
  moreover from this next_node_loop_ge [OF n(3)] assms(2) have "n \<le> o1 \<and> o1 < 2147483648" by simp
  ultimately show "o1 < 2147483648" "offset < o1 \<or> 2147483648 \<le> offset" by auto
qed

text \<open>Nodes that a loop can still visit: a loop that goes from node to node, from any first offset.\<close>

definition nodes_left :: "int \<Rightarrow> nat" where
  "nodes_left offset = (if offset < 2147483648 then nat (2147483648 - offset) else 4294967297 + nat offset)"

lemma nodes_left_step:
  "fdt_next_node f offset depth = Inr (o1, d1) \<Longrightarrow> 0 \<le> o1 \<Longrightarrow> nodes_left o1 < nodes_left offset"
  using fdt_next_node_progress [of f offset depth o1 d1] by (auto simp: nodes_left_def)

text \<open>The loop of \<open>fdt_next_subnode\<close>.\<close>

function next_subnode_loop :: "fdt \<Rightarrow> int \<Rightarrow> int \<Rightarrow> int kres" where
  "next_subnode_loop f offset depth =
     bindE (fdt_next_node f offset (Some depth)) (\<lambda>(offset1, depth1).
     if offset1 < 0 \<or> the depth1 < 1 then Inr (- FDT_ERR_NOTFOUND)
     else if the depth1 > 1 then next_subnode_loop f offset1 (the depth1) else Inr offset1)"
  by auto
termination by (relation "measure (\<lambda>(f, offset, depth). nodes_left offset)") (auto intro: nodes_left_step)

definition fdt_next_subnode :: "fdt \<Rightarrow> int \<Rightarrow> int kres" where
  "fdt_next_subnode f offset = next_subnode_loop f offset 1"

section \<open>Searching the string table, moving\<close>

text \<open>\<open>for (p = strtab; p <= last; p++)\<close>, with the rounds left.\<close>

fun find_string_loop :: "nat \<Rightarrow> buf \<Rightarrow> int \<Rightarrow> buf \<Rightarrow> int \<Rightarrow> int option kres" where
  "find_string_loop 0 tab p s slen = Inr None"
| "find_string_loop (Suc n) tab p s slen =
     bindE (buf_memcmp (nat slen) tab p s 0) (\<lambda>r.
     bindE (if r = 0 then bindE (rd tab (p + slen)) (\<lambda>c. Inr (c = 0)) else Inr False) (\<lambda>found.
     if found then Inr (Some p) else find_string_loop n tab (p + 1) s slen))"

definition fdt_find_string_len :: "buf \<Rightarrow> int \<Rightarrow> int \<Rightarrow> buf \<Rightarrow> int \<Rightarrow> int option kres" where
  "fdt_find_string_len tab strtab tabsize s slen =
     (let last_p = strtab + tabsize - (slen + 1) in find_string_loop (nat (last_p - strtab + 1)) tab strtab s slen)"

definition fdt_find_string :: "buf \<Rightarrow> int \<Rightarrow> int \<Rightarrow> buf \<Rightarrow> int option kres" where
  "fdt_find_string tab strtab tabsize s = bindE (buf_strlen s 0) (\<lambda>n. fdt_find_string_len tab strtab tabsize s (wrap_i32 n))"

text \<open>\<open>fdt_move\<close> copies within memory.\<close>

definition fdt_move :: "fdt \<Rightarrow> u64 \<Rightarrow> int \<Rightarrow> mem \<Rightarrow> (int \<times> mem) kres" where
  "fdt_move f dest bufsize m =
     (if bufsize < 0 then Inr (- FDT_ERR_NOSPACE, m)
      else FDT_RO_PROBE f (\<lambda>err. Inr (err, m))
        (bindE (fdt_totalsize f) (\<lambda>totalsize.
         if totalsize > bufsize then Inr (- FDT_ERR_NOSPACE, m)
         else Inr (0, snd (memmove dest (fdt_addr f) (word_of_int totalsize) m)))))"

end
