(* ===== verification/Fdt_Ro.thy ===== *)
theory Fdt_Ro
  imports Fdt
begin

unbundle bit_operations_syntax

text \<open>
  The read-only functions of the device tree library (\<open>fdt_ro.c\<close>). A C string parameter is a buffer and a position in
  it, so that reads of the strings are checked too. A function with an output parameter \<open>lenp\<close> returns the pair of its result
  and the length or error stored there.
\<close>

section \<open>Strings\<close>

text \<open>The bytes of a string literal.\<close>

definition lit :: "string \<Rightarrow> buf" where "lit s = map of_char s @ [0]"

text \<open>The length up to the null byte that \<open>memchr\<close> looks for, within the limits of the strings block.\<close>

definition string_limit :: "fdt \<Rightarrow> int \<Rightarrow> int \<Rightarrow> (int + int) kres" where
  "string_limit f stroffset len =
     bindE (fdt_magic f) (\<lambda>magic. bindE (fdt_version f) (\<lambda>version. bindE (fdt_size_dt_strings f) (\<lambda>size.
     if magic = FDT_MAGIC then
       Inr (if stroffset < 0 then Inl (- FDT_ERR_BADOFFSET)
            else if version \<ge> 17 then
              (if wrap_u32 stroffset \<ge> size then Inl (- FDT_ERR_BADOFFSET)
               else if wrap_u32 (size - stroffset) < len then Inr (wrap_u32 (size - stroffset)) else Inr len)
            else Inr len)
     else if magic = FDT_SW_MAGIC then
       (let sw_stroffset = wrap_u32 (- stroffset)
        in Inr (if stroffset \<ge> 0 \<or> sw_stroffset > size then Inl (- FDT_ERR_BADOFFSET)
                else if sw_stroffset < len then Inr sw_stroffset else Inr len))
     else Inr (Inl (- FDT_ERR_INTERNAL)))))"

definition fdt_get_string :: "fdt \<Rightarrow> int \<Rightarrow> (int option \<times> int) kres" where
  "fdt_get_string f stroffset =
     bindE (fdt_ro_probe f) (\<lambda>totalsize.
     if totalsize < 0 then Inr (None, totalsize)
     else bindE (fdt_off_dt_strings f) (\<lambda>off.
     let absoffset = wrap_u32 (stroffset + off) in
     if absoffset \<ge> totalsize then Inr (None, - FDT_ERR_BADOFFSET)
     else bindE (string_limit f stroffset (totalsize - absoffset)) (\<lambda>r. case r of
       Inl err \<Rightarrow> Inr (None, err)
     | Inr len \<Rightarrow> bindE (buf_memchr (nat len) (fdt_bytes f) absoffset 0) (\<lambda>n. case n of
         None \<Rightarrow> Inr (None, - FDT_ERR_TRUNCATED)
       | Some q \<Rightarrow> Inr (Some absoffset, q - absoffset)))))"

definition fdt_string :: "fdt \<Rightarrow> int \<Rightarrow> int option kres" where
  "fdt_string f stroffset = bindE (fdt_get_string f stroffset) (\<lambda>(p, len). Inr p)"

definition fdt_string_eq :: "fdt \<Rightarrow> int \<Rightarrow> buf \<Rightarrow> int \<Rightarrow> int \<Rightarrow> bool kres" where
  "fdt_string_eq f stroffset s sp len =
     bindE (fdt_get_string f stroffset) (\<lambda>(p, slen). case p of
       None \<Rightarrow> Inr False
     | Some q \<Rightarrow> if slen = len then bindE (buf_memcmp (nat len) (fdt_bytes f) q s sp) (\<lambda>r. Inr (r = 0)) else Inr False)"

section \<open>The memory reservation block\<close>

definition fdt_mem_rsv_raw :: "fdt \<Rightarrow> int \<Rightarrow> int kres" where
  "fdt_mem_rsv_raw f n = bindE (fdt_off_mem_rsvmap f) (\<lambda>off. Inr (off + 16 * n))"

text \<open>\<open>fdt_totalsize(fdt) - sizeof(struct fdt_reserve_entry)\<close> is computed with 64 bits.\<close>

definition fdt_mem_rsv :: "fdt \<Rightarrow> int \<Rightarrow> int option kres" where
  "fdt_mem_rsv f n =
     bindE (fdt_off_mem_rsvmap f) (\<lambda>off.
     let absoffset = wrap_u32 (off + wrap_u32 (n * 16)) in
     if absoffset < off then Inr None
     else bindE (fdt_totalsize f) (\<lambda>totalsize.
     if absoffset > (totalsize - 16) mod 2 ^ 64 then Inr None
     else bindE (fdt_mem_rsv_raw f n) (\<lambda>p. Inr (Some p))))"

text \<open>The result, \<open>*address\<close> and \<open>*size\<close>.\<close>

definition fdt_get_mem_rsv :: "fdt \<Rightarrow> int \<Rightarrow> (int \<times> (int \<times> int) option) kres" where
  "fdt_get_mem_rsv f n =
     FDT_RO_PROBE f (\<lambda>err. Inr (err, None))
       (bindE (fdt_mem_rsv f n) (\<lambda>re. case re of
          None \<Rightarrow> Inr (- FDT_ERR_BADOFFSET, None)
        | Some p \<Rightarrow> bindE (fdt64_ld_int (fdt_bytes f) p) (\<lambda>address.
            bindE (fdt64_ld_int (fdt_bytes f) (p + 8)) (\<lambda>size. Inr (0, Some (address, size))))))"

lemma fdt64_ld_int_in: "fdt64_ld_int b p = Inr v \<Longrightarrow> 0 \<le> p \<and> p < int (length b)"
  by (auto simp: fdt64_ld_int_def ld_u64_def bindE_eq_Inr rd_Inr)

lemma hdr_nonneg: "fdt_get_header f field = Inr v \<Longrightarrow> 0 \<le> v"
  by (auto simp: fdt_get_header_def fdt32_ld_def bindE_eq_Inr)

lemma fdt_mem_rsv_Some: "fdt_mem_rsv f n = Inr (Some p) \<Longrightarrow> 16 * n \<le> p"
  by (auto simp: fdt_mem_rsv_def fdt_mem_rsv_raw_def fdt_off_mem_rsvmap_def Let_def bindE_eq_Inr dest: hdr_nonneg split: if_splits)

text \<open>The loop of \<open>fdt_num_mem_rsv\<close>; it ends with the buffer at the latest.\<close>

function num_mem_rsv_loop :: "fdt \<Rightarrow> int \<Rightarrow> int kres" where
  "num_mem_rsv_loop f i =
     bindE (fdt_mem_rsv f i) (\<lambda>re. case re of
       None \<Rightarrow> Inr (- FDT_ERR_TRUNCATED)
     | Some p \<Rightarrow> bindE (fdt64_ld_int (fdt_bytes f) (p + 8)) (\<lambda>size. if size = 0 then Inr i else num_mem_rsv_loop f (i + 1)))"
  by auto
termination
  by (relation "measure (\<lambda>(f, i). nat (int (length (fdt_bytes f)) - 16 * i))")
     (auto dest!: fdt_mem_rsv_Some fdt64_ld_int_in)

definition fdt_num_mem_rsv :: "fdt \<Rightarrow> int kres" where
  "fdt_num_mem_rsv f = num_mem_rsv_loop f 0"

section \<open>Names\<close>

definition fdt_get_name :: "fdt \<Rightarrow> int \<Rightarrow> (int option \<times> int) kres" where
  "fdt_get_name f nodeoffset =
     bindE (fdt_offset_ptr_raw f nodeoffset) (\<lambda>nh. bindE (fdt_ro_probe f) (\<lambda>err.
     if err < 0 then Inr (None, err)
     else bindE (fdt_check_node_offset f nodeoffset) (\<lambda>err1.
     if err1 < 0 then Inr (None, err1)
     else bindE (fdt_version f) (\<lambda>version.
     if version < 0x10 then
       bindE (buf_strrchr (fdt_bytes f) (nh + 4) 0x2f None) (\<lambda>leaf. case leaf of
         None \<Rightarrow> Inr (None, - FDT_ERR_BADSTRUCTURE)
       | Some q \<Rightarrow> bindE (buf_strlen (fdt_bytes f) (q + 1)) (\<lambda>len. Inr (Some (q + 1), wrap_i32 len)))
     else bindE (buf_strlen (fdt_bytes f) (nh + 4)) (\<lambda>len. Inr (Some (nh + 4), wrap_i32 len))))))"

definition fdt_nodename_eq :: "fdt \<Rightarrow> int \<Rightarrow> buf \<Rightarrow> int \<Rightarrow> int \<Rightarrow> bool kres" where
  "fdt_nodename_eq f offset s sp len =
     bindE (fdt_get_name f offset) (\<lambda>(p, olen). case p of
       None \<Rightarrow> Inr False
     | Some q \<Rightarrow>
         if olen < len then Inr False
         else bindE (buf_memcmp (nat len) (fdt_bytes f) q s sp) (\<lambda>r.
         if r \<noteq> 0 then Inr False
         else bindE (rd (fdt_bytes f) (q + len)) (\<lambda>c.
         if c = 0 then Inr True
         else bindE (buf_memchr (nat len) s sp 0x40) (\<lambda>a. Inr (a = None \<and> c = 0x40)))))"

section \<open>Properties\<close>

function nextprop :: "fdt \<Rightarrow> int \<Rightarrow> int kres" where
  "nextprop f offset =
     bindE (fdt_next_tag f offset) (\<lambda>(tag, nextoffset).
     if tag = FDT_END then Inr (if 0 \<le> nextoffset then - FDT_ERR_BADSTRUCTURE else nextoffset)
     else if tag = FDT_PROP then Inr offset
     else if tag = FDT_NOP then nextprop f nextoffset
     else Inr (- FDT_ERR_NOTFOUND))"
  by auto
termination
  by (relation "measure (\<lambda>(f, offset). offsets_left offset)") (auto intro!: offsets_left_step dest: fdt_next_tag_progress)

declare nextprop.simps [simp del]

definition fdt_first_property_offset :: "fdt \<Rightarrow> int \<Rightarrow> int kres" where
  "fdt_first_property_offset f nodeoffset =
     bindE (fdt_check_node_offset f nodeoffset) (\<lambda>offset. if offset < 0 then Inr offset else nextprop f offset)"

definition fdt_next_property_offset :: "fdt \<Rightarrow> int \<Rightarrow> int kres" where
  "fdt_next_property_offset f offset =
     bindE (fdt_check_prop_offset f offset) (\<lambda>offset1. if offset1 < 0 then Inr offset1 else nextprop f offset1)"

definition fdt_get_property_by_offset_raw :: "fdt \<Rightarrow> int \<Rightarrow> (int option \<times> int) kres" where
  "fdt_get_property_by_offset_raw f offset =
     bindE (fdt_check_prop_offset f offset) (\<lambda>err.
     if err < 0 then Inr (None, err)
     else bindE (fdt_offset_ptr_raw f offset) (\<lambda>prop.
       bindE (fdt32_ld_int (fdt_bytes f) (prop + 4)) (\<lambda>len. Inr (Some prop, wrap_i32 len))))"

definition fdt_get_property_by_offset :: "fdt \<Rightarrow> int \<Rightarrow> (int option \<times> int) kres" where
  "fdt_get_property_by_offset f offset =
     bindE (fdt_version f) (\<lambda>version.
     if version < 0x10 then Inr (None, - FDT_ERR_BADVERSION) else fdt_get_property_by_offset_raw f offset)"

lemma nextprop_ge: "nextprop f offset = Inr o1 \<Longrightarrow> 0 \<le> o1 \<Longrightarrow> offset < 2147483648 \<Longrightarrow> 0 \<le> offset \<and> offset \<le> o1 \<and> o1 < 2147483648"
proof (induction f offset rule: nextprop.induct)
  case (1 f offset)
  from "1.prems"(1) obtain r where "fdt_next_tag f offset = Inr r"
    unfolding nextprop.simps [of f offset] by (auto simp: bindE_eq_Inr)
  then obtain tag n where t: "fdt_next_tag f offset = Inr (tag, n)" by (cases r) simp
  note e = "1.prems"(1) [unfolded nextprop.simps [of f offset] t bindE_simps prod.case] and g = fdt_next_tag_progress [OF t]
  show ?case using e g "1.prems"(2,3) "1.IH" [OF t refl] by (auto split: if_splits)
qed

lemma fdt_next_property_offset_progress:
  assumes "fdt_next_property_offset f offset = Inr o1" "0 \<le> offset"
  shows "offsets_left o1 < offsets_left offset"
proof (cases "0 \<le> o1")
  case True
  obtain n where n: "fdt_check_prop_offset f offset = Inr n" "0 \<le> n" "nextprop f n = Inr o1"
    using assms(1) True by (auto simp: fdt_next_property_offset_def bindE_eq_Inr split: if_splits)
  have "0 \<le> offset \<and> n < 2147483648 \<and> (offset < n \<or> 2147483648 \<le> offset)" by (rule fdt_check_offset_progress(2) [OF n(1,2)])
  moreover from this nextprop_ge [OF n(3) True] have "n \<le> o1 \<and> o1 < 2147483648" by simp
  ultimately show ?thesis by (intro offsets_left_step) auto
qed (use assms(2) in \<open>auto simp: offsets_left_def\<close>)

text \<open>The loop of \<open>fdt_get_property_namelen_\<close>: the property, \<open>*lenp\<close> and \<open>*poffset\<close>.\<close>

function property_loop :: "fdt \<Rightarrow> int \<Rightarrow> buf \<Rightarrow> int \<Rightarrow> int \<Rightarrow> (int option \<times> int \<times> int) kres" where
  "property_loop f offset name np namelen =
     (if offset < 0 then Inr (None, offset, 0)
      else bindE (fdt_get_property_by_offset_raw f offset) (\<lambda>(prop, len). case prop of
        None \<Rightarrow> Inr (None, - FDT_ERR_INTERNAL, 0)
      | Some p \<Rightarrow> bindE (fdt32_ld_int (fdt_bytes f) (p + 8)) (\<lambda>nameoff.
          bindE (fdt_string_eq f (wrap_i32 nameoff) name np namelen) (\<lambda>eq.
          if eq then Inr (Some p, len, offset)
          else bindE (fdt_next_property_offset f offset) (\<lambda>next. property_loop f next name np namelen)))))"
  by auto
termination
  by (relation "measure (\<lambda>(f, offset, name, np, namelen). offsets_left offset)") (auto intro: fdt_next_property_offset_progress)

declare property_loop.simps [simp del]

definition fdt_get_property_namelen_raw :: "fdt \<Rightarrow> int \<Rightarrow> buf \<Rightarrow> int \<Rightarrow> int \<Rightarrow> (int option \<times> int \<times> int) kres" where
  "fdt_get_property_namelen_raw f offset name np namelen =
     bindE (fdt_first_property_offset f offset) (\<lambda>first. property_loop f first name np namelen)"

definition fdt_get_property_namelen :: "fdt \<Rightarrow> int \<Rightarrow> buf \<Rightarrow> int \<Rightarrow> int \<Rightarrow> (int option \<times> int) kres" where
  "fdt_get_property_namelen f offset name np namelen =
     bindE (fdt_version f) (\<lambda>version.
     if version < 0x10 then Inr (None, - FDT_ERR_BADVERSION)
     else bindE (fdt_get_property_namelen_raw f offset name np namelen) (\<lambda>(prop, len, poffset). Inr (prop, len)))"

definition fdt_get_property :: "fdt \<Rightarrow> int \<Rightarrow> buf \<Rightarrow> int \<Rightarrow> (int option \<times> int) kres" where
  "fdt_get_property f nodeoffset name np =
     bindE (buf_strlen name np) (\<lambda>n. fdt_get_property_namelen f nodeoffset name np (wrap_i32 n))"

text \<open>\<open>prop->data\<close>, with the realignment of old versions.\<close>

definition prop_data :: "fdt \<Rightarrow> int \<Rightarrow> int \<Rightarrow> int kres" where
  "prop_data f prop poffset =
     bindE (fdt_version f) (\<lambda>version. bindE (fdt32_ld_int (fdt_bytes f) (prop + 4)) (\<lambda>len.
     Inr (if version < 0x10 \<and> (poffset + 12) mod 8 \<noteq> 0 \<and> len \<ge> 8 then prop + 12 + 4 else prop + 12)))"

definition fdt_getprop_namelen :: "fdt \<Rightarrow> int \<Rightarrow> buf \<Rightarrow> int \<Rightarrow> int \<Rightarrow> (int option \<times> int) kres" where
  "fdt_getprop_namelen f nodeoffset name np namelen =
     bindE (fdt_get_property_namelen_raw f nodeoffset name np namelen) (\<lambda>(prop, len, poffset). case prop of
       None \<Rightarrow> Inr (None, len)
     | Some p \<Rightarrow> bindE (prop_data f p poffset) (\<lambda>d. Inr (Some d, len)))"

text \<open>The value, \<open>*namep\<close> and \<open>*lenp\<close>; \<open>want_name\<close> tells whether \<open>namep\<close> is given.\<close>

definition fdt_getprop_by_offset :: "fdt \<Rightarrow> int \<Rightarrow> bool \<Rightarrow> (int option \<times> int option \<times> int) kres" where
  "fdt_getprop_by_offset f offset want_name =
     bindE (fdt_get_property_by_offset_raw f offset) (\<lambda>(prop, len). case prop of
       None \<Rightarrow> Inr (None, None, len)
     | Some p \<Rightarrow>
         bindE (if want_name then bindE (fdt32_ld_int (fdt_bytes f) (p + 8)) (\<lambda>nameoff. fdt_get_string f (wrap_i32 nameoff))
                else Inr (None, 0)) (\<lambda>(name, namelen).
         if want_name \<and> name = None then Inr (None, None, namelen)
         else bindE (prop_data f p offset) (\<lambda>d. Inr (Some d, name, len))))"

definition fdt_getprop :: "fdt \<Rightarrow> int \<Rightarrow> buf \<Rightarrow> int \<Rightarrow> (int option \<times> int) kres" where
  "fdt_getprop f nodeoffset name np = bindE (buf_strlen name np) (\<lambda>n. fdt_getprop_namelen f nodeoffset name np (wrap_i32 n))"

definition fdt_get_phandle :: "fdt \<Rightarrow> int \<Rightarrow> int kres" where
  "fdt_get_phandle f nodeoffset =
     bindE (fdt_getprop f nodeoffset (lit ''phandle'') 0) (\<lambda>(php, len).
     if php = None \<or> len \<noteq> 4 then
       bindE (fdt_getprop f nodeoffset (lit ''linux,phandle'') 0) (\<lambda>(php1, len1).
       if php1 = None \<or> len1 \<noteq> 4 then Inr 0 else fdt32_ld_int (fdt_bytes f) (the php1))
     else fdt32_ld_int (fdt_bytes f) (the php))"

section \<open>Paths\<close>

text \<open>The loop of \<open>fdt_subnode_offset_namelen\<close>.\<close>

function subnode_loop :: "fdt \<Rightarrow> int \<Rightarrow> int \<Rightarrow> buf \<Rightarrow> int \<Rightarrow> int \<Rightarrow> int kres" where
  "subnode_loop f offset depth name np namelen =
     (if 0 \<le> offset \<and> 0 \<le> depth then
        bindE (if depth = 1 then fdt_nodename_eq f offset name np namelen else Inr False) (\<lambda>eq.
        if eq then Inr offset
        else bindE (fdt_next_node f offset (Some depth)) (\<lambda>(offset1, depth1). subnode_loop f offset1 (the depth1) name np namelen))
      else if depth < 0 then Inr (- FDT_ERR_NOTFOUND) else Inr offset)"
  by auto
termination
proof (relation "measure (\<lambda>(f, offset, depth, name, np, namelen). if offset < 0 then 0 else Suc (nodes_left offset))")
  fix f offset depth name np namelen eq x o1 d1
  assume "0 \<le> offset \<and> (0 :: int) \<le> depth" "fdt_next_node f offset (Some depth) = Inr x" "(o1, d1) = x"
  then show "((f, o1, the d1, name, np, namelen), f, offset, depth, name, np, namelen)
      \<in> measure (\<lambda>(f, offset, depth, name, np, namelen). if offset < 0 then 0 else Suc (nodes_left offset))"
    by (auto dest: nodes_left_step)
qed simp

declare subnode_loop.simps [simp del]

definition fdt_subnode_offset_namelen :: "fdt \<Rightarrow> int \<Rightarrow> buf \<Rightarrow> int \<Rightarrow> int \<Rightarrow> int kres" where
  "fdt_subnode_offset_namelen f offset name np namelen = FDT_RO_PROBE f Inr (subnode_loop f offset 0 name np namelen)"

definition fdt_subnode_offset :: "fdt \<Rightarrow> int \<Rightarrow> buf \<Rightarrow> int \<Rightarrow> int kres" where
  "fdt_subnode_offset f parentoffset name np =
     bindE (buf_strlen name np) (\<lambda>n. fdt_subnode_offset_namelen f parentoffset name np (wrap_i32 n))"

text \<open>\<open>while (*p == '/') { p++; if (p == end) return offset; }\<close>: the position of the next name, if there is one.\<close>

function skip_slashes :: "buf \<Rightarrow> int \<Rightarrow> int \<Rightarrow> int option kres" where
  "skip_slashes path p pend =
     bindE (rd path p) (\<lambda>c.
     if c = 0x2f then (if p + 1 = pend then Inr None else skip_slashes path (p + 1) pend) else Inr (Some p))"
  by auto
termination by (relation "measure (\<lambda>(path, p, pend). nat (int (length path) - p))") (auto simp: rd_Inr)

declare skip_slashes.simps [simp del]

lemma skip_slashes_Some: "skip_slashes path p pend = Inr (Some q) \<Longrightarrow> p \<le> q \<and> rd path q \<noteq> Inr 0x2f \<and> 0 \<le> q \<and> q < int (length path)"
  by (induction path p pend rule: skip_slashes.induct)
     (subst (asm) (2) skip_slashes.simps, auto simp: bindE_eq_Inr rd_Inr split: if_splits)

lemma buf_memchr_Some: "buf_memchr n a p c = Inr (Some q) \<Longrightarrow> p \<le> q \<and> q < p + int n \<and> rd a q = Inr c"
  by (induction n a p c rule: buf_memchr.induct) (auto simp: bindE_eq_Inr split: if_splits)

text \<open>The loop of \<open>fdt_path_offset_namelen\<close>, over the names between the slashes.\<close>

function path_loop :: "fdt \<Rightarrow> buf \<Rightarrow> int \<Rightarrow> int \<Rightarrow> int \<Rightarrow> int kres" where
  "path_loop f path p pend offset =
     (if p < pend then
        bindE (skip_slashes path p pend) (\<lambda>r. case r of
          None \<Rightarrow> Inr offset
        | Some p1 \<Rightarrow> bindE (buf_memchr (nat (pend - p1)) path p1 0x2f) (\<lambda>m.
            let q = (case m of None \<Rightarrow> pend | Some q \<Rightarrow> q) in
            bindE (fdt_subnode_offset_namelen f offset path p1 (q - p1)) (\<lambda>offset1.
            if offset1 < 0 then Inr offset1 else path_loop f path q pend offset1)))
      else Inr offset)"
  by auto
termination
proof (relation "measure (\<lambda>(f, path, p, pend, offset). nat (pend - p))")
  fix f path p pend offset r p1 m q o1
  assume a: "p < pend" "skip_slashes path p pend = Inr r" "r = Some p1" "buf_memchr (nat (pend - p1)) path p1 0x2f = Inr m"
    "q = (case m of None \<Rightarrow> pend | Some q \<Rightarrow> q)"
  have "p < q"
  proof (cases m)
    case None
    then show ?thesis using a by simp
  next
    case (Some y)
    then have "p1 \<le> y" "rd path y = Inr 0x2f" using buf_memchr_Some [of _ path p1 _ y] a(4) by auto
    then show ?thesis using skip_slashes_Some [of path p pend p1] a Some by (cases "p1 = y") auto
  qed
  then show "((f, path, q, pend, o1), f, path, p, pend, offset) \<in> measure (\<lambda>(f, path, p, pend, offset). nat (pend - p))"
    using a(1) by simp
qed simp

declare path_loop.simps [simp del]

text \<open>\<open>fdt_path_offset\<close> for a path that begins with a slash. \<open>fdt_path_offset_slash\<close> below shows that it is what the function computes
  for such a path; the lookups of aliases and symbols, which the function itself uses for other paths, need no more.\<close>

definition path_offset_slash :: "fdt \<Rightarrow> buf \<Rightarrow> int \<Rightarrow> int kres" where
  "path_offset_slash f path p =
     bindE (buf_strlen path p) (\<lambda>n. FDT_RO_PROBE f Inr
       (if wrap_i32 n \<le> 0 then Inr (- FDT_ERR_BADPATH) else path_loop f path p (p + wrap_i32 n) 0))"

definition fdt_path_getprop_namelen :: "fdt \<Rightarrow> buf \<Rightarrow> buf \<Rightarrow> int \<Rightarrow> int \<Rightarrow> (int option \<times> int) kres" where
  "fdt_path_getprop_namelen f path propname np propnamelen =
     bindE (path_offset_slash f path 0) (\<lambda>offset.
     if offset < 0 then Inr (None, 0) else fdt_getprop_namelen f offset propname np propnamelen)"

definition fdt_get_alias_namelen :: "fdt \<Rightarrow> buf \<Rightarrow> int \<Rightarrow> int \<Rightarrow> int option kres" where
  "fdt_get_alias_namelen f name np namelen =
     bindE (fdt_path_getprop_namelen f (lit ''/aliases'') name np namelen) (\<lambda>(alias, len). case alias of
       None \<Rightarrow> Inr None
     | Some a \<Rightarrow>
         if 0 < len then
           bindE (rd (fdt_bytes f) (a + len - 1)) (\<lambda>c. bindE (rd (fdt_bytes f) a) (\<lambda>c0.
             Inr (if c = 0 \<and> c0 = 0x2f then Some a else None)))
         else Inr None)"

definition fdt_get_alias :: "fdt \<Rightarrow> buf \<Rightarrow> int \<Rightarrow> int option kres" where
  "fdt_get_alias f name np = bindE (buf_strlen name np) (\<lambda>n. fdt_get_alias_namelen f name np (wrap_i32 n))"

definition fdt_get_symbol_namelen :: "fdt \<Rightarrow> buf \<Rightarrow> int \<Rightarrow> int \<Rightarrow> int option kres" where
  "fdt_get_symbol_namelen f name np namelen =
     bindE (fdt_path_getprop_namelen f (lit ''/__symbols__'') name np namelen) (\<lambda>(p, len). Inr p)"

definition fdt_get_symbol :: "fdt \<Rightarrow> buf \<Rightarrow> int \<Rightarrow> int option kres" where
  "fdt_get_symbol f name np = bindE (buf_strlen name np) (\<lambda>n. fdt_get_symbol_namelen f name np (wrap_i32 n))"

definition fdt_path_offset_namelen :: "fdt \<Rightarrow> buf \<Rightarrow> int \<Rightarrow> int \<Rightarrow> int kres" where
  "fdt_path_offset_namelen f path p namelen = FDT_RO_PROBE f Inr
     (let pend = p + namelen in
      if namelen \<le> 0 then Inr (- FDT_ERR_BADPATH)
      else bindE (rd path p) (\<lambda>c.
      if c \<noteq> 0x2f then
        bindE (buf_memchr (nat (pend - p)) path p 0x2f) (\<lambda>m.
        let q = (case m of None \<Rightarrow> pend | Some q \<Rightarrow> q) in
        bindE (fdt_get_alias_namelen f path p (q - p)) (\<lambda>a. case a of
          None \<Rightarrow> Inr (- FDT_ERR_BADPATH)
        | Some ap \<Rightarrow> bindE (path_offset_slash f (fdt_bytes f) ap) (\<lambda>offset. path_loop f path q pend offset)))
      else path_loop f path p pend 0))"

definition fdt_path_offset :: "fdt \<Rightarrow> buf \<Rightarrow> int \<Rightarrow> int kres" where
  "fdt_path_offset f path p = bindE (buf_strlen path p) (\<lambda>n. fdt_path_offset_namelen f path p (wrap_i32 n))"

lemma FDT_RO_PROBE_cong: "(\<And>t. fdt_ro_probe f = Inr t \<Longrightarrow> 0 \<le> t \<Longrightarrow> k = k') \<Longrightarrow> FDT_RO_PROBE f e k = FDT_RO_PROBE f e k'"
  by (cases "fdt_ro_probe f") (auto simp: FDT_RO_PROBE_def)

lemma fdt_path_offset_slash: "rd path p = Inr 0x2f \<Longrightarrow> fdt_path_offset f path p = path_offset_slash f path p"
  by (cases "buf_strlen path p") (auto simp: fdt_path_offset_def path_offset_slash_def fdt_path_offset_namelen_def Let_def intro!: FDT_RO_PROBE_cong)

section \<open>Positions of nodes\<close>

text \<open>\<open>do { p--; } while (buf[p-1] != '/')\<close>, and the loop around it that goes up to the depth of the node.\<close>

function drop_name :: "buf \<Rightarrow> int \<Rightarrow> int kres" where
  "drop_name buf p = bindE (rd buf (p - 2)) (\<lambda>c. if c \<noteq> 0x2f then drop_name buf (p - 1) else Inr (p - 1))"
  by auto
termination by (relation "measure (\<lambda>(buf, p). nat p)") (auto simp: rd_Inr)

declare drop_name.simps [simp del]

fun drop_names :: "nat \<Rightarrow> buf \<Rightarrow> int \<Rightarrow> int kres" where
  "drop_names 0 buf p = Inr p"
| "drop_names (Suc n) buf p = bindE (drop_name buf p) (drop_names n buf)"

text \<open>\<open>memcpy(buf + p, name, namelen)\<close> into the caller's buffer, with the byte behind it.\<close>

fun copy_name_bytes :: "nat \<Rightarrow> fdt \<Rightarrow> int \<Rightarrow> buf \<Rightarrow> int \<Rightarrow> buf kres" where
  "copy_name_bytes 0 f name buf p = Inr buf"
| "copy_name_bytes (Suc n) f name buf p =
     bindE (rd (fdt_bytes f) name) (\<lambda>c.
     if 0 \<le> p \<and> p < int (length buf) then copy_name_bytes n f (name + 1) (buf[nat p := c]) (p + 1) else Inl BadIndex)"

definition put_byte :: "buf \<Rightarrow> int \<Rightarrow> u8 \<Rightarrow> buf kres" where
  "put_byte buf p c = (if 0 \<le> p \<and> p < int (length buf) then Inr (buf[nat p := c]) else Inl BadIndex)"

text \<open>The loop of \<open>fdt_get_path\<close>: the result and the buffer.\<close>

function get_path_loop :: "fdt \<Rightarrow> int \<Rightarrow> int \<Rightarrow> int \<Rightarrow> int \<Rightarrow> int \<Rightarrow> int \<Rightarrow> buf \<Rightarrow> (int \<times> buf) kres" where
  "get_path_loop f nodeoffset buflen offset depth pdepth p buf =
     (if 0 \<le> offset \<and> offset \<le> nodeoffset then
        bindE (drop_names (nat (pdepth - depth)) buf p) (\<lambda>p1.
        let pdepth1 = min pdepth depth in
        bindE (if depth \<le> pdepth1 then
                 bindE (fdt_get_name f offset) (\<lambda>(name, namelen). case name of
                   None \<Rightarrow> Inr (Inl namelen)
                 | Some q \<Rightarrow>
                     if p1 + namelen + 1 \<le> buflen then
                       bindE (copy_name_bytes (nat namelen) f q buf p1) (\<lambda>buf1.
                       bindE (put_byte buf1 (p1 + namelen) 0x2f) (\<lambda>buf2. Inr (Inr (pdepth1 + 1, p1 + namelen + 1, buf2))))
                     else Inr (Inr (pdepth1, p1, buf)))
               else Inr (Inr (pdepth1, p1, buf))) (\<lambda>r. case r of
          Inl err \<Rightarrow> Inr (err, buf)
        | Inr (pdepth2, p2, buf2) \<Rightarrow>
            if offset = nodeoffset then
              (if pdepth2 < depth + 1 then Inr (- FDT_ERR_NOSPACE, buf2)
               else bindE (put_byte buf2 (if p2 > 1 then p2 - 1 else p2) 0) (\<lambda>buf3. Inr (0, buf3)))
            else bindE (fdt_next_node f offset (Some depth)) (\<lambda>(offset1, depth1).
              get_path_loop f nodeoffset buflen offset1 (the depth1) pdepth2 p2 buf2)))
      else Inr (if offset = - FDT_ERR_NOTFOUND \<or> 0 \<le> offset then - FDT_ERR_BADOFFSET
                else if offset = - FDT_ERR_BADOFFSET then - FDT_ERR_BADSTRUCTURE else offset, buf))"
  by auto
termination
proof (relation "measure (\<lambda>(f, nodeoffset, buflen, offset, r). if offset < 0 then 0 else Suc (nodes_left offset))")
  fix f nodeoffset buflen offset depth pdepth p buf p1 pd r y pd2 z p2 buf2 x o1 d1
  assume "0 \<le> offset \<and> offset \<le> nodeoffset" "fdt_next_node f offset (Some depth) = Inr x" "(o1, d1) = x"
  then show "((f, nodeoffset, buflen, o1, the d1, pd2, p2, buf2), f, nodeoffset, buflen, offset, depth, pdepth, p, buf)
      \<in> measure (\<lambda>(f, nodeoffset, buflen, offset, r). if offset < 0 then 0 else Suc (nodes_left offset))"
    by (auto dest: nodes_left_step)
qed simp

declare get_path_loop.simps [simp del]

definition fdt_get_path :: "fdt \<Rightarrow> int \<Rightarrow> buf \<Rightarrow> int \<Rightarrow> (int \<times> buf) kres" where
  "fdt_get_path f nodeoffset buf buflen = FDT_RO_PROBE f (\<lambda>err. Inr (err, buf))
     (if buflen < 2 then Inr (- FDT_ERR_NOSPACE, buf) else get_path_loop f nodeoffset buflen 0 0 0 0 buf)"

text \<open>The loop of \<open>fdt_supernode_atdepth_offset\<close>: the result and \<open>*nodedepth\<close>.\<close>

function supernode_loop :: "fdt \<Rightarrow> int \<Rightarrow> int \<Rightarrow> int \<Rightarrow> int \<Rightarrow> int \<Rightarrow> (int \<times> int option) kres" where
  "supernode_loop f nodeoffset supernodedepth supernodeoffset offset depth =
     (if 0 \<le> offset \<and> offset \<le> nodeoffset then
        let super = (if depth = supernodedepth then offset else supernodeoffset) in
        if offset = nodeoffset then Inr (if supernodedepth > depth then - FDT_ERR_NOTFOUND else super, Some depth)
        else bindE (fdt_next_node f offset (Some depth)) (\<lambda>(offset1, depth1).
          supernode_loop f nodeoffset supernodedepth super offset1 (the depth1))
      else Inr (if offset = - FDT_ERR_NOTFOUND \<or> 0 \<le> offset then - FDT_ERR_BADOFFSET
                else if offset = - FDT_ERR_BADOFFSET then - FDT_ERR_BADSTRUCTURE else offset, None))"
  by auto
termination
proof (relation "measure (\<lambda>(f, nodeoffset, sd, so, offset, depth). if offset < 0 then 0 else Suc (nodes_left offset))")
  fix f nodeoffset sd so offset depth super x o1 d1
  assume "0 \<le> offset \<and> offset \<le> nodeoffset" "fdt_next_node f offset (Some depth) = Inr x" "(o1, d1) = x"
  then show "((f, nodeoffset, sd, super, o1, the d1), f, nodeoffset, sd, so, offset, depth)
      \<in> measure (\<lambda>(f, nodeoffset, sd, so, offset, depth). if offset < 0 then 0 else Suc (nodes_left offset))"
    by (auto dest: nodes_left_step)
qed simp

declare supernode_loop.simps [simp del]

definition fdt_supernode_atdepth_offset :: "fdt \<Rightarrow> int \<Rightarrow> int \<Rightarrow> (int \<times> int option) kres" where
  "fdt_supernode_atdepth_offset f nodeoffset supernodedepth = FDT_RO_PROBE f (\<lambda>err. Inr (err, None))
     (if supernodedepth < 0 then Inr (- FDT_ERR_NOTFOUND, None)
      else supernode_loop f nodeoffset supernodedepth (- FDT_ERR_INTERNAL) 0 0)"

definition fdt_node_depth :: "fdt \<Rightarrow> int \<Rightarrow> int kres" where
  "fdt_node_depth f nodeoffset =
     bindE (fdt_supernode_atdepth_offset f nodeoffset 0) (\<lambda>(err, nodedepth).
     Inr (if err \<noteq> 0 then (if err < 0 then err else - FDT_ERR_INTERNAL) else the nodedepth))"

definition fdt_parent_offset :: "fdt \<Rightarrow> int \<Rightarrow> int kres" where
  "fdt_parent_offset f nodeoffset =
     bindE (fdt_node_depth f nodeoffset) (\<lambda>nodedepth.
     if nodedepth < 0 then Inr nodedepth
     else bindE (fdt_supernode_atdepth_offset f nodeoffset (nodedepth - 1)) (\<lambda>(r, d). Inr r))"

section \<open>Searching nodes\<close>

text \<open>The loop of the searches: from node to node, until the body returns a value or there is no further node.\<close>

function node_scan :: "fdt \<Rightarrow> (int \<Rightarrow> int option kres) \<Rightarrow> int \<Rightarrow> int kres" where
  "node_scan f body offset =
     bindE (fdt_next_node f offset None) (\<lambda>(offset1, d).
     if offset1 < 0 then Inr offset1
     else bindE (body offset1) (\<lambda>r. case r of Some v \<Rightarrow> Inr v | None \<Rightarrow> node_scan f body offset1))"
  by auto
termination by (relation "measure (\<lambda>(f, body, offset). nodes_left offset)") (auto intro: nodes_left_step)

declare node_scan.simps [simp del]

definition fdt_node_offset_by_prop_value :: "fdt \<Rightarrow> int \<Rightarrow> buf \<Rightarrow> buf \<Rightarrow> int \<Rightarrow> int kres" where
  "fdt_node_offset_by_prop_value f startoffset propname propval proplen = FDT_RO_PROBE f Inr
     (node_scan f (\<lambda>offset.
        bindE (fdt_getprop f offset propname 0) (\<lambda>(val, len). case val of
          Some v \<Rightarrow> if len = proplen then bindE (buf_memcmp (nat len) (fdt_bytes f) v propval 0) (\<lambda>r. Inr (if r = 0 then Some offset else None))
                    else Inr None
        | None \<Rightarrow> Inr None)) startoffset)"

definition fdt_node_offset_by_phandle :: "fdt \<Rightarrow> int \<Rightarrow> int kres" where
  "fdt_node_offset_by_phandle f phandle =
     (if phandle = 0 \<or> phandle = 4294967295 then Inr (- FDT_ERR_BADPHANDLE)
      else FDT_RO_PROBE f Inr
        (node_scan f (\<lambda>offset. bindE (fdt_get_phandle f offset) (\<lambda>v. Inr (if v = phandle then Some offset else None))) (- 1)))"

text \<open>The loop of \<open>fdt_find_max_phandle\<close>: the result and \<open>*phandle\<close>.\<close>

function max_phandle_loop :: "fdt \<Rightarrow> int \<Rightarrow> int \<Rightarrow> (int \<times> int option) kres" where
  "max_phandle_loop f mx offset =
     bindE (fdt_next_node f offset None) (\<lambda>(offset1, d).
     if offset1 < 0 then (if offset1 = - FDT_ERR_NOTFOUND then Inr (0, Some mx) else Inr (offset1, None))
     else bindE (fdt_get_phandle f offset1) (\<lambda>v. max_phandle_loop f (if v > mx then v else mx) offset1))"
  by auto
termination by (relation "measure (\<lambda>(f, mx, offset). nodes_left offset)") (auto intro: nodes_left_step)

declare max_phandle_loop.simps [simp del]

definition fdt_find_max_phandle :: "fdt \<Rightarrow> (int \<times> int option) kres" where
  "fdt_find_max_phandle f = max_phandle_loop f 0 (- 1)"

definition fdt_get_max_phandle :: "fdt \<Rightarrow> int kres" where
  "fdt_get_max_phandle f = bindE (fdt_find_max_phandle f) (\<lambda>(err, phandle). Inr (if err < 0 then 4294967295 else the phandle))"

definition fdt_generate_phandle :: "fdt \<Rightarrow> (int \<times> int option) kres" where
  "fdt_generate_phandle f =
     bindE (fdt_find_max_phandle f) (\<lambda>(err, mx).
     if err < 0 then Inr (err, None)
     else if the mx = FDT_MAX_PHANDLE then Inr (- FDT_ERR_NOPHANDLES, None)
     else Inr (0, Some (wrap_u32 (the mx + 1))))"

section \<open>String lists\<close>

text \<open>The loop of \<open>fdt_stringlist_contains\<close>; \<open>len\<close> is the length of \<open>str\<close>.\<close>

function contains_loop :: "buf \<Rightarrow> int \<Rightarrow> int \<Rightarrow> buf \<Rightarrow> int \<Rightarrow> bool kres" where
  "contains_loop b strlist listlen str len =
     (if listlen \<ge> len then
        bindE (buf_memcmp (nat (len + 1)) str 0 b strlist) (\<lambda>r.
        if r = 0 then Inr True
        else bindE (buf_memchr (nat listlen) b strlist 0) (\<lambda>m. case m of
          None \<Rightarrow> Inr False
        | Some p \<Rightarrow> contains_loop b (p + 1) (listlen - (p - strlist + 1)) str len))
      else Inr False)"
  by auto
termination
  by (relation "measure (\<lambda>(b, strlist, listlen, str, len). nat listlen)") (auto dest!: buf_memchr_Some split: if_splits)

declare contains_loop.simps [simp del]

definition fdt_stringlist_contains :: "buf \<Rightarrow> int \<Rightarrow> int \<Rightarrow> buf \<Rightarrow> bool kres" where
  "fdt_stringlist_contains b strlist listlen str = bindE (buf_strlen str 0) (\<lambda>len. contains_loop b strlist listlen str (wrap_i32 len))"

text \<open>The loop that the other functions on string lists share: the strings one after another, as position and length with the null
  byte, up to the end of the value, or an error when the last one is not terminated.\<close>

lemma buf_strnlen_bounds: "buf_strnlen n a p = Inr k \<Longrightarrow> 0 \<le> k \<and> k \<le> int n"
  by (induction n a p arbitrary: k rule: buf_strnlen.induct) (fastforce simp: bindE_eq_Inr split: if_splits)+

function each_string :: "buf \<Rightarrow> int \<Rightarrow> int \<Rightarrow> ('s \<Rightarrow> int \<Rightarrow> int \<Rightarrow> ('r + 's) kres) \<Rightarrow> ('s \<Rightarrow> 'r) \<Rightarrow> 'r \<Rightarrow> 's \<Rightarrow> 'r kres" where
  "each_string b lst lend body fin bad s =
     (if lst < lend then
        bindE (buf_strnlen (nat (lend - lst)) b lst) (\<lambda>n.
        if lst + (n + 1) > lend then Inr bad
        else bindE (body s lst (n + 1)) (\<lambda>r. case r of Inl v \<Rightarrow> Inr v | Inr s1 \<Rightarrow> each_string b (lst + (n + 1)) lend body fin bad s1))
      else Inr (fin s))"
  by auto
termination by (relation "measure (\<lambda>(b, lst, lend, r). nat (lend - lst))") (auto dest!: buf_strnlen_bounds)

declare each_string.simps [simp del]

definition fdt_stringlist_count :: "fdt \<Rightarrow> int \<Rightarrow> buf \<Rightarrow> int kres" where
  "fdt_stringlist_count f nodeoffset property =
     bindE (fdt_getprop f nodeoffset property 0) (\<lambda>(lst, len). case lst of
       None \<Rightarrow> Inr len
     | Some l \<Rightarrow> each_string (fdt_bytes f) l (l + len) (\<lambda>count p n. Inr (Inr (count + 1))) (\<lambda>count. count) (- FDT_ERR_BADVALUE) 0)"

definition fdt_stringlist_search :: "fdt \<Rightarrow> int \<Rightarrow> buf \<Rightarrow> buf \<Rightarrow> int kres" where
  "fdt_stringlist_search f nodeoffset property str =
     bindE (fdt_getprop f nodeoffset property 0) (\<lambda>(lst, length). case lst of
       None \<Rightarrow> Inr length
     | Some l \<Rightarrow> bindE (buf_strlen str 0) (\<lambda>sl. let len = wrap_i32 (sl + 1) in
         each_string (fdt_bytes f) l (l + length)
           (\<lambda>idx p n. if n = len then bindE (buf_memcmp (nat n) (fdt_bytes f) p str 0) (\<lambda>r. Inr (if r = 0 then Inl idx else Inr (idx + 1)))
                      else Inr (Inr (idx + 1)))
           (\<lambda>idx. - FDT_ERR_NOTFOUND) (- FDT_ERR_BADVALUE) 0))"

text \<open>The string and \<open>*lenp\<close>.\<close>

definition fdt_stringlist_get :: "fdt \<Rightarrow> int \<Rightarrow> buf \<Rightarrow> int \<Rightarrow> (int option \<times> int) kres" where
  "fdt_stringlist_get f nodeoffset property idx =
     bindE (fdt_getprop f nodeoffset property 0) (\<lambda>(lst, length). case lst of
       None \<Rightarrow> Inr (None, length)
     | Some l \<Rightarrow> each_string (fdt_bytes f) l (l + length)
         (\<lambda>idx p n. Inr (if idx = 0 then Inl (Some p, n - 1) else Inr (idx - 1)))
         (\<lambda>idx. (None, - FDT_ERR_NOTFOUND)) (None, - FDT_ERR_BADVALUE) idx)"

definition fdt_node_check_compatible :: "fdt \<Rightarrow> int \<Rightarrow> buf \<Rightarrow> int kres" where
  "fdt_node_check_compatible f nodeoffset compatible =
     bindE (fdt_getprop f nodeoffset (lit ''compatible'') 0) (\<lambda>(prop, len). case prop of
       None \<Rightarrow> Inr len
     | Some p \<Rightarrow> bindE (fdt_stringlist_contains (fdt_bytes f) p len compatible) (\<lambda>c. Inr (if c then 0 else 1)))"

definition fdt_node_offset_by_compatible :: "fdt \<Rightarrow> int \<Rightarrow> buf \<Rightarrow> int kres" where
  "fdt_node_offset_by_compatible f startoffset compatible = FDT_RO_PROBE f Inr
     (node_scan f (\<lambda>offset. bindE (fdt_node_check_compatible f offset compatible) (\<lambda>err.
        Inr (if err < 0 \<and> err \<noteq> - FDT_ERR_NOTFOUND then Some err else if err = 0 then Some offset else None))) startoffset)"

end
