(* ===== verification/Fdt_Query.thy ===== *)
theory Fdt_Query
  imports Fdt_Ro
begin

unbundle bit_operations_syntax

text \<open>
  What is built on the read-only functions: the full check of a blob (\<open>fdt_check.c\<close>), cell counts
  (\<open>fdt_addresses.c\<close>), error messages (\<open>fdt_strerror.c\<close>) and the kernel's own queries (\<open>fdt_helper.c\<close>).
\<close>

section \<open>Error messages\<close>

definition fdt_errtable :: "string option list" where
  "fdt_errtable = [None, Some ''FDT_ERR_NOTFOUND'', Some ''FDT_ERR_EXISTS'', Some ''FDT_ERR_NOSPACE'', Some ''FDT_ERR_BADOFFSET'',
     Some ''FDT_ERR_BADPATH'', Some ''FDT_ERR_BADPHANDLE'', Some ''FDT_ERR_BADSTATE'', Some ''FDT_ERR_TRUNCATED'',
     Some ''FDT_ERR_BADMAGIC'', Some ''FDT_ERR_BADVERSION'', Some ''FDT_ERR_BADSTRUCTURE'', Some ''FDT_ERR_BADLAYOUT'',
     Some ''FDT_ERR_INTERNAL'', Some ''FDT_ERR_BADNCELLS'', Some ''FDT_ERR_BADVALUE'', Some ''FDT_ERR_BADOVERLAY'',
     Some ''FDT_ERR_NOPHANDLES'', Some ''FDT_ERR_BADFLAGS'', Some ''FDT_ERR_ALIGNMENT'']"

definition FDT_ERRTABSIZE :: int where "FDT_ERRTABSIZE = int (length fdt_errtable)"

definition fdt_strerror :: "int \<Rightarrow> string" where
  "fdt_strerror errval =
     (if errval > 0 then ''<valid offset/length>''
      else if errval = 0 then ''<no error>''
      else if - errval < FDT_ERRTABSIZE
        then (case fdt_errtable ! nat (- errval) of Some s \<Rightarrow> s | None \<Rightarrow> ''<unknown error>'')
      else ''<unknown error>'')"

section \<open>The full check\<close>

text \<open>The loop of \<open>fdt_check_full\<close>.\<close>

function check_full_loop :: "fdt \<Rightarrow> int \<Rightarrow> int \<Rightarrow> bool \<Rightarrow> int kres" where
  "check_full_loop f offset depth expect_end =
     bindE (fdt_next_tag f offset) (\<lambda>(tag, nextoffset).
     if nextoffset < 0 then Inr nextoffset
     else if expect_end \<and> tag \<noteq> FDT_END then Inr (- FDT_ERR_BADSTRUCTURE)
     else if tag = FDT_NOP then check_full_loop f nextoffset depth expect_end
     else if tag = FDT_END then Inr (if depth \<noteq> 0 then - FDT_ERR_BADSTRUCTURE else 0)
     else if tag = FDT_BEGIN_NODE then
       let depth1 = depth + 1 in
       if depth1 > INT32_MAX then Inr (- FDT_ERR_BADSTRUCTURE)
       else if depth1 = 1 then
         bindE (fdt_get_name f offset) (\<lambda>(name, len). case name of
           None \<Rightarrow> Inr len
         | Some p \<Rightarrow> bindE (rd (fdt_bytes f) p) (\<lambda>c.
             if c \<noteq> 0 \<or> len \<noteq> 0 then Inr (- FDT_ERR_BADSTRUCTURE) else check_full_loop f nextoffset depth1 expect_end))
       else check_full_loop f nextoffset depth1 expect_end
     else if tag = FDT_END_NODE then
       (if depth = 0 then Inr (- FDT_ERR_BADSTRUCTURE)
        else let depth1 = depth - 1 in check_full_loop f nextoffset depth1 (if depth1 = 0 then True else expect_end))
     else if tag = FDT_PROP then
       bindE (fdt_getprop_by_offset f offset True) (\<lambda>(prop, propname, err). case prop of
         None \<Rightarrow> Inr err
       | Some p \<Rightarrow> check_full_loop f nextoffset depth expect_end)
     else Inr (- FDT_ERR_INTERNAL))"
  by auto
termination
  by (relation "measure (\<lambda>(f, offset, depth, e). offsets_left offset)") (auto intro!: offsets_left_step dest: fdt_next_tag_progress)

declare check_full_loop.simps [simp del]

definition fdt_check_full :: "fdt \<Rightarrow> int \<Rightarrow> int kres" where
  "fdt_check_full f bufsize =
     (if bufsize < FDT_V1_SIZE then Inr (- FDT_ERR_TRUNCATED)
      else bindE (fdt_header_size f) (\<lambda>hdrsize.
      if bufsize < hdrsize then Inr (- FDT_ERR_TRUNCATED)
      else bindE (fdt_check_header f) (\<lambda>err.
      if err \<noteq> 0 then Inr err
      else bindE (fdt_totalsize f) (\<lambda>totalsize.
      if bufsize < totalsize then Inr (- FDT_ERR_TRUNCATED)
      else bindE (fdt_num_mem_rsv f) (\<lambda>num.
      if num < 0 then Inr num else check_full_loop f 0 0 False)))))"

section \<open>Cell counts\<close>

definition FDT_MAX_NCELLS :: int where [simp]: "FDT_MAX_NCELLS = 4"

definition fdt_cells :: "fdt \<Rightarrow> int \<Rightarrow> buf \<Rightarrow> int kres" where
  "fdt_cells f nodeoffset name =
     bindE (fdt_getprop f nodeoffset name 0) (\<lambda>(c, len). case c of
       None \<Rightarrow> Inr len
     | Some p \<Rightarrow>
         if len \<noteq> 4 then Inr (- FDT_ERR_BADNCELLS)
         else bindE (fdt32_ld_int (fdt_bytes f) p) (\<lambda>val. Inr (if val > FDT_MAX_NCELLS then - FDT_ERR_BADNCELLS else val)))"

definition fdt_address_cells :: "fdt \<Rightarrow> int \<Rightarrow> int kres" where
  "fdt_address_cells f nodeoffset =
     bindE (fdt_cells f nodeoffset (lit ''#address-cells'')) (\<lambda>val.
     Inr (if val = 0 then - FDT_ERR_BADNCELLS else if val = - FDT_ERR_NOTFOUND then 2 else val))"

definition fdt_size_cells :: "fdt \<Rightarrow> int \<Rightarrow> int kres" where
  "fdt_size_cells f nodeoffset =
     bindE (fdt_cells f nodeoffset (lit ''#size-cells'')) (\<lambda>val. Inr (if val = - FDT_ERR_NOTFOUND then 1 else val))"

text \<open>\<open>fdt_appendprop\<close>, which adds bytes to a property, is not part of the repository; it is the parameter \<open>appendprop\<close>.\<close>

definition fdt_appendprop_addrrange ::
    "(fdt \<Rightarrow> int \<Rightarrow> buf \<Rightarrow> buf \<Rightarrow> (int \<times> fdt) kres) \<Rightarrow> fdt \<Rightarrow> int \<Rightarrow> int \<Rightarrow> buf \<Rightarrow> u64 \<Rightarrow> u64 \<Rightarrow> (int \<times> fdt) kres" where
  "fdt_appendprop_addrrange appendprop f parent nodeoffset name addr sz =
     bindE (fdt_address_cells f parent) (\<lambda>addr_cells.
     if addr_cells < 0 then Inr (addr_cells, f)
     else bindE (fdt_size_cells f parent) (\<lambda>size_cells.
     if size_cells < 0 then Inr (size_cells, f)
     else
       let data_addr =
             (if addr_cells = 1 then
                (if addr > 0xffffffff \<or> 0xffffffff + 1 - addr < sz then Inl (- FDT_ERR_BADVALUE) else Inr (fdt32_st (ucast addr)))
              else if addr_cells = 2 then Inr (fdt64_st addr) else Inl (- FDT_ERR_BADNCELLS));
           data_size =
             (if size_cells = 1 then (if sz > 0xffffffff then Inl (- FDT_ERR_BADVALUE) else Inr (fdt32_st (ucast sz)))
              else if size_cells = 2 then Inr (fdt64_st sz) else Inl (- FDT_ERR_BADNCELLS))
       in case data_addr of Inl err \<Rightarrow> Inr (err, f) | Inr da \<Rightarrow>
          (case data_size of Inl err \<Rightarrow> Inr (err, f) | Inr ds \<Rightarrow> appendprop f nodeoffset name (da @ ds))))"

section \<open>The kernel's queries\<close>

text \<open>The result, and \<open>*base\<close> and \<open>*size\<close> where they are stored.\<close>

definition fdt_find_reg_by_compat :: "fdt \<Rightarrow> buf \<Rightarrow> (int \<times> (u64 \<times> u64) option) kres" where
  "fdt_find_reg_by_compat f compatible =
     bindE (fdt_node_offset_by_compatible f (- 1) compatible) (\<lambda>offset.
     if offset < 0 then Inr (- 1, None)
     else bindE (fdt_getprop f offset (lit ''reg'') 0) (\<lambda>(reg, len). case reg of
       None \<Rightarrow> Inr (- 1, None)
     | Some p \<Rightarrow>
         if len < 16 then Inr (- 1, None)
         else bindE (fdt32_ld_int (fdt_bytes f) p) (\<lambda>addr_hi. bindE (fdt32_ld_int (fdt_bytes f) (p + 4)) (\<lambda>addr_lo.
              bindE (fdt32_ld_int (fdt_bytes f) (p + 8)) (\<lambda>size_hi. bindE (fdt32_ld_int (fdt_bytes f) (p + 12)) (\<lambda>size_lo.
              Inr (0, Some (push_bit 32 (word_of_int addr_hi) OR word_of_int addr_lo,
                            push_bit 32 (word_of_int size_hi) OR word_of_int size_lo))))))))"

definition fdt_find_irq_by_compat :: "fdt \<Rightarrow> buf \<Rightarrow> (int \<times> u32 option) kres" where
  "fdt_find_irq_by_compat f compatible =
     bindE (fdt_node_offset_by_compatible f (- 1) compatible) (\<lambda>offset.
     if offset < 0 then Inr (- 1, None)
     else bindE (fdt_getprop f offset (lit ''interrupts'') 0) (\<lambda>(intr, len). case intr of
       None \<Rightarrow> Inr (- 1, None)
     | Some p \<Rightarrow>
         if len < 4 then Inr (- 1, None)
         else bindE (fdt32_ld_int (fdt_bytes f) p) (\<lambda>v. Inr (0, Some (word_of_int v)))))"

end
