(* ===== verification/Fdt_Safe.thy ===== *)
theory Fdt_Safe
  imports Fdt_Query
begin

text \<open>
  Memory safety and termination of the device tree library on untrusted data: when the buffer holds the header and the
  number of bytes that the header announces, every function returns and reads only bytes of the buffer, whatever the other bytes are.
\<close>

section \<open>The header of a complete buffer\<close>

definition hdr :: "fdt \<Rightarrow> int \<Rightarrow> int" where
  "hdr f k = (let b = fdt_bytes f; i = nat k in uint (be32 (b ! i) (b ! (i + 1)) (b ! (i + 2)) (b ! (i + 3))))"

definition fdt_ok :: "fdt \<Rightarrow> bool" where
  "fdt_ok f \<longleftrightarrow> 40 \<le> length (fdt_bytes f) \<and> hdr f 4 \<le> int (length (fdt_bytes f))"

lemma be32_range: "0 \<le> uint (be32 a b c d)" "uint (be32 a b c d) < 4294967296"
  using uint_range_size [of "be32 a b c d"] by (auto simp: word_size)

lemma hdr_range: "0 \<le> hdr f k" "hdr f k < 4294967296"
  by (simp_all add: hdr_def Let_def be32_range)

lemma fdt32_ld_in:
  assumes "0 \<le> p" "p + 4 \<le> int (length b)"
  shows "fdt32_ld b p = Inr (uint (be32 (b ! nat p) (b ! (nat p + 1)) (b ! (nat p + 2)) (b ! (nat p + 3))))"
proof -
  have "nat (p + 1) = nat p + 1" "nat (p + 2) = nat p + 2" "nat (p + 3) = nat p + 3" using assms by simp_all
  then show ?thesis using assms by (simp add: fdt32_ld_def)
qed

lemma header_reads:
  assumes "fdt_ok f"
  shows "fdt_magic f = Inr (hdr f 0)" "fdt_totalsize f = Inr (hdr f 4)" "fdt_off_dt_struct f = Inr (hdr f 8)"
    "fdt_off_dt_strings f = Inr (hdr f 12)" "fdt_off_mem_rsvmap f = Inr (hdr f 16)" "fdt_version f = Inr (hdr f 20)"
    "fdt_last_comp_version f = Inr (hdr f 24)" "fdt_size_dt_strings f = Inr (hdr f 32)" "fdt_size_dt_struct f = Inr (hdr f 36)"
  using assms
  by (simp_all add: fdt_magic_def fdt_totalsize_def fdt_off_dt_struct_def fdt_off_dt_strings_def fdt_off_mem_rsvmap_def
      fdt_version_def fdt_last_comp_version_def fdt_size_dt_strings_def fdt_size_dt_struct_def fdt_get_header_def fdt_ok_def
      fdt32_ld_in hdr_def Let_def)

section \<open>Loads agree\<close>

text \<open>The bytes of a number, by its bits.\<close>

lemma byte_of_shift:
  assumes "8 * j + 8 \<le> LENGTH('a)"
  shows "(ucast (drop_bit (8 * k) (push_bit (8 * j) (ucast (b :: u8) :: 'a::len word))) :: u8) = (if j = k then b else 0)"
proof (rule bit_eqI)
  fix n
  assume "possible_bit TYPE(u8) n"
  then have n: "n < 8" by simp
  have e: "bit (ucast (drop_bit (8 * k) (push_bit (8 * j) (ucast b :: 'a word))) :: u8) n
    \<longleftrightarrow> 8 * j \<le> 8 * k + n \<and> 8 * k + n < LENGTH('a) \<and> bit b (8 * k + n - 8 * j)"
    using n by (auto simp: bit_simps)
  show "bit (ucast (drop_bit (8 * k) (push_bit (8 * j) (ucast b :: 'a word))) :: u8) n = bit (if j = k then b else 0) n"
  proof (cases "j = k")
    case True
    then show ?thesis using e n assms by simp
  next
    case False
    have "\<not> bit b (8 * k + n - 8 * j)" if "8 * j \<le> 8 * k + n"
    proof -
      have "8 \<le> 8 * k + n - 8 * j" using that False n by presburger
      then show ?thesis using bit_imp_le_length [of b "8 * k + n - 8 * j"] by auto
    qed
    with e False show ?thesis by auto
  qed
qed

lemma ucast_byte_or: "(ucast (drop_bit k (x OR y :: 'a::len word)) :: u8) = ucast (drop_bit k x) OR ucast (drop_bit k y)"
  by (rule bit_eqI) (simp add: bit_simps)

lemma byte_of_shift_num:
  assumes "j + 8 \<le> LENGTH('a)" "8 dvd j" "8 dvd k"
  shows "(ucast (drop_bit k (push_bit j (ucast (b :: u8) :: 'a::len word))) :: u8) = (if j = k then b else 0)"
proof -
  from assms(2,3) obtain j' k' where "j = 8 * j'" "k = 8 * k'" by (auto elim!: dvdE)
  then show ?thesis using assms(1) by (simp add: byte_of_shift)
qed

lemma byte_of_low: "16 \<le> LENGTH('a) \<Longrightarrow> 8 dvd k \<Longrightarrow> (ucast (drop_bit k (ucast (b :: u8) :: 'a::len word)) :: u8) = (if k = 0 then b else 0)"
  using byte_of_shift_num [where 'a = 'a and j = 0 and k = k and b = b] by simp

lemma byte_of_zero:
  "j + 8 \<le> LENGTH('a) \<Longrightarrow> 8 dvd j \<Longrightarrow> 0 < j \<Longrightarrow> (ucast (push_bit j (ucast (b :: u8) :: 'a::len word)) :: u8) = 0"
  "16 \<le> LENGTH('a) \<Longrightarrow> (ucast (ucast b :: 'a::len word) :: u8) = b"
  using byte_of_shift_num [where 'a = 'a and j = j and k = 0 and b = b] byte_of_low [where 'a = 'a and k = 0 and b = b] by simp_all

lemma be32_bytes:
  "(ucast (drop_bit 0 (be32 b0 b1 b2 b3)) :: u8) = b3" "(ucast (drop_bit 8 (be32 b0 b1 b2 b3)) :: u8) = b2"
  "(ucast (drop_bit 16 (be32 b0 b1 b2 b3)) :: u8) = b1" "(ucast (drop_bit 24 (be32 b0 b1 b2 b3)) :: u8) = b0"
  unfolding be32_def ucast_byte_or by (simp_all add: byte_of_shift_num byte_of_low byte_of_zero)

lemma be64_bytes:
  "(ucast (drop_bit 0 (be64 b0 b1 b2 b3 b4 b5 b6 b7)) :: u8) = b7" "(ucast (drop_bit 8 (be64 b0 b1 b2 b3 b4 b5 b6 b7)) :: u8) = b6"
  "(ucast (drop_bit 16 (be64 b0 b1 b2 b3 b4 b5 b6 b7)) :: u8) = b5" "(ucast (drop_bit 24 (be64 b0 b1 b2 b3 b4 b5 b6 b7)) :: u8) = b4"
  "(ucast (drop_bit 32 (be64 b0 b1 b2 b3 b4 b5 b6 b7)) :: u8) = b3" "(ucast (drop_bit 40 (be64 b0 b1 b2 b3 b4 b5 b6 b7)) :: u8) = b2"
  "(ucast (drop_bit 48 (be64 b0 b1 b2 b3 b4 b5 b6 b7)) :: u8) = b1" "(ucast (drop_bit 56 (be64 b0 b1 b2 b3 b4 b5 b6 b7)) :: u8) = b0"
  unfolding be64_def ucast_byte_or by (simp_all add: byte_of_shift_num byte_of_low byte_of_zero)

lemma fdt32_to_cpu_be32: "fdt32_to_cpu (be32 b3 b2 b1 b0) = be32 b0 b1 b2 b3"
  using be32_bytes by (simp add: fdt32_to_cpu_def EXTRACT_BYTE_def be32_def [of b0])

lemma fdt64_to_cpu_be64: "fdt64_to_cpu (be64 b7 b6 b5 b4 b3 b2 b1 b0) = be64 b0 b1 b2 b3 b4 b5 b6 b7"
  using be64_bytes by (simp add: fdt64_to_cpu_def EXTRACT_BYTE_def be64_def [of b0])

text \<open>The internal loads, which swap the bytes of a native load, give the value of the loads by bytes.\<close>

lemma fdt32_ld_int_eq: "fdt32_ld_int = fdt32_ld"
  by (intro ext) (simp add: fdt32_ld_int_def fdt32_ld_def ld_u32_def bindE_assoc fdt32_to_cpu_be32)

lemma fdt64_ld_int_eq: "fdt64_ld_int = fdt64_ld"
  by (intro ext) (simp add: fdt64_ld_int_def fdt64_ld_def ld_u64_def bindE_assoc fdt64_to_cpu_be64)

section \<open>The structure block\<close>

text \<open>A stretch of the structure block that lies in the blob.\<close>

definition in_struct :: "fdt \<Rightarrow> int \<Rightarrow> int \<Rightarrow> bool" where
  "in_struct f offset len \<longleftrightarrow> 0 \<le> offset \<and> hdr f 8 + offset + len \<le> hdr f 4 \<and> (17 \<le> hdr f 20 \<longrightarrow> offset + len \<le> hdr f 36)"

lemma wrap_add_fits:
  assumes "0 \<le> x" "x < 4294967296" "0 \<le> y" "y < 4294967296"
  shows "wrap_u32 (x + y) = (if x + y < 4294967296 then x + y else x + y - 4294967296)"
  using assms by (simp add: wrap_hi)

lemma fdt_offset_ptr_eq:
  assumes "fdt_ok f" "offset < 2147483648" "0 \<le> len" "len < 4294967296"
  shows "fdt_offset_ptr f offset len = Inr (if in_struct f offset len then Some (hdr f 8 + offset) else None)"
proof (cases "0 \<le> offset")
  case True
  define a where "a = wrap_u32 (offset + hdr f 8)"
  note R = hdr_range [of f 8] hdr_range [of f 4] hdr_range [of f 36]
  have a: "a = (if offset + hdr f 8 < 4294967296 then offset + hdr f 8 else offset + hdr f 8 - 4294967296)"
    unfolding a_def using True assms R by (intro wrap_add_fits) simp_all
  have ar: "0 \<le> a" "a < 4294967296" unfolding a_def by (rule wrap_u32_range)+
  have al: "wrap_u32 (a + len) = (if a + len < 4294967296 then a + len else a + len - 4294967296)"
    using ar assms by (intro wrap_add_fits) simp_all
  have ol: "wrap_u32 (offset + len) = (if offset + len < 4294967296 then offset + len else offset + len - 4294967296)"
    using True assms by (intro wrap_add_fits) simp_all
  have e: "(a < offset \<or> wrap_u32 (a + len) < a \<or> hdr f 4 < wrap_u32 (a + len)) \<longleftrightarrow> \<not> hdr f 8 + offset + len \<le> hdr f 4"
    unfolding al using a True assms R by auto
  have e2: "hdr f 8 + offset + len \<le> hdr f 4 \<Longrightarrow>
      (wrap_u32 (offset + len) < offset \<or> hdr f 36 < wrap_u32 (offset + len)) \<longleftrightarrow> \<not> offset + len \<le> hdr f 36"
    unfolding ol using True assms R by auto
  have u: "wrap_u32 offset = offset" using True assms by simp
  show ?thesis
    using True e e2 unfolding fdt_offset_ptr_def Let_def u header_reads [OF assms(1)] a_def [symmetric] fdt_offset_ptr_raw_def bindE_simps
    by (auto simp: in_struct_def)
qed (simp add: fdt_offset_ptr_def header_reads [OF assms(1)] in_struct_def)

lemma in_struct_fits: "fdt_ok f \<Longrightarrow> in_struct f offset len \<Longrightarrow> hdr f 8 + offset + len \<le> int (length (fdt_bytes f))"
  by (simp add: in_struct_def fdt_ok_def)

lemma in_struct_mono: "in_struct f offset n \<Longrightarrow> offset \<le> o1 \<Longrightarrow> o1 + k \<le> offset + n \<Longrightarrow> in_struct f o1 k"
  by (auto simp: in_struct_def)

lemma rd_struct:
  assumes "fdt_ok f" "in_struct f offset len" "0 \<le> i" "i < len"
  shows "rd (fdt_bytes f) (hdr f 8 + offset + i) = Inr (fdt_bytes f ! nat (hdr f 8 + offset + i))"
  using assms in_struct_fits [OF assms(1,2)] hdr_range(1) [of f 8] by (intro rd_in) (auto simp: in_struct_def)

lemma fdt32_struct:
  assumes "fdt_ok f" "in_struct f offset len" "0 \<le> i" "i + 4 \<le> len"
  obtains v where "fdt32_ld_int (fdt_bytes f) (hdr f 8 + offset + i) = Inr v" "0 \<le> v" "v < 4294967296"
  using assms in_struct_fits [OF assms(1,2)] hdr_range(1) [of f 8] be32_range
  by (auto simp: fdt32_ld_int_eq fdt32_ld_in in_struct_def)

text \<open>Skipping a name returns; where it finds the end of the name, there is a null byte within the blob.\<close>

lemma skip_name_spec:
  "fdt_ok f \<Longrightarrow> offset < 2147483648 \<Longrightarrow>
   \<exists>p o1. skip_name f offset = Inr (p, o1) \<and> (\<forall>q. p = Some q \<longrightarrow> hdr f 8 + offset \<le> q \<and> q < hdr f 4 \<and> rd (fdt_bytes f) q = Inr 0)"
proof (induction f offset rule: skip_name.induct)
  case (1 f offset)
  note P = fdt_offset_ptr_eq [OF "1.prems", of 1, simplified]
  show ?case
  proof (cases "in_struct f offset 1")
    case False
    then show ?thesis by (simp add: skip_name.simps [of f offset] P)
  next
    case in_s: True
    let ?q = "hdr f 8 + offset"
    obtain c where c: "rd (fdt_bytes f) ?q = Inr c" using rd_struct [OF "1.prems"(1) in_s, of 0] by simp
    show ?thesis
    proof (cases "c = 0")
      case True
      then show ?thesis using c in_s by (auto simp: skip_name.simps [of f offset] P in_struct_def)
    next
      case False
      have P1: "fdt_offset_ptr f offset 1 = Inr (Some ?q)" using P in_s by simp
      obtain p o1 where r: "skip_name f (wrap_i32 (offset + 1)) = Inr (p, o1)"
        "\<forall>q. p = Some q \<longrightarrow> hdr f 8 + wrap_i32 (offset + 1) \<le> q \<and> q < hdr f 4 \<and> rd (fdt_bytes f) q = Inr 0"
        using "1.IH" [OF P1 refl c False "1.prems"(1)] wrap_i32_range(2) by blast
      have "offset \<le> wrap_i32 (offset + 1)" if "p = Some q" for q
        using skip_name_progress [of f "wrap_i32 (offset + 1)" q o1] r(1) that wrap_i32_range(2) in_s "1.prems"(2)
        by (cases "offset = 2147483647") (auto simp: in_struct_def wrap_hi)
      then show ?thesis using r c False by (fastforce simp: skip_name.simps [of f offset] P1)
    qed
  qed
qed

section \<open>Tags\<close>

lemma fdt_next_tag_returns:
  assumes "fdt_ok f" "offset < 2147483648"
  shows "returns (fdt_next_tag f offset)"
proof -
  note P = fdt_offset_ptr_eq [OF assms(1)]
  have fin: "returns (next_tag_end f offset tag o1)" for tag o1
    by (simp add: next_tag_end_def P assms(2) wrap_u32_range)
  have prp: "returns (next_tag_prop f o1)" if "o1 < 2147483648" for o1
  proof (cases "in_struct f o1 4")
    case True
    obtain len where "fdt32_ld_int (fdt_bytes f) (hdr f 8 + o1) = Inr len"
      using fdt32_struct [OF assms(1) True, of 0] by auto
    then show ?thesis using True that by (simp add: next_tag_prop_def P Let_def header_reads [OF assms(1)])
  qed (simp add: next_tag_prop_def P that)
  have w: "wrap_i32 (offset + 4) < 2147483648" by (rule wrap_i32_range)
  show ?thesis
  proof (cases "in_struct f offset 4")
    case True
    obtain tag where tag: "fdt32_ld_int (fdt_bytes f) (hdr f 8 + offset) = Inr tag"
      using fdt32_struct [OF assms(1) True, of 0] by auto
    obtain p o1 where sn: "skip_name f (wrap_i32 (offset + 4)) = Inr (p, o1)" using skip_name_spec [OF assms(1) w] by blast
    obtain r where np: "next_tag_prop f (wrap_i32 (offset + 4)) = Inr r" using prp [OF w] by (auto elim: returnsE)
    show ?thesis using fin True by (auto simp: fdt_next_tag_def P assms(2) tag Let_def sn np split: option.splits)
  qed (simp add: fdt_next_tag_def P assms(2))
qed

lemma fdt_check_node_offset_returns: "fdt_ok f \<Longrightarrow> offset < 2147483648 \<Longrightarrow> returns (fdt_check_node_offset f offset)"
  using fdt_next_tag_returns [of f offset] by (auto simp: fdt_check_node_offset_def elim!: returnsE split: prod.splits)

lemma fdt_check_prop_offset_returns: "fdt_ok f \<Longrightarrow> offset < 2147483648 \<Longrightarrow> returns (fdt_check_prop_offset f offset)"
  using fdt_next_tag_returns [of f offset] by (auto simp: fdt_check_prop_offset_def elim!: returnsE split: prod.splits)

lemma next_node_loop_returns: "fdt_ok f \<Longrightarrow> offset < 2147483648 \<Longrightarrow> returns (next_node_loop f offset depth)"
proof (induction f offset depth rule: next_node_loop.induct)
  case (1 f offset depth)
  obtain tag n where t: "fdt_next_tag f offset = Inr (tag, n)"
    using fdt_next_tag_returns [OF "1.prems"] by (cases rule: returnsE) (auto simp: split_paired_all)
  have n: "n < 2147483648" by (rule fdt_next_tag_progress(1) [OF t])
  show ?case using "1.IH"(1) [OF t refl] "1.IH"(2) [OF t refl] "1.IH"(3) [OF t refl] "1.prems"(1) n
    by (cases depth) (auto simp: next_node_loop.simps [of f offset] t Let_def)
qed

lemma fdt_next_node_returns: "fdt_ok f \<Longrightarrow> offset < 2147483648 \<Longrightarrow> returns (fdt_next_node f offset depth)"
  using fdt_check_node_offset_returns [of f offset] next_node_loop_returns [of f] fdt_check_offset_progress(1) [of f offset]
  by (auto simp: fdt_next_node_def elim!: returnsE)

section \<open>Properties\<close>

text \<open>The bytes by which the value of a property is moved in old versions.\<close>

definition realign :: "fdt \<Rightarrow> int \<Rightarrow> int \<Rightarrow> int" where
  "realign f offset len = (if hdr f 20 < 0x10 \<and> (offset + 12) mod 8 \<noteq> 0 \<and> len \<ge> 8 then 4 else 0)"

lemma next_tag_prop_exact:
  assumes "fdt_ok f" "next_tag_prop f (offset + 4) = Inr (Some o1)" "0 \<le> offset" "offset + 4 < 2147483648"
  obtains len where "fdt32_ld_int (fdt_bytes f) (hdr f 8 + offset + 4) = Inr len" "0 \<le> len" "offset + 4 + len < 2147483647"
    "wrap_u32 (o1 - offset) = 12 + len + realign f offset len"
proof -
  obtain lp len where l: "fdt_offset_ptr f (offset + 4) 4 = Inr (Some lp)" "fdt32_ld_int (fdt_bytes f) lp = Inr len"
    "0 \<le> len" "offset + 4 + len < 2147483647"
    by (rule next_tag_prop_bounds [OF assms(2,4)]) blast
  have lp: "lp = hdr f 8 + offset + 4" using l(1) assms by (simp add: fdt_offset_ptr_eq split: if_splits)
  let ?o2 = "wrap_i32 (offset + 4 + (12 - FDT_TAGSIZE + len))"
  have o1: "o1 = (if hdr f 20 < 0x10 \<and> len \<ge> 8 \<and> wrap_u32 (?o2 - len) mod 8 \<noteq> 0 then wrap_i32 (?o2 + 4) else ?o2)"
    using assms(2) l(1,2) unfolding next_tag_prop_def Let_def by (auto simp: header_reads [OF assms(1)] split: if_splits)
  have "wrap_u32 (?o2 - len) = offset + 12" using assms by simp
  then have "o1 = wrap_i32 (offset + 12 + len + realign f offset len)"
    using o1 by (auto simp: realign_def algebra_simps)
  moreover have "offset + 12 + len + realign f offset len - offset = 12 + len + realign f offset len" by simp
  moreover have "0 \<le> 12 + len + realign f offset len" "12 + len + realign f offset len < 4294967296"
    using l assms by (auto simp: realign_def)
  ultimately have "wrap_u32 (o1 - offset) = 12 + len + realign f offset len" by simp
  with that l lp show ?thesis by blast
qed

lemma fdt_check_prop_spec:
  assumes "fdt_ok f" "offset < 2147483648" "fdt_check_prop_offset f offset = Inr n" "0 \<le> n"
  obtains len where "fdt32_ld_int (fdt_bytes f) (hdr f 8 + offset + 4) = Inr len" "0 \<le> len" "len < 2147483647"
    "in_struct f offset (12 + len + realign f offset len)"
proof -
  obtain t where t: "fdt_next_tag f offset = Inr (3, n)" and nn: "0 \<le> offset"
    using assms(3,4) by (auto simp: fdt_check_prop_offset_def bindE_eq_Inr split: if_splits)
  show ?thesis using t
  proof (cases rule: fdt_next_tag_cases)
    case (tag tp o1 p)
    have np: "next_tag_prop f (wrap_i32 (offset + 4)) = Inr (Some o1)" using tag(5) by simp
    have "offset + 4 < 2147483648"
    proof (rule ccontr)
      assume "\<not> offset + 4 < 2147483648"
      then have "wrap_i32 (offset + 4) < 0" using assms(2) by (simp add: wrap_hi)
      then show False using next_tag_prop_bounds [OF np wrap_i32_range(2)] by (auto simp: not_le)
    qed
    moreover from this np nn have "next_tag_prop f (offset + 4) = Inr (Some o1)" by simp
    ultimately obtain len where len: "fdt32_ld_int (fdt_bytes f) (hdr f 8 + offset + 4) = Inr len" "0 \<le> len"
      "offset + 4 + len < 2147483647" "wrap_u32 (o1 - offset) = 12 + len + realign f offset len"
      using next_tag_prop_exact [OF assms(1) _ nn] by blast
    have "in_struct f offset (wrap_u32 (o1 - offset))"
      using tag(3) assms(1,2) by (simp add: fdt_offset_ptr_eq wrap_u32_range split: if_splits)
    then show ?thesis using that len nn by simp
  qed simp
qed

subsection \<open>Strings\<close>

lemma buf_memcmp_returns:
  "0 \<le> p \<Longrightarrow> p + int n \<le> int (length a) \<Longrightarrow> 0 \<le> q \<Longrightarrow> q + int n \<le> int (length b) \<Longrightarrow> returns (buf_memcmp n a p b q)"
  by (induction n a p b q rule: buf_memcmp.induct) auto

lemma buf_memchr_returns: "0 \<le> p \<Longrightarrow> p + int n \<le> int (length a) \<Longrightarrow> returns (buf_memchr n a p c)"
  by (induction n a p c rule: buf_memchr.induct) auto

text \<open>A C string in a buffer: it is terminated there, and its length fits into \<open>int\<close>.\<close>

definition cstring :: "buf \<Rightarrow> int \<Rightarrow> bool" where
  "cstring s p \<longleftrightarrow> 0 \<le> p \<and> (\<exists>q. p \<le> q \<and> q < p + 2147483647 \<and> rd s q = Inr 0)"

lemma buf_strlen_spec:
  "0 \<le> p \<Longrightarrow> p \<le> q \<Longrightarrow> rd a q = Inr 0 \<Longrightarrow> \<exists>n. buf_strlen a p = Inr n \<and> 0 \<le> n \<and> p + n \<le> q \<and> rd a (p + n) = Inr 0"
proof (induction a p rule: buf_strlen.induct)
  case (1 a p)
  obtain x where x: "rd a p = Inr x" using "1.prems" by (auto simp: rd_Inr)
  show ?case
  proof (cases "x = 0")
    case True
    then show ?thesis using x "1.prems" by (simp add: buf_strlen.simps [of a p])
  next
    case False
    then have "p < q" using x "1.prems" by (cases "p = q") auto
    then obtain n where "buf_strlen a (p + 1) = Inr n" "0 \<le> n" "p + 1 + n \<le> q" "rd a (p + 1 + n) = Inr 0"
      using "1.IH" [OF x False] "1.prems" by auto
    then show ?thesis using x False by (intro exI [of _ "n + 1"]) (simp add: buf_strlen.simps [of a p] ac_simps)
  qed
qed

lemma cstring_strlen:
  assumes "cstring s p"
  obtains n where "buf_strlen s p = Inr n" "0 \<le> n" "n < 2147483647" "wrap_i32 n = n" "p + n < int (length s)" "rd s (p + n) = Inr 0"
  using assms buf_strlen_spec [of p _ s] by (fastforce simp: cstring_def rd_Inr)

lemma buf_strrchr_spec:
  "0 \<le> p \<Longrightarrow> p \<le> q \<Longrightarrow> rd a q = Inr 0 \<Longrightarrow> c \<noteq> 0 \<Longrightarrow>
   \<exists>r. buf_strrchr a p c l = Inr r \<and> (r = l \<or> (\<exists>x. r = Some x \<and> p \<le> x \<and> x < q))"
proof (induction a p c l rule: buf_strrchr.induct)
  case (1 a p c l)
  obtain x where x: "rd a p = Inr x" using "1.prems" by (auto simp: rd_Inr)
  show ?case
  proof (cases "x = 0")
    case True
    then show ?thesis using x "1.prems" by (simp add: buf_strrchr.simps [of a p])
  next
    case False
    then have "p < q" using x "1.prems" by (cases "p = q") auto
    then show ?thesis using "1.IH" [OF x False] "1.prems" x False by (fastforce simp: buf_strrchr.simps [of a p])
  qed
qed

lemma fdt_ro_probe_spec:
  assumes "fdt_ok f"
  obtains t where "fdt_ro_probe f = Inr t" "0 \<le> t \<Longrightarrow> t = hdr f 4 \<and> t < 2147483647"
proof -
  have "\<exists>t. fdt_ro_probe f = Inr t \<and> (0 \<le> t \<longrightarrow> t = hdr f 4 \<and> t < 2147483647)"
    unfolding fdt_ro_probe_def header_reads [OF assms] bindE_simps by (auto split: if_splits)
  then show ?thesis using that by blast
qed

lemma FDT_RO_PROBE_returns: "fdt_ok f \<Longrightarrow> (\<And>t. returns (e t)) \<Longrightarrow> (hdr f 4 < 2147483647 \<Longrightarrow> returns k) \<Longrightarrow> returns (FDT_RO_PROBE f e k)"
  by (rule fdt_ro_probe_spec [of f]) (auto simp: FDT_RO_PROBE_def)

lemma string_limit_spec:
  "fdt_ok f \<Longrightarrow> 0 \<le> len \<Longrightarrow> \<exists>r. string_limit f so len = Inr r \<and> (\<forall>n. r = Inr n \<longrightarrow> 0 \<le> n \<and> n \<le> len)"
  unfolding string_limit_def by (simp add: header_reads wrap_u32_range Let_def)

lemma fdt_get_string_spec:
  assumes "fdt_ok f"
  obtains p len where "fdt_get_string f so = Inr (p, len)"
    "\<And>q. p = Some q \<Longrightarrow> 0 \<le> q \<and> 0 \<le> len \<and> q + len < hdr f 4 \<and> rd (fdt_bytes f) (q + len) = Inr 0"
proof -
  obtain t where t: "fdt_ro_probe f = Inr t" "0 \<le> t \<Longrightarrow> t = hdr f 4 \<and> t < 2147483647" by (rule fdt_ro_probe_spec [OF assms]) blast
  define a where "a = wrap_u32 (so + hdr f 12)"
  have a0: "0 \<le> a" unfolding a_def by (rule wrap_u32_range)
  show ?thesis
  proof (cases "0 \<le> t \<and> a < t")
    case False
    then have "\<exists>e. fdt_get_string f so = Inr (None, e)"
      using t(1) by (auto simp: fdt_get_string_def header_reads [OF assms] a_def Let_def)
    then show ?thesis using that by blast
  next
    case True
    then obtain r where r: "string_limit f so (t - a) = Inr r" "\<forall>n. r = Inr n \<longrightarrow> 0 \<le> n \<and> n \<le> t - a"
      using string_limit_spec [OF assms, of "t - a" so] by auto
    note d = fdt_get_string_def [of f so] t(1) header_reads [OF assms] a_def [symmetric] r(1) Let_def
    show ?thesis
    proof (cases r)
      case (Inl e)
      then show ?thesis using that True by (simp add: d)
    next
      case (Inr n)
      have "a + n \<le> int (length (fdt_bytes f))" using r(2) Inr t(2) True assms by (auto simp: fdt_ok_def)
      then obtain m where m: "buf_memchr (nat n) (fdt_bytes f) a 0 = Inr m"
        using buf_memchr_returns [of a "nat n" "fdt_bytes f" 0] a0 r(2) Inr by (auto elim: returnsE)
      show ?thesis
      proof (cases m)
        case None
        then show ?thesis using that True Inr m by (simp add: d)
      next
        case (Some q)
        then have "a \<le> q \<and> q < a + n \<and> rd (fdt_bytes f) q = Inr 0" using buf_memchr_Some m r(2) Inr by fastforce
        then show ?thesis using that [of "Some a" "q - a"] True Inr m Some t(2) r(2) a0 by (simp add: d)
      qed
    qed
  qed
qed

lemma fdt_string_eq_returns:
  assumes "fdt_ok f" "0 \<le> sp" "sp + len \<le> int (length s)"
  shows "returns (fdt_string_eq f so s sp len)"
proof -
  obtain p n where p: "fdt_get_string f so = Inr (p, n)" "\<And>q. p = Some q \<Longrightarrow> 0 \<le> q \<and> 0 \<le> n \<and> q + n < hdr f 4 \<and> rd (fdt_bytes f) (q + n) = Inr 0"
    by (rule fdt_get_string_spec [OF assms(1)]) blast
  show ?thesis
  proof (cases p)
    case (Some q)
    then have "returns (buf_memcmp (nat len) (fdt_bytes f) q s sp)" if "n = len"
      using p(2) that assms by (intro buf_memcmp_returns) (auto simp: rd_Inr)
    then show ?thesis using p(1) Some by (auto simp: fdt_string_eq_def intro!: returns_bindE)
  qed (simp add: fdt_string_eq_def p(1))
qed

subsection \<open>Lookup\<close>

lemma fdt_get_property_by_offset_raw_spec:
  assumes "fdt_ok f" "offset < 2147483648"
  obtains p len where "fdt_get_property_by_offset_raw f offset = Inr (p, len)"
    "\<And>q. p = Some q \<Longrightarrow> q = hdr f 8 + offset \<and> 0 \<le> len \<and> fdt32_ld_int (fdt_bytes f) (q + 4) = Inr len
       \<and> in_struct f offset (12 + len + realign f offset len)"
proof -
  obtain n where n: "fdt_check_prop_offset f offset = Inr n" using fdt_check_prop_offset_returns [OF assms] by (auto elim: returnsE)
  show ?thesis
  proof (cases "n < 0")
    case True
    then show ?thesis using that n by (simp add: fdt_get_property_by_offset_raw_def)
  next
    case False
    then obtain len where "fdt32_ld_int (fdt_bytes f) (hdr f 8 + offset + 4) = Inr len" "0 \<le> len" "len < 2147483647"
      "in_struct f offset (12 + len + realign f offset len)"
      using fdt_check_prop_spec [OF assms n] by auto
    then show ?thesis using that [of "Some (hdr f 8 + offset)" len] n False
      by (simp add: fdt_get_property_by_offset_raw_def fdt_offset_ptr_raw_def header_reads [OF assms(1)])
  qed
qed

lemma nextprop_returns: "fdt_ok f \<Longrightarrow> offset < 2147483648 \<Longrightarrow> returns (nextprop f offset)"
proof (induction f offset rule: nextprop.induct)
  case (1 f offset)
  obtain tag n where t: "fdt_next_tag f offset = Inr (tag, n)"
    using fdt_next_tag_returns [OF "1.prems"] by (cases rule: returnsE) (auto simp: split_paired_all)
  show ?case using "1.IH" [OF t refl] "1.prems"(1) fdt_next_tag_progress(1) [OF t] by (auto simp: nextprop.simps [of f offset] t)
qed

lemma property_offsets:
  assumes "fdt_ok f" "offset < 2147483648"
  obtains n m where "fdt_first_property_offset f offset = Inr n" "n < 2147483648"
    "fdt_next_property_offset f offset = Inr m" "m < 2147483648"
proof -
  obtain a where a: "fdt_check_node_offset f offset = Inr a" using fdt_check_node_offset_returns [OF assms] by (auto elim: returnsE)
  obtain b where b: "fdt_check_prop_offset f offset = Inr b" using fdt_check_prop_offset_returns [OF assms] by (auto elim: returnsE)
  have np: "\<exists>n. (if c < 0 then Inr c else nextprop f c) = Inr n \<and> n < 2147483648" if "0 \<le> c \<Longrightarrow> c < 2147483648" for c
  proof (cases "c < 0")
    case False
    then have "c < 2147483648" using that by simp
    then obtain n where "nextprop f c = Inr n" using nextprop_returns [OF assms(1)] by (auto elim: returnsE)
    then show ?thesis using nextprop_ge [of f c n] that False by (cases "0 \<le> n") auto
  qed auto
  show ?thesis
    using that np [of a] np [of b] fdt_check_offset_progress(1) [OF a] fdt_check_offset_progress(2) [OF b]
    by (auto simp: fdt_first_property_offset_def fdt_next_property_offset_def a b)
qed

text \<open>A name of the given length in its buffer.\<close>

definition name_ok :: "buf \<Rightarrow> int \<Rightarrow> int \<Rightarrow> bool" where
  "name_ok name np namelen \<longleftrightarrow> 0 \<le> np \<and> np + namelen \<le> int (length name)"

lemma property_loop_spec:
  "fdt_ok f \<Longrightarrow> offset < 2147483648 \<Longrightarrow> name_ok name np namelen \<Longrightarrow>
   \<exists>p len po. property_loop f offset name np namelen = Inr (p, len, po) \<and>
     (\<forall>q. p = Some q \<longrightarrow> q = hdr f 8 + po \<and> 0 \<le> len \<and> fdt32_ld_int (fdt_bytes f) (q + 4) = Inr len
        \<and> in_struct f po (12 + len + realign f po len))"
proof (induction f offset name np namelen rule: property_loop.induct)
  case (1 f offset name np namelen)
  note ok = "1.prems"(1)
  show ?case
  proof (cases "offset < 0")
    case True
    then show ?thesis by (simp add: property_loop.simps [of f offset])
  next
    case nn: False
    obtain p len where p: "fdt_get_property_by_offset_raw f offset = Inr (p, len)"
      "\<And>q. p = Some q \<Longrightarrow> q = hdr f 8 + offset \<and> 0 \<le> len \<and> fdt32_ld_int (fdt_bytes f) (q + 4) = Inr len
         \<and> in_struct f offset (12 + len + realign f offset len)"
      by (rule fdt_get_property_by_offset_raw_spec [OF ok "1.prems"(2)]) blast
    show ?thesis
    proof (cases p)
      case None
      then show ?thesis using nn p(1) by (simp add: property_loop.simps [of f offset])
    next
      case (Some q)
      note q = p(2) [OF Some]
      obtain no where no: "fdt32_ld_int (fdt_bytes f) (q + 8) = Inr no"
        using fdt32_struct [OF ok, of offset "12 + len + realign f offset len" 8] q by (auto simp: realign_def split: if_splits)
      have "returns (fdt_string_eq f (wrap_i32 no) name np namelen)"
        using "1.prems"(3) by (intro fdt_string_eq_returns [OF ok]) (simp_all add: name_ok_def)
      then obtain eq where eq: "fdt_string_eq f (wrap_i32 no) name np namelen = Inr eq" by (auto elim: returnsE)
      obtain m where m: "fdt_next_property_offset f offset = Inr m" "m < 2147483648"
        by (rule property_offsets [OF ok "1.prems"(2)]) blast
      note d = property_loop.simps [of f offset] nn p(1) Some no eq m(1)
      show ?thesis
      proof (cases eq)
        case True
        then have "property_loop f offset name np namelen = Inr (Some q, len, offset)" by (simp add: d)
        then show ?thesis using q by blast
      next
        case False
        from "1.IH" [OF nn p(1) refl Some no eq False m(1) ok m(2) "1.prems"(3)] show ?thesis using False by (simp add: d)
      qed
    qed
  qed
qed

lemma fdt_getprop_namelen_spec:
  assumes "fdt_ok f" "offset < 2147483648" "name_ok name np namelen"
  obtains d len where "fdt_getprop_namelen f offset name np namelen = Inr (d, len)"
    "\<And>p. d = Some p \<Longrightarrow> 0 \<le> p \<and> 0 \<le> len \<and> p + len \<le> hdr f 4"
proof -
  obtain n where n: "fdt_first_property_offset f offset = Inr n" "n < 2147483648"
    by (rule property_offsets [OF assms(1,2)]) blast
  obtain p len po where p: "property_loop f n name np namelen = Inr (p, len, po)"
    "\<forall>q. p = Some q \<longrightarrow> q = hdr f 8 + po \<and> 0 \<le> len \<and> fdt32_ld_int (fdt_bytes f) (q + 4) = Inr len
        \<and> in_struct f po (12 + len + realign f po len)"
    using property_loop_spec [OF assms(1) n(2) assms(3)] by blast
  note d = fdt_getprop_namelen_def [of f] fdt_get_property_namelen_raw_def n(1) p(1)
  show ?thesis
  proof (cases p)
    case None
    then show ?thesis using that by (simp add: d)
  next
    case (Some q)
    then have "fdt32_ld_int (fdt_bytes f) (q + 4) = Inr len" using p(2) by blast
    then have "prop_data f q po = Inr (q + 12 + realign f po len)"
      by (simp add: prop_data_def header_reads [OF assms(1)] realign_def)
    then have "fdt_getprop_namelen f offset name np namelen = Inr (Some (q + 12 + realign f po len), len)" by (simp add: d Some)
    moreover have "0 \<le> q + 12 + realign f po len \<and> 0 \<le> len \<and> q + 12 + realign f po len + len \<le> hdr f 4"
    proof -
      have "q = hdr f 8 + po" "0 \<le> len" "in_struct f po (12 + len + realign f po len)" using p(2) Some by blast+
      moreover have "0 \<le> realign f po len" by (simp add: realign_def)
      ultimately show ?thesis using hdr_range(1) [of f 8] by (simp add: in_struct_def)
    qed
    ultimately show ?thesis using that [of "Some (q + 12 + realign f po len)" len] by simp
  qed
qed

lemma fdt_getprop_spec:
  assumes "fdt_ok f" "offset < 2147483648" "cstring name np"
  obtains d len where "fdt_getprop f offset name np = Inr (d, len)"
    "\<And>p. d = Some p \<Longrightarrow> 0 \<le> p \<and> 0 \<le> len \<and> p + len \<le> hdr f 4"
proof -
  obtain n where n: "buf_strlen name np = Inr n" "wrap_i32 n = n" "np + n < int (length name)"
    by (rule cstring_strlen [OF assms(3)]) blast
  have "name_ok name np n" using n(3) assms(3) by (simp add: name_ok_def cstring_def)
  then show ?thesis using fdt_getprop_namelen_spec [OF assms(1,2)] that n by (simp add: fdt_getprop_def) blast
qed

section \<open>Names and paths\<close>

lemma node_name_end:
  assumes "fdt_ok f" "offset < 2147483648" "fdt_check_node_offset f offset = Inr n" "0 \<le> n"
  obtains z where "0 \<le> offset" "hdr f 8 + offset + 4 \<le> z" "z < hdr f 4" "rd (fdt_bytes f) z = Inr 0"
proof -
  have t: "fdt_next_tag f offset = Inr (1, n)" and nn: "0 \<le> offset"
    using assms(3,4) by (auto simp: fdt_check_node_offset_def bindE_eq_Inr split: if_splits)
  show ?thesis using t
  proof (cases rule: fdt_next_tag_cases)
    case (tag tp o1 p)
    then obtain z where z: "skip_name f (wrap_i32 (offset + 4)) = Inr (Some z, o1)" by auto
    have "0 \<le> wrap_i32 (offset + 4)" using skip_name_progress [OF z wrap_i32_range(2)] by simp
    then have w: "wrap_i32 (offset + 4) = offset + 4" using nn assms(2) by (cases "offset + 4 < 2147483648") (simp_all add: wrap_hi)
    have "hdr f 8 + (offset + 4) \<le> z \<and> z < hdr f 4 \<and> rd (fdt_bytes f) z = Inr 0"
      using skip_name_spec [OF assms(1) wrap_i32_range(2), of "offset + 4"] z by (auto simp: w)
    then show ?thesis using that [of z] nn by (simp add: add.assoc)
  qed simp
qed

lemma fdt_get_name_spec:
  assumes "fdt_ok f" "offset < 2147483648"
  obtains p len where "fdt_get_name f offset = Inr (p, len)"
    "\<And>q. p = Some q \<Longrightarrow> 0 \<le> q \<and> 0 \<le> len \<and> q + len < hdr f 4 \<and> rd (fdt_bytes f) (q + len) = Inr 0"
proof -
  obtain t where t: "fdt_ro_probe f = Inr t" "0 \<le> t \<Longrightarrow> t = hdr f 4 \<and> t < 2147483647" by (rule fdt_ro_probe_spec [OF assms(1)]) blast
  obtain n where n: "fdt_check_node_offset f offset = Inr n" using fdt_check_node_offset_returns [OF assms] by (auto elim: returnsE)
  note d = fdt_get_name_def [of f offset] fdt_offset_ptr_raw_def header_reads [OF assms(1)] t(1) n
  show ?thesis
  proof (cases "t < 0 \<or> n < 0")
    case True
    then have "\<exists>e. fdt_get_name f offset = Inr (None, e)" by (auto simp: d)
    then show ?thesis using that by blast
  next
    case False
    then obtain z where z: "0 \<le> offset" "hdr f 8 + offset + 4 \<le> z" "z < hdr f 4" "rd (fdt_bytes f) z = Inr 0"
      using node_name_end [OF assms n] by (metis not_le)
    let ?s = "hdr f 8 + offset + 4"
    have s0: "0 \<le> ?s" using hdr_range(1) [of f 8] z(1) by simp
    have len: "\<exists>k. buf_strlen (fdt_bytes f) a = Inr k \<and> wrap_i32 k = k \<and> 0 \<le> k \<and> a + k \<le> z \<and> rd (fdt_bytes f) (a + k) = Inr 0"
      if a: "?s \<le> a" "a \<le> z" for a
    proof -
      obtain k where "buf_strlen (fdt_bytes f) a = Inr k" "0 \<le> k" "a + k \<le> z" "rd (fdt_bytes f) (a + k) = Inr 0"
        using buf_strlen_spec [of a z "fdt_bytes f"] a z s0 by auto
      moreover from this have "k < 2147483648" using z(3) t(2) False s0 a by auto
      ultimately show ?thesis by auto
    qed
    show ?thesis
    proof (cases "hdr f 20 < 0x10")
      case True
      obtain r where r: "buf_strrchr (fdt_bytes f) ?s 0x2f None = Inr r" "r = None \<or> (\<exists>x. r = Some x \<and> ?s \<le> x \<and> x < z)"
        using buf_strrchr_spec [OF s0 z(2,4), where c = "0x2f" and l = None] by auto
      show ?thesis
      proof (cases r)
        case None
        then show ?thesis using that False True r(1) by (simp add: d)
      next
        case (Some x)
        then obtain k where "buf_strlen (fdt_bytes f) (x + 1) = Inr k" "wrap_i32 k = k" "0 \<le> k" "x + 1 + k \<le> z" "rd (fdt_bytes f) (x + 1 + k) = Inr 0"
          using len [of "x + 1"] r(2) by auto
        then show ?thesis using that [of "Some (x + 1)" k] False True r Some s0 z(3) by (simp add: d)
      qed
    next
      case new: False
      obtain k where "buf_strlen (fdt_bytes f) ?s = Inr k" "wrap_i32 k = k" "0 \<le> k" "?s + k \<le> z" "rd (fdt_bytes f) (?s + k) = Inr 0"
        using len [of ?s] z(2) by auto
      then show ?thesis using that [of "Some ?s" k] False new s0 z(3) by (simp add: d)
    qed
  qed
qed

lemma fdt_nodename_eq_returns:
  assumes "fdt_ok f" "offset < 2147483648" "name_ok s sp len" "0 \<le> len"
  shows "returns (fdt_nodename_eq f offset s sp len)"
proof -
  obtain p n where p: "fdt_get_name f offset = Inr (p, n)"
    "\<And>q. p = Some q \<Longrightarrow> 0 \<le> q \<and> 0 \<le> n \<and> q + n < hdr f 4 \<and> rd (fdt_bytes f) (q + n) = Inr 0"
    by (rule fdt_get_name_spec [OF assms(1,2)]) blast
  show ?thesis
  proof (cases "\<exists>q. p = Some q \<and> len \<le> n")
    case True
    then obtain q where q: "p = Some q" "len \<le> n" by blast
    have r: "rd (fdt_bytes f) (q + len) = Inr (fdt_bytes f ! nat (q + len))" using p(2) [OF q(1)] q(2) assms(4) by (simp add: rd_Inr)
    have "returns (buf_memcmp (nat len) (fdt_bytes f) q s sp)"
      using p(2) [OF q(1)] q(2) assms by (intro buf_memcmp_returns) (auto simp: rd_Inr name_ok_def)
    moreover have "returns (buf_memchr (nat len) s sp c)" for c
      using assms(3,4) by (intro buf_memchr_returns) (auto simp: name_ok_def)
    ultimately show ?thesis using q by (auto simp: fdt_nodename_eq_def p(1) r intro!: returns_bindE)
  next
    case False
    then show ?thesis by (cases p) (auto simp: fdt_nodename_eq_def p(1))
  qed
qed

lemma subnode_loop_spec:
  "fdt_ok f \<Longrightarrow> offset < 2147483648 \<Longrightarrow> name_ok name np namelen \<Longrightarrow> 0 \<le> namelen \<Longrightarrow>
   \<exists>r. subnode_loop f offset depth name np namelen = Inr r \<and> r < 2147483648"
proof (induction f offset depth name np namelen rule: subnode_loop.induct)
  case (1 f offset depth name np namelen)
  note ok = "1.prems"(1)
  show ?case
  proof (cases "0 \<le> offset \<and> 0 \<le> depth")
    case False
    then show ?thesis using "1.prems"(2) by (auto simp: subnode_loop.simps [of f offset depth])
  next
    case go: True
    obtain eq where eq: "(if depth = 1 then fdt_nodename_eq f offset name np namelen else Inr False) = Inr eq"
      using fdt_nodename_eq_returns [OF "1.prems"] by (cases "depth = 1") (auto elim: returnsE)
    obtain o1 d1 where n: "fdt_next_node f offset (Some depth) = Inr (o1, d1)"
      using fdt_next_node_returns [OF ok "1.prems"(2)] by (cases rule: returnsE) (auto simp: split_paired_all)
    have o1: "o1 < 2147483648" using fdt_next_node_progress(1) [OF n] by (cases "0 \<le> o1") auto
    show ?thesis
    proof (cases eq)
      case True
      then show ?thesis using "1.prems"(2) go eq by (simp add: subnode_loop.simps [of f offset depth])
    next
      case False
      from "1.IH" [OF go eq False n refl ok o1 "1.prems"(3,4)] show ?thesis
        using False go eq n by (simp add: subnode_loop.simps [of f offset depth])
    qed
  qed
qed

lemma fdt_subnode_offset_namelen_spec:
  assumes "fdt_ok f" "offset < 2147483648" "name_ok name np namelen" "0 \<le> namelen"
  obtains r where "fdt_subnode_offset_namelen f offset name np namelen = Inr r" "r < 2147483648"
proof -
  obtain t where t: "fdt_ro_probe f = Inr t" "0 \<le> t \<Longrightarrow> t = hdr f 4 \<and> t < 2147483647" by (rule fdt_ro_probe_spec [OF assms(1)]) blast
  show ?thesis using that subnode_loop_spec [OF assms, of 0] t(1)
    by (cases "t < 0") (auto simp: fdt_subnode_offset_namelen_def FDT_RO_PROBE_def)
qed

lemma skip_slashes_returns: "0 \<le> p \<Longrightarrow> p < pend \<Longrightarrow> pend \<le> int (length path) \<Longrightarrow> \<exists>r. skip_slashes path p pend = Inr r \<and> (\<forall>q. r = Some q \<longrightarrow> q < pend)"
  by (induction path p pend rule: skip_slashes.induct) (subst skip_slashes.simps, auto)

lemma path_loop_returns:
  "fdt_ok f \<Longrightarrow> offset < 2147483648 \<Longrightarrow> 0 \<le> p \<Longrightarrow> pend \<le> int (length path) \<Longrightarrow>
   \<exists>r. path_loop f path p pend offset = Inr r \<and> r < 2147483648"
proof (induction f path p pend offset rule: path_loop.induct)
  case (1 f path p pend offset)
  note d = path_loop.simps [of f path p]
  show ?case
  proof (cases "p < pend")
    case False
    then show ?thesis using "1.prems" by (simp add: d)
  next
    case lt: True
    then obtain r where r: "skip_slashes path p pend = Inr r" "\<forall>q. r = Some q \<longrightarrow> q < pend"
      using skip_slashes_returns "1.prems" by blast
    show ?thesis
    proof (cases r)
      case None
      then show ?thesis using "1.prems" lt r by (simp add: d)
    next
      case (Some p1)
      then have p1: "p \<le> p1" "p1 < pend" using skip_slashes_Some [of path p pend p1] r by auto
      obtain m where m: "buf_memchr (nat (pend - p1)) path p1 0x2f = Inr m"
        using buf_memchr_returns [of p1 "nat (pend - p1)" path] p1 "1.prems" by (auto elim: returnsE)
      define q where "q = (case m of None \<Rightarrow> pend | Some q \<Rightarrow> q)"
      have q: "p1 \<le> q" "q \<le> pend" using buf_memchr_Some [of "nat (pend - p1)" path p1 "0x2f"] m p1 by (auto simp: q_def split: option.splits)
      have "name_ok path p1 (q - p1)" using q p1 "1.prems" by (simp add: name_ok_def)
      then obtain o1 where o1: "fdt_subnode_offset_namelen f offset path p1 (q - p1) = Inr o1" "o1 < 2147483648"
        using fdt_subnode_offset_namelen_spec [OF "1.prems"(1,2)] q by (metis diff_ge_0_iff_ge)
      show ?thesis
      proof (cases "o1 < 0")
        case True
        then show ?thesis using lt r(1) Some m o1 by (simp add: d q_def [symmetric] Let_def)
      next
        case False
        from "1.IH" [OF lt r(1) Some m q_def o1(1) False "1.prems"(1) o1(2)] q p1 "1.prems" show ?thesis
          using False lt r(1) Some m o1 by (simp add: d q_def [symmetric] Let_def)
      qed
    qed
  qed
qed

lemma path_offset_slash_spec:
  assumes "fdt_ok f" "cstring path p"
  obtains r where "path_offset_slash f path p = Inr r" "r < 2147483648"
proof -
  obtain n where n: "buf_strlen path p = Inr n" "0 \<le> n" "wrap_i32 n = n" "p + n < int (length path)"
    by (rule cstring_strlen [OF assms(2)]) blast
  have p0: "0 \<le> p" using assms(2) by (simp add: cstring_def)
  obtain t where t: "fdt_ro_probe f = Inr t" "0 \<le> t \<Longrightarrow> t = hdr f 4 \<and> t < 2147483647" by (rule fdt_ro_probe_spec [OF assms(1)]) blast
  obtain r where "path_loop f path p (p + n) 0 = Inr r" "r < 2147483648"
    using path_loop_returns [OF assms(1) _ p0, of 0 "p + n" path] n(4) by auto
  then show ?thesis using that n t(1)
    by (cases "t < 0"; cases "n \<le> 0") (auto simp: path_offset_slash_def FDT_RO_PROBE_def)
qed

lemma cstring_lit: "length s < 2147483647 \<Longrightarrow> cstring (lit s) 0"
  unfolding cstring_def lit_def by (auto intro!: exI [of _ "int (length s)"] simp: nth_append)

lemma fdt_get_alias_namelen_spec:
  assumes "fdt_ok f" "hdr f 4 < 2147483647" "name_ok name np namelen"
  obtains a where "fdt_get_alias_namelen f name np namelen = Inr a" "\<And>ap. a = Some ap \<Longrightarrow> cstring (fdt_bytes f) ap"
proof -
  obtain o1 where o1: "path_offset_slash f (lit ''/aliases'') 0 = Inr o1" "o1 < 2147483648"
    by (rule path_offset_slash_spec [OF assms(1) cstring_lit [of "''/aliases''"]]) simp_all
  obtain d len where d: "fdt_getprop_namelen f o1 name np namelen = Inr (d, len)" "\<And>p. d = Some p \<Longrightarrow> 0 \<le> p \<and> 0 \<le> len \<and> p + len \<le> hdr f 4"
    by (rule fdt_getprop_namelen_spec [OF assms(1) o1(2) assms(3)]) blast
  note e = fdt_get_alias_namelen_def [of f] fdt_path_getprop_namelen_def o1(1) d(1)
  have fits: "hdr f 4 \<le> int (length (fdt_bytes f))" using assms(1) by (simp add: fdt_ok_def)
  show ?thesis
  proof (cases "0 \<le> o1 \<and> d \<noteq> None \<and> 0 < len")
    case True
    then obtain a where a: "d = Some a" by auto
    note r = d(2) [OF a]
    obtain c where c: "rd (fdt_bytes f) (a + len - 1) = Inr c" using r True fits by (simp add: rd_def)
    obtain c0 where c0: "rd (fdt_bytes f) a = Inr c0" using r True fits by (simp add: rd_def)
    have z: "cstring (fdt_bytes f) a" if "c = 0"
      using c that r True assms(2) by (auto simp: cstring_def intro!: exI [of _ "a + len - 1"])
    show ?thesis
      by (rule that [of "if c = 0 \<and> c0 = 0x2f then Some a else None"]) (use z True a c c0 in \<open>auto simp: e split: if_splits\<close>)
  next
    case False
    then have "fdt_get_alias_namelen f name np namelen = Inr None"
      by (cases "o1 < 0"; cases d) (auto simp: e)
    then show ?thesis using that by blast
  qed
qed

lemma fdt_path_offset_spec:
  assumes "fdt_ok f" "cstring path p"
  obtains r where "fdt_path_offset f path p = Inr r" "r < 2147483648"
proof (cases "rd path p = Inr 0x2f")
  case True
  then show ?thesis using that path_offset_slash_spec [OF assms] by (metis fdt_path_offset_slash)
next
  case False
  obtain n where n: "buf_strlen path p = Inr n" "0 \<le> n" "wrap_i32 n = n" "p + n < int (length path)"
    by (rule cstring_strlen [OF assms(2)]) blast
  have p0: "0 \<le> p" using assms(2) by (simp add: cstring_def)
  obtain t where t: "fdt_ro_probe f = Inr t" "0 \<le> t \<Longrightarrow> t = hdr f 4 \<and> t < 2147483647" by (rule fdt_ro_probe_spec [OF assms(1)]) blast
  obtain c where c: "rd path p = Inr c" "c \<noteq> 0x2f" using False p0 n by (auto simp: rd_def)
  obtain m where m: "buf_memchr (nat n) path p 0x2f = Inr m"
    using buf_memchr_returns [of p "nat n" path] p0 n by (auto elim: returnsE)
  define q where "q = (case m of None \<Rightarrow> p + n | Some q \<Rightarrow> q)"
  have q: "p \<le> q" "q \<le> p + n" using buf_memchr_Some [of "nat n" path p "0x2f"] m n p0 by (auto simp: q_def split: option.splits)
  note e = fdt_path_offset_def [of f path p] fdt_path_offset_namelen_def FDT_RO_PROBE_def n(1,3) t(1) Let_def c m
  show ?thesis
  proof (cases "t < 0 \<or> n \<le> 0")
    case True
    then show ?thesis using that t(1) by (cases "t < 0") (simp_all add: e)
  next
    case go: False
    then have "hdr f 4 < 2147483647" using t(2) by simp
    moreover have "name_ok path p (q - p)" using q p0 n by (simp add: name_ok_def)
    ultimately obtain a where a: "fdt_get_alias_namelen f path p (q - p) = Inr a" "\<And>ap. a = Some ap \<Longrightarrow> cstring (fdt_bytes f) ap"
      using fdt_get_alias_namelen_spec [OF assms(1)] by blast
    have e2: "fdt_path_offset f path p = bindE (fdt_get_alias_namelen f path p (q - p)) (\<lambda>a. case a of
          None \<Rightarrow> Inr (- FDT_ERR_BADPATH)
        | Some ap \<Rightarrow> bindE (path_offset_slash f (fdt_bytes f) ap) (\<lambda>offset. path_loop f path q (p + n) offset))"
      using go by (cases m) (simp_all add: e q_def cong: option.case_cong)
    show ?thesis
    proof (cases a)
      case None
      then show ?thesis using that a(1) by (simp add: e2)
    next
      case (Some ap)
      obtain o1 where o1: "path_offset_slash f (fdt_bytes f) ap = Inr o1" "o1 < 2147483648"
        by (rule path_offset_slash_spec [OF assms(1) a(2) [OF Some]]) blast
      obtain r where "path_loop f path q (p + n) o1 = Inr r" "r < 2147483648"
        using path_loop_returns [OF assms(1) o1(2), of q "p + n" path] q p0 n(4) by auto
      then show ?thesis using that a(1) Some o1(1) by (simp add: e2)
    qed
  qed
qed

section \<open>Searches\<close>

lemma node_scan_returns:
  "fdt_ok f \<Longrightarrow> offset < 2147483648 \<Longrightarrow> (\<And>o1. 0 \<le> o1 \<Longrightarrow> o1 < 2147483648 \<Longrightarrow> returns (body o1)) \<Longrightarrow> returns (node_scan f body offset)"
proof (induction f body offset rule: node_scan.induct)
  case (1 f body offset)
  obtain o1 d1 where n: "fdt_next_node f offset None = Inr (o1, d1)"
    using fdt_next_node_returns [OF "1.prems"(1,2)] by (cases rule: returnsE) (auto simp: split_paired_all)
  show ?case
  proof (cases "o1 < 0")
    case True
    then show ?thesis by (simp add: node_scan.simps [of f body offset] n)
  next
    case False
    have o1: "o1 < 2147483648" using fdt_next_node_progress(1) [OF n] False by simp
    obtain r where r: "body o1 = Inr r" using "1.prems"(3) [of o1] False o1 by (auto elim: returnsE)
    show ?thesis
    proof (cases r)
      case None
      then have "returns (node_scan f body o1)" by (intro "1.IH" [OF n refl False r None "1.prems"(1) o1 "1.prems"(3)])
      then show ?thesis by (simp add: node_scan.simps [of f body offset] n r False None)
    qed (simp add: node_scan.simps [of f body offset] n r False)
  qed
qed

lemma contains_loop_returns:
  "0 \<le> strlist \<Longrightarrow> strlist + listlen < int (length b) \<Longrightarrow> 0 \<le> len \<Longrightarrow> len < int (length str) \<Longrightarrow>
   returns (contains_loop b strlist listlen str len)"
proof (induction b strlist listlen str len rule: contains_loop.induct)
  case (1 b strlist listlen str len)
  note d = contains_loop.simps [of b strlist]
  show ?case
  proof (cases "len \<le> listlen")
    case False
    then show ?thesis by (simp add: d)
  next
    case le: True
    obtain r where r: "buf_memcmp (nat (len + 1)) str 0 b strlist = Inr r"
      using buf_memcmp_returns [of 0 "nat (len + 1)" str strlist b] "1.prems" le by (auto elim: returnsE)
    obtain m where m: "buf_memchr (nat listlen) b strlist 0 = Inr m"
      using buf_memchr_returns [of strlist "nat listlen" b] "1.prems" le by (auto elim: returnsE)
    show ?thesis
    proof (cases "r = 0 \<or> m = None")
      case True
      then show ?thesis using le r m by (auto simp: d)
    next
      case False
      then obtain p where p: "m = Some p" "r \<noteq> 0" by auto
      have "strlist \<le> p" using buf_memchr_Some [of "nat listlen" b strlist 0 p] m p by simp
      then have "returns (contains_loop b (p + 1) (listlen - (p - strlist + 1)) str len)"
        using "1.IH" [OF le r p(2) m p(1)] "1.prems" by simp
      then show ?thesis using le r m p by (simp add: d)
    qed
  qed
qed

text \<open>The check of a node's \<open>compatible\<close> list reads one byte more than the list when the list is not terminated and ends with
  the string that is looked for. The searches therefore need one byte after the blob.\<close>

definition fdt_slack :: "fdt \<Rightarrow> bool" where
  "fdt_slack f \<longleftrightarrow> fdt_ok f \<and> hdr f 4 < int (length (fdt_bytes f))"

lemma fdt_node_check_compatible_returns:
  assumes "fdt_slack f" "offset < 2147483648" "cstring str 0"
  shows "returns (fdt_node_check_compatible f offset str)"
proof -
  have ok: "fdt_ok f" using assms(1) by (simp add: fdt_slack_def)
  obtain d len where d: "fdt_getprop f offset (lit ''compatible'') 0 = Inr (d, len)" "\<And>p. d = Some p \<Longrightarrow> 0 \<le> p \<and> 0 \<le> len \<and> p + len \<le> hdr f 4"
    by (rule fdt_getprop_spec [OF ok assms(2) cstring_lit [of "''compatible''"]]) simp_all
  obtain n where n: "buf_strlen str 0 = Inr n" "0 \<le> n" "wrap_i32 n = n" "0 + n < int (length str)"
    by (rule cstring_strlen [OF assms(3)]) blast
  show ?thesis
  proof (cases d)
    case (Some p)
    then have "returns (contains_loop (fdt_bytes f) p len str n)"
      using d(2) [OF Some] n assms(1) by (intro contains_loop_returns) (auto simp: fdt_slack_def)
    then show ?thesis using Some by (auto simp: fdt_node_check_compatible_def d(1) fdt_stringlist_contains_def n intro!: returns_bindE)
  qed (simp add: fdt_node_check_compatible_def d(1))
qed

lemma fdt_node_offset_by_compatible_returns:
  assumes "fdt_slack f" "start < 2147483648" "cstring str 0"
  shows "returns (fdt_node_offset_by_compatible f start str)"
  unfolding fdt_node_offset_by_compatible_def using assms fdt_node_check_compatible_returns [OF assms(1) _ assms(3)]
  by (intro FDT_RO_PROBE_returns node_scan_returns) (auto simp: fdt_slack_def intro!: returns_bindE)

section \<open>The full check\<close>

lemma fdt64_ld_returns: "0 \<le> p \<Longrightarrow> p + 8 \<le> int (length b) \<Longrightarrow> returns (fdt64_ld b p)"
  by (simp add: fdt64_ld_def)

lemma num_mem_rsv_loop_returns:
  "fdt_ok f \<Longrightarrow> 16 \<le> hdr f 4 \<Longrightarrow> 0 \<le> i \<Longrightarrow> i < 268435456 \<Longrightarrow> returns (num_mem_rsv_loop f i)"
proof (induction f i rule: num_mem_rsv_loop.induct)
  case (1 f i)
  note ok = "1.prems"(1) and R = hdr_range [of f 16] hdr_range [of f 4]
  have "(hdr f 4 - 16) mod 18446744073709551616 = hdr f 4 - 16" using R "1.prems"(2) by simp
  moreover have w: "wrap_u32 (hdr f 16 + i * 16) = (if hdr f 16 + i * 16 < 4294967296 then hdr f 16 + i * 16 else hdr f 16 + i * 16 - 4294967296)"
    using R "1.prems" by (intro wrap_add_fits) simp_all
  ultimately have e: "fdt_mem_rsv f i = Inr (if hdr f 16 + 16 * i + 16 \<le> hdr f 4 then Some (hdr f 16 + 16 * i) else None)"
    using R "1.prems" by (auto simp: fdt_mem_rsv_def fdt_mem_rsv_raw_def header_reads [OF ok] Let_def)
  show ?case
  proof (cases "hdr f 16 + 16 * i + 16 \<le> hdr f 4")
    case True
    then have m: "fdt_mem_rsv f i = Inr (Some (hdr f 16 + 16 * i))" using e by simp
    have "returns (fdt64_ld_int (fdt_bytes f) (hdr f 16 + 16 * i + 8))"
      unfolding fdt64_ld_int_eq using True R "1.prems" ok by (intro fdt64_ld_returns) (auto simp: fdt_ok_def)
    then obtain v where v: "fdt64_ld_int (fdt_bytes f) (hdr f 16 + 16 * i + 8) = Inr v" by (auto elim: returnsE)
    show ?thesis using "1.IH" [OF m refl v _ ok "1.prems"(2)] True R "1.prems"
      by (simp add: num_mem_rsv_loop.simps [of f i] m v del: num_mem_rsv_loop.simps)
  next
    case False
    then show ?thesis using e by (simp add: num_mem_rsv_loop.simps [of f i] del: num_mem_rsv_loop.simps)
  qed
qed

lemma fdt_getprop_by_offset_returns:
  assumes "fdt_ok f" "offset < 2147483648"
  shows "returns (fdt_getprop_by_offset f offset w)"
proof -
  obtain p len where p: "fdt_get_property_by_offset_raw f offset = Inr (p, len)"
    "\<And>q. p = Some q \<Longrightarrow> q = hdr f 8 + offset \<and> 0 \<le> len \<and> fdt32_ld_int (fdt_bytes f) (q + 4) = Inr len
       \<and> in_struct f offset (12 + len + realign f offset len)"
    by (rule fdt_get_property_by_offset_raw_spec [OF assms]) blast
  show ?thesis
  proof (cases p)
    case (Some q)
    note q = p(2) [OF Some]
    obtain no where no: "fdt32_ld_int (fdt_bytes f) (q + 8) = Inr no"
      using fdt32_struct [OF assms(1), of offset "12 + len + realign f offset len" 8] q by (auto simp: realign_def split: if_splits)
    have pd: "returns (prop_data f q offset)" using q by (auto simp: prop_data_def header_reads [OF assms(1)])
    obtain n k where "fdt_get_string f (wrap_i32 no) = Inr (n, k)" by (rule fdt_get_string_spec [OF assms(1)]) blast
    then show ?thesis using Some no pd by (auto simp: fdt_getprop_by_offset_def p(1) intro!: returns_bindE)
  qed (simp add: fdt_getprop_by_offset_def p(1))
qed

lemma check_full_loop_returns: "fdt_ok f \<Longrightarrow> offset < 2147483648 \<Longrightarrow> returns (check_full_loop f offset depth e)"
proof (induction f offset depth e rule: check_full_loop.induct)
  case (1 f offset depth e)
  obtain tag n where t: "fdt_next_tag f offset = Inr (tag, n)"
    using fdt_next_tag_returns [OF "1.prems"] by (cases rule: returnsE) (auto simp: split_paired_all)
  have n: "n < 2147483648" by (rule fdt_next_tag_progress(1) [OF t])
  obtain p len where p: "fdt_get_name f offset = Inr (p, len)"
    "\<And>q. p = Some q \<Longrightarrow> 0 \<le> q \<and> 0 \<le> len \<and> q + len < hdr f 4 \<and> rd (fdt_bytes f) (q + len) = Inr 0"
    by (rule fdt_get_name_spec [OF "1.prems"]) blast
  have rp: "rd (fdt_bytes f) q = Inr (fdt_bytes f ! nat q)" if "p = Some q" for q using p(2) [OF that] by (simp add: rd_Inr)
  obtain a b c where g: "fdt_getprop_by_offset f offset True = Inr (a, b, c)"
    using fdt_getprop_by_offset_returns [OF "1.prems", of True] by (cases rule: returnsE) (auto simp: split_paired_all)
  note IH = "1.IH"(1-5) [OF t refl]
  show ?case
  proof (cases "n < 0 \<or> e \<and> tag \<noteq> FDT_END")
    case True
    then show ?thesis by (auto simp: check_full_loop.simps [of f offset] t)
  next
    case go: False
    consider "tag = FDT_NOP" | "tag = FDT_END" | "tag = FDT_BEGIN_NODE" | "tag = FDT_END_NODE" | "tag = FDT_PROP"
      | "tag \<notin> {FDT_NOP, FDT_END, FDT_BEGIN_NODE, FDT_END_NODE, FDT_PROP}" by blast
    then show ?thesis
      using go "1.prems"(1) n IH rp by cases (auto simp: check_full_loop.simps [of f offset] t p(1) g Let_def split: option.splits)
  qed
qed

lemma fdt_check_full_returns:
  assumes "fdt_ok f"
  shows "returns (fdt_check_full f bufsize)"
proof -
  have h: "\<exists>r. fdt_check_header f = Inr r \<and> (r = 0 \<longrightarrow> 28 \<le> hdr f 4)"
    unfolding fdt_check_header_def fdt_header_size_def header_reads [OF assms] bindE_simps
    by (auto simp: fdt_header_size_v_def)
  then obtain r where r: "fdt_check_header f = Inr r" "r = 0 \<longrightarrow> 28 \<le> hdr f 4" by blast
  have "returns (fdt_num_mem_rsv f)" if "r = 0"
    using num_mem_rsv_loop_returns [OF assms, of 0] r that by (simp add: fdt_num_mem_rsv_def del: num_mem_rsv_loop.simps)
  then show ?thesis using check_full_loop_returns [OF assms, of 0]
    by (auto simp: fdt_check_full_def fdt_header_size_def header_reads [OF assms] r(1) intro!: returns_bindE)
qed

end
