(* ===== verification/Fdt_Result.thy ===== *)
theory Fdt_Result
  imports Fdt_Safe
begin

text \<open>
  What the device tree library returns: a non-negative result is the offset of a tag of the kind asked for, aligned and within the
  structure block; a negative one is one of the error codes of \<open>libfdt.h\<close>. The queries of the kernel return, and store their results
  exactly when they report success.
\<close>

section \<open>Offsets and error codes\<close>

definition is_err :: "int \<Rightarrow> bool" where "is_err r \<longleftrightarrow> - FDT_ERR_ALIGNMENT \<le> r \<and> r < 0"

definition code_or_offset :: "int \<Rightarrow> bool" where
  "code_or_offset r \<longleftrightarrow> is_err r \<or> 0 \<le> r \<and> r < 2147483648 \<and> r mod FDT_TAGSIZE = 0"

text \<open>Blobs whose aligned offsets fit into \<open>int\<close>.\<close>

definition fdt_small :: "fdt \<Rightarrow> bool" where "fdt_small f \<longleftrightarrow> fdt_ok f \<and> hdr f 4 \<le> 2147483644"

lemma fdt_next_tag_result:
  assumes "fdt_small f" "start < 2147483648" "fdt_next_tag f start = Inr (tag, n)"
  shows "code_or_offset n" "tag \<noteq> FDT_END \<Longrightarrow> 0 \<le> n" "tag \<in> {FDT_BEGIN_NODE, FDT_END_NODE, FDT_PROP, FDT_NOP, FDT_END}"
proof -
  have ok: "fdt_ok f" using assms(1) by (simp add: fdt_small_def)
  have "code_or_offset n \<and> (tag \<noteq> FDT_END \<longrightarrow> 0 \<le> n) \<and> tag \<in> {FDT_BEGIN_NODE, FDT_END_NODE, FDT_PROP, FDT_NOP, FDT_END}"
    using assms(3)
  proof (cases rule: fdt_next_tag_cases)
    case stop
    then show ?thesis by (auto simp: code_or_offset_def is_err_def)
  next
    case (tag tp o1 p)
    have w4: "wrap_i32 (start + 4) < 2147483648" by (rule wrap_i32_range)
    have r: "- 2147483648 \<le> o1 \<and> o1 < 2147483648"
      using tag(5) skip_name_progress [OF _ w4] next_tag_prop_bounds [OF _ w4, of f o1] wrap_i32_range
      by (fastforce split: if_splits)
    let ?L = "wrap_u32 (o1 - start)"
    have s: "in_struct f start ?L" using tag(3) assms(2) ok by (simp add: fdt_offset_ptr_eq wrap_u32_range split: if_splits)
    have b: "0 \<le> start + ?L \<and> start + ?L \<le> 2147483644" using s assms(1) wrap_u32_range(1) hdr_range(1) [of f 8]
      by (auto simp: in_struct_def fdt_small_def intro: order_trans)
    have "o1 = start + ?L"
    proof -
      have "(start + ?L) mod 4294967296 = o1 mod 4294967296" by (simp add: wrap_u32_def mod_simps)
      then have "wrap_i32 (start + ?L) = wrap_i32 o1" by (metis wrap_i32_def mod_add_left_eq)
      then show ?thesis using r b by simp
    qed
    with b have o1: "0 \<le> o1" "o1 \<le> 2147483644" by simp_all
    then have "n = 4 * ((o1 + 3) div 4)" using tag(4) by (simp add: FDT_TAGALIGN_def FDT_ALIGN_4)
    moreover have "0 \<le> 4 * ((o1 + 3) div 4)" "4 * ((o1 + 3) div 4) < 2147483648" using o1 by presburger+
    ultimately show ?thesis using tag(5) by (auto simp: code_or_offset_def split: if_splits)
  qed
  then show "code_or_offset n" "tag \<noteq> FDT_END \<Longrightarrow> 0 \<le> n" "tag \<in> {FDT_BEGIN_NODE, FDT_END_NODE, FDT_PROP, FDT_NOP, FDT_END}"
    by blast+
qed

lemma err_codes [simp]: "is_err (- 1)" "is_err (- 4)" "is_err (- 8)" "is_err (- 11)" "is_err (- 13)"
  by (simp_all add: is_err_def)

lemma fdt_check_node_offset_result:
  "fdt_small f \<Longrightarrow> offset < 2147483648 \<Longrightarrow> fdt_check_node_offset f offset = Inr n \<Longrightarrow> code_or_offset n"
  using fdt_next_tag_result [of f offset]
  by (auto simp: fdt_check_node_offset_def bindE_eq_Inr code_or_offset_def split: if_splits)

lemma fdt_check_prop_offset_result:
  "fdt_small f \<Longrightarrow> offset < 2147483648 \<Longrightarrow> fdt_check_prop_offset f offset = Inr n \<Longrightarrow> code_or_offset n"
  using fdt_next_tag_result [of f offset]
  by (auto simp: fdt_check_prop_offset_def bindE_eq_Inr code_or_offset_def split: if_splits)

section \<open>Nodes\<close>

lemma next_node_loop_result:
  "fdt_small f \<Longrightarrow> 0 \<le> offset \<Longrightarrow> code_or_offset offset \<Longrightarrow> next_node_loop f offset None = Inr (o1, d1) \<Longrightarrow>
   d1 = None \<and> code_or_offset o1 \<and> (0 \<le> o1 \<longrightarrow> (\<exists>n. fdt_next_tag f o1 = Inr (FDT_BEGIN_NODE, n)))"
proof (induction f offset "None :: int option" rule: next_node_loop.induct)
  case (1 f offset)
  have lt: "offset < 2147483648" using "1.prems"(2,3) by (auto simp: code_or_offset_def is_err_def)
  from "1.prems"(4) obtain r where "fdt_next_tag f offset = Inr r"
    unfolding next_node_loop.simps [of f offset] by (auto simp: bindE_eq_Inr)
  then obtain tag n where t: "fdt_next_tag f offset = Inr (tag, n)" by (cases r) simp
  note e = "1.prems"(4) [unfolded next_node_loop.simps [of f offset] t bindE_simps prod.case]
  note R = fdt_next_tag_result [OF "1.prems"(1) lt t]
  consider "tag = FDT_END" | "tag = FDT_BEGIN_NODE" | "tag = FDT_END_NODE" | "tag = FDT_PROP \<or> tag = FDT_NOP" using R(3) by blast
  then show ?case
  proof cases
    case 1
    then show ?thesis using e R(1) by (auto simp: code_or_offset_def split: if_splits)
  next
    case 2
    then show ?thesis using e t "1.prems"(3) by auto
  next
    case 3
    then show ?thesis using e "1.hyps"(1) [OF t refl] "1.prems"(1) R by (simp add: Let_def)
  next
    case 4
    then show ?thesis using e "1.hyps"(3) [OF t refl] "1.prems"(1) R by auto
  qed
qed

lemma fdt_next_node_result:
  assumes "fdt_small f" "offset < 2147483648" "fdt_next_node f offset None = Inr (o1, d1)"
  shows "code_or_offset o1" "0 \<le> o1 \<Longrightarrow> \<exists>n. fdt_next_tag f o1 = Inr (FDT_BEGIN_NODE, n)"
proof -
  obtain n where n: "(if 0 \<le> offset then fdt_check_node_offset f offset else Inr 0) = Inr n"
    "(if n < 0 then Inr (n, None) else next_node_loop f n None) = Inr (o1, d1)"
    using assms(3) by (auto simp: fdt_next_node_def bindE_eq_Inr)
  have c: "code_or_offset n"
    using n(1) fdt_check_node_offset_result [OF assms(1,2)] by (auto simp: code_or_offset_def split: if_splits)
  have "code_or_offset o1 \<and> (0 \<le> o1 \<longrightarrow> (\<exists>n. fdt_next_tag f o1 = Inr (FDT_BEGIN_NODE, n)))"
    using n(2) c next_node_loop_result [OF assms(1) _ c, of o1 d1] by (cases "n < 0") auto
  then show "code_or_offset o1" "0 \<le> o1 \<Longrightarrow> \<exists>n. fdt_next_tag f o1 = Inr (FDT_BEGIN_NODE, n)" by blast+
qed

section \<open>Properties\<close>

lemma nextprop_result:
  "fdt_small f \<Longrightarrow> 0 \<le> offset \<Longrightarrow> code_or_offset offset \<Longrightarrow> nextprop f offset = Inr o1 \<Longrightarrow> code_or_offset o1"
proof (induction f offset rule: nextprop.induct)
  case (1 f offset)
  have lt: "offset < 2147483648" using "1.prems"(2,3) by (auto simp: code_or_offset_def is_err_def)
  from "1.prems"(4) obtain r where "fdt_next_tag f offset = Inr r"
    unfolding nextprop.simps [of f offset] by (auto simp: bindE_eq_Inr)
  then obtain tag n where t: "fdt_next_tag f offset = Inr (tag, n)" by (cases r) simp
  note e = "1.prems"(4) [unfolded nextprop.simps [of f offset] t bindE_simps prod.case]
  show ?case using e fdt_next_tag_result [OF "1.prems"(1) lt t] "1.IH" [OF t refl] "1.prems"(1,3)
    by (auto simp: code_or_offset_def split: if_splits)
qed

lemma property_offset_results:
  assumes "fdt_small f" "offset < 2147483648"
  shows "fdt_first_property_offset f offset = Inr n \<Longrightarrow> code_or_offset n" "fdt_next_property_offset f offset = Inr n \<Longrightarrow> code_or_offset n"
  using fdt_check_node_offset_result [OF assms] fdt_check_prop_offset_result [OF assms] nextprop_result [OF assms(1)]
  by (auto simp: fdt_first_property_offset_def fdt_next_property_offset_def bindE_eq_Inr not_less split: if_splits)

text \<open>A property that is not found is reported by an error code.\<close>

lemma property_loop_result:
  "fdt_small f \<Longrightarrow> code_or_offset offset \<Longrightarrow> property_loop f offset name np namelen = Inr (None, len, po) \<Longrightarrow> is_err len"
proof (induction f offset name np namelen rule: property_loop.induct)
  case (1 f offset name np namelen)
  show ?case
  proof (cases "offset < 0")
    case True
    then show ?thesis using "1.prems" by (auto simp: property_loop.simps [of f offset] code_or_offset_def)
  next
    case nn: False
    then have lt: "offset < 2147483648" using "1.prems"(2) by (auto simp: code_or_offset_def is_err_def)
    from "1.prems"(3) nn obtain r where "fdt_get_property_by_offset_raw f offset = Inr r"
      unfolding property_loop.simps [of f offset] by (auto simp: bindE_eq_Inr)
    then obtain p k where p: "fdt_get_property_by_offset_raw f offset = Inr (p, k)" by (cases r) simp
    note e = "1.prems"(3) [unfolded property_loop.simps [of f offset] p bindE_simps prod.case if_not_P [OF nn]]
    show ?thesis
    proof (cases p)
      case None
      then show ?thesis using e by auto
    next
      case (Some q)
      then obtain no eq m where m: "fdt32_ld_int (fdt_bytes f) (q + 8) = Inr no" "fdt_string_eq f (wrap_i32 no) name np namelen = Inr eq"
        "\<not> eq" "fdt_next_property_offset f offset = Inr m" "property_loop f m name np namelen = Inr (None, len, po)"
        using e by (auto simp: bindE_eq_Inr split: if_splits)
      show ?thesis
        by (rule "1.IH" [OF nn p refl Some m(1-4) "1.prems"(1) property_offset_results(2) [OF "1.prems"(1) lt m(4)] m(5)])
    qed
  qed
qed

lemma fdt_getprop_result:
  assumes "fdt_small f" "offset < 2147483648" "cstring name np" "fdt_getprop f offset name np = Inr (None, len)"
  shows "is_err len"
proof -
  obtain n where n: "buf_strlen name np = Inr n" by (rule cstring_strlen [OF assms(3)]) blast
  obtain m p k po where m: "fdt_first_property_offset f offset = Inr m" "property_loop f m name np (wrap_i32 n) = Inr (p, k, po)"
    "(case p of None \<Rightarrow> Inr (None, k) | Some p \<Rightarrow> bindE (prop_data f p po) (\<lambda>d. Inr (Some d, k))) = Inr (None, len)"
    using assms(4) by (auto simp: fdt_getprop_def n fdt_getprop_namelen_def fdt_get_property_namelen_raw_def bindE_eq_Inr)
  have "p = None \<and> k = len" using m(3) by (cases p) (auto simp: bindE_eq_Inr)
  then show ?thesis using property_loop_result [OF assms(1) property_offset_results(1) [OF assms(1,2) m(1)]] m(2) by blast
qed

section \<open>Searches\<close>

lemma node_scan_result:
  assumes "fdt_small f"
  shows "offset < 2147483648 \<Longrightarrow> node_scan f body offset = Inr r \<Longrightarrow>
   is_err r \<or> (\<exists>o1. code_or_offset o1 \<and> 0 \<le> o1 \<and> (\<exists>n. fdt_next_tag f o1 = Inr (FDT_BEGIN_NODE, n)) \<and> body o1 = Inr (Some r))"
  using assms
proof (induction f body offset rule: node_scan.induct)
  case (1 f body offset)
  from "1.prems"(2) obtain x where "fdt_next_node f offset None = Inr x"
    unfolding node_scan.simps [of f body offset] by (auto simp: bindE_eq_Inr)
  then obtain o1 d1 where n: "fdt_next_node f offset None = Inr (o1, d1)" by (cases x) simp
  note e = "1.prems"(2) [unfolded node_scan.simps [of f body offset] n bindE_simps prod.case]
  note R = fdt_next_node_result [OF "1.prems"(3,1) n]
  show ?case
  proof (cases "o1 < 0")
    case True
    then show ?thesis using e R(1) by (auto simp: code_or_offset_def)
  next
    case False
    then obtain v where v: "body o1 = Inr v" using e by (auto simp: bindE_eq_Inr)
    have lt: "o1 < 2147483648" using R(1) False by (auto simp: code_or_offset_def is_err_def)
    show ?thesis
    proof (cases v)
      case None
      then show ?thesis using "1.IH" [OF n refl False v None lt _ "1.prems"(3)] e False v by simp
    next
      case (Some w)
      then show ?thesis using e False v R by auto
    qed
  qed
qed

lemma node_scan_less:
  "(\<And>o1 v. o1 < 2147483648 \<Longrightarrow> body o1 = Inr (Some v) \<Longrightarrow> v < 2147483648) \<Longrightarrow> node_scan f body offset = Inr r \<Longrightarrow> r < 2147483648"
proof (induction f body offset rule: node_scan.induct)
  case (1 f body offset)
  from "1.prems"(2) obtain x where "fdt_next_node f offset None = Inr x"
    unfolding node_scan.simps [of f body offset] by (auto simp: bindE_eq_Inr)
  then obtain o1 d1 where n: "fdt_next_node f offset None = Inr (o1, d1)" by (cases x) simp
  note e = "1.prems"(2) [unfolded node_scan.simps [of f body offset] n bindE_simps prod.case]
  show ?case
  proof (cases "o1 < 0")
    case True
    then show ?thesis using e by auto
  next
    case False
    then obtain v where v: "body o1 = Inr v" using e by (auto simp: bindE_eq_Inr)
    have "o1 < 2147483648" using fdt_next_node_progress(1) [OF n] False by simp
    then show ?thesis using e False v "1.prems"(1) "1.IH" [OF n refl False v _ "1.prems"(1)] by (cases v) auto
  qed
qed

lemma fdt_node_offset_by_compatible_less:
  assumes "fdt_ok f" "fdt_node_offset_by_compatible f start str = Inr r"
  shows "r < 2147483648"
proof -
  obtain t where t: "fdt_ro_probe f = Inr t" "0 \<le> t \<Longrightarrow> t = hdr f 4 \<and> t < 2147483647" by (rule fdt_ro_probe_spec [OF assms(1)]) blast
  show ?thesis
  proof (cases "t < 0")
    case True
    then show ?thesis using assms(2) t(1) by (simp add: fdt_node_offset_by_compatible_def FDT_RO_PROBE_def)
  next
    case False
    then show ?thesis using assms(2) t(1) unfolding fdt_node_offset_by_compatible_def FDT_RO_PROBE_def
      by (auto elim!: node_scan_less [rotated] simp: bindE_eq_Inr split: if_splits)
  qed
qed

section \<open>The properties\<close>

lemma fdt32_cell:
  assumes "fdt_ok f" "0 \<le> p" "p + 4 \<le> hdr f 4"
  shows "returns (fdt32_ld_int (fdt_bytes f) p)"
  using assms by (simp add: fdt32_ld_int_eq fdt32_ld_in fdt_ok_def)

lemma kernel_queries_return:
  assumes "fdt_slack f" "cstring c 0"
  shows "\<exists>r v. fdt_find_reg_by_compat f c = Inr (r, v) \<and> (r = 0 \<and> v \<noteq> None \<or> r = - 1 \<and> v = None)"
    "\<exists>r v. fdt_find_irq_by_compat f c = Inr (r, v) \<and> (r = 0 \<and> v \<noteq> None \<or> r = - 1 \<and> v = None)"
proof -
  have ok: "fdt_ok f" using assms(1) by (simp add: fdt_slack_def)
  obtain o1 where o1: "fdt_node_offset_by_compatible f (- 1) c = Inr o1"
    using fdt_node_offset_by_compatible_returns [OF assms(1) _ assms(2), of "- 1"] by (auto elim: returnsE)
  have lt: "o1 < 2147483648" by (rule fdt_node_offset_by_compatible_less [OF ok o1])
  have cell: "\<exists>v. fdt32_ld_int (fdt_bytes f) p = Inr v" if "0 \<le> p" "p + 4 \<le> hdr f 4" for p
    using fdt32_cell [OF ok that] by (auto elim: returnsE)
  obtain d len where d: "fdt_getprop f o1 (lit ''reg'') 0 = Inr (d, len)" "\<And>p. d = Some p \<Longrightarrow> 0 \<le> p \<and> 0 \<le> len \<and> p + len \<le> hdr f 4"
    by (rule fdt_getprop_spec [OF ok lt cstring_lit [of "''reg''"]]) simp_all
  show "\<exists>r v. fdt_find_reg_by_compat f c = Inr (r, v) \<and> (r = 0 \<and> v \<noteq> None \<or> r = - 1 \<and> v = None)"
  proof (cases "\<exists>p. 0 \<le> o1 \<and> d = Some p \<and> 16 \<le> len")
    case True
    then obtain p where p: "0 \<le> o1" "d = Some p" "16 \<le> len" by blast
    then obtain a b e g where "fdt32_ld_int (fdt_bytes f) p = Inr a" "fdt32_ld_int (fdt_bytes f) (p + 4) = Inr b"
      "fdt32_ld_int (fdt_bytes f) (p + 8) = Inr e" "fdt32_ld_int (fdt_bytes f) (p + 12) = Inr g"
      using cell [of p] cell [of "p + 4"] cell [of "p + 8"] cell [of "p + 12"] d(2) [OF p(2)] by auto
    then show ?thesis using p by (simp add: fdt_find_reg_by_compat_def o1 d(1))
  next
    case False
    then show ?thesis by (cases d) (auto simp: fdt_find_reg_by_compat_def o1 d(1))
  qed
  obtain d len where d: "fdt_getprop f o1 (lit ''interrupts'') 0 = Inr (d, len)" "\<And>p. d = Some p \<Longrightarrow> 0 \<le> p \<and> 0 \<le> len \<and> p + len \<le> hdr f 4"
    by (rule fdt_getprop_spec [OF ok lt cstring_lit [of "''interrupts''"]]) simp_all
  show "\<exists>r v. fdt_find_irq_by_compat f c = Inr (r, v) \<and> (r = 0 \<and> v \<noteq> None \<or> r = - 1 \<and> v = None)"
  proof (cases "\<exists>p. 0 \<le> o1 \<and> d = Some p \<and> 4 \<le> len")
    case True
    then obtain p where p: "0 \<le> o1" "d = Some p" "4 \<le> len" by blast
    then obtain a where "fdt32_ld_int (fdt_bytes f) p = Inr a" using cell [of p] d(2) [OF p(2)] by auto
    then show ?thesis using p by (simp add: fdt_find_irq_by_compat_def o1 d(1))
  next
    case False
    then show ?thesis by (cases d) (auto simp: fdt_find_irq_by_compat_def o1 d(1))
  qed
qed

lemma fdt_ro_probe_err: "fdt_ok f \<Longrightarrow> fdt_ro_probe f = Inr t \<Longrightarrow> t < 0 \<Longrightarrow> is_err t"
  using hdr_range(1) [of f 4] by (auto simp: fdt_ro_probe_def header_reads is_err_def split: if_splits)

lemma fdt_strerror_known: "is_err r \<Longrightarrow> fdt_strerror r \<noteq> ''<unknown error>''"
proof -
  assume "is_err r"
  then have "nat (- r) \<in> set [1..<20]" "r < 0" "- r < 20" by (auto simp: is_err_def)
  then show ?thesis by (auto simp: fdt_strerror_def FDT_ERRTABSIZE_def fdt_errtable_def upt_rec)
qed

end
