(* ===== verification/Fdt_Tree.thy ===== *)
theory Fdt_Tree
  imports Fdt_Result
begin

unbundle bit_operations_syntax

text \<open>
  Device trees and their flattened form, as the specification of the library: a tree of nodes with properties, the tokens of its
  structure block, and the blobs that hold them. The walk over a blob visits the nodes of the tree in order, and a property lookup
  finds the property of the tree.
\<close>

section \<open>Big-endian numbers\<close>

lemma ucast_low_byte: "(ucast (x AND 0xff :: 'a::len word) :: u8) = ucast x"
proof (rule bit_eqI)
  fix n
  assume "possible_bit TYPE(u8) n"
  then have n: "n < 8" by simp
  have e: "(0xff :: 'a word) = mask 8" by (simp add: mask_eq_exp_minus_1)
  show "bit (ucast (x AND 0xff) :: u8) n = bit (ucast x :: u8) n" unfolding e using n by (auto simp: bit_simps dest: bit_imp_le_length)
qed

lemma word_eq_by_bytes:
  fixes x y :: "'a::len word"
  assumes "\<And>k. k < LENGTH('a) \<Longrightarrow> 8 dvd k \<Longrightarrow> (ucast (drop_bit k x) :: u8) = ucast (drop_bit k y)"
  shows "x = y"
proof (rule bit_eqI)
  fix n
  assume n: "possible_bit TYPE('a word) n"
  let ?k = "8 * (n div 8)"
  have "(ucast (drop_bit ?k x) :: u8) = ucast (drop_bit ?k y)" using n by (intro assms) auto
  then have "bit (ucast (drop_bit ?k x) :: u8) (n mod 8) = bit (ucast (drop_bit ?k y) :: u8) (n mod 8)" by simp
  moreover have "?k + n mod 8 = n" by simp
  ultimately show "bit x n = bit y n" by (simp add: bit_simps)
qed

lemma be32_fdt32_st: "fdt32_st v = [a, b, c, d] \<Longrightarrow> be32 a b c d = v"
proof (rule word_eq_by_bytes)
  fix k
  assume e: "fdt32_st v = [a, b, c, d]" and "k < LENGTH(32)" "(8 :: nat) dvd k"
  then have "k = 0 \<or> k = 8 \<or> k = 16 \<or> k = 24" by (auto elim!: dvdE)
  then show "(ucast (drop_bit k (be32 a b c d)) :: u8) = ucast (drop_bit k v)"
    using e be32_bytes [of a b c d] by (auto simp: fdt32_st_def ucast_low_byte)
qed

text \<open>The bytes of a 32-bit number in a blob.\<close>

definition be :: "int \<Rightarrow> buf" where "be v = fdt32_st (word_of_int v)"

lemma length_be [simp]: "length (be v) = 4"
  by (simp add: be_def fdt32_st_def)

lemma be_value:
  assumes "0 \<le> v" "v < 4294967296"
  shows "uint (be32 (be v ! 0) (be v ! 1) (be v ! 2) (be v ! 3)) = v"
proof -
  have "be v = [be v ! 0, be v ! 1, be v ! 2, be v ! 3]" by (simp add: be_def fdt32_st_def)
  then have "be32 (be v ! 0) (be v ! 1) (be v ! 2) (be v ! 3) = word_of_int v" unfolding be_def by (rule be32_fdt32_st)
  then show ?thesis using assms by (simp add: uint_word_of_int)
qed

lemma fdt32_ld_be:
  assumes "b = xs @ be v @ ys" "0 \<le> v" "v < 4294967296"
  shows "fdt32_ld_int b (int (length xs)) = Inr v"
  using be_value [OF assms(2,3)] by (simp add: fdt32_ld_int_eq fdt32_ld_in assms(1) nth_append)

section \<open>Tokens\<close>

datatype tok = TBegin buf | TEnd | TProp int buf | TNop | TFin

definition pad :: "nat \<Rightarrow> buf" where "pad n = replicate ((4 - n mod 4) mod 4) 0"

fun enc :: "tok \<Rightarrow> buf" where
  "enc (TBegin n) = be 1 @ n @ [0] @ pad (length n + 1)"
| "enc TEnd = be 2"
| "enc (TProp no d) = be 3 @ be (int (length d)) @ be no @ d @ pad (length d)"
| "enc TNop = be 4"
| "enc TFin = be 9"

fun tag_of :: "tok \<Rightarrow> int" where
  "tag_of (TBegin n) = FDT_BEGIN_NODE"
| "tag_of TEnd = FDT_END_NODE"
| "tag_of (TProp no d) = FDT_PROP"
| "tag_of TNop = FDT_NOP"
| "tag_of TFin = FDT_END"

definition enc_all :: "tok list \<Rightarrow> buf" where "enc_all ts = concat (map enc ts)"

definition pos :: "tok list \<Rightarrow> int" where "pos ts = int (length (enc_all ts))"

lemma pad_aligned: "4 dvd n + length (pad n)"
proof -
  have "\<exists>q. n = 4 * q \<or> n = 4 * q + 1 \<or> n = 4 * q + 2 \<or> n = 4 * q + 3" by presburger
  then obtain q where "n = 4 * q \<or> n = 4 * q + 1 \<or> n = 4 * q + 2 \<or> n = 4 * q + 3" ..
  then show ?thesis by (elim disjE) (simp_all add: pad_def mod_mult_self2 mod_Suc, presburger)
qed

lemma pos_simps [simp]: "pos [] = 0" "pos (xs @ ys) = pos xs + pos ys" "pos (x # xs) = int (length (enc x)) + pos xs"
  by (simp_all add: pos_def enc_all_def)

lemma enc_all_simps [simp]: "enc_all [] = []" "enc_all (x # xs) = enc x @ enc_all xs" "enc_all (xs @ ys) = enc_all xs @ enc_all ys"
  by (simp_all add: enc_all_def)

lemma enc_aligned: "4 dvd length (enc t)"
proof (cases t)
  case (TBegin n)
  then show ?thesis using pad_aligned [of "length n + 1"] by simp presburger
next
  case (TProp no d)
  then show ?thesis using pad_aligned [of "length d"] by simp
qed simp_all

lemma pos_nonneg: "0 \<le> pos ts" by (simp add: pos_def)

lemma pos_aligned: "pos ts mod 4 = 0"
proof (induction ts)
  case (Cons t ts)
  have "4 dvd int (length (enc t))" using enc_aligned [of t] by presburger
  with Cons show ?case by (simp add: mod_0_imp_dvd dvd_imp_mod_0)
qed simp

section \<open>Blobs\<close>

definition str_at :: "buf \<Rightarrow> int \<Rightarrow> buf" where "str_at strs no = takeWhile (\<lambda>c. c \<noteq> 0) (drop (nat no) strs)"

fun tok_ok :: "buf \<Rightarrow> tok \<Rightarrow> bool" where
  "tok_ok strs (TBegin n) \<longleftrightarrow> 0 \<notin> set n"
| "tok_ok strs (TProp no d) \<longleftrightarrow> 0 \<le> no \<and> no < int (length strs) \<and> 0 \<in> set (drop (nat no) strs)"
| "tok_ok strs _ \<longleftrightarrow> True"

text \<open>A complete blob of the current version, with a strings block and a structure block of these tokens.\<close>

definition dt_blob :: "fdt \<Rightarrow> buf \<Rightarrow> tok list \<Rightarrow> bool" where
  "dt_blob f strs ts \<longleftrightarrow> fdt_ok f \<and> fdt_addr f AND 7 = 0 \<and> hdr f 0 = FDT_MAGIC \<and> hdr f 4 \<le> 2147483640 \<and> hdr f 20 = 17 \<and> hdr f 24 = 16
     \<and> hdr f 36 = pos ts \<and> hdr f 8 + pos ts \<le> hdr f 4 \<and> take (length (enc_all ts)) (drop (nat (hdr f 8)) (fdt_bytes f)) = enc_all ts
     \<and> hdr f 32 = int (length strs) \<and> hdr f 12 + hdr f 32 \<le> hdr f 4 \<and> take (length strs) (drop (nat (hdr f 12)) (fdt_bytes f)) = strs
     \<and> list_all (tok_ok strs) ts"

lemma dt_blob_ok: "dt_blob f strs ts \<Longrightarrow> fdt_ok f"
  by (simp add: dt_blob_def)

lemma dt_blob_split:
  assumes "dt_blob f strs ts"
  obtains xs ys where "fdt_bytes f = xs @ enc_all ts @ ys" "int (length xs) = hdr f 8"
proof -
  let ?b = "fdt_bytes f"
  have "take (length (enc_all ts)) (drop (nat (hdr f 8)) ?b) = enc_all ts" using assms by (simp add: dt_blob_def)
  then have "drop (nat (hdr f 8)) ?b = enc_all ts @ drop (length (enc_all ts)) (drop (nat (hdr f 8)) ?b)"
    using append_take_drop_id [of "length (enc_all ts)" "drop (nat (hdr f 8)) ?b"] by simp
  then have "?b = take (nat (hdr f 8)) ?b @ enc_all ts @ drop (length (enc_all ts)) (drop (nat (hdr f 8)) ?b)"
    using append_take_drop_id [of "nat (hdr f 8)" ?b] by simp
  moreover have "int (length (take (nat (hdr f 8)) ?b)) = hdr f 8"
    using assms hdr_range(1) [of f 8] pos_nonneg [of ts] by (auto simp: dt_blob_def fdt_ok_def min_def)
  ultimately show ?thesis by (rule that)
qed

lemma dt_probe: "dt_blob f strs ts \<Longrightarrow> fdt_ro_probe f = Inr (hdr f 4)"
  using hdr_range(1) [of f 4] by (auto simp: dt_blob_def fdt_ro_probe_def header_reads)

lemma dt_in_struct: "dt_blob f strs ts \<Longrightarrow> in_struct f offset len \<longleftrightarrow> 0 \<le> offset \<and> offset + len \<le> pos ts"
  by (auto simp: dt_blob_def in_struct_def)

lemma dt_pos_less: "dt_blob f strs ts \<Longrightarrow> pos ts \<le> 2147483640"
  using hdr_range(1) [of f 8] by (auto simp: dt_blob_def)

lemma dt_offset_ptr:
  assumes "dt_blob f strs ts" "offset < 2147483648" "0 \<le> len" "len < 4294967296"
  shows "fdt_offset_ptr f offset len = Inr (if 0 \<le> offset \<and> offset + len \<le> pos ts then Some (hdr f 8 + offset) else None)"
  using assms by (simp add: fdt_offset_ptr_eq dt_blob_ok dt_in_struct)

section \<open>Walking the tokens\<close>

text \<open>Bytes of the structure block: what follows a prefix of it.\<close>

lemma dt_bytes_at:
  assumes "dt_blob f strs ts" "enc_all ts = as @ bs @ cs"
  obtains xs ys where "fdt_bytes f = xs @ bs @ ys" "int (length xs) = hdr f 8 + int (length as)"
proof -
  obtain xs ys where "fdt_bytes f = xs @ enc_all ts @ ys" "int (length xs) = hdr f 8" by (rule dt_blob_split [OF assms(1)]) blast
  then show ?thesis using that [of "xs @ as" "cs @ ys"] assms(2) by simp
qed

lemma dt_fdt32:
  assumes "dt_blob f strs ts" "enc_all ts = as @ be v @ cs" "0 \<le> v" "v < 4294967296"
  shows "fdt32_ld_int (fdt_bytes f) (hdr f 8 + int (length as)) = Inr v"
proof -
  obtain xs ys where "fdt_bytes f = xs @ be v @ ys" "int (length xs) = hdr f 8 + int (length as)"
    by (rule dt_bytes_at [OF assms(1,2)]) blast
  then show ?thesis using fdt32_ld_be [of "fdt_bytes f" xs v ys] assms(3,4) by simp
qed

lemma dt_rd:
  assumes "dt_blob f strs ts" "enc_all ts = as @ c # cs"
  shows "rd (fdt_bytes f) (hdr f 8 + int (length as)) = Inr c"
proof -
  obtain xs ys where "fdt_bytes f = xs @ [c] @ ys" "int (length xs) = hdr f 8 + int (length as)"
    by (rule dt_bytes_at [OF assms(1), of as "[c]" cs]) (use assms(2) in auto)
  then show ?thesis by (simp add: rd_Inr nth_append flip: \<open>int (length xs) = hdr f 8 + int (length as)\<close>)
qed

lemma pos_length: "pos ts = int (length (enc_all ts))"
  by (simp add: pos_def)

lemma dt_skip_name:
  assumes "dt_blob f strs ts"
  shows "0 \<notin> set n \<Longrightarrow> enc_all ts = as @ n @ 0 # cs \<Longrightarrow>
    skip_name f (int (length as)) = Inr (Some (hdr f 8 + int (length as) + int (length n)), int (length as) + int (length n) + 1)"
proof (induction n arbitrary: as)
  case Nil
  then have "rd (fdt_bytes f) (hdr f 8 + int (length as)) = Inr 0" using dt_rd [OF assms] by simp
  moreover have "int (length as) + 1 \<le> pos ts" "int (length as) < 2147483648" using Nil dt_pos_less [OF assms] by (simp_all add: pos_length)
  ultimately show ?case using dt_pos_less [OF assms] by (simp add: skip_name.simps [of f] dt_offset_ptr [OF assms])
next
  case (Cons c n)
  then have "rd (fdt_bytes f) (hdr f 8 + int (length as)) = Inr c" "c \<noteq> 0" using dt_rd [OF assms] by auto
  moreover have "int (length as) + 1 \<le> pos ts" "int (length as) < 2147483647" using Cons dt_pos_less [OF assms] by (simp_all add: pos_length)
  moreover have "skip_name f (int (length (as @ [c]))) = Inr (Some (hdr f 8 + int (length (as @ [c])) + int (length n)), int (length (as @ [c])) + int (length n) + 1)"
    using Cons.prems by (intro Cons.IH) auto
  ultimately show ?case by (simp add: skip_name.simps [of f "int (length as)"] dt_offset_ptr [OF assms] ac_simps)
qed

lemma TAGALIGN_pad:
  assumes "int (k + length (pad k)) + x \<le> 2147483640" "0 \<le> x" "x mod 4 = 0"
  shows "FDT_TAGALIGN (x + int k) = x + int (k + length (pad k))"
proof -
  have "\<exists>q. k = 4 * q \<or> k = 4 * q + 1 \<or> k = 4 * q + 2 \<or> k = 4 * q + 3" by presburger
  then obtain q where q: "k = 4 * q \<or> k = 4 * q + 1 \<or> k = 4 * q + 2 \<or> k = 4 * q + 3" ..
  obtain y where "x = 4 * y" using assms(3) by (auto elim: dvdE)
  with q have "FDT_ALIGN (x + int k) 4 = x + int (k + length (pad k))"
    by (elim disjE) (simp_all add: FDT_ALIGN_4 pad_def mod_mult_self2 mod_Suc, presburger+)
  then show ?thesis using assms by (simp add: FDT_TAGALIGN_def)
qed

lemma pad_skip: "pad (4 + k) = pad k" "pad (12 + k) = pad k"
proof -
  have "(4 + k) mod 4 = k mod 4" "(12 + k) mod 4 = k mod 4" by presburger+
  then show "pad (4 + k) = pad k" "pad (12 + k) = pad k" unfolding pad_def by (simp_all only:)
qed

lemma dt_next_tag_end:
  assumes "dt_blob f strs ts" "0 \<le> start" "start mod 4 = 0" "start + int (k + length (pad k)) \<le> pos ts"
  shows "next_tag_end f start tag (start + int k) = Inr (tag, start + int (k + length (pad k)))"
proof -
  note P = dt_pos_less [OF assms(1)]
  have "FDT_TAGALIGN (start + int k) = start + int (k + length (pad k))" using assms P by (intro TAGALIGN_pad) simp_all
  moreover have "start < 2147483648" "int k < 4294967296" using assms P by simp_all
  ultimately show ?thesis using assms by (simp add: next_tag_end_def dt_offset_ptr [OF assms(1)])
qed

lemma dt_next_tag_prop:
  assumes "dt_blob f strs ts" "enc_all ts = as @ be (int (length d)) @ cs" "int (length as) + 8 + int (length d) \<le> pos ts"
  shows "next_tag_prop f (int (length as)) = Inr (Some (int (length as) + 8 + int (length d)))"
proof -
  have L: "int (length d) < 2147483648" "int (length as) + 8 + int (length d) < 2147483647" using assms(3) dt_pos_less [OF assms(1)] by simp_all
  then have "fdt32_ld_int (fdt_bytes f) (hdr f 8 + int (length as)) = Inr (int (length d))" by (intro dt_fdt32 [OF assms(1,2)]) simp_all
  moreover have "fdt_version f = Inr 17" using assms(1) by (simp add: dt_blob_def header_reads)
  ultimately show ?thesis using L assms(3) by (simp add: next_tag_prop_def dt_offset_ptr [OF assms(1)] Let_def ac_simps)
qed

text \<open>The tag at a token, and the offset of the next one.\<close>

lemma dt_next_tag:
  assumes D: "dt_blob f strs (pre @ t # post)"
  shows "fdt_next_tag f (pos pre) = Inr (tag_of t, pos (pre @ [t]))"
proof -
  let ?ts = "pre @ t # post"
  note P = dt_pos_less [OF D]
  have nn: "0 \<le> pos pre" "pos pre mod 4 = 0" by (rule pos_nonneg pos_aligned)+
  have le: "pos pre + int (length (enc t)) \<le> pos ?ts" using pos_nonneg [of post] by simp
  have four: "4 \<le> length (enc t)" by (cases t) simp_all
  obtain cs where cs: "enc t = be (tag_of t) @ cs" by (cases t) auto
  have tag: "fdt32_ld_int (fdt_bytes f) (hdr f 8 + pos pre) = Inr (tag_of t)"
    unfolding pos_length using cs by (intro dt_fdt32 [OF D, of _ _ "cs @ enc_all post"]) (simp, (cases t; simp)+)
  have head: "fdt_offset_ptr f (pos pre) 4 = Inr (Some (hdr f 8 + pos pre))" using nn le four P by (simp add: dt_offset_ptr [OF D])
  have w: "wrap_i32 (pos pre + 4) = pos pre + 4" using nn le four P by simp
  note d = fdt_next_tag_def [of f "pos pre"] head tag w Let_def
  show ?thesis
  proof (cases t)
    case (TBegin n)
    have "0 \<notin> set n" using D TBegin by (simp add: dt_blob_def)
    then have "skip_name f (int (length (enc_all pre @ be 1))) = Inr (Some (hdr f 8 + int (length (enc_all pre @ be 1)) + int (length n)), int (length (enc_all pre @ be 1)) + int (length n) + 1)"
      by (rule dt_skip_name [OF D]) (simp add: TBegin)
    then have sk: "skip_name f (pos pre + 4) = Inr (Some (hdr f 8 + pos pre + 4 + int (length n)), pos pre + int (4 + (length n + 1)))"
      by (simp add: pos_length ac_simps)
    have pd: "pad (4 + (length n + 1)) = pad (length n + 1)" by (rule pad_skip)
    have "next_tag_end f (pos pre) 1 (pos pre + int (4 + (length n + 1))) = Inr (1, pos pre + int (4 + (length n + 1) + length (pad (4 + (length n + 1)))))"
      using le TBegin nn pd by (intro dt_next_tag_end [OF D]) (simp_all del: pos_simps(2))
    then show ?thesis using pd by (simp add: d TBegin sk)
  next
    case (TProp no v)
    have "next_tag_prop f (int (length (enc_all pre @ be 3))) = Inr (Some (int (length (enc_all pre @ be 3)) + 8 + int (length v)))"
      by (rule dt_next_tag_prop [OF D, of _ _ "be no @ v @ pad (length v) @ enc_all post"]) (use le TProp in \<open>simp_all add: pos_length\<close>)
    then have np: "next_tag_prop f (pos pre + 4) = Inr (Some (pos pre + int (12 + length v)))" by (simp add: pos_length ac_simps)
    have pd: "pad (12 + length v) = pad (length v)" by (rule pad_skip)
    have "next_tag_end f (pos pre) 3 (pos pre + int (12 + length v)) = Inr (3, pos pre + int (12 + length v + length (pad (12 + length v))))"
      using le TProp nn pd by (intro dt_next_tag_end [OF D]) (simp_all del: pos_simps(2))
    then show ?thesis using pd by (simp add: d TProp np)
  qed (use dt_next_tag_end [OF D nn, of 4] le in \<open>simp_all add: d pad_def\<close>)
qed

section \<open>Walking the nodes\<close>

fun plain :: "tok \<Rightarrow> bool" where
  "plain (TBegin n) = False"
| "plain TFin = False"
| "plain _ = True"

lemma dt_check_node:
  "dt_blob f strs (pre @ TBegin n # post) \<Longrightarrow> fdt_check_node_offset f (pos pre) = Inr (pos (pre @ [TBegin n]))"
  using dt_next_tag [of f strs pre "TBegin n" post] pos_nonneg [of pre] pos_aligned [of pre] by (simp add: fdt_check_node_offset_def)

lemma dt_skip_plain:
  "list_all plain sk \<Longrightarrow> dt_blob f strs (pre @ sk @ post) \<Longrightarrow> next_node_loop f (pos pre) None = next_node_loop f (pos (pre @ sk)) None"
proof (induction sk arbitrary: pre)
  case (Cons t sk)
  have t: "fdt_next_tag f (pos pre) = Inr (tag_of t, pos (pre @ [t]))" using Cons.prems(2) by (intro dt_next_tag [of f strs pre t "sk @ post"]) simp
  have "next_node_loop f (pos pre) None = next_node_loop f (pos (pre @ [t])) None"
    using Cons.prems(1) by (subst next_node_loop.simps, cases t) (simp_all add: t Let_def del: pos_simps)
  also have "\<dots> = next_node_loop f (pos ((pre @ [t]) @ sk)) None" using Cons.prems by (intro Cons.IH) simp_all
  finally show ?case by simp
qed simp

lemma dt_next_node:
  assumes "dt_blob f strs (pre @ TBegin n # sk @ t # post)" "list_all plain sk" "\<not> plain t"
  shows "fdt_next_node f (pos pre) None = Inr (case t of TFin \<Rightarrow> - 1 | _ \<Rightarrow> pos (pre @ TBegin n # sk), None)"
proof -
  have c: "fdt_check_node_offset f (pos pre) = Inr (pos (pre @ [TBegin n]))" by (rule dt_check_node [OF assms(1)])
  have "next_node_loop f (pos (pre @ [TBegin n])) None = next_node_loop f (pos ((pre @ [TBegin n]) @ sk)) None"
    by (rule dt_skip_plain [OF assms(2), of f strs _ "t # post"]) (use assms(1) in simp)
  moreover have "fdt_next_tag f (pos (pre @ TBegin n # sk)) = Inr (tag_of t, pos ((pre @ TBegin n # sk) @ [t]))"
    using assms(1) by (intro dt_next_tag [of f strs _ t post]) simp
  ultimately have "next_node_loop f (pos (pre @ [TBegin n])) None = Inr (case t of TFin \<Rightarrow> - 1 | _ \<Rightarrow> pos (pre @ TBegin n # sk), None)"
    using assms(3) pos_nonneg [of "(pre @ TBegin n # sk) @ [t]"]
    by (cases t) (simp_all add: next_node_loop.simps [of f "pos (pre @ TBegin n # sk)"] del: pos_simps)
  then show ?thesis using c pos_nonneg [of pre] pos_nonneg [of "pre @ [TBegin n]"] by (simp add: fdt_next_node_def del: pos_simps)
qed

lemma dt_first_node: "dt_blob f strs (TBegin n # post) \<Longrightarrow> fdt_next_node f (- 1) None = Inr (0, None)"
  using dt_next_tag [of f strs "[]" "TBegin n" post] by (simp add: fdt_next_node_def next_node_loop.simps)

section \<open>Property names\<close>

lemma buf_memchr_find:
  "0 \<notin> set s \<Longrightarrow> length s < n \<Longrightarrow> b = xs @ s @ 0 # ys \<Longrightarrow> buf_memchr n b (int (length xs)) 0 = Inr (Some (int (length xs) + int (length s)))"
proof (induction s arbitrary: xs n)
  case Nil
  then obtain m where "n = Suc m" by (cases n) auto
  with Nil show ?case by simp
next
  case (Cons c s)
  then obtain m where m: "n = Suc m" "length s < m" by (cases n) auto
  have "buf_memchr m b (int (length (xs @ [c]))) 0 = Inr (Some (int (length (xs @ [c])) + int (length s)))"
    using Cons.prems m by (intro Cons.IH) auto
  then show ?case using Cons.prems m by (auto simp: ac_simps)
qed

lemma buf_memcmp_eq:
  "length s = length t \<Longrightarrow> a = xs @ s @ ys \<Longrightarrow> b = us @ t @ vs \<Longrightarrow>
   \<exists>r. buf_memcmp (length s) a (int (length xs)) b (int (length us)) = Inr r \<and> (r = 0 \<longleftrightarrow> s = t)"
proof (induction s t arbitrary: xs us rule: list_induct2)
  case (Cons x s y t)
  obtain r where r: "buf_memcmp (length s) a (int (length (xs @ [x]))) b (int (length (us @ [y]))) = Inr r" "r = 0 \<longleftrightarrow> s = t"
    using Cons.IH [of "xs @ [x]" "us @ [y]"] Cons.prems by auto
  have "rd a (int (length xs)) = Inr x" "rd b (int (length us)) = Inr y" using Cons.prems by (simp_all add: rd_Inr)
  moreover have "buf_memcmp (length s) a (int (length xs) + 1) b (int (length us) + 1) = Inr r" using r(1) by (simp add: add.commute)
  moreover have "uint x - uint y = 0 \<longleftrightarrow> x = y" by (simp add: word_uint_eq_iff)
  ultimately show ?case using r(2) by (cases "x = y") simp_all
qed simp

lemma takeWhile_split: "x \<in> set l \<Longrightarrow> \<exists>r. l = takeWhile (\<lambda>c. c \<noteq> x) l @ x # r"
  by (induction l) auto

lemma str_at_split:
  assumes "0 \<in> set (drop (nat no) strs)"
  obtains rest where "drop (nat no) strs = str_at strs no @ 0 # rest" "0 \<notin> set (str_at strs no)"
proof -
  have "0 \<notin> set (str_at strs no)" unfolding str_at_def using set_takeWhileD by fastforce
  then show ?thesis using that takeWhile_split [OF assms] by (auto simp: str_at_def)
qed

lemma dt_strings_split:
  assumes "dt_blob f strs ts"
  obtains xs ys where "fdt_bytes f = xs @ strs @ ys" "int (length xs) = hdr f 12"
proof -
  let ?b = "fdt_bytes f" and ?k = "nat (hdr f 12)"
  have "take (length strs) (drop ?k ?b) = strs" using assms by (simp add: dt_blob_def)
  then have "drop ?k ?b = strs @ drop (length strs) (drop ?k ?b)"
    using append_take_drop_id [of "length strs" "drop ?k ?b"] by simp
  then have "?b = take ?k ?b @ strs @ drop (length strs) (drop ?k ?b)"
    using append_take_drop_id [of ?k ?b] by simp
  moreover have "int (length (take ?k ?b)) = hdr f 12"
    using assms hdr_range(1) [of f 12] hdr_range(1) [of f 32] by (auto simp: dt_blob_def fdt_ok_def min_def)
  ultimately show ?thesis by (rule that)
qed

lemma dt_get_string:
  assumes "dt_blob f strs ts" "0 \<le> no" "no < int (length strs)" "0 \<in> set (drop (nat no) strs)"
  shows "fdt_get_string f no = Inr (Some (hdr f 12 + no), int (length (str_at strs no)))"
    "\<exists>xs ys. fdt_bytes f = xs @ str_at strs no @ 0 # ys \<and> int (length xs) = hdr f 12 + no"
proof -
  obtain xs ys where b: "fdt_bytes f = xs @ strs @ ys" "int (length xs) = hdr f 12" by (rule dt_strings_split [OF assms(1)]) blast
  obtain rest where r: "drop (nat no) strs = str_at strs no @ 0 # rest" "0 \<notin> set (str_at strs no)" by (rule str_at_split [OF assms(4)]) blast
  let ?xs = "xs @ take (nat no) strs"
  have b2: "fdt_bytes f = ?xs @ str_at strs no @ 0 # rest @ ys"
    using b(1) r(1) append_take_drop_id [of "nat no" strs] by (metis append.assoc append_Cons)
  have l: "int (length ?xs) = hdr f 12 + no" using b(2) assms(2,3) by simp
  from b2 l show "\<exists>xs ys. fdt_bytes f = xs @ str_at strs no @ 0 # ys \<and> int (length xs) = hdr f 12 + no" by blast
  have "length (str_at strs no) < length (drop (nat no) strs)" using r(1) by simp
  then have n: "length (str_at strs no) < nat (int (length strs) - no)" using assms(2) by simp
  have m: "buf_memchr (nat (int (length strs) - no)) (fdt_bytes f) (hdr f 12 + no) 0 = Inr (Some (hdr f 12 + no + int (length (str_at strs no))))"
    using buf_memchr_find [OF r(2) n b2] l by simp
  have h: "hdr f 0 = FDT_MAGIC" "hdr f 20 = 17" "hdr f 32 = int (length strs)" "hdr f 12 + hdr f 32 \<le> hdr f 4" "hdr f 4 \<le> 2147483640" "0 \<le> hdr f 12"
    using assms(1) hdr_range(1) [of f 12] by (simp_all add: dt_blob_def)
  note ok = dt_blob_ok [OF assms(1)]
  have sl: "string_limit f no (hdr f 4 - (hdr f 12 + no)) = Inr (Inr (int (length strs) - no))"
    using h assms(2,3) by (simp add: string_limit_def header_reads [OF ok])
  have "wrap_u32 (no + hdr f 12) = hdr f 12 + no" using h assms(2,3) by (simp add: add.commute)
  then show "fdt_get_string f no = Inr (Some (hdr f 12 + no), int (length (str_at strs no)))"
    using h assms(2,3) by (simp add: fdt_get_string_def dt_probe [OF assms(1)] header_reads [OF ok] sl m add.commute [of no "hdr f 12"])
qed

lemma dt_string_eq:
  assumes "dt_blob f strs ts" "0 \<le> no" "no < int (length strs)" "0 \<in> set (drop (nat no) strs)"
  shows "fdt_string_eq f no (nm @ [0]) 0 (int (length nm)) = Inr (str_at strs no = nm)"
proof (cases "length (str_at strs no) = length nm")
  case True
  obtain xs ys where b: "fdt_bytes f = xs @ str_at strs no @ 0 # ys" "int (length xs) = hdr f 12 + no" using dt_get_string(2) [OF assms] by blast
  obtain r where "buf_memcmp (length (str_at strs no)) (fdt_bytes f) (int (length xs)) (nm @ [0]) (int (length ([] :: buf))) = Inr r" "r = 0 \<longleftrightarrow> str_at strs no = nm"
    using buf_memcmp_eq [OF True b(1), of "nm @ [0]" "[]" "[0]"] by auto
  then show ?thesis using True b(2) by (simp add: fdt_string_eq_def dt_get_string(1) [OF assms])
qed (auto simp: fdt_string_eq_def dt_get_string(1) [OF assms])

section \<open>Property lookup\<close>

type_synonym dprops = "(int \<times> buf) list"

definition props :: "dprops \<Rightarrow> tok list" where "props ps = map (\<lambda>(no, d). TProp no d) ps"

lemma props_simps [simp]: "props [] = []" "props ((no, d) # ps) = TProp no d # props ps"
  by (simp_all add: props_def)

fun dt_lookup :: "buf \<Rightarrow> buf \<Rightarrow> dprops \<Rightarrow> buf option" where
  "dt_lookup strs nm [] = None"
| "dt_lookup strs nm ((no, d) # ps) = (if str_at strs no = nm then Some d else dt_lookup strs nm ps)"

fun closes :: "tok \<Rightarrow> bool" where
  "closes (TBegin n) = True"
| "closes TEnd = True"
| "closes _ = False"

lemma dt_prop_header:
  assumes D: "dt_blob f strs (pre @ TProp no d # post)"
  shows "fdt_get_property_by_offset_raw f (pos pre) = Inr (Some (hdr f 8 + pos pre), int (length d))"
    "fdt32_ld_int (fdt_bytes f) (hdr f 8 + pos pre + 4) = Inr (int (length d))"
    "fdt32_ld_int (fdt_bytes f) (hdr f 8 + pos pre + 8) = Inr no" "wrap_i32 no = no"
    "\<exists>xs ys. fdt_bytes f = xs @ d @ ys \<and> int (length xs) = hdr f 8 + pos pre + 12"
proof -
  let ?ts = "pre @ TProp no d # post"
  have e: "enc_all ?ts = enc_all pre @ be 3 @ be (int (length d)) @ be no @ d @ pad (length d) @ enc_all post" by simp
  have "tok_ok strs (TProp no d)" using D by (simp add: dt_blob_def)
  then have no: "0 \<le> no" "no < int (length strs)" by simp_all
  have "int (length strs) \<le> 2147483640" using D hdr_range(1) [of f 12] by (auto simp: dt_blob_def)
  with no have no2: "no < 2147483648" by simp
  then show "wrap_i32 no = no" using no by simp
  have L: "int (length d) < 2147483648" using dt_pos_less [OF D] pos_nonneg [of pre] pos_nonneg [of post] by simp
  have l: "fdt32_ld_int (fdt_bytes f) (hdr f 8 + int (length (enc_all pre @ be 3))) = Inr (int (length d))"
    by (rule dt_fdt32 [OF D, of _ _ "be no @ d @ pad (length d) @ enc_all post"]) (use e L in simp_all)
  then show l2: "fdt32_ld_int (fdt_bytes f) (hdr f 8 + pos pre + 4) = Inr (int (length d))" by (simp add: pos_length ac_simps)
  have "fdt32_ld_int (fdt_bytes f) (hdr f 8 + int (length (enc_all pre @ be 3 @ be (int (length d))))) = Inr no"
    by (rule dt_fdt32 [OF D, of _ _ "d @ pad (length d) @ enc_all post"]) (use e no no2 in simp_all)
  then show "fdt32_ld_int (fdt_bytes f) (hdr f 8 + pos pre + 8) = Inr no" by (simp add: pos_length ac_simps)
  obtain xs ys where "fdt_bytes f = xs @ d @ ys" "int (length xs) = hdr f 8 + int (length (enc_all pre @ be 3 @ be (int (length d)) @ be no))"
    by (rule dt_bytes_at [OF D, of _ d "pad (length d) @ enc_all post"]) (use e in auto)
  then show "\<exists>xs ys. fdt_bytes f = xs @ d @ ys \<and> int (length xs) = hdr f 8 + pos pre + 12" by (auto simp: pos_length)
  have "fdt_check_prop_offset f (pos pre) = Inr (pos (pre @ [TProp no d]))"
    using dt_next_tag [OF D] pos_nonneg [of pre] pos_aligned [of pre] by (simp add: fdt_check_prop_offset_def)
  then show "fdt_get_property_by_offset_raw f (pos pre) = Inr (Some (hdr f 8 + pos pre), int (length d))"
    using pos_nonneg [of "pre @ [TProp no d]"] l2 L
    by (simp add: fdt_get_property_by_offset_raw_def fdt_offset_ptr_raw_def header_reads [OF dt_blob_ok [OF D]] del: pos_simps)
qed

lemma dt_nextprop:
  "dt_blob f strs (pre @ TProp no d # post) \<Longrightarrow> nextprop f (pos pre) = Inr (pos pre)"
  "dt_blob f strs (pre @ t # post) \<Longrightarrow> closes t \<Longrightarrow> nextprop f (pos pre) = Inr (- 1)"
  using dt_next_tag [of f strs pre "TProp no d" post] dt_next_tag [of f strs pre t post]
  by (cases t; simp add: nextprop.simps [of f "pos pre"])+

lemma dt_next_property:
  assumes "dt_blob f strs (pre @ TProp no d # post)"
  shows "fdt_next_property_offset f (pos pre) = nextprop f (pos (pre @ [TProp no d]))"
  using dt_next_tag [OF assms] pos_nonneg [of pre] pos_aligned [of pre] pos_nonneg [of "pre @ [TProp no d]"]
  by (simp add: fdt_next_property_offset_def fdt_check_prop_offset_def del: pos_simps)

text \<open>The lookup of a property among those from the current one on.\<close>

definition found :: "fdt \<Rightarrow> buf option \<Rightarrow> (int option \<times> int) \<Rightarrow> bool" where
  "found f v r \<longleftrightarrow> (case v of
      None \<Rightarrow> r = (None, - 1)
    | Some d \<Rightarrow> \<exists>p xs ys. r = (Some p, int (length d)) \<and> fdt_bytes f = xs @ d @ ys \<and> int (length xs) = p)"

lemma dt_property_loop:
  "dt_blob f strs (pre @ props ps @ t # post) \<Longrightarrow> closes t \<Longrightarrow> ps \<noteq> [] \<Longrightarrow>
   \<exists>p len po. property_loop f (pos pre) (nm @ [0]) 0 (int (length nm)) = Inr (p, len, po) \<and>
     found f (dt_lookup strs nm ps) (map_option (\<lambda>q. q + 12) p, len) \<and> (\<forall>q. p = Some q \<longrightarrow> prop_data f q po = Inr (q + 12))"
proof (induction ps arbitrary: pre)
  case (Cons x ps)
  obtain no d where x: "x = (no, d)" by (cases x)
  have D: "dt_blob f strs (pre @ TProp no d # props ps @ t # post)" using Cons.prems(1) x by simp
  note H = dt_prop_header [OF D]
  have "tok_ok strs (TProp no d)" using D by (simp add: dt_blob_def)
  then have eq: "fdt_string_eq f no (nm @ [0]) 0 (int (length nm)) = Inr (str_at strs no = nm)" by (intro dt_string_eq [OF D]) simp_all
  have v: "fdt_version f = Inr 17" using D by (simp add: dt_blob_def header_reads)
  have nn: "\<not> pos pre < 0" using pos_nonneg [of pre] by simp
  note d = property_loop.simps [of f "pos pre"] nn H(1,3,4) eq
  show ?case
  proof (cases "str_at strs no = nm")
    case True
    have "prop_data f (hdr f 8 + pos pre) (pos pre) = Inr (hdr f 8 + pos pre + 12)" by (simp add: prop_data_def v H(2))
    then show ?thesis using True H(5) x by (auto simp: d found_def)
  next
    case False
    have nx: "fdt_next_property_offset f (pos pre) = nextprop f (pos (pre @ [TProp no d]))" by (rule dt_next_property [OF D])
    show ?thesis
    proof (cases ps)
      case Nil
      have "nextprop f (pos (pre @ [TProp no d])) = Inr (- 1)"
        using D Nil Cons.prems(2) by (intro dt_nextprop(2) [of f strs _ t post]) simp_all
      then show ?thesis using False x Nil nx by (simp add: d found_def property_loop.simps [of f "- 1"] del: pos_simps)
    next
      case (Cons y ps')
      obtain no' d' where y: "y = (no', d')" by (cases y)
      have "nextprop f (pos (pre @ [TProp no d])) = Inr (pos (pre @ [TProp no d]))"
        using D Cons y by (intro dt_nextprop(1) [of f strs _ no' d' "props ps' @ t # post"]) simp
      moreover have "\<exists>p len po. property_loop f (pos (pre @ [TProp no d])) (nm @ [0]) 0 (int (length nm)) = Inr (p, len, po) \<and>
          found f (dt_lookup strs nm ps) (map_option (\<lambda>q. q + 12) p, len) \<and> (\<forall>q. p = Some q \<longrightarrow> prop_data f q po = Inr (q + 12))"
        using D Cons.prems Cons by (intro Cons.IH) simp_all
      ultimately show ?thesis using False x nx by (simp add: d del: pos_simps)
    qed
  qed
qed simp

lemma buf_strlen_find: "0 \<notin> set s \<Longrightarrow> b = xs @ s @ 0 # ys \<Longrightarrow> buf_strlen b (int (length xs)) = Inr (int (length s))"
proof (induction s arbitrary: xs)
  case Nil
  then show ?case by (simp add: buf_strlen.simps [of "xs @ 0 # ys"])
next
  case (Cons c s)
  have "buf_strlen b (int (length (xs @ [c]))) = Inr (int (length s))" using Cons.prems by (intro Cons.IH) auto
  then have "buf_strlen b (int (length xs) + 1) = Inr (int (length s))" by (simp add: add.commute)
  moreover have "rd b (int (length xs)) = Inr c" "c \<noteq> 0" using Cons.prems by (auto simp: rd_Inr)
  ultimately show ?case by (simp add: buf_strlen.simps [of b "int (length xs)"])
qed

lemma buf_strlen_name: "0 \<notin> set nm \<Longrightarrow> buf_strlen (nm @ [0]) 0 = Inr (int (length nm))"
  using buf_strlen_find [of nm "nm @ [0]" "[]" "[]"] by simp

text \<open>The lookup of a property of a node finds the property of the tree.\<close>

lemma dt_getprop:
  assumes D: "dt_blob f strs (pre @ TBegin n # props ps @ t # post)" and "closes t" "0 \<notin> set nm" "length nm < 2147483648"
  obtains r where "fdt_getprop f (pos pre) (nm @ [0]) 0 = Inr r" "found f (dt_lookup strs nm ps) r"
proof -
  let ?pre = "pre @ [TBegin n]"
  have D2: "dt_blob f strs (?pre @ props ps @ t # post)" using D by simp
  have c: "fdt_check_node_offset f (pos pre) = Inr (pos ?pre)" by (rule dt_check_node [OF D])
  have nn: "\<not> pos ?pre < 0" using pos_nonneg [of ?pre] by simp
  note d = fdt_getprop_def [of f "pos pre"] buf_strlen_name [OF assms(3)] fdt_getprop_namelen_def fdt_get_property_namelen_raw_def
    fdt_first_property_offset_def c nn
  show ?thesis
  proof (cases ps)
    case Nil
    then have "nextprop f (pos ?pre) = Inr (- 1)" using D2 assms(2) by (intro dt_nextprop(2)) simp_all
    then show ?thesis using that [of "(None, - 1)"] Nil assms(4) by (simp add: d found_def property_loop.simps [of f "- 1"] del: pos_simps)
  next
    case (Cons x ps')
    then have np: "nextprop f (pos ?pre) = Inr (pos ?pre)" using D2 by (cases x) (intro dt_nextprop(1), simp)
    obtain p len po where p: "property_loop f (pos ?pre) (nm @ [0]) 0 (int (length nm)) = Inr (p, len, po)"
      "found f (dt_lookup strs nm ps) (map_option (\<lambda>q. q + 12) p, len)" "\<forall>q. p = Some q \<longrightarrow> prop_data f q po = Inr (q + 12)"
      using dt_property_loop [OF D2 assms(2), of nm] Cons by blast
    have "fdt_getprop f (pos pre) (nm @ [0]) 0 = Inr (map_option (\<lambda>q. q + 12) p, len)"
      using p(1,3) np assms(4) by (cases p) (simp_all add: d del: pos_simps)
    with p(2) show ?thesis by (rule that [rotated])
  qed
qed

section \<open>String lists\<close>

lemma buf_memcmp_cstr:
  "0 \<notin> set c \<Longrightarrow> 0 \<notin> set s \<Longrightarrow> a = us @ c @ [0] \<Longrightarrow> b = xs @ s @ 0 # ys \<Longrightarrow>
   \<exists>r. buf_memcmp (length c + 1) a (int (length us)) b (int (length xs)) = Inr r \<and> (r = 0 \<longleftrightarrow> s = c)"
proof (induction c arbitrary: s us xs)
  case Nil
  then show ?case by (cases s) (auto simp: word_uint_eq_iff [symmetric] unsigned_eq_0_iff)
next
  case (Cons x c)
  have ra: "rd a (int (length us)) = Inr x" using Cons.prems by (simp add: rd_Inr)
  have ne: "uint u - uint v = 0 \<longleftrightarrow> u = v" for u v :: u8 by (simp add: word_uint_eq_iff)
  show ?case
  proof (cases s)
    case Nil
    then have "rd b (int (length xs)) = Inr 0" using Cons.prems by (simp add: rd_Inr)
    then show ?thesis using ra Nil Cons.prems(1) ne [of x 0] by simp
  next
    case s: (Cons y s')
    have rb: "rd b (int (length xs)) = Inr y" using Cons.prems s by (simp add: rd_Inr)
    have "\<exists>r. buf_memcmp (length c + 1) a (int (length (us @ [x]))) b (int (length (xs @ [y]))) = Inr r \<and> (r = 0 \<longleftrightarrow> s' = c)"
      using Cons.prems s by (intro Cons.IH) auto
    then have "\<exists>r. buf_memcmp (length c + 1) a (int (length us) + 1) b (int (length xs) + 1) = Inr r \<and> (r = 0 \<longleftrightarrow> s' = c)"
      by (simp add: add.commute)
    then show ?thesis using ra rb s ne [of x y] by (cases "x = y") auto
  qed
qed

definition strlist :: "buf list \<Rightarrow> buf" where "strlist ss = concat (map (\<lambda>s. s @ [0]) ss)"

lemma strlist_simps [simp]: "strlist [] = []" "strlist (s # ss) = s @ 0 # strlist ss"
  by (simp_all add: strlist_def)

lemma strlist_elem_less: "s \<in> set ss \<Longrightarrow> length s < length (strlist ss)"
  by (induction ss) auto

lemma contains_strlist:
  "list_all (\<lambda>s. 0 \<notin> set s) ss \<Longrightarrow> 0 \<notin> set c \<Longrightarrow> c \<noteq> [] \<Longrightarrow> b = xs @ strlist ss @ ys \<Longrightarrow>
   contains_loop b (int (length xs)) (int (length (strlist ss))) (c @ [0]) (int (length c)) = Inr (c \<in> set ss)"
proof (induction ss arbitrary: xs)
  case Nil
  then show ?case by (simp add: contains_loop.simps)
next
  case (Cons s ss)
  let ?L = "int (length (strlist (s # ss)))"
  note d = contains_loop.simps [of b "int (length xs)" ?L "c @ [0]" "int (length c)"]
  have b: "b = xs @ s @ 0 # strlist ss @ ys" using Cons.prems(4) by simp
  have ok: "0 \<notin> set s" using Cons.prems(1) by simp
  show ?case
  proof (cases "int (length c) \<le> ?L")
    case False
    then have "c \<notin> set (s # ss)" using strlist_elem_less [of c "s # ss"] by auto
    then show ?thesis using False by (subst d) simp
  next
    case le: True
    obtain r where r: "buf_memcmp (length c + 1) (c @ [0]) (int (length ([] :: buf))) b (int (length xs)) = Inr r" "r = 0 \<longleftrightarrow> s = c"
      using buf_memcmp_cstr [OF Cons.prems(2) ok, of "c @ [0]" "[]" b xs] b by auto
    have n1: "nat (int (length c) + 1) = length c + 1" by simp
    have m: "buf_memchr (nat ?L) b (int (length xs)) 0 = Inr (Some (int (length xs) + int (length s)))"
      by (rule buf_memchr_find [OF ok _ b]) simp
    have "contains_loop b (int (length (xs @ s @ [0]))) (int (length (strlist ss))) (c @ [0]) (int (length c)) = Inr (c \<in> set ss)"
      using Cons.prems by (intro Cons.IH) simp_all
    then have ih: "contains_loop b (int (length xs) + int (length s) + 1) (?L - (int (length xs) + int (length s) - int (length xs) + 1)) (c @ [0]) (int (length c)) = Inr (c \<in> set ss)"
      by (simp add: ac_simps)
    show ?thesis using le r m ih unfolding d n1 by auto
  qed
qed

end
