(* ===== verification/Fdt_Devices.thy ===== *)
theory Fdt_Devices
  imports Fdt_Tree
begin

unbundle bit_operations_syntax

text \<open>
  The queries of the kernel on the blob of a device tree: they find the first node, in the order of the tree, that is compatible with
  a device, and return the numbers in its properties.
\<close>

section \<open>Trees\<close>

datatype dnode = DNode buf dprops "dnode list"

fun toks_of :: "dnode \<Rightarrow> tok list" where
  "toks_of (DNode n ps ks) = TBegin n # props ps @ concat (map toks_of ks) @ [TEnd]"

text \<open>The nodes in the order of their start.\<close>

fun nodes_of :: "dnode \<Rightarrow> (buf \<times> dprops) list" where
  "nodes_of (DNode n ps ks) = (n, ps) # concat (map nodes_of ks)"

text \<open>The tokens of a tree node by node: each with its properties and the ends that follow before the next node starts.\<close>

type_synonym block = "buf \<times> dprops \<times> nat"

fun blk :: "block \<Rightarrow> tok list" where
  "blk (n, ps, k) = TBegin n # props ps @ replicate k TEnd"

fun add_end :: "block list \<Rightarrow> block list" where
  "add_end [] = []"
| "add_end [(n, ps, k)] = [(n, ps, Suc k)]"
| "add_end (b # bs) = b # add_end bs"

fun blocks_of :: "dnode \<Rightarrow> block list" where
  "blocks_of (DNode n ps ks) = add_end ((n, ps, 0) # concat (map blocks_of ks))"

definition blks :: "block list \<Rightarrow> tok list" where "blks bs = concat (map blk bs)"

lemma blks_simps [simp]: "blks [] = []" "blks (b # bs) = blk b @ blks bs" "blks (as @ bs) = blks as @ blks bs"
  by (simp_all add: blks_def)

lemma blks_add_end: "bs \<noteq> [] \<Longrightarrow> blks (add_end bs) = blks bs @ [TEnd]"
  by (induction bs rule: add_end.induct) (simp_all add: replicate_append_same)

lemma blks_blocks_of: "blks (blocks_of t) = toks_of t"
proof (induction t)
  case (DNode n ps ks)
  then have "blks (concat (map blocks_of ks)) = concat (map toks_of ks)" by (induction ks) simp_all
  then show ?case by (simp add: blks_add_end)
qed

lemma add_end_nodes: "map (\<lambda>(n, ps, k). (n, ps)) (add_end bs) = map (\<lambda>(n, ps, k). (n, ps)) bs"
  by (induction bs rule: add_end.induct) auto

lemma blocks_of_nodes: "map (\<lambda>(n, ps, k). (n, ps)) (blocks_of t) = nodes_of t"
proof (induction t)
  case (DNode n ps ks)
  then have "map (\<lambda>(n, ps, k). (n, ps)) (concat (map blocks_of ks)) = concat (map nodes_of ks)" by (induction ks) simp_all
  then show ?case by (simp only: blocks_of.simps add_end_nodes nodes_of.simps list.map case_prod_conv)
qed

lemma add_end_last: "bs \<noteq> [] \<Longrightarrow> add_end bs \<noteq> [] \<and> 0 < snd (snd (last (add_end bs)))"
  by (induction bs rule: add_end.induct) auto

lemma blocks_of_last: "blocks_of t \<noteq> [] \<and> 0 < snd (snd (last (blocks_of t)))"
  by (cases t) (use add_end_last in simp)

section \<open>Searching the nodes\<close>

text \<open>After the properties of a node comes the start of a node or an end.\<close>

lemma block_closes:
  assumes "bs = as @ (n, ps, k) # cs" "0 < snd (snd (last bs))"
  obtains t post where "blks bs @ [TFin] = blks as @ TBegin n # props ps @ t # post" "closes t"
proof (cases k)
  case (Suc j)
  then show ?thesis using that [of TEnd "replicate j TEnd @ blks cs @ [TFin]"] assms(1) by simp
next
  case 0
  then obtain n' ps' k' cs' where "cs = (n', ps', k') # cs'" using assms by (cases cs) auto
  then show ?thesis using that [of "TBegin n'" "props ps' @ replicate k' TEnd @ blks cs' @ [TFin]"] assms(1) 0 by simp
qed

lemma list_all_plain: "list_all plain (props ps @ replicate k TEnd)"
proof -
  have "list_all plain (props ps)" by (induction ps) auto
  then show ?thesis by (auto simp: list_all_iff)
qed

text \<open>The offset of the first node among the blocks after a prefix.\<close>

fun first_pos :: "(dprops \<Rightarrow> bool) \<Rightarrow> tok list \<Rightarrow> block list \<Rightarrow> int" where
  "first_pos Q pre [] = - 1"
| "first_pos Q pre ((n, ps, k) # bs) = (if Q ps then pos pre else first_pos Q (pre @ blk (n, ps, k)) bs)"

lemma block_next_node:
  assumes "dt_blob f strs (blks bs @ [TFin])" "bs = as @ (n, ps, k) # cs"
  shows "fdt_next_node f (pos (blks as)) None = Inr (if cs = [] then - 1 else pos (blks (as @ [(n, ps, k)])), None)"
proof (cases cs)
  case Nil
  then have "dt_blob f strs (blks as @ TBegin n # (props ps @ replicate k TEnd) @ TFin # [])" using assms by simp
  then show ?thesis using dt_next_node [OF _ list_all_plain] Nil by fastforce
next
  case (Cons b cs')
  obtain n' ps' k' where b: "b = (n', ps', k')" by (cases b)
  then have "dt_blob f strs (blks as @ TBegin n # (props ps @ replicate k TEnd) @ TBegin n' # (props ps' @ replicate k' TEnd @ blks cs' @ [TFin]))"
    using assms Cons by simp
  from dt_next_node [OF this list_all_plain] show ?thesis using Cons by simp
qed

lemma dt_node_scan:
  assumes D: "dt_blob f strs (blks bs @ [TFin])"
    and body: "\<And>as n ps k cs. bs = as @ (n, ps, k) # cs \<Longrightarrow> body (pos (blks as)) = Inr (if Q ps then Some (pos (blks as)) else None)"
  shows "bs = as @ b # cs \<Longrightarrow> node_scan f body (pos (blks as)) = Inr (first_pos Q (blks (as @ [b])) cs)"
proof (induction cs arbitrary: as b)
  case Nil
  obtain n ps k where b: "b = (n, ps, k)" by (cases b)
  show ?case using block_next_node [OF D Nil [unfolded b]] by (simp add: node_scan.simps [of f body])
next
  case (Cons c cs)
  obtain n ps k where b: "b = (n, ps, k)" by (cases b)
  obtain n' ps' k' where c: "c = (n', ps', k')" by (cases c)
  have nx: "fdt_next_node f (pos (blks as)) None = Inr (pos (blks (as @ [b])), None)"
    using block_next_node [OF D Cons.prems [unfolded b]] b by simp
  have e: "bs = (as @ [b]) @ c # cs" using Cons.prems by simp
  have bd: "body (pos (blks (as @ [b]))) = Inr (if Q ps' then Some (pos (blks (as @ [b]))) else None)"
    using body [of "as @ [b]" n' ps' k' cs] e c by simp
  show ?case using nx bd Cons.IH [OF e] c pos_nonneg [of "blks (as @ [b])"]
    by (simp add: node_scan.simps [of f body "pos (blks as)"] del: pos_simps blks_simps(3)) simp
qed

lemma dt_node_scan_start:
  assumes D: "dt_blob f strs (blks bs @ [TFin])" "bs \<noteq> []"
    and body: "\<And>as n ps k cs. bs = as @ (n, ps, k) # cs \<Longrightarrow> body (pos (blks as)) = Inr (if Q ps then Some (pos (blks as)) else None)"
  shows "node_scan f body (- 1) = Inr (first_pos Q [] bs)"
proof -
  obtain n ps k cs where bs: "bs = (n, ps, k) # cs" using D(2) by (metis list.exhaust prod_cases3)
  have "fdt_next_node f (- 1) None = Inr (0, None)" using D(1) bs by (intro dt_first_node) simp
  moreover have "body 0 = Inr (if Q ps then Some 0 else None)" using body [of "[]" n ps k cs] bs by simp
  moreover have "node_scan f body 0 = Inr (first_pos Q (blks [(n, ps, k)]) cs)"
    using dt_node_scan [where as = "[]" and b = "(n, ps, k)" and cs = cs, OF D(1) body] bs by simp
  ultimately show ?thesis using bs by (simp add: node_scan.simps [of f body "- 1"])
qed

lemma first_pos_find:
  "case find (\<lambda>(n, ps, k). Q ps) bs of
     None \<Rightarrow> first_pos Q pre bs = - 1
   | Some b \<Rightarrow> \<exists>as cs. bs = as @ b # cs \<and> first_pos Q pre bs = pos (pre @ blks as)"
proof (induction bs arbitrary: pre)
  case (Cons b bs)
  obtain n ps k where b: "b = (n, ps, k)" by (cases b)
  show ?case
  proof (cases "Q ps")
    case True
    then have "find (\<lambda>(n, ps, k). Q ps) (b # bs) = Some b" "first_pos Q pre (b # bs) = pos (pre @ blks [])" using b by simp_all
    moreover have "b # bs = [] @ b # bs" by simp
    ultimately have "\<exists>as cs. b # bs = as @ b # cs \<and> first_pos Q pre (b # bs) = pos (pre @ blks as)" by blast
    then show ?thesis using \<open>find _ _ = _\<close> by simp
  next
    case False
    show ?thesis
    proof (cases "find (\<lambda>(n, ps, k). Q ps) bs")
      case None
      then show ?thesis using Cons.IH [of "pre @ blk b"] False b by simp
    next
      case (Some x)
      then obtain as cs where "bs = as @ x # cs" "first_pos Q (pre @ blk b) bs = pos ((pre @ blk b) @ blks as)"
        using Cons.IH [of "pre @ blk b"] by auto
      then have "b # bs = (b # as) @ x # cs \<and> first_pos Q pre (b # bs) = pos (pre @ blks (b # as))" using False b by simp
      then have "\<exists>as cs. b # bs = as @ x # cs \<and> first_pos Q pre (b # bs) = pos (pre @ blks as)" by blast
      then show ?thesis using False b Some by simp
    qed
  qed
qed simp

section \<open>Compatible nodes\<close>

function strings :: "buf \<Rightarrow> buf list" where
  "strings d = (if d = [] then [] else takeWhile (\<lambda>c. c \<noteq> 0) d # strings (tl (dropWhile (\<lambda>c. c \<noteq> 0) d)))"
  by auto
termination
proof (relation "measure length")
  fix d :: buf
  assume "d \<noteq> []"
  then have "0 < length d" by simp
  with length_dropWhile_le [of "\<lambda>c. c \<noteq> 0" d] have "length (dropWhile (\<lambda>c. c \<noteq> 0) d) - 1 < length d" by linarith
  then show "(tl (dropWhile (\<lambda>c. c \<noteq> 0) d), d) \<in> measure length" by simp
qed simp

declare strings.simps [simp del]

lemma strings_zero_free: "list_all (\<lambda>s. 0 \<notin> set s) (strings d)"
proof (induction d rule: strings.induct)
  case (1 d)
  have "0 \<notin> set (takeWhile (\<lambda>c. c \<noteq> 0) d)" using set_takeWhileD by fastforce
  with 1 show ?case by (subst strings.simps) simp
qed

lemma zero_split: "0 \<in> set d \<Longrightarrow> \<exists>r. d = takeWhile (\<lambda>c. c \<noteq> 0) d @ 0 # r \<and> dropWhile (\<lambda>c. c \<noteq> 0) d = 0 # r"
  for d :: buf
  by (induction d) auto

lemma strlist_strings: "d = [] \<or> last d = 0 \<Longrightarrow> strlist (strings d) = d"
proof (induction d rule: strings.induct)
  case (1 d)
  show ?case
  proof (cases "d = []")
    case False
    then have "0 \<in> set d" using "1.prems" last_in_set [of d] by simp
    then obtain r where r: "d = takeWhile (\<lambda>c. c \<noteq> 0) d @ 0 # r" and dw: "dropWhile (\<lambda>c. c \<noteq> 0) d = 0 # r"
      using zero_split by blast
    have "last d = (if r = [] then 0 else last r)" by (subst r) simp
    then have "r = [] \<or> last r = 0" using "1.prems" False by (auto split: if_splits)
    then have "strlist (strings r) = r" using "1.IH" [OF False] dw by simp
    then show ?thesis using False r dw by (subst strings.simps) simp
  qed (simp add: strings.simps)
qed

definition compat_key :: buf where "compat_key = map of_char ''compatible''"

definition compatible_with :: "buf \<Rightarrow> buf \<Rightarrow> dprops \<Rightarrow> bool" where
  "compatible_with strs c ps = (case dt_lookup strs compat_key ps of None \<Rightarrow> False | Some d \<Rightarrow> c \<in> set (strings d))"

text \<open>The \<open>compatible\<close> property, where there is one, is a list of terminated strings.\<close>

definition compat_ok :: "buf \<Rightarrow> dprops \<Rightarrow> bool" where
  "compat_ok strs ps = (case dt_lookup strs compat_key ps of None \<Rightarrow> True | Some d \<Rightarrow> d = [] \<or> last d = 0)"

text \<open>Whether a node is compatible with a device, read from the blob.\<close>

lemma lit_eq: "lit s = map of_char s @ [0]"
  by (simp add: lit_def)

lemma dt_check_compatible:
  assumes D: "dt_blob f strs (blks bs @ [TFin])" and last: "0 < snd (snd (last bs))" and bs: "bs = as @ (n, ps, k) # cs"
    and ok: "compat_ok strs ps" and c: "0 \<notin> set c" "c \<noteq> []" "length c < 2147483648"
  shows "fdt_node_check_compatible f (pos (blks as)) (c @ [0]) =
    Inr (if compatible_with strs c ps then 0 else if dt_lookup strs compat_key ps = None then - 1 else 1)"
proof -
  obtain t post where t: "blks bs @ [TFin] = blks as @ TBegin n # props ps @ t # post" "closes t" by (rule block_closes [OF bs last])
  have k: "0 \<notin> set compat_key" "length compat_key < 2147483648" "lit ''compatible'' = compat_key @ [0]"
    by (simp_all add: compat_key_def lit_eq)
  obtain r where r: "fdt_getprop f (pos (blks as)) (compat_key @ [0]) 0 = Inr r" "found f (dt_lookup strs compat_key ps) r"
    by (rule dt_getprop [OF D [unfolded t(1)] t(2) k(1,2)])
  show ?thesis
  proof (cases "dt_lookup strs compat_key ps")
    case None
    then show ?thesis using r by (simp add: fdt_node_check_compatible_def k(3) found_def compatible_with_def)
  next
    case (Some d)
    then obtain xs ys where b: "r = (Some (int (length xs)), int (length d))" "fdt_bytes f = xs @ d @ ys" using r(2) by (auto simp: found_def)
    have "strlist (strings d) = d" using ok Some by (intro strlist_strings) (auto simp: compat_ok_def)
    then have "contains_loop (fdt_bytes f) (int (length xs)) (int (length d)) (c @ [0]) (int (length c)) = Inr (c \<in> set (strings d))"
      using contains_strlist [OF strings_zero_free c(1,2), of "fdt_bytes f" xs d ys] b(2) by simp
    then have "fdt_stringlist_contains (fdt_bytes f) (int (length xs)) (int (length d)) (c @ [0]) = Inr (c \<in> set (strings d))"
      using c by (simp add: fdt_stringlist_contains_def buf_strlen_name)
    then show ?thesis using r(1) b(1) Some by (simp add: fdt_node_check_compatible_def k(3) compatible_with_def)
  qed
qed

text \<open>The search for a compatible node: the offset of the first one in the order of the tree.\<close>

lemma dt_node_by_compatible:
  assumes D: "dt_blob f strs (toks_of t @ [TFin])" and ok: "list_all (\<lambda>(n, ps). compat_ok strs ps) (nodes_of t)"
    and c: "0 \<notin> set c" "c \<noteq> []" "length c < 2147483648"
  shows "fdt_node_offset_by_compatible f (- 1) (c @ [0]) = Inr (first_pos (compatible_with strs c) [] (blocks_of t))"
proof -
  let ?bs = "blocks_of t"
  have D2: "dt_blob f strs (blks ?bs @ [TFin])" using D by (simp add: blks_blocks_of)
  have "compat_ok strs ps" if "?bs = as @ (n, ps, k) # cs" for as n ps k cs
  proof -
    have "(n, ps) \<in> set (nodes_of t)" unfolding blocks_of_nodes [symmetric] that by simp
    then show ?thesis using ok by (auto simp: list_all_iff)
  qed
  then have chk: "fdt_node_check_compatible f (pos (blks as)) (c @ [0]) =
      Inr (if compatible_with strs c ps then 0 else if dt_lookup strs compat_key ps = None then - 1 else 1)"
    if "?bs = as @ (n, ps, k) # cs" for as n ps k cs
    using dt_check_compatible [OF D2 conjunct2 [OF blocks_of_last] that _ c] that by simp
  have "node_scan f (\<lambda>offset. bindE (fdt_node_check_compatible f offset (c @ [0])) (\<lambda>err.
      Inr (if err < 0 \<and> err \<noteq> - FDT_ERR_NOTFOUND then Some err else if err = 0 then Some offset else None))) (- 1)
    = Inr (first_pos (compatible_with strs c) [] ?bs)"
    by (rule dt_node_scan_start [OF D2]) (use blocks_of_last [of t] chk in \<open>auto simp del: pos_simps\<close>)
  moreover have "0 \<le> hdr f 4" by (rule hdr_range)
  ultimately show ?thesis by (simp add: fdt_node_offset_by_compatible_def FDT_RO_PROBE_def dt_probe [OF D])
qed

section \<open>What a device lookup promises\<close>

definition be_num :: "buf \<Rightarrow> int" where "be_num d = foldl (\<lambda>a b. a * 256 + uint b) 0 d"

definition reg_value :: "buf \<Rightarrow> (u64 \<times> u64) option" where
  "reg_value d = (if length d < 16 then None else Some (word_of_int (be_num (take 8 d)), word_of_int (be_num (take 8 (drop 8 d)))))"

definition irq_value :: "buf \<Rightarrow> u32 option" where
  "irq_value d = (if length d < 4 then None else Some (word_of_int (be_num (take 4 d))))"

definition device_prop :: "buf \<Rightarrow> buf \<Rightarrow> buf \<Rightarrow> dnode \<Rightarrow> buf option" where
  "device_prop strs c key t = (case find (\<lambda>(n, ps). compatible_with strs c ps) (nodes_of t) of
     None \<Rightarrow> None | Some (n, ps) \<Rightarrow> dt_lookup strs key ps)"

definition answer :: "'a option \<Rightarrow> int \<times> 'a option" where
  "answer v = (case v of None \<Rightarrow> (- 1, None) | Some x \<Rightarrow> (0, Some x))"

lemma uint_shift_u8: "n + 8 \<le> 32 \<Longrightarrow> uint (push_bit n (ucast (b :: u8) :: u32)) = uint b * 2 ^ n"
  unfolding push_bit_eq_mult [symmetric] by (rule bit_eqI) (auto simp: bit_simps dest: bit_imp_le_length)

lemma or_shift:
  assumes "0 \<le> x" "x < 2 ^ k"
  shows "y * 2 ^ k OR x = y * 2 ^ k + (x :: int)"
proof -
  have x: "take_bit k x = x" using assms by (rule take_bit_int_eq_self)
  have "n < k" if "bit x n" for n using that bit_take_bit_iff [of k x n] unfolding x by simp
  then show ?thesis unfolding push_bit_eq_mult [symmetric] by (intro disjunctive_add [symmetric]) (auto simp: bit_simps not_less [symmetric])
qed

lemma uint_u8: "0 \<le> uint (b :: u8)" "uint b < 256"
  using uint_lt2p [of b] by simp_all

lemma uint_be32: "uint (be32 a b c d) = be_num [a, b, c, d]"
proof -
  have "uint (be32 a b c d) = uint a * 2 ^ 24 OR (uint b * 2 ^ 16 OR (uint c * 2 ^ 8 OR uint d))"
    unfolding be32_def uint_or using uint_shift_u8 [of 0 d] by (simp add: uint_shift_u8 ac_simps)
  also have "\<dots> = uint a * 2 ^ 24 + (uint b * 2 ^ 16 + (uint c * 2 ^ 8 + uint d))"
    using uint_u8 [of b] uint_u8 [of c] uint_u8 [of d] by (simp add: or_shift [of _ 8, simplified] or_shift [of _ 16, simplified] or_shift [of _ 24, simplified])
  finally show ?thesis by (simp add: be_num_def)
qed

lemma be_num_append: "be_num (xs @ [a, b, c, d]) = be_num xs * 2 ^ 32 + be_num [a, b, c, d]"
  by (simp add: be_num_def)

lemma be_num_range: "0 \<le> be_num [a, b, c, d]" "be_num [a, b, c, d] < 2 ^ 32"
  using be32_range [of a b c d] by (simp_all add: uint_be32)

lemma two_cells:
  "push_bit 32 (word_of_int (be_num [a, b, c, d]) :: u64) OR word_of_int (be_num [e, f, g, h]) = word_of_int (be_num [a, b, c, d, e, f, g, h])"
proof -
  have "push_bit 32 (word_of_int (be_num [a, b, c, d]) :: u64) OR word_of_int (be_num [e, f, g, h])
      = word_of_int (be_num [a, b, c, d] * 2 ^ 32 OR be_num [e, f, g, h])"
    unfolding push_bit_eq_mult [symmetric] by (rule bit_eqI) (auto simp: bit_simps)
  then show ?thesis using be_num_append [of "[a, b, c, d]" e f g h] by (simp only: or_shift [OF be_num_range] append.simps)
qed

text \<open>A cell of a property in the blob.\<close>

lemma cell:
  assumes "b = xs @ d @ ys" "j + 4 \<le> length d"
  shows "fdt32_ld_int b (int (length xs) + int j) = Inr (be_num (take 4 (drop j d)))"
proof -
  let ?p = "int (length xs) + int j"
  have p: "nat ?p = length xs + j" by simp
  have "take 4 (drop j d) = [d ! j, d ! (j + 1), d ! (j + 2), d ! (j + 3)]"
    using assms(2) by (intro nth_equalityI) (auto simp: nth_Cons numeral_eq_Suc less_Suc_eq)
  moreover have "b ! (length xs + j + i) = d ! (j + i)" if "i < 4" for i
    using assms that by (simp add: nth_append)
  from this [of 0] this [of 1] this [of 2] this [of 3]
  have "b ! (length xs + j) = d ! j" "b ! (length xs + j + 1) = d ! (j + 1)" "b ! (length xs + j + 2) = d ! (j + 2)" "b ! (length xs + j + 3) = d ! (j + 3)"
    by simp_all
  moreover have "0 \<le> ?p" "?p + 4 \<le> int (length b)" using assms by simp_all
  ultimately show ?thesis by (simp only: fdt32_ld_int_eq fdt32_ld_in p uint_be32)
qed

lemma be_num_8:
  assumes "j + 8 \<le> length d"
  shows "push_bit 32 (word_of_int (be_num (take 4 (drop j d))) :: u64) OR word_of_int (be_num (take 4 (drop (j + 4) d))) = word_of_int (be_num (take 8 (drop j d)))"
proof -
  let ?e = "drop j d"
  have e: "Suc (Suc (Suc (Suc (Suc (Suc (Suc (Suc 0))))))) \<le> length ?e" using assms by simp
  obtain a b c e f g h i r where "?e = a # b # c # e # f # g # h # i # r"
    using e by (auto simp: Suc_le_length_iff simp del: length_drop)
  moreover have "drop (j + 4) d = drop 4 ?e" by (simp add: add.commute)
  ultimately show ?thesis using two_cells [of a b c e f g h i] by simp
qed

lemma find_map_block:
  "find (\<lambda>(n, ps). Q ps) (map (\<lambda>(n, ps, k). (n, ps)) bs) = map_option (\<lambda>(n, ps, k). (n, ps)) (find (\<lambda>(n, ps, k). Q ps) bs)"
  by (induction bs) auto

text \<open>The lookup of a property of the first compatible node.\<close>

lemma dt_device_prop:
  assumes D: "dt_blob f strs (toks_of t @ [TFin])" and ok: "list_all (\<lambda>(n, ps). compat_ok strs ps) (nodes_of t)"
    and c: "0 \<notin> set c" "c \<noteq> []" "length c < 2147483648" and key: "0 \<notin> set key" "length key < 2147483648"
  obtains offset where "fdt_node_offset_by_compatible f (- 1) (c @ [0]) = Inr offset"
    "offset < 0 \<Longrightarrow> device_prop strs c key t = None"
    "0 \<le> offset \<Longrightarrow> \<exists>r. fdt_getprop f offset (key @ [0]) 0 = Inr r \<and> found f (device_prop strs c key t) r"
proof -
  let ?bs = "blocks_of t" and ?Q = "compatible_with strs c"
  have D2: "dt_blob f strs (blks ?bs @ [TFin])" using D by (simp add: blks_blocks_of)
  note S = dt_node_by_compatible [OF D ok c] and F = first_pos_find [where Q = ?Q and bs = ?bs and pre = "[]"]
  have n: "find (\<lambda>(n, ps). ?Q ps) (nodes_of t) = map_option (\<lambda>(n, ps, k). (n, ps)) (find (\<lambda>(n, ps, k). ?Q ps) ?bs)"
    unfolding blocks_of_nodes [symmetric] by (rule find_map_block)
  show ?thesis
  proof (cases "find (\<lambda>(n, ps, k). ?Q ps) ?bs")
    case None
    then show ?thesis using that [OF S] F n by (simp add: device_prop_def)
  next
    case (Some b)
    obtain m ps k where b: "b = (m, ps, k)" by (cases b)
    obtain as cs where ac: "?bs = as @ (m, ps, k) # cs" "first_pos ?Q [] ?bs = pos (blks as)" using F Some b by auto
    obtain u post where u: "blks ?bs @ [TFin] = blks as @ TBegin m # props ps @ u # post" "closes u"
      by (rule block_closes [OF ac(1) conjunct2 [OF blocks_of_last]])
    obtain r where "fdt_getprop f (pos (blks as)) (key @ [0]) 0 = Inr r" "found f (dt_lookup strs key ps) r"
      by (rule dt_getprop [OF D2 [unfolded u(1)] u(2) key])
    moreover have "device_prop strs c key t = dt_lookup strs key ps" using n Some b by (simp add: device_prop_def)
    ultimately show ?thesis using that [OF S] ac(2) pos_nonneg [of "blks as"] by auto
  qed
qed

definition reg_key :: buf where "reg_key = map of_char ''reg''"

definition irq_key :: buf where "irq_key = map of_char ''interrupts''"

lemma keys: "0 \<notin> set reg_key" "length reg_key < 2147483648" "lit ''reg'' = reg_key @ [0]"
  "0 \<notin> set irq_key" "length irq_key < 2147483648" "lit ''interrupts'' = irq_key @ [0]"
  by (simp_all add: reg_key_def irq_key_def lit_eq)

lemma reg_lookup:
  assumes "dt_blob f strs (toks_of t @ [TFin])" "list_all (\<lambda>(n, ps). compat_ok strs ps) (nodes_of t)"
    "0 \<notin> set c" "c \<noteq> []" "length c < 2147483648"
  shows "fdt_find_reg_by_compat f (c @ [0]) = Inr (answer (Option.bind (device_prop strs c reg_key t) reg_value))"
proof -
  obtain offset where off: "fdt_node_offset_by_compatible f (- 1) (c @ [0]) = Inr offset" "offset < 0 \<Longrightarrow> device_prop strs c reg_key t = None"
    "0 \<le> offset \<Longrightarrow> \<exists>r. fdt_getprop f offset (reg_key @ [0]) 0 = Inr r \<and> found f (device_prop strs c reg_key t) r"
    using dt_device_prop [OF assms keys(1,2)] by metis
  note d = fdt_find_reg_by_compat_def off(1) keys(3) answer_def reg_value_def
  show ?thesis
  proof (cases "offset < 0")
    case False
    then obtain r where r: "fdt_getprop f offset (reg_key @ [0]) 0 = Inr r" "found f (device_prop strs c reg_key t) r" using off(3) by auto
    show ?thesis
    proof (cases "device_prop strs c reg_key t")
      case (Some v)
      then obtain xs ys where v: "r = (Some (int (length xs)), int (length v))" "fdt_bytes f = xs @ v @ ys" using r(2) by (auto simp: found_def)
      show ?thesis
      proof (cases "length v < 16")
        case le: False
        note cells = cell [OF v(2), of 0, simplified] cell [OF v(2), of 4, simplified] cell [OF v(2), of 8, simplified] cell [OF v(2), of 12, simplified]
        show ?thesis using False r(1) v(1) Some le cells be_num_8 [of 0 v] be_num_8 [of 8 v] by (simp add: d)
      qed (use False r(1) v(1) Some in \<open>simp add: d\<close>)
    qed (use False r in \<open>simp add: d found_def\<close>)
  qed (use off in \<open>simp add: d\<close>)
qed

lemma irq_lookup:
  assumes "dt_blob f strs (toks_of t @ [TFin])" "list_all (\<lambda>(n, ps). compat_ok strs ps) (nodes_of t)"
    "0 \<notin> set c" "c \<noteq> []" "length c < 2147483648"
  shows "fdt_find_irq_by_compat f (c @ [0]) = Inr (answer (Option.bind (device_prop strs c irq_key t) irq_value))"
proof -
  obtain offset where off: "fdt_node_offset_by_compatible f (- 1) (c @ [0]) = Inr offset" "offset < 0 \<Longrightarrow> device_prop strs c irq_key t = None"
    "0 \<le> offset \<Longrightarrow> \<exists>r. fdt_getprop f offset (irq_key @ [0]) 0 = Inr r \<and> found f (device_prop strs c irq_key t) r"
    using dt_device_prop [OF assms keys(4,5)] by metis
  note d = fdt_find_irq_by_compat_def off(1) keys(6) answer_def irq_value_def
  show ?thesis
  proof (cases "offset < 0")
    case False
    then obtain r where r: "fdt_getprop f offset (irq_key @ [0]) 0 = Inr r" "found f (device_prop strs c irq_key t) r" using off(3) by auto
    show ?thesis
    proof (cases "device_prop strs c irq_key t")
      case (Some v)
      then obtain xs ys where v: "r = (Some (int (length xs)), int (length v))" "fdt_bytes f = xs @ v @ ys" using r(2) by (auto simp: found_def)
      show ?thesis using False r(1) v(1) Some cell [OF v(2), of 0, simplified] by (simp add: d)
    qed (use False r in \<open>simp add: d found_def\<close>)
  qed (use off in \<open>simp add: d\<close>)
qed

end
