(* ===== verification/Fdt_Path.thy ===== *)
theory Fdt_Path
  imports Fdt_Devices
begin

text \<open>
  Paths in the blob of a tree: the lookup of a child of the root by its name finds the first one, in the order of the tree, that
  has the name, with or without a unit address.
\<close>

section \<open>Names\<close>

definition name_matches :: "buf \<Rightarrow> buf \<Rightarrow> bool" where
  "name_matches nm n \<longleftrightarrow> take (length nm) n = nm \<and> (length n = length nm \<or> 0x40 \<notin> set nm \<and> n ! length nm = 0x40)"

lemma buf_memchr_none: "c \<notin> set s \<Longrightarrow> b = xs @ s @ ys \<Longrightarrow> buf_memchr (length s) b (int (length xs)) c = Inr None"
proof (induction s arbitrary: xs)
  case (Cons x s)
  have "buf_memchr (length s) b (int (length (xs @ [x]))) c = Inr None" using Cons.prems by (intro Cons.IH) auto
  then have "buf_memchr (length s) b (int (length xs) + 1) c = Inr None" by (simp add: add.commute)
  moreover have "rd b (int (length xs)) = Inr x" "x \<noteq> c" using Cons.prems by (auto simp: rd_Inr)
  ultimately show ?case by simp
qed simp

lemma buf_memchr_hit: "c \<in> set s \<Longrightarrow> b = xs @ s @ ys \<Longrightarrow> \<exists>q. buf_memchr (length s) b (int (length xs)) c = Inr (Some q)"
proof (induction s arbitrary: xs)
  case (Cons x s)
  have r: "rd b (int (length xs)) = Inr x" using Cons.prems by (auto simp: rd_Inr)
  show ?case
  proof (cases "x = c")
    case False
    then have "\<exists>q. buf_memchr (length s) b (int (length (xs @ [x]))) c = Inr (Some q)" using Cons.prems by (intro Cons.IH) auto
    then show ?thesis using r False by (simp add: add.commute)
  qed (use r in simp)
qed simp

lemma dt_get_name:
  assumes D: "dt_blob f strs (pre @ TBegin n # post)"
  shows "fdt_get_name f (pos pre) = Inr (Some (hdr f 8 + pos pre + 4), int (length n))"
    "\<exists>xs ys. fdt_bytes f = xs @ n @ 0 # ys \<and> int (length xs) = hdr f 8 + pos pre + 4" "0 \<notin> set n"
proof -
  show z: "0 \<notin> set n" using D by (simp add: dt_blob_def)
  obtain xs ys where b: "fdt_bytes f = xs @ (n @ [0]) @ ys" "int (length xs) = hdr f 8 + int (length (enc_all pre @ be 1))"
    by (rule dt_bytes_at [OF D, of _ "n @ [0]" "pad (length n + 1) @ enc_all post"]) auto
  then show "\<exists>xs ys. fdt_bytes f = xs @ n @ 0 # ys \<and> int (length xs) = hdr f 8 + pos pre + 4" by (auto simp: pos_length)
  have "buf_strlen (fdt_bytes f) (int (length xs)) = Inr (int (length n))" using b(1) by (intro buf_strlen_find [OF z]) simp
  then have l: "buf_strlen (fdt_bytes f) (hdr f 8 + pos pre + 4) = Inr (int (length n))" using b(2) by (simp add: pos_length ac_simps)
  have w: "wrap_i32 (int (length n)) = int (length n)" using dt_pos_less [OF D] pos_nonneg [of pre] pos_nonneg [of post] by simp
  have nn: "0 \<le> pos (pre @ [TBegin n])" by (rule pos_nonneg)
  have h: "hdr f 20 = 17" "0 \<le> hdr f 4" using D hdr_range(1) [of f 4] by (simp_all add: dt_blob_def)
  note ok = dt_blob_ok [OF D]
  show "fdt_get_name f (pos pre) = Inr (Some (hdr f 8 + pos pre + 4), int (length n))"
    using nn h by (simp add: fdt_get_name_def fdt_offset_ptr_raw_def header_reads [OF ok] dt_probe [OF D] dt_check_node [OF D] l w del: pos_simps)
qed

lemma dt_nodename_eq:
  assumes D: "dt_blob f strs (pre @ TBegin n # post)" and s: "s = us @ nm @ vs"
  shows "fdt_nodename_eq f (pos pre) s (int (length us)) (int (length nm)) = Inr (name_matches nm n)"
proof (cases "length n < length nm")
  case True
  then have "\<not> name_matches nm n" by (auto simp: name_matches_def dest: arg_cong [of _ _ length])
  then show ?thesis using True by (simp add: fdt_nodename_eq_def dt_get_name(1) [OF D])
next
  case le: False
  obtain xs ys where b: "fdt_bytes f = xs @ n @ 0 # ys" "int (length xs) = hdr f 8 + pos pre + 4" using dt_get_name(2) [OF D] by blast
  let ?t = "take (length nm) n" and ?c = "(n @ [0]) ! length nm"
  have tl: "length ?t = length nm" using le by simp
  have "fdt_bytes f = xs @ ?t @ (drop (length nm) n @ 0 # ys)" using b(1) by (metis append.assoc append_take_drop_id)
  from buf_memcmp_eq [OF tl this s] obtain r where
    r: "buf_memcmp (length nm) (fdt_bytes f) (hdr f 8 + pos pre + 4) s (int (length us)) = Inr r" "r = 0 \<longleftrightarrow> ?t = nm"
    using b(2) tl by auto
  have rd: "rd (fdt_bytes f) (hdr f 8 + pos pre + 4 + int (length nm)) = Inr ?c"
  proof -
    have "fdt_bytes f ! (length xs + length nm) = ?c" using le b(1) by (auto simp: nth_append)
    moreover have "nat (int (length xs) + int (length nm)) = length xs + length nm" by simp
    ultimately show ?thesis using le b(1) unfolding b(2) [symmetric] rd_Inr by simp
  qed
  have cz: "?c = 0 \<longleftrightarrow> length n = length nm" using le dt_get_name(3) [OF D] by (auto simp: nth_append in_set_conv_nth)
  have m: "\<exists>a. buf_memchr (length nm) s (int (length us)) 0x40 = Inr a \<and> (a = None \<longleftrightarrow> 0x40 \<notin> set nm)"
    using buf_memchr_none [of "0x40" nm s us vs] buf_memchr_hit [of "0x40" nm s us vs] s by (cases "0x40 \<in> set nm") auto
  then obtain a where a: "buf_memchr (length nm) s (int (length us)) 0x40 = Inr a" "a = None \<longleftrightarrow> 0x40 \<notin> set nm" by blast
  have c2: "length n \<noteq> length nm \<Longrightarrow> ?c = n ! length nm" using le by (simp add: nth_append)
  show ?thesis using le r rd cz a c2 by (auto simp: fdt_nodename_eq_def dt_get_name(1) [OF D] name_matches_def)
qed

section \<open>Scanning the children\<close>

definition scan_from :: "fdt \<Rightarrow> int \<Rightarrow> int \<Rightarrow> buf \<Rightarrow> int \<Rightarrow> int \<Rightarrow> int kres" where
  "scan_from f offset depth s sp len = bindE (next_node_loop f offset (Some depth)) (\<lambda>(o1, d1). subnode_loop f o1 (the d1) s sp len)"

lemma scan_props:
  "dt_blob f strs (pre @ props ps @ post) \<Longrightarrow> scan_from f (pos pre) d s sp len = scan_from f (pos (pre @ props ps)) d s sp len"
proof (induction ps arbitrary: pre)
  case (Cons x ps)
  obtain no v where x: "x = (no, v)" by (cases x)
  have t: "fdt_next_tag f (pos pre) = Inr (FDT_PROP, pos (pre @ [TProp no v]))"
    using dt_next_tag [of f strs pre "TProp no v" "props ps @ post"] Cons.prems x by simp
  have "scan_from f (pos pre) d s sp len = scan_from f (pos (pre @ [TProp no v])) d s sp len"
    by (simp add: scan_from_def next_node_loop.simps [of f "pos pre"] t del: pos_simps)
  also have "\<dots> = scan_from f (pos ((pre @ [TProp no v]) @ props ps)) d s sp len" using Cons.prems x by (intro Cons.IH) simp
  finally show ?case using x by simp
qed simp

lemma scan_end:
  assumes "dt_blob f strs (pre @ TEnd # post)"
  shows "1 \<le> d \<Longrightarrow> scan_from f (pos pre) d s sp len = scan_from f (pos (pre @ [TEnd])) (d - 1) s sp len"
    "scan_from f (pos pre) 0 s sp len = Inr (- 1)"
  using dt_next_tag [OF assms]
  by (simp_all add: scan_from_def next_node_loop.simps [of f "pos pre"] subnode_loop.simps [of f _ "- 1"] Let_def del: pos_simps)

lemma scan_begin:
  assumes "dt_blob f strs (pre @ TBegin n # post)"
  shows "scan_from f (pos pre) d s sp len = subnode_loop f (pos pre) (d + 1) s sp len"
  using dt_next_tag [OF assms] by (simp add: scan_from_def next_node_loop.simps [of f "pos pre"] del: pos_simps)

lemma subnode_step:
  assumes "dt_blob f strs (pre @ TBegin n # post)" "0 \<le> d" "d = 1 \<Longrightarrow> fdt_nodename_eq f (pos pre) s sp len = Inr False"
  shows "subnode_loop f (pos pre) d s sp len = scan_from f (pos (pre @ [TBegin n])) d s sp len"
  using assms(2,3) dt_check_node [OF assms(1)] pos_nonneg [of pre] pos_nonneg [of "pre @ [TBegin n]"]
  by (simp add: subnode_loop.simps [of f "pos pre"] scan_from_def fdt_next_node_def del: pos_simps)

fun root_name :: "dnode \<Rightarrow> buf" where "root_name (DNode n ps ks) = n"

fun root_props :: "dnode \<Rightarrow> dprops" where "root_props (DNode n ps ks) = ps"

fun children :: "dnode \<Rightarrow> dnode list" where "children (DNode n ps ks) = ks"

text \<open>A subtree in which no node is looked at, or whose root does not have the name, is passed over.\<close>

lemma scan_subtree:
  "dt_blob f strs (pre @ toks_of t @ post) \<Longrightarrow> 0 \<le> d \<Longrightarrow> s = us @ nm @ vs \<Longrightarrow> (d = 0 \<Longrightarrow> \<not> name_matches nm (root_name t)) \<Longrightarrow>
   scan_from f (pos pre) d s (int (length us)) (int (length nm)) = scan_from f (pos (pre @ toks_of t)) d s (int (length us)) (int (length nm))"
proof (induction t arbitrary: pre post d)
  case (DNode n ps ks)
  let ?S = "\<lambda>pre d. scan_from f (pos pre) d s (int (length us)) (int (length nm))"
  let ?p = "pre @ TBegin n # props ps"
  have D: "dt_blob f strs (pre @ TBegin n # props ps @ concat (map toks_of ks) @ TEnd # post)" using DNode.prems(1) by simp
  have "?S pre d = ?S (pre @ [TBegin n]) (d + 1)"
    using DNode.prems(2,4) dt_nodename_eq [OF D DNode.prems(3)] by (simp add: scan_begin [OF D] subnode_step [OF D] del: pos_simps)
  also have "\<dots> = ?S ?p (d + 1)" using scan_props [of f strs "pre @ [TBegin n]" ps "concat (map toks_of ks) @ TEnd # post"] D by (simp del: pos_simps)
  also have "\<dots> = ?S (?p @ concat (map toks_of ks)) (d + 1)"
  proof -
    have "set qs \<subseteq> set ks \<Longrightarrow> dt_blob f strs (r @ concat (map toks_of qs) @ TEnd # post) \<Longrightarrow> ?S r (d + 1) = ?S (r @ concat (map toks_of qs)) (d + 1)" for r qs
    proof (induction qs arbitrary: r)
      case (Cons q qs)
      have "?S r (d + 1) = ?S (r @ toks_of q) (d + 1)"
        using Cons.prems DNode.prems(2,3) by (intro DNode.IH [of q r "concat (map toks_of qs) @ TEnd # post"]) auto
      also have "\<dots> = ?S ((r @ toks_of q) @ concat (map toks_of qs)) (d + 1)" using Cons.prems by (intro Cons.IH) auto
      finally show ?case by simp
    qed simp
    from this [of ks ?p] D show ?thesis by simp
  qed
  also have "\<dots> = ?S ((?p @ concat (map toks_of ks)) @ [TEnd]) d"
    using scan_end(1) [of f strs "?p @ concat (map toks_of ks)" post "d + 1"] D DNode.prems(2) by (simp del: pos_simps)
  finally show ?case by simp
qed

text \<open>The lookup of a child of the root.\<close>

fun child_pos :: "buf \<Rightarrow> tok list \<Rightarrow> dnode list \<Rightarrow> int" where
  "child_pos nm pre [] = - 1"
| "child_pos nm pre (k # ks) = (if name_matches nm (root_name k) then pos pre else child_pos nm (pre @ toks_of k) ks)"

lemma scan_children:
  "dt_blob f strs (pre @ concat (map toks_of ks) @ TEnd # post) \<Longrightarrow> s = us @ nm @ vs \<Longrightarrow>
   scan_from f (pos pre) 0 s (int (length us)) (int (length nm)) = Inr (child_pos nm pre ks)"
proof (induction ks arbitrary: pre)
  case Nil
  then show ?case using scan_end(2) [of f strs pre post] by simp
next
  case (Cons k ks)
  obtain n ps qs where k: "k = DNode n ps qs" by (cases k)
  have D: "dt_blob f strs (pre @ TBegin n # props ps @ concat (map toks_of qs) @ TEnd # concat (map toks_of ks) @ TEnd # post)" using Cons.prems k by simp
  show ?case
  proof (cases "name_matches nm n")
    case True
    then show ?thesis using k pos_nonneg [of pre] dt_nodename_eq [OF D Cons.prems(2)]
      by (simp add: scan_begin [OF D] subnode_loop.simps [of f "pos pre"] del: pos_simps)
  next
    case False
    have "scan_from f (pos pre) 0 s (int (length us)) (int (length nm)) = scan_from f (pos (pre @ toks_of k)) 0 s (int (length us)) (int (length nm))"
      using Cons.prems False k by (intro scan_subtree [of f strs pre k "concat (map toks_of ks) @ TEnd # post"]) simp_all
    also have "\<dots> = Inr (child_pos nm (pre @ toks_of k) ks)" using Cons.prems by (intro Cons.IH) simp_all
    finally show ?thesis using False k by simp
  qed
qed

definition root_toks :: "dnode \<Rightarrow> tok list" where "root_toks t = TBegin (root_name t) # props (root_props t)"

lemma toks_of_root: "toks_of t = root_toks t @ concat (map toks_of (children t)) @ [TEnd]"
  by (cases t) (simp add: root_toks_def)

lemma dt_subnode:
  assumes D: "dt_blob f strs (toks_of t @ [TFin])" and s: "s = us @ nm @ vs"
  shows "fdt_subnode_offset_namelen f 0 s (int (length us)) (int (length nm)) = Inr (child_pos nm (root_toks t) (children t))"
proof -
  let ?S = "\<lambda>pre. scan_from f (pos pre) 0 s (int (length us)) (int (length nm))"
  let ?post = "props (root_props t) @ concat (map toks_of (children t)) @ TEnd # [TFin]"
  have D1: "dt_blob f strs ([] @ TBegin (root_name t) # ?post)" using D by (simp add: toks_of_root root_toks_def)
  have "subnode_loop f 0 0 s (int (length us)) (int (length nm)) = ?S ([] @ [TBegin (root_name t)])"
    using subnode_step [OF D1, of 0 s "int (length us)" "int (length nm)"] by simp
  also have "\<dots> = ?S (([] @ [TBegin (root_name t)]) @ props (root_props t))"
    using D1 by (intro scan_props [of f strs _ _ "concat (map toks_of (children t)) @ TEnd # [TFin]"]) simp
  also have "\<dots> = Inr (child_pos nm (root_toks t) (children t))"
    using scan_children [of f strs "root_toks t" "children t" "[TFin]", OF _ s] D1 by (simp add: root_toks_def)
  finally show ?thesis using hdr_range(1) [of f 4] by (simp add: fdt_subnode_offset_namelen_def FDT_RO_PROBE_def dt_probe [OF D])
qed

text \<open>A path of one name.\<close>

lemma dt_path_offset:
  assumes D: "dt_blob f strs (toks_of t @ [TFin])" and nm: "nm \<noteq> []" "0 \<notin> set nm" "0x2f \<notin> set nm" "length nm < 2147483640"
  shows "fdt_path_offset f (0x2f # nm @ [0]) 0 = Inr (child_pos nm (root_toks t) (children t))"
proof -
  let ?path = "0x2f # nm @ [0]" and ?c = "child_pos nm (root_toks t) (children t)"
  have p: "?path = [0x2f] @ nm @ [0]" "?path = [] @ (0x2f # nm) @ 0 # []" by simp_all
  have l: "buf_strlen ?path 0 = Inr (int (length nm) + 1)"
    using buf_strlen_find [of "0x2f # nm" ?path "[]" "[]"] nm(2) by simp
  have r1: "rd ?path 1 = Inr (hd nm)" "hd nm \<noteq> 0x2f" using nm by (auto simp: rd_Inr nth_append hd_conv_nth neq_Nil_conv)
  have "skip_slashes ?path 1 (int (length nm) + 1) = Inr (Some 1)" using r1 by (simp add: skip_slashes.simps [of ?path 1])
  then have sk: "skip_slashes ?path 0 (int (length nm) + 1) = Inr (Some 1)" using nm(1) by (simp add: skip_slashes.simps [of ?path 0] rd_Inr)
  have m: "buf_memchr (nat (int (length nm) + 1 - 1)) ?path 1 0x2f = Inr None" using buf_memchr_none [OF nm(3) p(1)] by simp
  have "fdt_subnode_offset_namelen f 0 ?path 1 (int (length nm) + 1 - 1) = Inr ?c" using dt_subnode [OF D p(1)] by simp
  then have "path_loop f ?path 0 (int (length nm) + 1) 0 = Inr ?c"
    using sk m by (simp add: path_loop.simps [of f ?path 0] path_loop.simps [of f ?path "int (length nm) + 1"] Let_def)
  moreover have "wrap_i32 (int (length nm) + 1) = int (length nm) + 1" using nm(4) by simp
  moreover have "rd ?path 0 = Inr 0x2f" by (simp add: rd_Inr)
  ultimately show ?thesis using l hdr_range(1) [of f 4]
    by (simp add: fdt_path_offset_slash path_offset_slash_def FDT_RO_PROBE_def dt_probe [OF D])
qed

text \<open>The child is found with its properties.\<close>

lemma child_pos_find:
  "case find (\<lambda>k. name_matches nm (root_name k)) ks of
     None \<Rightarrow> child_pos nm pre ks = - 1
   | Some k \<Rightarrow> \<exists>as cs. ks = as @ k # cs \<and> child_pos nm pre ks = pos (pre @ concat (map toks_of as))"
proof (induction ks arbitrary: pre)
  case (Cons k ks)
  show ?case
  proof (cases "name_matches nm (root_name k)")
    case True
    then have "child_pos nm pre (k # ks) = pos (pre @ concat (map toks_of []))" "k # ks = [] @ k # ks" by simp_all
    then have "\<exists>as cs. k # ks = as @ k # cs \<and> child_pos nm pre (k # ks) = pos (pre @ concat (map toks_of as))" by blast
    then show ?thesis using True by simp
  next
    case False
    show ?thesis
    proof (cases "find (\<lambda>k. name_matches nm (root_name k)) ks")
      case None
      then show ?thesis using Cons.IH [of "pre @ toks_of k"] False by simp
    next
      case (Some x)
      then obtain as cs where "ks = as @ x # cs" "child_pos nm (pre @ toks_of k) ks = pos ((pre @ toks_of k) @ concat (map toks_of as))"
        using Cons.IH [of "pre @ toks_of k"] by auto
      then have "k # ks = (k # as) @ x # cs \<and> child_pos nm pre (k # ks) = pos (pre @ concat (map toks_of (k # as)))" using False by simp
      then have "\<exists>as cs. k # ks = as @ x # cs \<and> child_pos nm pre (k # ks) = pos (pre @ concat (map toks_of as))" by blast
      then show ?thesis using False Some by simp
    qed
  qed
qed simp

definition child_prop :: "buf \<Rightarrow> buf \<Rightarrow> buf \<Rightarrow> dnode \<Rightarrow> buf option" where
  "child_prop strs nm key t = (case find (\<lambda>k. name_matches nm (root_name k)) (children t) of
     None \<Rightarrow> None | Some k \<Rightarrow> dt_lookup strs key (root_props k))"

lemma dt_child_prop:
  assumes D: "dt_blob f strs (toks_of t @ [TFin])" and nm: "nm \<noteq> []" "0 \<notin> set nm" "0x2f \<notin> set nm" "length nm < 2147483640"
    and key: "0 \<notin> set key" "length key < 2147483648"
  obtains offset where "fdt_path_offset f (0x2f # nm @ [0]) 0 = Inr offset"
    "offset < 0 \<Longrightarrow> child_prop strs nm key t = None"
    "0 \<le> offset \<Longrightarrow> \<exists>r. fdt_getprop f offset (key @ [0]) 0 = Inr r \<and> found f (child_prop strs nm key t) r"
proof -
  note P = dt_path_offset [OF D nm] and F = child_pos_find [where nm = nm and ks = "children t" and pre = "root_toks t"]
  show ?thesis
  proof (cases "find (\<lambda>k. name_matches nm (root_name k)) (children t)")
    case None
    then show ?thesis using that [OF P] F by (simp add: child_prop_def)
  next
    case (Some k)
    obtain n ps qs where k: "k = DNode n ps qs" by (cases k)
    obtain as cs where ac: "children t = as @ k # cs" "child_pos nm (root_toks t) (children t) = pos (root_toks t @ concat (map toks_of as))"
      using F Some by auto
    obtain u post where u: "concat (map toks_of qs) @ TEnd # concat (map toks_of cs) @ [TEnd, TFin] = u # post" "closes u"
    proof (cases qs)
      case Nil
      then show ?thesis using that by simp
    next
      case (Cons q qs')
      obtain n' ps' ks' where "q = DNode n' ps' ks'" by (cases q)
      then show ?thesis using that Cons by simp
    qed
    have "dt_blob f strs ((root_toks t @ concat (map toks_of as)) @ TBegin n # props ps @ u # post)"
      using D unfolding u(1) [symmetric] by (simp add: toks_of_root [of t] ac(1) k)
    from dt_getprop [OF this u(2) key] obtain r where "fdt_getprop f (pos (root_toks t @ concat (map toks_of as))) (key @ [0]) 0 = Inr r"
      "found f (dt_lookup strs key ps) r" by blast
    moreover have "child_prop strs nm key t = dt_lookup strs key ps" using Some k by (simp add: child_prop_def)
    ultimately show ?thesis using that [OF P] ac(2) pos_nonneg [of "root_toks t @ concat (map toks_of as)"] by auto
  qed
qed

end
