(* ===== verification/Device_Tree.thy ===== *)
theory Device_Tree
  imports Irq Fdt_Path
begin

unbundle bit_operations_syntax

text \<open>
  The kernel and the device tree: the questions that the drivers ask the blob, with the answers that the kernel state holds
  (\<open>dtb_uart\<close>, \<open>dtb_plic\<close>, \<open>dtb_timer\<close>, \<open>dtb_timebase\<close>), and the contract of the library that these
  answers rest on, as a locale interpreted on the model of the library. A builder of blobs gives concrete trees.
\<close>

section \<open>The questions of the drivers\<close>

text \<open>The first cell of a property, where there is one.\<close>

definition node_cell :: "fdt \<Rightarrow> int \<Rightarrow> string \<Rightarrow> u32 option kres" where
  "node_cell f off name = bindE (fdt_getprop f off (lit name) 0) (\<lambda>(p, len). case p of
     None \<Rightarrow> Inr None
   | Some q \<Rightarrow> if len < 4 then Inr None else bindE (fdt32_ld_int (fdt_bytes f) q) (\<lambda>v. Inr (Some (word_of_int v))))"

text \<open>The operations of the library that the drivers call: the two lookups of \<open>fdt_helper.c\<close>, the search for a node by its
  \<open>compatible\<close> string from the start, the lookup of a path, and the cell of a property.\<close>

record 'b dt_library =
  find_reg :: "'b \<Rightarrow> buf \<Rightarrow> (int \<times> (u64 \<times> u64) option) kres"
  find_irq :: "'b \<Rightarrow> buf \<Rightarrow> (int \<times> u32 option) kres"
  find_node :: "'b \<Rightarrow> buf \<Rightarrow> int kres"
  find_path :: "'b \<Rightarrow> buf \<Rightarrow> int kres"
  cell_of :: "'b \<Rightarrow> int \<Rightarrow> string \<Rightarrow> u32 option kres"

definition libfdt :: "fdt dt_library" where
  "libfdt = \<lparr>find_reg = fdt_find_reg_by_compat, find_irq = fdt_find_irq_by_compat, find_node = (\<lambda>f. fdt_node_offset_by_compatible f (- 1)),
     find_path = (\<lambda>f path. fdt_path_offset f path 0), cell_of = node_cell\<rparr>"

definition uart_answer :: "'b dt_library \<Rightarrow> 'b \<Rightarrow> dt_uart option kres" where
  "uart_answer L f =
     bindE (find_reg L f (lit ''ns16550a'')) (\<lambda>(_, reg).
     bindE (find_irq L f (lit ''ns16550a'')) (\<lambda>(_, irq).
     bindE (find_node L f (lit ''ns16550a'')) (\<lambda>off.
     if off < 0 then Inr None
     else bindE (cell_of L f off ''reg-shift'') (\<lambda>shift. bindE (cell_of L f off ''reg-io-width'') (\<lambda>w.
          bindE (cell_of L f off ''reg-offset'') (\<lambda>v.
          Inr (Some \<lparr>du_reg = map_option fst reg, du_irq = irq, du_shift = shift, du_width = w, du_offset = v\<rparr>)))))))"

definition plic_node_answer :: "'b dt_library \<Rightarrow> 'b \<Rightarrow> int \<Rightarrow> buf \<Rightarrow> (u64 \<times> u32 option) option kres" where
  "plic_node_answer L f plic_off c =
     bindE (find_reg L f c) (\<lambda>(r, reg). case reg of
       None \<Rightarrow> Inr None
     | Some (base, sz) \<Rightarrow> bindE (cell_of L f plic_off ''riscv,ndev'') (\<lambda>n. Inr (Some (base, n))))"

definition plic_answer :: "'b dt_library \<Rightarrow> 'b \<Rightarrow> (u64 \<times> u32 option) option kres" where
  "plic_answer L f =
     bindE (find_node L f (lit ''riscv,plic0'')) (\<lambda>plic_off.
     if plic_off < 0
     then bindE (find_node L f (lit ''sifive,plic-1.0.0'')) (\<lambda>plic_off.
          if plic_off < 0 then Inr None else plic_node_answer L f plic_off (lit ''sifive,plic-1.0.0''))
     else plic_node_answer L f plic_off (lit ''riscv,plic0''))"

definition timer_answer :: "'b dt_library \<Rightarrow> 'b \<Rightarrow> (bool \<times> bool) kres" where
  "timer_answer L f =
     bindE (find_reg L f (lit ''riscv,aclint-mtimer'')) (\<lambda>(a, _).
     bindE (find_reg L f (lit ''sifive,clint0'')) (\<lambda>(b, _).
     bindE (find_reg L f (lit ''riscv,clint0'')) (\<lambda>(c, _). Inr (a = 0, b = 0 \<or> c = 0))))"

definition timebase_answer :: "'b dt_library \<Rightarrow> 'b \<Rightarrow> u32 option kres" where
  "timebase_answer L f =
     bindE (find_path L f (lit ''/cpus'')) (\<lambda>off. if off < 0 then Inr None else cell_of L f off ''timebase-frequency'')"

text \<open>A state whose answers are those of a blob.\<close>

definition ask_dtb :: "fdt \<Rightarrow> kstate \<Rightarrow> kstate kres" where
  "ask_dtb f s =
     bindE (uart_answer libfdt f) (\<lambda>u. bindE (plic_answer libfdt f) (\<lambda>p. bindE (timer_answer libfdt f) (\<lambda>t. bindE (timebase_answer libfdt f) (\<lambda>b.
     Inr (s\<lparr>dtb_uart := u, dtb_plic := p, dtb_timer := t, dtb_timebase := b\<rparr>)))))"

section \<open>What the drivers rely on\<close>

text \<open>A literal of the source, and the value that a query answers with.\<close>

definition bytes_of :: "string \<Rightarrow> buf" where "bytes_of s = map of_char s"

definition literal :: "string \<Rightarrow> bool" where
  "literal s \<longleftrightarrow> s \<noteq> [] \<and> 0 \<notin> set (bytes_of s) \<and> length s < 2147483640"

lemma literals:
  "literal ''ns16550a''" "literal ''riscv,plic0''" "literal ''sifive,plic-1.0.0''" "literal ''riscv,aclint-mtimer''" "literal ''sifive,clint0''"
  "literal ''riscv,clint0''" "literal ''reg-shift''" "literal ''reg-io-width''" "literal ''reg-offset''" "literal ''riscv,ndev''" "literal ''interrupts''"
  "literal ''cpus''" "literal ''timebase-frequency''"
  by (simp_all add: literal_def bytes_of_def)

lemma lit_bytes: "lit s = bytes_of s @ [0]"
  by (simp add: lit_def bytes_of_def)

lemma literalD: "literal s \<Longrightarrow> 0 \<notin> set (bytes_of s)" "literal s \<Longrightarrow> bytes_of s \<noteq> []" "literal s \<Longrightarrow> length (bytes_of s) < 2147483648"
  "literal s \<Longrightarrow> length (bytes_of s) < 2147483640"
  by (auto simp: literal_def bytes_of_def)

lemma answer_simps: "fst (answer v) = 0 \<longleftrightarrow> v \<noteq> None" "snd (answer v) = v"
  by (simp_all add: answer_def split: option.splits)

text \<open>The contract of the library: a blob stands for a tree, in which a device may be present (\<open>has\<close>) with an address range (\<open>reg\<close>) and
  numbers (\<open>cell\<close>), and the root has named children with numbers (\<open>child\<close>). The answers that the drivers get follow from it.\<close>

locale device_trees =
  fixes L :: "'b dt_library"
    and stands_for :: "'b \<Rightarrow> 't \<Rightarrow> bool"
    and has :: "'t \<Rightarrow> string \<Rightarrow> bool"
    and reg :: "'t \<Rightarrow> string \<Rightarrow> (u64 \<times> u64) option"
    and dcell :: "'t \<Rightarrow> string \<Rightarrow> string \<Rightarrow> u32 option"
    and child :: "'t \<Rightarrow> string \<Rightarrow> string \<Rightarrow> u32 option"
  assumes reg_law: "stands_for b t \<Longrightarrow> literal c \<Longrightarrow> find_reg L b (lit c) = Inr (answer (reg t c))"
    and irq_law: "stands_for b t \<Longrightarrow> literal c \<Longrightarrow> find_irq L b (lit c) = Inr (answer (dcell t c ''interrupts''))"
    and node_law: "stands_for b t \<Longrightarrow> literal c \<Longrightarrow> \<exists>offset. find_node L b (lit c) = Inr offset \<and> (offset < 0 \<longleftrightarrow> \<not> has t c)
      \<and> (0 \<le> offset \<longrightarrow> (\<forall>key. literal key \<longrightarrow> cell_of L b offset key = Inr (dcell t c key)))"
    and reg_has: "reg t c \<noteq> None \<Longrightarrow> has t c"
    and path_law: "stands_for b t \<Longrightarrow> literal n \<Longrightarrow> 0x2f \<notin> set (bytes_of n) \<Longrightarrow> literal key \<Longrightarrow>
      \<exists>offset. find_path L b (0x2f # lit n) = Inr offset \<and> (offset < 0 \<longrightarrow> child t n key = None)
      \<and> (0 \<le> offset \<longrightarrow> cell_of L b offset key = Inr (child t n key))"
begin

definition uart_told :: "'t \<Rightarrow> dt_uart option" where
  "uart_told t = (if has t ''ns16550a''
     then Some \<lparr>du_reg = map_option fst (reg t ''ns16550a''), du_irq = dcell t ''ns16550a'' ''interrupts'',
       du_shift = dcell t ''ns16550a'' ''reg-shift'', du_width = dcell t ''ns16550a'' ''reg-io-width'',
       du_offset = dcell t ''ns16550a'' ''reg-offset''\<rparr>
     else None)"

definition plic_told :: "'t \<Rightarrow> (u64 \<times> u32 option) option" where
  "plic_told t = (let c = (if has t ''riscv,plic0'' then ''riscv,plic0'' else ''sifive,plic-1.0.0'')
     in map_option (\<lambda>(base, sz). (base, dcell t c ''riscv,ndev'')) (reg t c))"

lemma uart_answer_law:
  assumes "stands_for b t"
  shows "uart_answer L b = Inr (uart_told t)"
proof -
  obtain offset where o: "find_node L b (lit ''ns16550a'') = Inr offset" "offset < 0 \<longleftrightarrow> \<not> has t ''ns16550a''"
    "0 \<le> offset \<longrightarrow> (\<forall>key. literal key \<longrightarrow> cell_of L b offset key = Inr (dcell t ''ns16550a'' key))"
    using node_law [OF assms literals(1)] by blast
  note r = reg_law [OF assms literals(1)] irq_law [OF assms literals(1)]
  show ?thesis
  proof (cases "offset < 0")
    case True
    then show ?thesis using o(1,2) unfolding uart_answer_def r by (simp add: case_prod_unfold uart_told_def)
  next
    case False
    then have "\<forall>key. literal key \<longrightarrow> cell_of L b offset key = Inr (dcell t ''ns16550a'' key)" using o(3) by simp
    note cells = this [rule_format, OF literals(7)] this [rule_format, OF literals(8)] this [rule_format, OF literals(9)]
    show ?thesis using o(1,2) False unfolding uart_answer_def r by (simp add: case_prod_unfold uart_told_def answer_simps cells)
  qed
qed

lemma plic_node_answer_law:
  assumes "stands_for b t" "literal c" "find_node L b (lit c) = Inr offset" "\<not> offset < 0"
  shows "plic_node_answer L b offset (lit c) = Inr (map_option (\<lambda>(base, sz). (base, dcell t c ''riscv,ndev'')) (reg t c))"
proof -
  have "cell_of L b offset ''riscv,ndev'' = Inr (dcell t c ''riscv,ndev'')"
    using node_law [OF assms(1,2)] assms(3,4) literals(10) by (auto simp: not_less)
  then show ?thesis unfolding plic_node_answer_def reg_law [OF assms(1,2)] by (cases "reg t c") (auto simp: answer_def)
qed

lemma plic_answer_law:
  assumes "stands_for b t"
  shows "plic_answer L b = Inr (plic_told t)"
proof -
  obtain o1 where o1: "find_node L b (lit ''riscv,plic0'') = Inr o1" "o1 < 0 \<longleftrightarrow> \<not> has t ''riscv,plic0''"
    using node_law [OF assms literals(2)] by blast
  obtain o2 where o2: "find_node L b (lit ''sifive,plic-1.0.0'') = Inr o2" "o2 < 0 \<longleftrightarrow> \<not> has t ''sifive,plic-1.0.0''"
    using node_law [OF assms literals(3)] by blast
  note p1 = plic_node_answer_law [OF assms literals(2) o1(1)] and p2 = plic_node_answer_law [OF assms literals(3) o2(1)]
  consider "\<not> o1 < 0" | "o1 < 0" "\<not> o2 < 0" | "o1 < 0" "o2 < 0" by blast
  then show ?thesis
  proof cases
    case 3
    then have "reg t ''sifive,plic-1.0.0'' = None" using o2(2) reg_has by blast
    then show ?thesis using 3 o1 o2(1) by (simp add: plic_answer_def plic_told_def Let_def)
  qed (use o1 o2(1) p1 p2 in \<open>simp_all add: plic_answer_def plic_told_def Let_def\<close>)
qed

lemma timer_answer_law:
  assumes "stands_for b t"
  shows "timer_answer L b = Inr (reg t ''riscv,aclint-mtimer'' \<noteq> None, reg t ''sifive,clint0'' \<noteq> None \<or> reg t ''riscv,clint0'' \<noteq> None)"
  unfolding timer_answer_def reg_law [OF assms literals(4)] reg_law [OF assms literals(5)] reg_law [OF assms literals(6)]
  by (simp add: case_prod_unfold answer_simps)

lemma timebase_answer_law:
  assumes "stands_for b t"
  shows "timebase_answer L b = Inr (child t ''cpus'' ''timebase-frequency'')"
proof -
  have p: "0x2f \<notin> set (bytes_of ''cpus'')" "lit ''/cpus'' = 0x2f # lit ''cpus''" by (simp_all add: bytes_of_def lit_def)
  obtain offset where "find_path L b (0x2f # lit ''cpus'') = Inr offset" "offset < 0 \<longrightarrow> child t ''cpus'' ''timebase-frequency'' = None"
    "0 \<le> offset \<longrightarrow> cell_of L b offset ''timebase-frequency'' = Inr (child t ''cpus'' ''timebase-frequency'')"
    using path_law [OF assms literals(12) p(1) literals(13)] by blast
  then show ?thesis unfolding timebase_answer_def p(2) by simp
qed

end

section \<open>The answers on a tree\<close>

text \<open>A tree in the blob, with string lists that are terminated.\<close>

definition holds_tree :: "fdt \<Rightarrow> buf \<Rightarrow> dnode \<Rightarrow> bool" where
  "holds_tree f strs t \<longleftrightarrow> dt_blob f strs (toks_of t @ [TFin]) \<and> list_all (\<lambda>(n, ps). compat_ok strs ps) (nodes_of t)"

definition has_device :: "buf \<Rightarrow> buf \<Rightarrow> dnode \<Rightarrow> bool" where
  "has_device strs c t = list_ex (\<lambda>(n, ps). compatible_with strs c ps) (nodes_of t)"

definition device_reg :: "buf \<Rightarrow> string \<Rightarrow> dnode \<Rightarrow> (u64 \<times> u64) option" where
  "device_reg strs c t = Option.bind (device_prop strs (bytes_of c) reg_key t) reg_value"

definition device_cell :: "buf \<Rightarrow> string \<Rightarrow> string \<Rightarrow> dnode \<Rightarrow> u32 option" where
  "device_cell strs c key t = Option.bind (device_prop strs (bytes_of c) (bytes_of key) t) irq_value"

lemma tree_reg: "holds_tree f strs t \<Longrightarrow> literal c \<Longrightarrow> fdt_find_reg_by_compat f (lit c) = Inr (answer (device_reg strs c t))"
  unfolding lit_bytes device_reg_def holds_tree_def by (intro reg_lookup literalD) auto

lemma tree_irq: "holds_tree f strs t \<Longrightarrow> literal c \<Longrightarrow> fdt_find_irq_by_compat f (lit c) = Inr (answer (device_cell strs c ''interrupts'' t))"
proof -
  assume a: "holds_tree f strs t" "literal c"
  have k: "bytes_of ''interrupts'' = irq_key" by (simp only: bytes_of_def irq_key_def)
  show ?thesis using a unfolding lit_bytes device_cell_def holds_tree_def k by (intro irq_lookup literalD) auto
qed

text \<open>The first cell of a property that was found or not.\<close>

lemma node_cell_found:
  assumes "fdt_getprop f offset (bytes_of key @ [0]) 0 = Inr r" "found f v r"
  shows "node_cell f offset key = Inr (Option.bind v irq_value)"
proof (cases v)
  case (Some d)
  then obtain xs ys where d: "r = (Some (int (length xs)), int (length d))" "fdt_bytes f = xs @ d @ ys" using assms(2) by (auto simp: found_def)
  show ?thesis using assms(1) d(1) Some cell [OF d(2), of 0, simplified] by (simp add: node_cell_def lit_bytes irq_value_def)
qed (use assms in \<open>simp add: node_cell_def lit_bytes found_def\<close>)

lemma tree_offset:
  assumes "holds_tree f strs t" "literal c"
  shows "\<exists>offset. fdt_node_offset_by_compatible f (- 1) (lit c) = Inr offset \<and> (offset < 0 \<longleftrightarrow> \<not> has_device strs (bytes_of c) t)
    \<and> (0 \<le> offset \<longrightarrow> (\<forall>key. literal key \<longrightarrow> node_cell f offset key = Inr (device_cell strs c key t)))"
proof -
  let ?c = "bytes_of c"
  have D: "dt_blob f strs (toks_of t @ [TFin])" "list_all (\<lambda>(n, ps). compat_ok strs ps) (nodes_of t)"
    using assms(1) by (simp_all add: holds_tree_def)
  note C = literalD(1-3) [OF assms(2)]
  let ?o = "first_pos (compatible_with strs ?c) [] (blocks_of t)"
  have o: "fdt_node_offset_by_compatible f (- 1) (?c @ [0]) = Inr ?o" by (rule dt_node_by_compatible [OF D C])
  have "?o < 0 \<longleftrightarrow> find (\<lambda>(n, ps, k). compatible_with strs ?c ps) (blocks_of t) = None"
    using first_pos_find [where Q = "compatible_with strs ?c" and bs = "blocks_of t" and pre = "[]"] pos_nonneg
    by (auto split: option.splits simp: not_less)
  also have "\<dots> \<longleftrightarrow> find (\<lambda>(n, ps). compatible_with strs ?c ps) (nodes_of t) = None"
    unfolding blocks_of_nodes [symmetric] find_map_block by simp
  also have "\<dots> \<longleftrightarrow> \<not> has_device strs ?c t" by (auto simp: find_None_iff has_device_def list_ex_iff)
  finally have e: "?o < 0 \<longleftrightarrow> \<not> has_device strs ?c t" .
  have "node_cell f ?o key = Inr (device_cell strs c key t)" if nn: "0 \<le> ?o" and k: "literal key" for key
  proof -
    obtain r where r: "fdt_getprop f ?o (bytes_of key @ [0]) 0 = Inr r" "found f (device_prop strs ?c (bytes_of key) t) r"
      using dt_device_prop [OF D C literalD(1,3) [OF k]] o nn by (metis sum.inject(2))
    then show ?thesis unfolding device_cell_def by (rule node_cell_found)
  qed
  then show ?thesis using o e by (intro exI [of _ ?o]) (simp add: lit_bytes)
qed

definition plic_name :: "buf \<Rightarrow> dnode \<Rightarrow> string" where
  "plic_name strs t = (if has_device strs (bytes_of ''riscv,plic0'') t then ''riscv,plic0'' else ''sifive,plic-1.0.0'')"

lemma no_device: "\<not> has_device strs (bytes_of c) t \<Longrightarrow> device_reg strs c t = None"
proof -
  assume "\<not> has_device strs (bytes_of c) t"
  then have "find (\<lambda>(n, ps). compatible_with strs (bytes_of c) ps) (nodes_of t) = None" by (auto simp: find_None_iff has_device_def list_ex_iff)
  then show ?thesis by (simp add: device_reg_def device_prop_def)
qed

definition child_cell :: "buf \<Rightarrow> string \<Rightarrow> string \<Rightarrow> dnode \<Rightarrow> u32 option" where
  "child_cell strs n key t = Option.bind (child_prop strs (bytes_of n) (bytes_of key) t) irq_value"

lemma tree_child:
  assumes "holds_tree f strs t" "literal n" "0x2f \<notin> set (bytes_of n)" "literal key"
  shows "\<exists>offset. fdt_path_offset f (0x2f # lit n) 0 = Inr offset \<and> (offset < 0 \<longrightarrow> child_cell strs n key t = None)
    \<and> (0 \<le> offset \<longrightarrow> node_cell f offset key = Inr (child_cell strs n key t))"
proof -
  have D: "dt_blob f strs (toks_of t @ [TFin])" using assms(1) by (simp add: holds_tree_def)
  obtain offset where "fdt_path_offset f (0x2f # bytes_of n @ [0]) 0 = Inr offset" "offset < 0 \<Longrightarrow> child_prop strs (bytes_of n) (bytes_of key) t = None"
    "0 \<le> offset \<Longrightarrow> \<exists>r. fdt_getprop f offset (bytes_of key @ [0]) 0 = Inr r \<and> found f (child_prop strs (bytes_of n) (bytes_of key) t) r"
    using dt_child_prop [OF D literalD(2) [OF assms(2)] literalD(1) [OF assms(2)] assms(3) literalD(4) [OF assms(2)] literalD(1,3) [OF assms(4)]] by metis
  then show ?thesis unfolding lit_bytes child_cell_def using node_cell_found by fastforce
qed

text \<open>The library keeps the contract on blobs of trees.\<close>

interpretation dt: device_trees libfdt "\<lambda>f x. holds_tree f (fst x) (snd x)" "\<lambda>x c. has_device (fst x) (bytes_of c) (snd x)"
  "\<lambda>x c. device_reg (fst x) c (snd x)" "\<lambda>x c key. device_cell (fst x) c key (snd x)" "\<lambda>x n key. child_cell (fst x) n key (snd x)"
proof unfold_locales
  fix f and x :: "buf \<times> dnode" and c n key
  show "find_reg libfdt f (lit c) = Inr (answer (device_reg (fst x) c (snd x)))" if "holds_tree f (fst x) (snd x)" "literal c"
    using tree_reg [OF that] by (simp add: libfdt_def)
  show "find_irq libfdt f (lit c) = Inr (answer (device_cell (fst x) c ''interrupts'' (snd x)))" if "holds_tree f (fst x) (snd x)" "literal c"
    using tree_irq [OF that] by (simp add: libfdt_def)
  show "\<exists>offset. find_node libfdt f (lit c) = Inr offset \<and> (offset < 0 \<longleftrightarrow> \<not> has_device (fst x) (bytes_of c) (snd x))
      \<and> (0 \<le> offset \<longrightarrow> (\<forall>key. literal key \<longrightarrow> cell_of libfdt f offset key = Inr (device_cell (fst x) c key (snd x))))"
    if "holds_tree f (fst x) (snd x)" "literal c"
    using tree_offset [OF that] by (simp add: libfdt_def)
  show "has_device (fst x) (bytes_of c) (snd x)" if "device_reg (fst x) c (snd x) \<noteq> None"
    using that no_device [of "fst x" c "snd x"] by (cases "has_device (fst x) (bytes_of c) (snd x)") simp_all
  show "\<exists>offset. find_path libfdt f (0x2f # lit n) = Inr offset \<and> (offset < 0 \<longrightarrow> child_cell (fst x) n key (snd x) = None)
      \<and> (0 \<le> offset \<longrightarrow> cell_of libfdt f offset key = Inr (child_cell (fst x) n key (snd x)))"
    if "holds_tree f (fst x) (snd x)" "literal n" "0x2f \<notin> set (bytes_of n)" "literal key"
    using tree_child [OF that] by (simp add: libfdt_def)
qed

lemma ask_dtb_tree:
  assumes "holds_tree f strs t"
  shows "ask_dtb f s = Inr (s\<lparr>dtb_uart := dt.uart_told (strs, t), dtb_plic := dt.plic_told (strs, t),
    dtb_timer := (device_reg strs ''riscv,aclint-mtimer'' t \<noteq> None,
      device_reg strs ''sifive,clint0'' t \<noteq> None \<or> device_reg strs ''riscv,clint0'' t \<noteq> None),
    dtb_timebase := child_cell strs ''cpus'' ''timebase-frequency'' t\<rparr>)"
proof -
  have h: "holds_tree f (fst (strs, t)) (snd (strs, t))" using assms by simp
  show ?thesis
    unfolding ask_dtb_def dt.uart_answer_law [OF h] dt.plic_answer_law [OF h] dt.timer_answer_law [OF h] dt.timebase_answer_law [OF h]
    by (simp only: bindE_simps fst_conv snd_conv)
qed

section \<open>Building blobs\<close>

definition make_dtb :: "u64 \<Rightarrow> buf \<Rightarrow> tok list \<Rightarrow> fdt" where
  "make_dtb addr strs ts = \<lparr>fdt_addr = addr, fdt_bytes =
     be FDT_MAGIC @ be (56 + pos ts + int (length strs)) @ be 56 @ be (56 + pos ts) @ be 40 @ be 17 @ be 16 @ be 0 @ be (int (length strs)) @ be (pos ts)
     @ replicate 16 0 @ enc_all ts @ strs @ [0]\<rparr>"

lemma hdr_be:
  assumes "fdt_bytes f = xs @ be v @ ys" "int (length xs) = k" "0 \<le> v" "v < 4294967296"
  shows "hdr f k = v"
proof -
  have "nat k = length xs" using assms(2) by simp
  then show ?thesis using be_value [OF assms(3,4)] by (simp add: hdr_def Let_def assms(1) nth_append)
qed

lemma make_dtb_hdr:
  fixes addr strs ts
  assumes "56 + pos ts + int (length strs) \<le> 2147483640"
  defines "f \<equiv> make_dtb addr strs ts"
  shows "hdr f 0 = FDT_MAGIC" "hdr f 4 = 56 + pos ts + int (length strs)" "hdr f 8 = 56" "hdr f 12 = 56 + pos ts" "hdr f 20 = 17"
    "hdr f 24 = 16" "hdr f 32 = int (length strs)" "hdr f 36 = pos ts"
proof -
  let ?h0 = "be FDT_MAGIC" and ?h1 = "be (56 + pos ts + int (length strs))" and ?h2 = "be 56" and ?h3 = "be (56 + pos ts)" and ?h4 = "be 40"
    and ?h5 = "be 17" and ?h6 = "be 16" and ?h7 = "be 0" and ?h8 = "be (int (length strs))"
  note b = f_def make_dtb_def
  have p: "0 \<le> pos ts" by (rule pos_nonneg)
  show "hdr f 0 = FDT_MAGIC" by (rule hdr_be [of _ "[]"]) (auto simp: b)
  show "hdr f 4 = 56 + pos ts + int (length strs)" by (rule hdr_be [of _ ?h0]) (use p assms(1) in \<open>auto simp: b\<close>)
  show "hdr f 8 = 56" by (rule hdr_be [of _ "?h0 @ ?h1"]) (auto simp: b)
  show "hdr f 12 = 56 + pos ts" by (rule hdr_be [of _ "?h0 @ ?h1 @ ?h2"]) (use p assms(1) in \<open>auto simp: b\<close>)
  show "hdr f 20 = 17" by (rule hdr_be [of _ "?h0 @ ?h1 @ ?h2 @ ?h3 @ ?h4"]) (auto simp: b)
  show "hdr f 24 = 16" by (rule hdr_be [of _ "?h0 @ ?h1 @ ?h2 @ ?h3 @ ?h4 @ ?h5"]) (auto simp: b)
  show "hdr f 32 = int (length strs)" by (rule hdr_be [of _ "?h0 @ ?h1 @ ?h2 @ ?h3 @ ?h4 @ ?h5 @ ?h6 @ ?h7"]) (use p assms(1) in \<open>auto simp: b\<close>)
  show "hdr f 36 = pos ts" by (rule hdr_be [of _ "?h0 @ ?h1 @ ?h2 @ ?h3 @ ?h4 @ ?h5 @ ?h6 @ ?h7 @ ?h8"]) (use p assms(1) in \<open>auto simp: b\<close>)
qed

lemma make_dtb_blob:
  fixes addr strs ts
  assumes "56 + pos ts + int (length strs) \<le> 2147483640" "list_all (tok_ok strs) ts" "addr AND 7 = 0"
  defines "f \<equiv> make_dtb addr strs ts"
  shows "dt_blob f strs ts" "fdt_slack f"
proof -
  note h = make_dtb_hdr [OF assms(1), of addr, folded f_def]
  have b: "fdt_bytes f = (be FDT_MAGIC @ be (56 + pos ts + int (length strs)) @ be 56 @ be (56 + pos ts) @ be 40 @ be 17 @ be 16 @ be 0 @ be (int (length strs))
     @ be (pos ts) @ replicate 16 0) @ enc_all ts @ strs @ [0]" by (simp add: f_def make_dtb_def)
  then obtain xs where xs: "fdt_bytes f = xs @ enc_all ts @ strs @ [0]" "length xs = 56" by fastforce
  then have l: "int (length (fdt_bytes f)) = 57 + pos ts + int (length strs)" by (simp add: pos_def)
  have n: "nat (56 + pos ts) = 56 + length (enc_all ts)" by (simp add: pos_def)
  have s: "take (length strs) (drop (56 + length (enc_all ts)) (fdt_bytes f)) = strs" "take (length (enc_all ts)) (drop 56 (fdt_bytes f)) = enc_all ts"
    using xs by simp_all
  have "57 \<le> length (fdt_bytes f)" using xs by simp
  then show "fdt_slack f" using l h by (simp add: fdt_slack_def fdt_ok_def)
  then have "fdt_ok f" by (simp add: fdt_slack_def)
  moreover have "fdt_addr f = addr" by (simp add: f_def make_dtb_def)
  ultimately show "dt_blob f strs ts" using assms(1-3) h s n pos_nonneg [of ts] by (simp add: dt_blob_def)
qed

end
