(* ===== verification/Device_Tree_Props.thy ===== *)
theory Device_Tree_Props
  imports Device_Tree Scenario
begin

text \<open>
  The properties of the device tree library and of the drivers that ask it: safety on any bytes, the contract of the search for a
  node, and on the blob of a tree the values of the tree, up to the addresses and interrupt numbers in the driver state.
\<close>

section \<open>A board\<close>

definition board_strs :: buf where
  "board_strs = bytes_of ''compatible'' @ [0] @ bytes_of ''reg'' @ [0] @ bytes_of ''interrupts'' @ [0] @ bytes_of ''riscv,ndev'' @ [0] @ bytes_of ''timebase-frequency'' @ [0]"

definition board :: dnode where
  "board = DNode [] [(0, bytes_of ''riscv-virtio'' @ [0])]
     [DNode (bytes_of ''cpus'') [(37, be 12500000)] [],
      DNode (bytes_of ''serial@10000000'') [(15, be 10), (11, be 0 @ be 0x10000000 @ be 0 @ be 0x100), (0, bytes_of ''ns16550a'' @ [0])] [],
      DNode (bytes_of ''plic@c000000'') [(0, bytes_of ''sifive,plic-1.0.0'' @ [0] @ bytes_of ''riscv,plic0'' @ [0]),
        (11, be 0 @ be 0xc000000 @ be 0 @ be 0x600000), (26, be 95)] []]"

definition board_dtb :: fdt where "board_dtb = make_dtb 0 board_strs (toks_of board @ [TFin])"

lemma board_toks: "list_all (tok_ok board_strs) (toks_of board @ [TFin])" "56 + pos (toks_of board @ [TFin]) + int (length board_strs) \<le> 2147483640"
  by (simp_all add: board_def board_strs_def bytes_of_def pad_def)

lemma board_compat: "list_all (\<lambda>(n, ps). compat_ok board_strs ps) (nodes_of board)"
  by (simp add: board_def compat_ok_def str_at_def board_strs_def bytes_of_def compat_key_def)

lemma board_tree: "holds_tree board_dtb board_strs board" "fdt_slack board_dtb"
  unfolding holds_tree_def board_dtb_def using make_dtb_blob [OF board_toks(2,1), of 0] board_compat by simp_all

lemma board_values:
  "device_reg board_strs ''ns16550a'' board = Some (0x10000000, 0x100)"
  "device_cell board_strs ''ns16550a'' ''interrupts'' board = Some 10"
  by (simp_all add: device_reg_def device_cell_def board_def device_prop_def compatible_with_def str_at_def board_strs_def bytes_of_def compat_key_def strings.simps reg_key_def
    reg_value_def irq_value_def be_num_def be_def fdt32_st_def)

lemma board_plic:
  "plic_name board_strs board = ''riscv,plic0''" "device_reg board_strs ''riscv,plic0'' board = Some (0xc000000, 0x600000)"
  "device_cell board_strs ''riscv,plic0'' ''riscv,ndev'' board = Some 95"
  by (simp_all add: plic_name_def has_device_def device_reg_def device_cell_def board_def device_prop_def compatible_with_def str_at_def board_strs_def
    bytes_of_def compat_key_def strings.simps reg_key_def reg_value_def irq_value_def be_num_def be_def fdt32_st_def)

lemma board_timebase: "child_cell board_strs ''cpus'' ''timebase-frequency'' board = Some 12500000"
  by (simp add: child_cell_def child_prop_def name_matches_def board_def str_at_def board_strs_def bytes_of_def irq_value_def be_num_def be_def fdt32_st_def)

section \<open>Safety\<close>

text \<open>C24: On any bytes, with a buffer of the size that the header announces and one byte more, the full check, the lookup of a path and of a
  property and the two queries of the kernel end and read no byte outside the buffer; the value of a property lies within the blob, and the
  queries store a result exactly when they report success.\<close>

theorem fdt_queries_safe:
  assumes "fdt_slack f" "cstring c 0" "offset < 2147483648"
  shows "\<exists>chk path d len r v r' v'. fdt_check_full f bufsize = Inr chk \<and> fdt_path_offset f c 0 = Inr path
    \<and> fdt_getprop f offset c 0 = Inr (d, len) \<and> (\<forall>p. d = Some p \<longrightarrow> 0 \<le> p \<and> 0 \<le> len \<and> p + len \<le> hdr f 4)
    \<and> fdt_find_reg_by_compat f c = Inr (r, v) \<and> (r = 0 \<and> v \<noteq> None \<or> r = - 1 \<and> v = None)
    \<and> fdt_find_irq_by_compat f c = Inr (r', v') \<and> (r' = 0 \<and> v' \<noteq> None \<or> r' = - 1 \<and> v' = None)"
proof -
  have ok: "fdt_ok f" using assms(1) by (simp add: fdt_slack_def)
  obtain chk where "fdt_check_full f bufsize = Inr chk" using fdt_check_full_returns [OF ok] by (auto elim: returnsE)
  moreover obtain path where "fdt_path_offset f c 0 = Inr path" by (rule fdt_path_offset_spec [OF ok assms(2)])
  moreover obtain d len where "fdt_getprop f offset c 0 = Inr (d, len)" "\<forall>p. d = Some p \<longrightarrow> 0 \<le> p \<and> 0 \<le> len \<and> p + len \<le> hdr f 4"
    using fdt_getprop_spec [OF ok assms(3,2)] by metis
  ultimately show ?thesis using kernel_queries_return [OF assms(1,2)] by auto
qed

theorem fdt_queries_safe_witness:
  "\<exists>chk v. fdt_check_full board_dtb 400 = Inr chk \<and> fdt_find_reg_by_compat board_dtb (lit ''ns16550a'') = Inr v"
  using fdt_queries_safe [OF board_tree(2) cstring_lit [of "''ns16550a''"], of 0 400] by auto

section \<open>The contract of the search for a node\<close>

lemma check_compatible_code:
  assumes "fdt_small f" "offset < 2147483648" "fdt_node_check_compatible f offset c = Inr err" "err < 0"
  shows "is_err err"
proof -
  obtain d len where d: "fdt_getprop f offset (lit ''compatible'') 0 = Inr (d, len)"
    "(case d of None \<Rightarrow> Inr len | Some p \<Rightarrow> bindE (fdt_stringlist_contains (fdt_bytes f) p len c) (\<lambda>c. Inr (if c then 0 else 1))) = Inr err"
    using assms(3) by (auto simp: fdt_node_check_compatible_def bindE_eq_Inr)
  have "d = None \<and> len = err" using d(2) assms(4) by (cases d) (auto simp: bindE_eq_Inr split: if_splits)
  then show ?thesis using fdt_getprop_result [OF assms(1,2) cstring_lit [of "''compatible''"]] d(1) by simp
qed

text \<open>C26: What the search for a compatible node returns: the offset of a node, aligned and inside the blob, that is compatible, or a negative code
  for which \<open>fdt_strerror\<close> has a message.\<close>

theorem compatible_node_contract:
  assumes "fdt_slack f" "hdr f 4 \<le> 2147483644" "start < 2147483648" "cstring c 0"
  shows "\<exists>r. fdt_node_offset_by_compatible f start c = Inr r \<and>
    (if 0 \<le> r then r mod FDT_TAGSIZE = 0 \<and> (\<exists>n. fdt_next_tag f r = Inr (FDT_BEGIN_NODE, n)) \<and> fdt_node_check_compatible f r c = Inr 0
     else fdt_strerror r \<noteq> ''<unknown error>'')"
proof -
  have ok: "fdt_ok f" and small: "fdt_small f" using assms(1,2) by (simp_all add: fdt_slack_def fdt_small_def)
  let ?body = "\<lambda>offset. bindE (fdt_node_check_compatible f offset c) (\<lambda>err.
        Inr (if err < 0 \<and> err \<noteq> - FDT_ERR_NOTFOUND then Some err else if err = 0 then Some offset else None))"
  obtain r where r: "fdt_node_offset_by_compatible f start c = Inr r"
    using fdt_node_offset_by_compatible_returns [OF assms(1,3,4)] by (auto elim: returnsE)
  then obtain t where t: "fdt_ro_probe f = Inr t" "if t < 0 then r = t else node_scan f ?body start = Inr r"
    by (auto simp: fdt_node_offset_by_compatible_def FDT_RO_PROBE_def bindE_eq_Inr split: if_splits)
  have "is_err r \<or> 0 \<le> r \<and> r mod FDT_TAGSIZE = 0 \<and> (\<exists>n. fdt_next_tag f r = Inr (FDT_BEGIN_NODE, n)) \<and> fdt_node_check_compatible f r c = Inr 0"
  proof (cases "t < 0")
    case True
    then show ?thesis using t fdt_ro_probe_err [OF ok] by simp
  next
    case False
    then have "node_scan f ?body start = Inr r" using t(2) by simp
    from node_scan_result [OF small assms(3) this] show ?thesis
      using check_compatible_code [OF small] by (auto simp: bindE_eq_Inr code_or_offset_def is_err_def split: if_splits)
  qed
  then show ?thesis using r fdt_strerror_known [of r] by (auto simp: is_err_def)
qed

theorem compatible_node_contract_witness:
  "\<exists>r. fdt_node_offset_by_compatible board_dtb (- 1) (lit ''ns16550a'') = Inr r \<and> (r < 0 \<longrightarrow> fdt_strerror r \<noteq> ''<unknown error>'')"
proof -
  have "hdr board_dtb 4 \<le> 2147483644" using board_tree(1) by (simp add: holds_tree_def dt_blob_def)
  from compatible_node_contract [OF board_tree(2) this _ cstring_lit [of "''ns16550a''"], of "- 1"] show ?thesis
    by (auto split: if_splits)
qed

section \<open>Lookups on a tree\<close>

text \<open>C23: On the blob of a tree the queries of the kernel find the first node, in the order of the tree, whose \<open>compatible\<close> list contains the
  name, and return the big-endian numbers in its \<open>reg\<close> and \<open>interrupts\<close> properties, or \<open>-1\<close> when there is no such node or property
  or it is too short.\<close>

theorem device_lookup_correct:
  assumes "holds_tree f strs t" "0 \<notin> set c" "c \<noteq> []" "length c < 2147483648"
  shows "fdt_find_reg_by_compat f (c @ [0]) = Inr (answer (Option.bind (device_prop strs c reg_key t) reg_value))
    \<and> fdt_find_irq_by_compat f (c @ [0]) = Inr (answer (Option.bind (device_prop strs c irq_key t) irq_value))"
  using assms unfolding holds_tree_def by (auto intro: reg_lookup irq_lookup)

theorem device_lookup_correct_witness:
  "fdt_find_reg_by_compat board_dtb (lit ''ns16550a'') = Inr (0, Some (0x10000000, 0x100)) \<and> fdt_find_irq_by_compat board_dtb (lit ''ns16550a'') = Inr (0, Some 10)"
proof -
  have k: "irq_key = bytes_of ''interrupts''" by (simp only: bytes_of_def irq_key_def)
  show ?thesis
    using device_lookup_correct [OF board_tree(1) literalD(1-3) [OF literals(1)]] board_values
    unfolding lit_bytes k device_reg_def [symmetric] device_cell_def [symmetric] by (simp add: answer_def)
qed

section \<open>The drivers\<close>

lemma puts_uart: "uart_base (platform_puts str s) = uart_base s" "uart_irq (platform_puts str s) = uart_irq s"
proof -
  have "uart_base (fold (\<lambda>c s. uart_put_translated (of_char c) s) str s) = uart_base s"
    "uart_irq (fold (\<lambda>c s. uart_put_translated (of_char c) s) str s) = uart_irq s"
    by (induction str arbitrary: s) (simp_all add: uart_put_translated_def uart16550_putc_def emit_def)
  then show "uart_base (platform_puts str s) = uart_base s" "uart_irq (platform_puts str s) = uart_irq s"
    by (simp_all add: platform_puts_def uart16550_puts_def)
qed

lemma uart_init_values:
  "uart_base (uart16550_init s) = (case (uart_reg_lookup s, uart_irq_lookup s) of (Some base, Some irq) \<Rightarrow> base | _ \<Rightarrow> uart_base s)"
  "uart_irq (uart16550_init s) = (case (uart_reg_lookup s, uart_irq_lookup s) of (Some base, Some irq) \<Rightarrow> irq | _ \<Rightarrow> uart_irq s)"
  by (auto simp: uart16550_init_def puts_uart uart_ier_write_def emit_def uart16550_parse_dt_params_def Let_def split: option.splits)

text \<open>C25: The drivers find the devices of the tree: with the blob of a tree the serial port gets the address and the interrupt of the first
  \<open>ns16550a\<close> node, and stays as it is when one of them is missing; the interrupt controller gets the address of the first \<open>riscv,plic0\<close>
  node or, when there is none, \<open>sifive,plic-1.0.0\<close> node, and its number of sources or 32; and the time base is the \<open>timebase-frequency\<close> of \<open>/cpus\<close>, or 10 MHz.\<close>

theorem drivers_find_devices:
  assumes "holds_tree f strs t" "g_dtb s \<noteq> 0" "plic_base s = 0" "g_timebase_hz s = 0"
  shows "\<exists>s1. ask_dtb f s = Inr s1
    \<and> (case (device_reg strs ''ns16550a'' t, device_cell strs ''ns16550a'' ''interrupts'' t) of
         (Some (base, len), Some irq) \<Rightarrow> uart_base (uart16550_init s1) = base \<and> uart_irq (uart16550_init s1) = irq
       | _ \<Rightarrow> uart_base (uart16550_init s1) = uart_base s \<and> uart_irq (uart16550_init s1) = uart_irq s)
    \<and> (case device_reg strs (plic_name strs t) t of
         Some (base, len) \<Rightarrow> plic_base (plic_ensure_base s1) = base
           \<and> plic_num_sources (plic_ensure_base s1) =
               (case device_cell strs (plic_name strs t) ''riscv,ndev'' t of Some n \<Rightarrow> if n = 0 then 32 else n | None \<Rightarrow> 32)
       | None \<Rightarrow> plic_ensure_base s1 = s1)
    \<and> fst (platform_timebase_hz s1) = (case child_cell strs ''cpus'' ''timebase-frequency'' t of Some hz \<Rightarrow> if hz = 0 then 10000000 else hz | None \<Rightarrow> 10000000)"
proof -
  note a = ask_dtb_tree [OF assms(1), of s]
  let ?s1 = "s\<lparr>dtb_uart := dt.uart_told (strs, t), dtb_plic := dt.plic_told (strs, t),
    dtb_timer := (device_reg strs ''riscv,aclint-mtimer'' t \<noteq> None,
      device_reg strs ''sifive,clint0'' t \<noteq> None \<or> device_reg strs ''riscv,clint0'' t \<noteq> None), dtb_timebase := child_cell strs ''cpus'' ''timebase-frequency'' t\<rparr>"
  have "uart_reg_lookup ?s1 = map_option fst (device_reg strs ''ns16550a'' t)"
    "device_reg strs ''ns16550a'' t \<noteq> None \<Longrightarrow> uart_irq_lookup ?s1 = device_cell strs ''ns16550a'' ''interrupts'' t"
    using assms(2) no_device [of strs "''ns16550a''" t] by (auto simp: uart_reg_lookup_def uart_irq_lookup_def dt.uart_told_def)
  then have u: "case (device_reg strs ''ns16550a'' t, device_cell strs ''ns16550a'' ''interrupts'' t) of
         (Some (base, len), Some irq) \<Rightarrow> uart_base (uart16550_init ?s1) = base \<and> uart_irq (uart16550_init ?s1) = irq
       | _ \<Rightarrow> uart_base (uart16550_init ?s1) = uart_base s \<and> uart_irq (uart16550_init ?s1) = uart_irq s"
    by (auto simp: uart_init_values split: option.splits)
  have p: "case device_reg strs (plic_name strs t) t of
         Some (base, len) \<Rightarrow> plic_base (plic_ensure_base ?s1) = base
           \<and> plic_num_sources (plic_ensure_base ?s1) =
               (case device_cell strs (plic_name strs t) ''riscv,ndev'' t of Some n \<Rightarrow> if n = 0 then 32 else n | None \<Rightarrow> 32)
       | None \<Rightarrow> plic_ensure_base ?s1 = ?s1"
    using assms(2,3) by (auto simp: plic_ensure_base_def dt.plic_told_def plic_name_def Let_def word_gt_0 split: option.splits)
  have "fst (platform_timebase_hz ?s1) = (case child_cell strs ''cpus'' ''timebase-frequency'' t of Some hz \<Rightarrow> if hz = 0 then 10000000 else hz | None \<Rightarrow> 10000000)"
    using assms(2,4) by (auto simp: platform_timebase_hz_def Let_def split: option.splits)
  with a u p show ?thesis by blast
qed

theorem drivers_find_devices_witness:
  "\<exists>s1. ask_dtb board_dtb (cold0\<lparr>g_dtb := 0x82200000\<rparr>) = Inr s1
    \<and> uart_base (uart16550_init s1) = 0x10000000 \<and> uart_irq (uart16550_init s1) = 10
    \<and> plic_base (plic_ensure_base s1) = 0xc000000 \<and> plic_num_sources (plic_ensure_base s1) = 95 \<and> fst (platform_timebase_hz s1) = 12500000"
proof -
  have "g_dtb (cold0\<lparr>g_dtb := 0x82200000\<rparr>) \<noteq> 0" "plic_base (cold0\<lparr>g_dtb := 0x82200000\<rparr>) = 0"
    "g_timebase_hz (cold0\<lparr>g_dtb := 0x82200000\<rparr>) = 0" by (simp_all add: cold0_def)
  from drivers_find_devices [OF board_tree(1) this] board_values board_plic board_timebase show ?thesis by auto
qed

section \<open>Reads past the end\<close>

text \<open>A list that is not terminated and ends with the string that is looked for makes the search read one byte more than the list has.\<close>

lemma stringlist_reads_past_end: "fdt_stringlist_contains (bytes_of ''ab'') 0 2 (lit ''ab'') = Inl BadIndex"
proof -
  have "buf_memcmp 3 [97, 98, 0] 0 [97, 98] 0 = Inl BadIndex" by (simp add: eval_nat_numeral rd_def)
  then show ?thesis by (simp add: fdt_stringlist_contains_def bytes_of_def lit_def contains_loop.simps buf_strlen.simps rd_def)
qed

text \<open>A total size below 16 makes the bound on the entries of the reservation block wrap around, and the entry is read wherever the header says.\<close>

definition short_dtb :: fdt where
  "short_dtb = \<lparr>fdt_addr = 0, fdt_bytes = be FDT_MAGIC @ be 8 @ be 56 @ be 56 @ be 1000 @ be 17 @ be 16 @ be 0 @ be 0 @ be 0\<rparr>"

lemma mem_rsv_reads_past_end: "fdt_ok short_dtb \<and> fdt_get_mem_rsv short_dtb 0 = Inl BadIndex"
proof -
  let ?f = short_dtb and ?a = "be FDT_MAGIC" and ?b = "be 8 @ be 56 @ be 56"
  have h: "hdr ?f 0 = FDT_MAGIC" "hdr ?f 4 = 8" "hdr ?f 16 = 1000" "hdr ?f 20 = 17" "hdr ?f 24 = 16"
    by (rule hdr_be [of _ "[]"], auto simp: short_dtb_def) (rule hdr_be [of _ ?a] hdr_be [of _ "?a @ ?b"] hdr_be [of _ "?a @ ?b @ be 1000"]
      hdr_be [of _ "?a @ ?b @ be 1000 @ be 17"], auto simp: short_dtb_def)+
  have ok: "fdt_ok ?f" by (simp add: fdt_ok_def h) (simp add: short_dtb_def)
  have "rd (fdt_bytes ?f) 1000 = Inl BadIndex" by (simp add: short_dtb_def rd_def)
  then have "fdt64_ld_int (fdt_bytes ?f) 1000 = Inl BadIndex" by (simp add: fdt64_ld_int_def ld_u64_def)
  then have "fdt_get_mem_rsv ?f 0 = Inl BadIndex"
    by (simp add: fdt_get_mem_rsv_def FDT_RO_PROBE_def fdt_ro_probe_def header_reads [OF ok] h fdt_mem_rsv_def fdt_mem_rsv_raw_def Let_def) (simp add: short_dtb_def)
  with ok show ?thesis by simp
qed

end
