(* ===== verification/Sbi.thy ===== *)
theory Sbi
  imports Kernel_State
begin

text \<open>
  Calls of the firmware (\<open>platform/include/sbi.h\<close>). The instruction \<open>ecall\<close> is the parameter of the model: a function from the
  argument registers and the state of the firmware to the two result registers and the next state. The events of the kernel's
  trace stand for such calls; a firmware that decodes its registers by the binary encoding of the SBI receives the requests
  that the events name, in order.
\<close>

record sbiret =
  sbi_error :: u64
  sbi_value :: u64

record sbi_regs =
  r_a0 :: u64
  r_a1 :: u64
  r_a2 :: u64
  r_a3 :: u64
  r_a4 :: u64
  r_a6 :: u64
  r_a7 :: u64

type_synonym 'w firmware = "sbi_regs \<Rightarrow> 'w \<Rightarrow> (u64 \<times> u64) \<times> 'w"

definition sbi_call :: "'w firmware \<Rightarrow> u64 \<Rightarrow> u64 \<Rightarrow> u64 \<Rightarrow> u64 \<Rightarrow> u64 \<Rightarrow> u64 \<Rightarrow> u64 \<Rightarrow> 'w \<Rightarrow> sbiret \<times> 'w" where
  "sbi_call ecall eid fid arg0 arg1 arg2 arg3 arg4 w =
     (let ((a0, a1), w') = ecall \<lparr>r_a0 = arg0, r_a1 = arg1, r_a2 = arg2, r_a3 = arg3, r_a4 = arg4, r_a6 = fid, r_a7 = eid\<rparr> w
      in (\<lparr>sbi_error = a0, sbi_value = a1\<rparr>, w'))"

definition SBI_EID_TIME :: u64 where [simp]: "SBI_EID_TIME = 0x54494D45"
definition SBI_FID_SET_TIMER :: u64 where [simp]: "SBI_FID_SET_TIMER = 0"
definition SBI_EID_IPI :: u64 where [simp]: "SBI_EID_IPI = 0x735049"
definition SBI_FID_IPI_SEND_IPI :: u64 where [simp]: "SBI_FID_IPI_SEND_IPI = 0"
definition SBI_EID_DBCN :: u64 where [simp]: "SBI_EID_DBCN = 0x4442434E"
definition SBI_FID_DBCN_CONSOLE_WRITE_BYTE :: u64 where [simp]: "SBI_FID_DBCN_CONSOLE_WRITE_BYTE = 2"
definition SBI_EID_HSM :: u64 where [simp]: "SBI_EID_HSM = 0x48534D"
definition SBI_FID_HSM_HART_START :: u64 where [simp]: "SBI_FID_HSM_HART_START = 0"
definition SBI_FID_HSM_HART_STOP :: u64 where [simp]: "SBI_FID_HSM_HART_STOP = 1"
definition SBI_FID_HSM_HART_STATUS :: u64 where [simp]: "SBI_FID_HSM_HART_STATUS = 2"

definition sbi_set_timer :: "'w firmware \<Rightarrow> u64 \<Rightarrow> 'w \<Rightarrow> 'w" where
  "sbi_set_timer ecall stime_value w = snd (sbi_call ecall SBI_EID_TIME SBI_FID_SET_TIMER stime_value 0 0 0 0 w)"

definition sbi_send_ipi :: "'w firmware \<Rightarrow> u64 \<Rightarrow> u64 \<Rightarrow> 'w \<Rightarrow> sbiret \<times> 'w" where
  "sbi_send_ipi ecall hart_mask hart_mask_base w = sbi_call ecall SBI_EID_IPI SBI_FID_IPI_SEND_IPI hart_mask hart_mask_base 0 0 0 w"

definition sbi_dbcn_write_byte :: "'w firmware \<Rightarrow> u8 \<Rightarrow> 'w \<Rightarrow> 'w" where
  "sbi_dbcn_write_byte ecall byte w = snd (sbi_call ecall SBI_EID_DBCN SBI_FID_DBCN_CONSOLE_WRITE_BYTE (ucast byte) 0 0 0 0 w)"

definition sbi_hart_stop :: "'w firmware \<Rightarrow> 'w \<Rightarrow> sbiret \<times> 'w" where
  "sbi_hart_stop ecall w = sbi_call ecall SBI_EID_HSM SBI_FID_HSM_HART_STOP 0 0 0 0 0 w"

definition sbi_hart_start :: "'w firmware \<Rightarrow> u64 \<Rightarrow> u64 \<Rightarrow> u64 \<Rightarrow> 'w \<Rightarrow> sbiret \<times> 'w" where
  "sbi_hart_start ecall hartid start_addr opaque w = sbi_call ecall SBI_EID_HSM SBI_FID_HSM_HART_START hartid start_addr opaque 0 0 w"

definition sbi_hart_status :: "'w firmware \<Rightarrow> u64 \<Rightarrow> 'w \<Rightarrow> sbiret \<times> 'w" where
  "sbi_hart_status ecall hartid w = sbi_call ecall SBI_EID_HSM SBI_FID_HSM_HART_STATUS hartid 0 0 0 0 w"

section \<open>Requests\<close>

text \<open>What the registers ask for, by the binary encoding of the SBI.\<close>

datatype sbi_request = SetTimer u64 | SendIpi u64 u64 | WriteByte u64 | HartStart u64 u64 u64 | HartStop | HartStatus u64

definition sbi_decode :: "sbi_regs \<Rightarrow> sbi_request option" where
  "sbi_decode r =
     (if r_a7 r = 0x54494D45 \<and> r_a6 r = 0 then Some (SetTimer (r_a0 r))
      else if r_a7 r = 0x735049 \<and> r_a6 r = 0 then Some (SendIpi (r_a0 r) (r_a1 r))
      else if r_a7 r = 0x4442434E \<and> r_a6 r = 2 then Some (WriteByte (r_a0 r))
      else if r_a7 r = 0x48534D \<and> r_a6 r = 0 then Some (HartStart (r_a0 r) (r_a1 r) (r_a2 r))
      else if r_a7 r = 0x48534D \<and> r_a6 r = 1 then Some HartStop
      else if r_a7 r = 0x48534D \<and> r_a6 r = 2 then Some (HartStatus (r_a0 r))
      else None)"

text \<open>A firmware that keeps the requests it has decoded; \<open>reply\<close> gives its results.\<close>

definition recording :: "(sbi_request option list \<Rightarrow> u64 \<times> u64) \<Rightarrow> sbi_request option list firmware" where
  "recording reply r w = (reply w, w @ [sbi_decode r])"

lemma sbi_requests:
  "sbi_set_timer (recording reply) t w = w @ [Some (SetTimer t)]"
  "snd (sbi_send_ipi (recording reply) m b w) = w @ [Some (SendIpi m b)]"
  "sbi_dbcn_write_byte (recording reply) c w = w @ [Some (WriteByte (ucast c))]"
  "snd (sbi_hart_stop (recording reply) w) = w @ [Some HartStop]"
  "snd (sbi_hart_start (recording reply) k a p w) = w @ [Some (HartStart k a p)]"
  "snd (sbi_hart_status (recording reply) k w) = w @ [Some (HartStatus k)]"
  by (simp_all add: sbi_set_timer_def sbi_send_ipi_def sbi_dbcn_write_byte_def sbi_hart_stop_def sbi_hart_start_def sbi_hart_status_def
      sbi_call_def recording_def sbi_decode_def Let_def case_prod_unfold)

text \<open>The call behind an event of the kernel; \<open>entry\<close> is the address of \<open>secondary_entry\<close>.\<close>

fun event_call :: "'w firmware \<Rightarrow> u64 \<Rightarrow> kevent \<Rightarrow> 'w \<Rightarrow> 'w" where
  "event_call ecall entry (EvIpi k) w = snd (sbi_send_ipi ecall 1 (of_nat k) w)"
| "event_call ecall entry (EvTimer h t) w = sbi_set_timer ecall t w"
| "event_call ecall entry (EvSbiByte c) w = sbi_dbcn_write_byte ecall c w"
| "event_call ecall entry (EvHartStart k dtb) w = snd (sbi_hart_start ecall (of_nat k) entry dtb w)"
| "event_call ecall entry (EvUart c) w = w"
| "event_call ecall entry (EvUartIer c) w = w"

fun event_request :: "u64 \<Rightarrow> kevent \<Rightarrow> sbi_request list" where
  "event_request entry (EvIpi k) = [SendIpi 1 (of_nat k)]"
| "event_request entry (EvTimer h t) = [SetTimer t]"
| "event_request entry (EvSbiByte c) = [WriteByte (ucast c)]"
| "event_request entry (EvHartStart k dtb) = [HartStart (of_nat k) entry dtb]"
| "event_request entry _ = []"

lemma sbi_trace: "fold (event_call (recording reply) entry) evs w = w @ map Some (concat (map (event_request entry) evs))"
proof (induction evs arbitrary: w)
  case (Cons e evs)
  then show ?case by (cases e) (simp_all add: sbi_requests)
qed simp

end
