(* ===== verification/Log.thy ===== *)
theory Log
  imports Sysfile Digits
begin

text \<open>
  The kernel log (\<open>lib/log.c\<close>, \<open>lib/log_baremetal.c\<close>) in the configuration of \<open>config/log_config.h\<close>: no time
  stamps, the in-memory ring enabled. A message is formatted into a local buffer, then, under \<open>g_log_lock\<close>,
  appended to the ring and handed to the writer.

  \<^item> A character buffer that is filled from its start is the list of the bytes written so far; \<open>pos\<close> is its length.
  \<^item> Strings are given by their bytes without the terminator, a pointer to a string by an option.
  \<^item> The variable arguments are a list of strings and 64-bit slots. An argument that was not passed, or passed with another type,
    and a format read beyond its terminator are \<open>BadIndex\<close>.
  \<^item> What happens between \<open>LOG_LOCK\<close> and \<open>LOG_UNLOCK\<close> is one step; the lock itself is in theory Spinlock.

  The formatter is proved equal to a reference formatter on lists, the ring is shown to hold the last bytes logged, and
  both are put together in the property of a log call.
\<close>

section \<open>Filling a buffer\<close>

definition log_append_char :: "int \<Rightarrow> u8 \<Rightarrow> u8 list \<Rightarrow> u8 list" where
  "log_append_char mx c buf = (if int (length buf) < mx - 1 then buf @ [c] else buf)"

text \<open>\<open>while (*s && *pos < max - 1) buf[(*pos)++] = *s++\<close>\<close>

fun log_put :: "int \<Rightarrow> u8 list \<Rightarrow> u8 list \<Rightarrow> u8 list" where
  "log_put mx [] buf = buf"
| "log_put mx (c # cs) buf = (if int (length buf) < mx - 1 then log_put mx cs (buf @ [c]) else buf)"

definition ascii_bytes :: "string \<Rightarrow> u8 list" where
  "ascii_bytes str = map of_char str"

definition log_append_str :: "int \<Rightarrow> u8 list option \<Rightarrow> u8 list \<Rightarrow> u8 list" where
  "log_append_str mx s buf =
     log_put mx (case s of None \<Rightarrow> ascii_bytes ''(null)'' | Some bs \<Rightarrow> bs) buf"

text \<open>The digits of \<open>v\<close> in \<open>tmp[32]\<close>, least significant first.\<close>

function log_digits :: "u32 \<Rightarrow> bool \<Rightarrow> u64 \<Rightarrow> u8 list \<Rightarrow> u8 list" where
  "log_digits base upper v tmp =
     (if v \<noteq> 0 \<and> length tmp < 32
      then let digit = (ucast (v mod ucast base) :: u32);
               ch = (if digit < 10 then 48 + ucast digit else (if upper then 65 else 97) + ucast (digit - 10))
           in log_digits base upper (v div ucast base) (tmp @ [ch])
      else tmp)"
  by pat_completeness auto
termination
  by (relation "measure (\<lambda>(base, upper, v, tmp). 32 - length tmp)") auto

declare log_digits.simps [simp del]

text \<open>\<open>while (pad_count-- > 0 && *pos < max - 1) buf[(*pos)++] = pad\<close>\<close>

fun log_pad :: "int \<Rightarrow> u8 \<Rightarrow> nat \<Rightarrow> u8 list \<Rightarrow> u8 list" where
  "log_pad mx pad 0 buf = buf"
| "log_pad mx pad (Suc n) buf =
     (if int (length buf) < mx - 1 then log_pad mx pad n (buf @ [pad]) else buf)"

definition log_append_uint :: "int \<Rightarrow> u64 \<Rightarrow> u32 \<Rightarrow> bool \<Rightarrow> int \<Rightarrow> u8 \<Rightarrow> u8 list \<Rightarrow> u8 list" where
  "log_append_uint mx v base upper width pad buf =
     (let tmp = (if v = 0 then [48] else log_digits base upper v []);
          num = int (length tmp);
          width' = (if width < num then num else width)
      in log_put mx (rev tmp) (log_pad mx pad (nat (width' - num)) buf))"

section \<open>The formatter\<close>

datatype log_arg = LogStr "u8 list option" | LogInt u64

definition log_va_int :: "log_arg list \<Rightarrow> (u64 \<Rightarrow> log_arg list \<Rightarrow> 'a kres) \<Rightarrow> 'a kres" where
  "log_va_int ap k = (case ap of LogInt a # ap' \<Rightarrow> k a ap' | _ \<Rightarrow> Inl BadIndex)"

definition log_va_str :: "log_arg list \<Rightarrow> (u8 list option \<Rightarrow> log_arg list \<Rightarrow> 'a kres) \<Rightarrow> 'a kres" where
  "log_va_str ap k = (case ap of LogStr a # ap' \<Rightarrow> k a ap' | _ \<Rightarrow> Inl BadIndex)"

text \<open>Width digits; \<open>int\<close> arithmetic at 32 bits.\<close>

fun log_width :: "u32 \<Rightarrow> u8 list \<Rightarrow> u32 \<times> u8 list" where
  "log_width width (c # r) =
     (if 48 \<le> c \<and> c \<le> 57 then log_width (width * 10 + ucast (c - 48)) r else (width, c # r))"
| "log_width width [] = (width, [])"

definition log_len_mod :: "u8 list \<Rightarrow> nat \<times> u8 list" where
  "log_len_mod r =
     (case r of
        [] \<Rightarrow> (0, [])
      | c # r1 \<Rightarrow>
          if c = 108
          then (case r1 of [] \<Rightarrow> (1, []) | c2 # r2 \<Rightarrow> if c2 = 108 then (2, r2) else (1, r1))
          else (0, r))"

text \<open>From behind the \<open>%\<close> to the specifier: the padding character, the width, the length modifier, and the
  format from the specifier on.\<close>

definition log_spec :: "u8 list \<Rightarrow> u8 \<times> int \<times> nat \<times> u8 list" where
  "log_spec r =
     (let (pad, r1) = (case r of [] \<Rightarrow> (32, []) | c # r' \<Rightarrow> if c = 48 then (48, r') else (32, r));
          (width, r2) = log_width 0 r1;
          (len_mod, r3) = log_len_mod r2
      in (pad, sint width, len_mod, r3))"

text \<open>The \<open>switch (spec)\<close>: what is appended to the buffer, and the arguments left.\<close>

definition log_convert ::
    "int \<Rightarrow> u8 \<Rightarrow> int \<Rightarrow> nat \<Rightarrow> u8 \<Rightarrow> log_arg list \<Rightarrow> u8 list \<Rightarrow> (u8 list \<times> log_arg list) kres" where
  "log_convert dst_size pad width len_mod spec ap buf =
     (if spec = 115 then log_va_str ap (\<lambda>s ap'. Inr (log_append_str dst_size s buf, ap'))
      else if spec = 99 then log_va_int ap (\<lambda>c ap'. Inr (log_append_char dst_size (ucast c) buf, ap'))
      else if spec = 100 \<or> spec = 105
      then log_va_int ap (\<lambda>a ap'.
             let v = (if len_mod = 0 then scast (ucast a :: u32) else a) in
             if v <s 0
             then Inr (log_append_uint dst_size (- v) 10 False (if width > 0 then width - 1 else width) pad
                         (log_append_char dst_size 45 buf), ap')
             else Inr (log_append_uint dst_size v 10 False width pad buf, ap'))
      else if spec = 117
      then log_va_int ap (\<lambda>a ap'.
             let v = (if len_mod = 0 then ucast (ucast a :: u32) else a) in
             Inr (log_append_uint dst_size v 10 False width pad buf, ap'))
      else if spec = 120 \<or> spec = 88
      then log_va_int ap (\<lambda>a ap'.
             let v = (if len_mod = 0 then ucast (ucast a :: u32) else a) in
             Inr (log_append_uint dst_size v 16 (spec = 88) width pad buf, ap'))
      else if spec = 112
      then log_va_int ap (\<lambda>a ap'.
             Inr (log_append_uint dst_size a 16 False 0 32
                    (log_append_str dst_size (Some (ascii_bytes ''0x'')) buf), ap'))
      else Inr (log_append_char dst_size spec (log_append_char dst_size 37 buf), ap))"

lemma log_width_length: "log_width w r = (w', r') \<Longrightarrow> length r' \<le> length r"
  by (induction w r rule: log_width.induct) (auto split: if_splits)

lemma log_spec_length: "log_spec r = (pad, width, len_mod, r') \<Longrightarrow> length r' \<le> length r"
  by (auto simp: log_spec_def log_len_mod_def Let_def split: prod.splits list.splits if_splits dest!: log_width_length)

text \<open>When the format ends within a directive, the terminator is taken for the specifier and the next round reads
  beyond it.\<close>

function log_vformat_loop :: "int \<Rightarrow> u8 list \<Rightarrow> log_arg list \<Rightarrow> u8 list \<Rightarrow> u8 list kres" where
  "log_vformat_loop dst_size fmt ap buf =
     (case fmt of
        [] \<Rightarrow> Inr buf
      | c # r \<Rightarrow>
          if \<not> int (length buf) < dst_size - 1 then Inr buf
          else if c \<noteq> 37 then log_vformat_loop dst_size r ap (log_append_char dst_size c buf)
          else if r \<noteq> [] \<and> hd r = 37 then log_vformat_loop dst_size (tl r) ap (log_append_char dst_size 37 buf)
          else (case log_spec r of
              (pad, width, len_mod, []) \<Rightarrow> Inl BadIndex
            | (pad, width, len_mod, spec # r') \<Rightarrow>
                (case log_convert dst_size pad width len_mod spec ap buf of
                   Inl e \<Rightarrow> Inl e
                 | Inr (buf', ap') \<Rightarrow> log_vformat_loop dst_size r' ap' buf')))"
  by pat_completeness auto
termination
  by (relation "measure (\<lambda>(dst_size, fmt, ap, buf). length fmt)")
    (auto dest!: sym [of _ "log_spec _"] log_spec_length simp: less_Suc_eq_le intro: le_trans [OF diff_le_self])

declare log_vformat_loop.simps [simp del]

text \<open>The result is the text in \<open>dst\<close>; its length is what the C function returns.\<close>

definition log_vformat :: "int \<Rightarrow> u8 list \<Rightarrow> log_arg list \<Rightarrow> u8 list kres" where
  "log_vformat dst_size fmt ap = log_vformat_loop dst_size fmt ap []"

definition log_isprint :: "u8 \<Rightarrow> bool" where
  "log_isprint c \<longleftrightarrow> 0x20 \<le> c \<and> c \<le> 0x7E"

section \<open>State and settings\<close>

definition LOG_LEVEL_OFF :: u32 where "LOG_LEVEL_OFF = 0"
definition LOG_LEVEL_ERROR :: u32 where "LOG_LEVEL_ERROR = 1"
definition LOG_LEVEL_WARN :: u32 where "LOG_LEVEL_WARN = 2"
definition LOG_LEVEL_INFO :: u32 where "LOG_LEVEL_INFO = 3"
definition LOG_LEVEL_DEBUG :: u32 where "LOG_LEVEL_DEBUG = 4"
definition LOG_LEVEL_TRACE :: u32 where "LOG_LEVEL_TRACE = 5"

definition LOG_COMPILE_LEVEL :: u32 where "LOG_COMPILE_LEVEL = LOG_LEVEL_DEBUG"
definition LOG_RUNTIME_DEFAULT_LEVEL :: u32 where "LOG_RUNTIME_DEFAULT_LEVEL = LOG_LEVEL_DEBUG"
definition LOG_BUFFER_SIZE :: int where "LOG_BUFFER_SIZE = 256"
definition LOG_RING_BUFFER_SIZE :: u64 where "LOG_RING_BUFFER_SIZE = 2048"

datatype log_path_mode_t = LOG_PATH_NONE | LOG_PATH_BASENAME | LOG_PATH_FULL

definition LOG_DEFAULT_PATH_MODE :: log_path_mode_t where "LOG_DEFAULT_PATH_MODE = LOG_PATH_BASENAME"

text \<open>The one writer that the kernel installs.\<close>

datatype log_write_fn_t = LOG_PLATFORM_WRITER

record log_state =
  s_write_fn :: "log_write_fn_t option"
  s_log_level :: u32
  s_path_mode :: log_path_mode_t
  s_ring_buf :: "nat \<Rightarrow> u8"
  s_ring_head :: u64
  s_ring_size :: u64

definition log_init :: "log_write_fn_t option \<Rightarrow> log_state \<Rightarrow> log_state" where
  "log_init fn g = g\<lparr>s_write_fn := fn\<rparr>"

definition log_set_level :: "u32 \<Rightarrow> log_state \<Rightarrow> log_state" where
  "log_set_level level g = g\<lparr>s_log_level := level\<rparr>"

definition log_get_level :: "log_state \<Rightarrow> u32" where
  "log_get_level g = s_log_level g"

definition log_set_path_mode :: "log_path_mode_t \<Rightarrow> log_state \<Rightarrow> log_state" where
  "log_set_path_mode mode g = g\<lparr>s_path_mode := mode\<rparr>"

definition log_get_path_mode :: "log_state \<Rightarrow> log_path_mode_t" where
  "log_get_path_mode g = s_path_mode g"

definition log_level_to_string :: "u32 \<Rightarrow> string" where
  "log_level_to_string level =
     (if level = LOG_LEVEL_ERROR then ''E'' else if level = LOG_LEVEL_WARN then ''W''
      else if level = LOG_LEVEL_INFO then ''I'' else if level = LOG_LEVEL_DEBUG then ''D''
      else if level = LOG_LEVEL_TRACE then ''T'' else ''?'')"

definition log_level_to_full_string :: "u32 \<Rightarrow> string" where
  "log_level_to_full_string level =
     (if level = LOG_LEVEL_OFF then ''OFF'' else if level = LOG_LEVEL_ERROR then ''ERROR''
      else if level = LOG_LEVEL_WARN then ''WARN'' else if level = LOG_LEVEL_INFO then ''INFO''
      else if level = LOG_LEVEL_DEBUG then ''DEBUG'' else if level = LOG_LEVEL_TRACE then ''TRACE''
      else ''UNKNOWN'')"

section \<open>The ring\<close>

text \<open>The loop that stores the bytes, with \<open>i\<close> bytes stored.\<close>

fun ring_store :: "u64 \<Rightarrow> nat \<Rightarrow> u8 list \<Rightarrow> (nat \<Rightarrow> u8) \<Rightarrow> (nat \<Rightarrow> u8)" where
  "ring_store head i [] rb = rb"
| "ring_store head i (c # cs) rb =
     ring_store head (Suc i) cs (rb(unat ((head + of_nat i) mod LOG_RING_BUFFER_SIZE) := c))"

definition ring_write :: "u8 list \<Rightarrow> log_state \<Rightarrow> log_state" where
  "ring_write data g =
     (if data = [] then g
      else let over = length data - unat LOG_RING_BUFFER_SIZE;
               data' = (if length data > unat LOG_RING_BUFFER_SIZE then drop over data else data);
               len = (of_nat (length data') :: u64)
           in g\<lparr>s_ring_buf := ring_store (s_ring_head g) 0 data' (s_ring_buf g),
                s_ring_head := (s_ring_head g + len) mod LOG_RING_BUFFER_SIZE,
                s_ring_size := (if s_ring_size g + len \<ge> LOG_RING_BUFFER_SIZE then LOG_RING_BUFFER_SIZE
                                else s_ring_size g + len)\<rparr>)"

definition log_ring_size :: "log_state \<Rightarrow> u64" where
  "log_ring_size g = s_ring_size g"

definition log_ring_capacity :: u64 where
  "log_ring_capacity = LOG_RING_BUFFER_SIZE"

definition log_ring_clear :: "log_state \<Rightarrow> log_state" where
  "log_ring_clear g = g\<lparr>s_ring_size := 0\<rparr>"

text \<open>The bytes are stored at \<open>out\<close> in memory.\<close>

definition ring_peek_internal :: "u64 \<Rightarrow> u64 \<Rightarrow> log_state \<Rightarrow> kstate \<Rightarrow> u64 \<times> kstate" where
  "ring_peek_internal out maxlen g s =
     (if s_ring_size g = 0 \<or> maxlen = 0 then (0, s)
      else let to_read = (if s_ring_size g < maxlen then s_ring_size g else maxlen);
               tail = (s_ring_head g + LOG_RING_BUFFER_SIZE - s_ring_size g) mod LOG_RING_BUFFER_SIZE
           in (to_read,
               fold (\<lambda>i s. s\<lparr>heap_u8 := (heap_u8 s)
                      (out + of_nat i := s_ring_buf g (unat ((tail + of_nat i) mod LOG_RING_BUFFER_SIZE)))\<rparr>)
                 [0..<unat to_read] s))"

definition log_ring_peek :: "u64 \<Rightarrow> u64 \<Rightarrow> log_state \<Rightarrow> kstate \<Rightarrow> u64 \<times> log_state \<times> kstate" where
  "log_ring_peek out maxlen g s = (case ring_peek_internal out maxlen g s of (n, s') \<Rightarrow> (n, g, s'))"

definition log_ring_read :: "u64 \<Rightarrow> u64 \<Rightarrow> log_state \<Rightarrow> kstate \<Rightarrow> u64 \<times> log_state \<times> kstate" where
  "log_ring_read out maxlen g s =
     (case ring_peek_internal out maxlen g s of (n, s') \<Rightarrow>
        (n, if n > 0 then g\<lparr>s_ring_size := s_ring_size g - n\<rparr> else g, s'))"

section \<open>Log calls\<close>

text \<open>\<open>log_platform_writer\<close> of \<open>log_baremetal.c\<close>.\<close>

definition log_platform_writer :: "u8 list \<Rightarrow> kstate \<Rightarrow> kstate" where
  "log_platform_writer buf s =
     fold (\<lambda>c s. platform_putc c (if c = CH_NL then platform_putc CH_CR s else s)) buf s"

definition log_write_fn :: "log_write_fn_t option \<Rightarrow> u8 list \<Rightarrow> kstate \<Rightarrow> kstate" where
  "log_write_fn fn buf s = (case fn of None \<Rightarrow> s | Some LOG_PLATFORM_WRITER \<Rightarrow> log_platform_writer buf s)"

text \<open>The loop that looks for the last separator: what is left of the path, and the candidate for the result.\<close>

fun log_basename :: "u8 list \<Rightarrow> u8 list \<Rightarrow> u8 list" where
  "log_basename [] base = base"
| "log_basename (c # p) base = log_basename p (if c = 47 \<or> c = 92 then p else base)"

definition log_prefix ::
    "u32 \<Rightarrow> u8 list option \<Rightarrow> int \<Rightarrow> u8 list option \<Rightarrow> log_path_mode_t \<Rightarrow> u8 list" where
  "log_prefix level file line func mode =
     (let b1 = log_append_char LOG_BUFFER_SIZE 91 [];
          b2 = log_append_str LOG_BUFFER_SIZE (Some (ascii_bytes (log_level_to_string level))) b1;
          b3 = log_append_char LOG_BUFFER_SIZE 93 b2;
          b4 = log_append_char LOG_BUFFER_SIZE 32 b3;
          b5 = (case file of
                  None \<Rightarrow> b4
                | Some f \<Rightarrow>
                    if mode = LOG_PATH_NONE then b4
                    else let file_to_print = (if mode = LOG_PATH_BASENAME then log_basename f f else f);
                             c1 = log_append_str LOG_BUFFER_SIZE (Some file_to_print) b4;
                             c2 = log_append_char LOG_BUFFER_SIZE 58 c1;
                             c3 = log_append_uint LOG_BUFFER_SIZE (word_of_int line) 10 False 0 32 c2
                         in log_append_char LOG_BUFFER_SIZE 32 c3)
      in (case func of
            None \<Rightarrow> b5
          | Some f \<Rightarrow> log_append_str LOG_BUFFER_SIZE (Some (ascii_bytes ''(): ''))
                        (log_append_str LOG_BUFFER_SIZE (Some f) b5)))"

definition log_vprintf ::
    "u32 \<Rightarrow> u8 list option \<Rightarrow> int \<Rightarrow> u8 list option \<Rightarrow> u8 list \<Rightarrow> log_arg list \<Rightarrow> log_state \<Rightarrow> kstate
     \<Rightarrow> (int \<times> log_state \<times> kstate) kres" where
  "log_vprintf level file line func fmt ap g s =
     (if level \<le> LOG_LEVEL_OFF \<or> level > s_log_level g then Inr (0, g, s)
      else let pre = log_prefix level file line func (s_path_mode g) in
        bindE (log_vformat (LOG_BUFFER_SIZE - int (length pre)) fmt ap) (\<lambda>body.
          let buf = pre @ body;
              buf' = (if int (length buf) < LOG_BUFFER_SIZE - 1 then buf @ [10] else buf)
          in Inr (int (length buf'), ring_write buf' g, log_write_fn (s_write_fn g) buf' s)))"

definition log_printf ::
    "u32 \<Rightarrow> u8 list option \<Rightarrow> int \<Rightarrow> u8 list option \<Rightarrow> u8 list \<Rightarrow> log_arg list \<Rightarrow> log_state \<Rightarrow> kstate
     \<Rightarrow> (int \<times> log_state \<times> kstate) kres" where
  "log_printf level file line func fmt args g s = log_vprintf level file line func fmt args g s"

text \<open>The macro behind \<open>pr_err\<close>, \<open>pr_warn\<close>, \<open>pr_info\<close>, \<open>pr_debug\<close>.\<close>

definition LOG_DO_PRINT ::
    "u32 \<Rightarrow> u8 list \<Rightarrow> int \<Rightarrow> u8 list \<Rightarrow> u8 list \<Rightarrow> log_arg list \<Rightarrow> log_state \<Rightarrow> kstate
     \<Rightarrow> (log_state \<times> kstate) kres" where
  "LOG_DO_PRINT level file line func fmt args g s =
     (if level \<le> LOG_COMPILE_LEVEL
      then bindE (log_printf level (Some file) line (Some func) fmt args g s) (\<lambda>(n, g', s'). Inr (g', s'))
      else Inr (g, s))"

section \<open>Hexdump, panic, initialisation\<close>

definition hex_digits :: "u8 list" where
  "hex_digits = ascii_bytes ''0123456789ABCDEF''"

text \<open>The loop over the bytes of one line: \<open>hexbuf\<close> and \<open>asciibuf\<close>.\<close>

fun hexdump_chunk :: "u8 list \<Rightarrow> u8 list \<Rightarrow> u8 list \<Rightarrow> u8 list \<times> u8 list" where
  "hexdump_chunk [] hexbuf asciibuf = (hexbuf, asciibuf)"
| "hexdump_chunk (b # bs) hexbuf asciibuf =
     hexdump_chunk bs
       (if length hexbuf + 3 < 3 * 16 + 1
        then hexbuf @ [hex_digits ! unat (drop_bit 4 b AND 0xF), hex_digits ! unat (b AND 0xF), 32] else hexbuf)
       (asciibuf @ [if log_isprint b then b else 46])"

definition hexdump_fmt :: "u8 list" where
  "hexdump_fmt = ascii_bytes ''%s%X: %s |%s|''"

text \<open>\<open>while (offset < len)\<close>, with \<open>left = len - offset\<close> bytes to go.\<close>

function log_hexdump_loop ::
    "u32 \<Rightarrow> u8 list option \<Rightarrow> int \<Rightarrow> u8 list option \<Rightarrow> u64 \<Rightarrow> u8 list option \<Rightarrow> nat \<Rightarrow> nat \<Rightarrow> log_state \<Rightarrow> kstate
     \<Rightarrow> (log_state \<times> kstate) kres" where
  "log_hexdump_loop level file line func p prefix offset left g s =
     (if left = 0 then Inr (g, s)
      else let chunk = (if left > 16 then 16 else left);
               (hexbuf, asciibuf) = hexdump_chunk (load_bytes (p + of_nat offset) chunk (heap_u8 s)) [] []
           in (case log_printf level file line func hexdump_fmt
                 [LogStr (Some (case prefix of None \<Rightarrow> [] | Some x \<Rightarrow> x)), LogInt (of_nat offset),
                  LogStr (Some hexbuf), LogStr (Some asciibuf)] g s of
                 Inl e \<Rightarrow> Inl e
               | Inr (n, g', s') \<Rightarrow> log_hexdump_loop level file line func p prefix (offset + chunk) (left - chunk) g' s'))"
  by pat_completeness auto
termination
  by (relation "measure (\<lambda>(level, file, line, func, p, prefix, offset, left, g, s). left)") auto

declare log_hexdump_loop.simps [simp del]

definition log_hexdump ::
    "u32 \<Rightarrow> u8 list option \<Rightarrow> int \<Rightarrow> u8 list option \<Rightarrow> u64 \<Rightarrow> u64 \<Rightarrow> u8 list option \<Rightarrow> log_state \<Rightarrow> kstate
     \<Rightarrow> (log_state \<times> kstate) kres" where
  "log_hexdump level file line func data len prefix g s =
     (if level \<le> LOG_LEVEL_OFF \<or> level > s_log_level g then Inr (g, s)
      else log_hexdump_loop level file line func data prefix 0 (unat len) g s)"

text \<open>The message is logged, then the hart loops for ever; the result is that it does not return.\<close>

definition log_panicf_internal ::
    "u8 list \<Rightarrow> int \<Rightarrow> u8 list \<Rightarrow> log_arg list \<Rightarrow> log_state \<Rightarrow> kstate \<Rightarrow> (log_state \<times> kstate) kres" where
  "log_panicf_internal file line fmt args g s =
     bindE (log_vprintf LOG_LEVEL_ERROR (Some file) line (Some (ascii_bytes ''PANIC'')) fmt args g s)
       (\<lambda>_. Inl Diverges)"

text \<open>\<open>__FILE__\<close> and \<open>__LINE__\<close> of the message are parameters, as they depend on the build.\<close>

definition log_init_baremetal :: "u8 list \<Rightarrow> int \<Rightarrow> log_state \<Rightarrow> kstate \<Rightarrow> (log_state \<times> kstate) kres" where
  "log_init_baremetal file line g s =
     (let g1 = log_init (Some LOG_PLATFORM_WRITER) g;
          g2 = log_set_level LOG_RUNTIME_DEFAULT_LEVEL g1;
          g3 = log_set_path_mode LOG_DEFAULT_PATH_MODE g2;
          lvl = log_get_level g3
      in LOG_DO_PRINT LOG_LEVEL_INFO file line (ascii_bytes ''log_init_baremetal'')
           (ascii_bytes ''log system initialized (runtime level=%d/%s)'')
           [LogInt (ucast lvl), LogStr (Some (ascii_bytes (log_level_to_full_string lvl)))] g3 s)"

section \<open>What the formatter prints\<close>

text \<open>The text of a format: a list of directives, \<open>None\<close> when the format ends within one; and the text of each.\<close>

datatype log_item = LogLit u8 | LogConv u8 int nat u8

function log_items :: "u8 list \<Rightarrow> log_item list option" where
  "log_items fmt =
     (case fmt of
        [] \<Rightarrow> Some []
      | c # r \<Rightarrow>
          if c \<noteq> 37 then map_option (Cons (LogLit c)) (log_items r)
          else if r \<noteq> [] \<and> hd r = 37 then map_option (Cons (LogLit 37)) (log_items (tl r))
          else (case log_spec r of
              (pad, width, len_mod, []) \<Rightarrow> None
            | (pad, width, len_mod, spec # r') \<Rightarrow> map_option (Cons (LogConv pad width len_mod spec)) (log_items r')))"
  by pat_completeness auto
termination
  by (relation "measure length")
    (auto dest!: sym [of _ "log_spec _"] log_spec_length simp: less_Suc_eq_le intro: le_trans [OF diff_le_self])

declare log_items.simps [simp del]

definition digit_text :: "bool \<Rightarrow> nat \<Rightarrow> u8" where
  "digit_text upper d = (if d < 10 then of_nat (48 + d) else (if upper then 65 else 97) + of_nat (d - 10))"

definition number_text :: "nat \<Rightarrow> bool \<Rightarrow> nat \<Rightarrow> u8 list" where
  "number_text base upper n =
     map (digit_text upper) (num_digits base n)"

definition right_aligned :: "u8 \<Rightarrow> int \<Rightarrow> u8 list \<Rightarrow> u8 list" where
  "right_aligned pad width bs = replicate (nat width - length bs) pad @ bs"

definition item_text :: "u8 \<Rightarrow> int \<Rightarrow> nat \<Rightarrow> u8 \<Rightarrow> log_arg list \<Rightarrow> (u8 list \<times> log_arg list) kres" where
  "item_text pad width len_mod spec ap =
     (let narrow = (len_mod = 0) in
      if spec = 115 then log_va_str ap (\<lambda>s ap'. Inr (case s of None \<Rightarrow> ascii_bytes ''(null)'' | Some bs \<Rightarrow> bs, ap'))
      else if spec = 99 then log_va_int ap (\<lambda>c ap'. Inr ([ucast c], ap'))
      else if spec \<in> {100, 105}
      then log_va_int ap (\<lambda>a ap'.
             let i = (if narrow then sint (ucast a :: u32) else sint a) in
             Inr (if i < 0 then 45 # right_aligned pad (width - 1) (number_text 10 False (nat (- i)))
                  else right_aligned pad width (number_text 10 False (nat i)), ap'))
      else if spec \<in> {117, 120, 88}
      then log_va_int ap (\<lambda>a ap'.
             let n = (if narrow then unat (ucast a :: u32) else unat a) in
             Inr (right_aligned pad width (number_text (if spec = 117 then 10 else 16) (spec = 88) n), ap'))
      else if spec = 112
      then log_va_int ap (\<lambda>a ap'. Inr (ascii_bytes ''0x'' @ number_text 16 False (unat a), ap'))
      else Inr ([37, spec], ap))"

fun items_text :: "log_item list \<Rightarrow> log_arg list \<Rightarrow> u8 list kres" where
  "items_text [] ap = Inr []"
| "items_text (LogLit c # is) ap = bindE (items_text is ap) (\<lambda>t. Inr (c # t))"
| "items_text (LogConv pad width len_mod spec # is) ap =
     bindE (item_text pad width len_mod spec ap) (\<lambda>(t, ap'). bindE (items_text is ap') (\<lambda>t'. Inr (t @ t')))"

definition log_text :: "u8 list \<Rightarrow> log_arg list \<Rightarrow> u8 list kres" where
  "log_text fmt ap = (case log_items fmt of None \<Rightarrow> Inl BadIndex | Some is \<Rightarrow> items_text is ap)"

text \<open>A buffer of \<open>n\<close> bytes filled with text: one byte is left for the terminator.\<close>

definition fill :: "int \<Rightarrow> u8 list \<Rightarrow> u8 list" where
  "fill n bs = take (nat (n - 1)) bs"

lemma fill_fill [simp]: "fill n (fill n bs @ cs) = fill n (bs @ cs)"
  by (cases "length bs \<le> nat (n - 1)") (simp_all add: fill_def)

lemma fill_full: "\<not> int (length (fill n bs)) < n - 1 \<Longrightarrow> fill n bs = fill n (bs @ cs)"
  by (auto simp: fill_def)

lemma fill_room: "int (length (fill n bs)) < n - 1 \<Longrightarrow> fill n bs = bs"
  by (auto simp: fill_def)

lemma log_append_char_fill: "log_append_char n c (fill n bs) = fill n (bs @ [c])"
proof (cases "int (length (fill n bs)) < n - 1")
  case True
  note R = fill_room [OF True]
  then have "fill n (bs @ [c]) = bs @ [c]" using True by (simp add: fill_def)
  then show ?thesis using True R by (simp add: log_append_char_def)
next
  case False
  then show ?thesis using fill_full [OF False, of "[c]"] by (simp add: log_append_char_def)
qed

lemma log_put_fill: "log_put n cs (fill n bs) = fill n (bs @ cs)"
proof (induction cs arbitrary: bs)
  case (Cons c cs)
  show ?case
  proof (cases "int (length (fill n bs)) < n - 1")
    case True
    then have "fill n bs @ [c] = fill n (bs @ [c])" using log_append_char_fill [of n c bs] by (simp add: log_append_char_def)
    then show ?thesis using True Cons.IH [of "bs @ [c]"] by simp
  next
    case False
    then show ?thesis using fill_full [OF False, of "c # cs"] by simp
  qed
qed simp

lemma log_pad_put: "log_pad n pad k buf = log_put n (replicate k pad) buf"
  by (induction k arbitrary: buf) simp_all

text \<open>The digits that the conversion of a number produces fit into \<open>tmp[32]\<close>.\<close>

lemma log_digits_eq:
  assumes "2 \<le> unat base" "unat base \<le> 16" "length tmp + length (udigits (unat base) (unat v)) \<le> 32"
  shows "log_digits base upper v tmp = tmp @ map (digit_text upper) (udigits (unat base) (unat v))"
  using assms(3)
proof (induction "unat v" arbitrary: v tmp rule: less_induct)
  case less
  show ?case
  proof (cases "v = 0")
    case True
    then show ?thesis by (simp add: log_digits.simps)
  next
    case False
    let ?b = "unat base" and ?d = "ucast (v mod ucast base) :: u32"
    note m = word_digit [OF assms(1,2), of v]
    have u: "udigits ?b (unat v) = unat v mod ?b # udigits ?b (unat v div ?b)"
      using False assms(1) by (simp add: udigits_step unat_gt_0)
    have c: "(if ?d < 10 then 48 + ucast ?d else (if upper then 65 else 97) + ucast (?d - 10)) = digit_text upper (unat v mod ?b)"
      unfolding digit_byte m by (simp add: digit_text_def)
    have "unat v div ?b < unat v" using False assms(1) by (simp add: unat_gt_0 div_less_dividend)
    then have "log_digits base upper (v div ucast base) (tmp @ [digit_text upper (unat v mod ?b)])
        = (tmp @ [digit_text upper (unat v mod ?b)]) @ map (digit_text upper) (udigits ?b (unat v div ?b))"
      using less(1) [of "v div ucast base" "tmp @ [digit_text upper (unat v mod ?b)]"] less(2) by (simp add: m u)
    then show ?thesis using False less(2) by (subst log_digits.simps) (simp add: Let_def c u)
  qed
qed

lemma udigits_word_length: "10 \<le> b \<Longrightarrow> length (udigits b (unat (v :: u64))) \<le> 20"
proof (rule udigits_length)
  assume "10 \<le> b"
  have "unat v < 10 ^ 20" using unat_lt [of v] by (rule less_le_trans) simp
  also have "10 ^ 20 \<le> b ^ 20" using \<open>10 \<le> b\<close> by (rule power_mono) simp
  finally show "unat v < b ^ 20" .
qed simp

lemma log_append_uint_fill:
  assumes "base = 10 \<or> base = 16"
  shows "log_append_uint n v base upper width pad (fill n bs)
    = fill n (bs @ right_aligned pad width (number_text (unat base) upper (unat v)))"
proof -
  have b: "2 \<le> unat base" "unat base \<le> 16" "10 \<le> unat base" using assms by auto
  let ?tmp = "if v = 0 then [48] else log_digits base upper v []"
  have t: "rev ?tmp = number_text (unat base) upper (unat v)"
    using log_digits_eq [of base "[]" v upper] b udigits_word_length [OF b(3), of v]
    by (auto simp: number_text_def num_digits_def rev_map digit_text_def unat_eq_0)
  have l: "length ?tmp = length (number_text (unat base) upper (unat v))" unfolding t [symmetric] by simp
  have w: "nat ((if width < int k then int k else width) - int k) = nat width - k" for k
    by auto
  show ?thesis
    unfolding log_append_uint_def Let_def w log_pad_put log_put_fill t
    by (simp add: l right_aligned_def)
qed

lemma word_abs:
  fixes v :: u64
  shows "v <s 0 \<longleftrightarrow> sint v < 0" "sint v < 0 \<Longrightarrow> unat (- v) = nat (- sint v)" "0 \<le> sint v \<Longrightarrow> unat v = nat (sint v)"
proof -
  have r: "- (2 ^ 63) \<le> sint v" "sint v < 2 ^ 63" using sint_range_size [of v] by (simp_all add: word_size)
  show "v <s 0 \<longleftrightarrow> sint v < 0" by (simp add: word_sless_alt)
  have k: "unat (word_of_int i :: u64) = nat i" if "0 \<le> i" "i \<le> 2 ^ 63" for i
    using that by (simp add: unat_eq_nat_uint uint_word_of_int take_bit_int_eq_self)
  show "unat (- v) = nat (- sint v)" if "sint v < 0" using k [of "- sint v"] r that by simp
  show "unat v = nat (sint v)" if "0 \<le> sint v" using k [of "sint v"] r that by simp
qed

lemma sint_scast_32: "sint (scast (x :: u32) :: u64) = sint x"
  using sint_range_size [of x] by (simp add: signed_scast_eq word_size signed_take_bit_int_eq_self)

lemma right_aligned_dec: "right_aligned pad (if 0 < w then w - 1 else w) bs = right_aligned pad (w - 1) bs"
  by (simp add: right_aligned_def)

lemmas log_fill = log_append_char_fill log_append_str_def log_put_fill log_append_uint_fill

lemma log_convert_fill:
  assumes "item_text pad width len_mod spec ap = Inr (t, ap')"
  shows "log_convert n pad width len_mod spec ap (fill n bs) = Inr (fill n (bs @ t), ap')"
proof (cases "spec = 100 \<or> spec = 105")
  case True
  then obtain a where ap: "ap = LogInt a # ap'"
    using assms by (auto simp: item_text_def log_va_int_def Let_def split: list.splits log_arg.splits)
  define v where "v = (if len_mod = 0 then scast (ucast a :: u32) else a)"
  have i: "(if len_mod = 0 then sint (ucast a :: u32) else sint a) = sint v"
    by (simp add: v_def sint_scast_32)
  have t: "t = (if sint v < 0 then 45 # right_aligned pad (width - 1) (number_text 10 False (nat (- sint v)))
                else right_aligned pad width (number_text 10 False (nat (sint v))))"
    using assms True unfolding ap item_text_def Let_def log_va_int_def i [symmetric] by auto
  show ?thesis using True
    by (auto simp: ap log_convert_def log_va_int_def Let_def v_def [symmetric] word_abs log_fill right_aligned_dec t)
next
  case False
  then show ?thesis using assms
    by (auto simp: log_convert_def item_text_def log_va_int_def log_va_str_def Let_def log_fill right_aligned_def
        split: list.splits log_arg.splits if_splits option.splits)
qed

lemma log_vformat_loop_fill:
  assumes "log_items fmt = Some is" "items_text is ap = Inr t"
  shows "log_vformat_loop n fmt ap (fill n bs) = Inr (fill n (bs @ t))"
  using assms
proof (induction "length fmt" arbitrary: fmt "is" ap t bs rule: less_induct)
  case less
  show ?case
  proof (cases fmt)
    case Nil
    then show ?thesis using less.prems by (simp add: log_items.simps log_vformat_loop.simps)
  next
    case F: (Cons c r)
    note U = log_items.simps [of "c # r"] log_items.simps [of "37 # r"]
      log_vformat_loop.simps [of n "c # r"] log_vformat_loop.simps [of n "37 # r"]
    show ?thesis
    proof (cases "int (length (fill n bs)) < n - 1")
      case False
      then show ?thesis using F fill_full [OF False, of t] by (simp add: U)
    next
      case room: True
      have lit: ?thesis if "log_items r' = Some is'" "is = LogLit x # is'" "length r' < length fmt"
          "log_vformat_loop n fmt ap (fill n bs) = log_vformat_loop n r' ap (log_append_char n x (fill n bs))" for r' is' x
      proof -
        note W = that
        obtain t' where "items_text is' ap = Inr t'" "t = x # t'" using W(2) less.prems(2) by (auto simp: bindE_eq_Inr)
        then show ?thesis using less.hyps [OF W(3,1), of ap t' "bs @ [x]"] W(4) by (simp add: log_append_char_fill)
      qed
      consider "c \<noteq> 37" | "c = 37" "r \<noteq> []" "hd r = 37" | "c = 37" "\<not> (r \<noteq> [] \<and> hd r = 37)" by blast
      then show ?thesis
      proof cases
        case 1
        then obtain is' where "log_items r = Some is'" "is = LogLit c # is'" using less.prems(1) F by (auto simp: U)
        then show ?thesis using lit [of r is' c] 1 F room by (simp add: U)
      next
        case 2
        then obtain is' where "log_items (tl r) = Some is'" "is = LogLit 37 # is'" using less.prems(1) F by (auto simp: U)
        then show ?thesis using lit [of "tl r" is' 37] 2 F room by (simp add: U)
      next
        case 3
        obtain pad width lm r1 where S: "log_spec r = (pad, width, lm, r1)" by (cases "log_spec r") auto
        then obtain spec r' is' where L: "r1 = spec # r'" "log_items r' = Some is'" "is = LogConv pad width lm spec # is'"
          using less.prems(1) F 3 by (auto simp: U split: list.splits)
        have len: "length r' < length fmt" using log_spec_length [OF S] L(1) F by simp
        obtain t1 ap1 t2 where T: "item_text pad width lm spec ap = Inr (t1, ap1)" "items_text is' ap1 = Inr t2" "t = t1 @ t2"
          using less.prems(2) L(3) by (auto simp: bindE_eq_Inr)
        have "log_vformat_loop n fmt ap (fill n bs) = log_vformat_loop n r' ap1 (fill n (bs @ t1))"
          using F 3 room S L(1) log_convert_fill [OF T(1), of n bs] by (auto simp: U)
        then show ?thesis using less.hyps [OF len L(2) T(2), of "bs @ t1"] T(3) by simp
      qed
    qed
  qed
qed

lemma log_vformat_fill: "log_text fmt ap = Inr t \<Longrightarrow> log_vformat n fmt ap = Inr (fill n t)"
  using log_vformat_loop_fill [of fmt _ ap t n "[]"] by (auto simp: log_text_def log_vformat_def fill_def split: option.splits)

text \<open>The prefix of a message.\<close>

definition file_name :: "u8 list \<Rightarrow> u8 list" where
  "file_name f = rev (takeWhile (\<lambda>c. c \<noteq> 47 \<and> c \<noteq> 92) (rev f))"

definition prefix_text :: "u32 \<Rightarrow> u8 list option \<Rightarrow> int \<Rightarrow> u8 list option \<Rightarrow> log_path_mode_t \<Rightarrow> u8 list" where
  "prefix_text level file line func mode =
     ascii_bytes ''['' @ ascii_bytes (log_level_to_string level) @ ascii_bytes ''] ''
     @ (case (file, mode) of
          (Some f, LOG_PATH_BASENAME) \<Rightarrow>
            file_name f @ ascii_bytes '':'' @ number_text 10 False (unat (word_of_int line :: u64)) @ ascii_bytes '' ''
        | (Some f, LOG_PATH_FULL) \<Rightarrow>
            f @ ascii_bytes '':'' @ number_text 10 False (unat (word_of_int line :: u64)) @ ascii_bytes '' ''
        | _ \<Rightarrow> [])
     @ (case func of None \<Rightarrow> [] | Some f \<Rightarrow> f @ ascii_bytes ''(): '')"

lemma log_basename_eq:
  "log_basename p base = (if \<exists>c\<in>set p. c = 47 \<or> c = 92 then file_name p else base)"
proof (induction p arbitrary: base)
  case (Cons c p)
  have "file_name (c # p) = (if \<exists>c\<in>set p. c = 47 \<or> c = 92 then file_name p
      else if c = 47 \<or> c = 92 then p else c # p)"
    by (auto simp: file_name_def takeWhile_append takeWhile_eq_all_conv)
  then show ?case using Cons.IH by auto
qed simp

lemma log_basename_file_name: "log_basename f f = file_name f"
  by (auto simp: log_basename_eq file_name_def takeWhile_eq_all_conv [THEN iffD2])

lemma log_prefix_fill: "log_prefix level file line func mode = fill LOG_BUFFER_SIZE (prefix_text level file line func mode)"
proof -
  have e: "log_append_char LOG_BUFFER_SIZE 91 [] = fill LOG_BUFFER_SIZE [91]"
    using log_append_char_fill [of LOG_BUFFER_SIZE 91 "[]"] by (simp add: fill_def)
  show ?thesis
    unfolding log_prefix_def Let_def e
    by (cases "file"; cases mode; cases func)
      (simp_all add: log_fill log_basename_file_name prefix_text_def ascii_bytes_def right_aligned_def)
qed

text \<open>A whole line, as it would be without the limit of the buffer.\<close>

definition log_line ::
    "u32 \<Rightarrow> u8 list option \<Rightarrow> int \<Rightarrow> u8 list option \<Rightarrow> log_path_mode_t \<Rightarrow> u8 list \<Rightarrow> u8 list" where
  "log_line level file line func mode body =
     fill LOG_BUFFER_SIZE (prefix_text level file line func mode @ body @ [10])"

lemma log_vprintf_line:
  assumes "LOG_LEVEL_OFF < level" "level \<le> s_log_level g" "log_text fmt ap = Inr body"
    and out: "out = log_line level file line func (s_path_mode g) body"
  shows "log_vprintf level file line func fmt ap g s
    = Inr (int (length out), ring_write out g, log_write_fn (s_write_fn g) out s)"
proof -
  let ?p = "prefix_text level file line func (s_path_mode g)" and ?n = LOG_BUFFER_SIZE
  have b: "fill ?n ?p @ fill (?n - int (length (fill ?n ?p))) body = fill ?n (?p @ body)"
    by (simp add: fill_def nat_diff_distrib LOG_BUFFER_SIZE_def min_def)
  have o: "(if int (length (fill ?n (?p @ body))) < ?n - 1 then fill ?n (?p @ body) @ [10] else fill ?n (?p @ body)) = out"
    using log_append_char_fill [of ?n 10 "?p @ body"] by (simp add: log_append_char_def out log_line_def)
  have "\<not> (level \<le> LOG_LEVEL_OFF \<or> level > s_log_level g)" using assms(1,2) by auto
  then show ?thesis
    by (simp only: log_vprintf_def if_False Let_def log_prefix_fill log_vformat_fill [OF assms(3)] bindE_simps b o)
qed

lemma log_platform_writer_eq: "log_platform_writer bs s = s\<lparr>k_events := k_events s @ map EvUart (crlf bs)\<rparr>"
  unfolding log_platform_writer_def
  by (induction bs arbitrary: s) (simp_all add: platform_putc_def uart16550_putc_def emit_def crlf_def)

section \<open>The ring holds the latest bytes\<close>

definition last_n :: "nat \<Rightarrow> 'a list \<Rightarrow> 'a list" where
  "last_n k xs = drop (length xs - k) xs"

lemma last_n_append [simp]: "last_n k (last_n k xs @ ys) = last_n k (xs @ ys)"
  by (cases "k \<le> length xs") (simp_all add: last_n_def add.commute)

lemma last_n_drop: "last_n k (xs @ drop (length ys - k) ys) = last_n k (xs @ ys)"
  by (cases "k \<le> length ys") (simp_all add: last_n_def)

text \<open>What a client of a bounded history may rely on: appending keeps the latest \<open>cap\<close> entries, reading removes the oldest.\<close>

locale history =
  fixes inv :: "'s \<Rightarrow> bool" and contents :: "'s \<Rightarrow> 'a list" and cap :: nat
    and append :: "'a list \<Rightarrow> 's \<Rightarrow> 's" and amount :: "'n \<Rightarrow> nat" and consume :: "'n \<Rightarrow> 's \<Rightarrow> 's"
  assumes append_law: "inv s \<Longrightarrow> inv (append xs s) \<and> contents (append xs s) = last_n cap (contents s @ xs)"
    and consume_law: "inv s \<Longrightarrow> inv (consume n s) \<and> contents (consume n s) = drop (amount n) (contents s)"
begin

lemma append_all: "inv s \<Longrightarrow> xss \<noteq> [] \<Longrightarrow>
  inv (fold append xss s) \<and> contents (fold append xss s) = last_n cap (contents s @ concat xss)"
proof (induction xss arbitrary: s)
  case (Cons xs xss)
  note A = append_law [OF Cons.prems(1), of xs]
  show ?case
  proof (cases "xss = []")
    case True
    then show ?thesis using A by simp
  next
    case False
    then show ?thesis using Cons.IH [of "append xs s"] A by simp
  qed
qed simp

lemma append_consume:
  "inv s \<Longrightarrow> xss \<noteq> [] \<Longrightarrow> contents (consume n (fold append xss s)) = drop (amount n) (last_n cap (contents s @ concat xss))"
  using append_all [of s xss] consume_law [of "fold append xss s" n] by simp

end

definition LRB :: nat where "LRB = 2048"

definition ring_ok :: "log_state \<Rightarrow> bool" where
  "ring_ok g \<longleftrightarrow> unat (s_ring_head g) < LRB \<and> unat (s_ring_size g) \<le> LRB"

definition ring_tail :: "log_state \<Rightarrow> nat" where
  "ring_tail g = (unat (s_ring_head g) + LRB - unat (s_ring_size g)) mod LRB"

definition ring_list :: "log_state \<Rightarrow> u8 list" where
  "ring_list g = map (\<lambda>i. s_ring_buf g ((ring_tail g + i) mod LRB)) [0..<unat (s_ring_size g)]"

lemma ring_list_bound: "ring_ok g \<Longrightarrow> length (ring_list g) \<le> LRB"
  by (simp add: ring_ok_def ring_list_def)

text \<open>One byte.\<close>

definition ring_put :: "u8 \<Rightarrow> log_state \<Rightarrow> log_state" where
  "ring_put c g = g\<lparr>s_ring_buf := (s_ring_buf g)(unat (s_ring_head g) := c),
     s_ring_head := (s_ring_head g + 1) mod LOG_RING_BUFFER_SIZE,
     s_ring_size := (if s_ring_size g + 1 \<ge> LOG_RING_BUFFER_SIZE then LOG_RING_BUFFER_SIZE else s_ring_size g + 1)\<rparr>"

lemma ring_word: "unat LOG_RING_BUFFER_SIZE = LRB"
  by (simp add: LOG_RING_BUFFER_SIZE_def LRB_def)

lemma ring_add_mod:
  "unat (h :: u64) < LRB \<Longrightarrow> n \<le> LRB \<Longrightarrow> unat ((h + of_nat n) mod LOG_RING_BUFFER_SIZE) = (unat h + n) mod LRB"
  by (simp add: unat_mod unat_word_ariths ring_word unat_of_nat LRB_def)

lemma ring_put_view:
  assumes "ring_ok g"
  shows "unat (s_ring_head (ring_put c g)) = (unat (s_ring_head g) + 1) mod LRB"
    "unat (s_ring_size (ring_put c g)) = min LRB (unat (s_ring_size g) + 1)"
    "s_ring_buf (ring_put c g) = (s_ring_buf g)(unat (s_ring_head g) := c)"
proof -
  have "unat (s_ring_size g + 1) = unat (s_ring_size g) + 1"
    using assms by (simp add: ring_ok_def unat_word_ariths LRB_def)
  then show "unat (s_ring_size (ring_put c g)) = min LRB (unat (s_ring_size g) + 1)"
    by (simp add: ring_put_def word_le_nat_alt ring_word)
  show "unat (s_ring_head (ring_put c g)) = (unat (s_ring_head g) + 1) mod LRB"
    using assms ring_add_mod [of "s_ring_head g" 1] by (simp add: ring_put_def ring_ok_def LRB_def)
  show "s_ring_buf (ring_put c g) = (s_ring_buf g)(unat (s_ring_head g) := c)" by (simp add: ring_put_def)
qed

lemma ring_put_ok: "ring_ok g \<Longrightarrow> ring_ok (ring_put c g)"
  unfolding ring_ok_def [of "ring_put c g"] ring_put_view by (simp add: LRB_def)

lemma ring_put_list:
  assumes ok: "ring_ok g"
  shows "ring_list (ring_put c g) = last_n LRB (ring_list g @ [c])"
proof -
  let ?h = "unat (s_ring_head g)" and ?n = "unat (s_ring_size g)"
  have b: "?h < LRB" "?n \<le> LRB" using ok by (simp_all add: ring_ok_def)
  note V = ring_put_view [OF ok, of c]
  show ?thesis
  proof (cases "?n = LRB")
    case True
    have t: "ring_tail g = ?h" using b True by (simp add: ring_tail_def)
    have t': "ring_tail (ring_put c g) = (?h + 1) mod LRB" unfolding ring_tail_def V using True by simp
    have ne: "(?h + 1 + i) mod LRB \<noteq> ?h" if "i < LRB - 1" for i using that b by (auto simp: LRB_def mod_if)
    have e: "(?h + 1 + (LRB - 1)) mod LRB = ?h" using b by (simp add: LRB_def)
    have sz: "unat (s_ring_size (ring_put c g)) = LRB" using V(2) True by simp
    have up: "[0..<LRB] = [0..<LRB - 1] @ [LRB - 1]" using upt_Suc_append [of 0 "LRB - 1"] by (simp only: LRB_def) simp
    have "ring_list (ring_put c g) = map (\<lambda>i. s_ring_buf g ((?h + Suc i) mod LRB)) [0..<LRB - 1] @ [c]"
      unfolding ring_list_def sz V(3) t' up using e ne by (simp add: mod_simps)
    moreover have "ring_list g = s_ring_buf g (?h mod LRB) # map (\<lambda>i. s_ring_buf g ((?h + Suc i) mod LRB)) [0..<LRB - 1]"
    proof -
      have "[0..<Suc k] = 0 # map Suc [0..<k]" for k by (simp only: map_Suc_upt upt_conv_Cons zero_less_Suc)
      from this [of "LRB - 1"] have "[0..<LRB] = 0 # map Suc [0..<LRB - 1]" by (simp only: LRB_def) simp
      then show ?thesis unfolding ring_list_def True t by simp
    qed
    ultimately show ?thesis by (simp add: last_n_def LRB_def)
  next
    case False
    then have n: "?n < LRB" using b by simp
    have t': "ring_tail (ring_put c g) = ring_tail g"
      unfolding ring_tail_def V using n b by (auto simp: min_def LRB_def mod_if)
    have e: "(ring_tail g + ?n) mod LRB = ?h" using n b by (auto simp: ring_tail_def LRB_def mod_if)
    have ne: "(ring_tail g + i) mod LRB \<noteq> ?h" if "i < ?n" for i
      using that n b by (auto simp: ring_tail_def LRB_def mod_if split: if_splits)
    have "unat (s_ring_size (ring_put c g)) = Suc ?n" unfolding V using n by simp
    then have "ring_list (ring_put c g) = ring_list g @ [c]"
      by (simp add: ring_list_def t' V(3) e) (use ne in simp)
    then show ?thesis using n by (simp add: last_n_def ring_list_def)
  qed
qed

lemma ring_store_shift:
  assumes "unat h < LRB" "Suc i + length cs \<le> LRB"
  shows "ring_store h (Suc i) cs rb = ring_store ((h + 1) mod LOG_RING_BUFFER_SIZE) i cs rb"
  using assms(2)
proof (induction cs arbitrary: i rb)
  case (Cons c cs)
  let ?h1 = "(h + 1) mod LOG_RING_BUFFER_SIZE"
  have h1: "unat ?h1 = (unat h + 1) mod LRB" using ring_add_mod [OF assms(1), of 1] by (simp add: LRB_def)
  then have lt: "unat ?h1 < LRB" by (simp add: LRB_def)
  have "unat ((h + of_nat (Suc i)) mod LOG_RING_BUFFER_SIZE) = (unat h + Suc i) mod LRB"
    by (rule ring_add_mod [OF assms(1)]) (use Cons.prems in simp)
  moreover have "unat ((?h1 + of_nat i) mod LOG_RING_BUFFER_SIZE) = (unat ?h1 + i) mod LRB"
    by (rule ring_add_mod [OF lt]) (use Cons.prems in simp)
  ultimately have "unat ((h + of_nat (Suc i)) mod LOG_RING_BUFFER_SIZE) = unat ((?h1 + of_nat i) mod LOG_RING_BUFFER_SIZE)"
    unfolding h1 by (simp add: mod_simps)
  then show ?case using Cons.IH [of "Suc i"] Cons.prems by (simp del: of_nat_Suc)
qed simp

lemma ring_write_Cons:
  assumes ok: "ring_ok g" and len: "length (c # cs) \<le> LRB"
  shows "ring_write (c # cs) g = ring_write cs (ring_put c g)"
proof -
  let ?g = "ring_put c g" and ?n = "of_nat (length cs) :: u64" and ?N = LOG_RING_BUFFER_SIZE
  have b: "unat (s_ring_head g) < LRB" "unat (s_ring_size g) \<le> LRB" using ok by (simp_all add: ring_ok_def)
  have n: "unat ?n = length cs" using len by (simp add: unat_of_nat LRB_def)
  have h0: "s_ring_head g mod ?N = s_ring_head g"
    using b(1) by (simp add: word_unat_eq_iff unat_mod ring_word)
  have st: "ring_store (s_ring_head g) 0 (c # cs) (s_ring_buf g) = ring_store (s_ring_head ?g) 0 cs (s_ring_buf ?g)"
    using ring_store_shift [OF b(1), of 0 cs] len by (simp add: ring_put_def h0)
  have hd: "(s_ring_head g + (1 + ?n)) mod ?N = (s_ring_head ?g + ?n) mod ?N"
  proof -
    have "unat (s_ring_head ?g) < LRB" using ring_put_ok [OF ok] by (simp add: ring_ok_def)
    from ring_add_mod [OF this, of "length cs"] ring_add_mod [OF b(1), of "length (c # cs)"] len
    show ?thesis unfolding ring_put_view [OF ok] by (simp add: word_unat_eq_iff mod_simps)
  qed
  have sz: "(if s_ring_size g + (1 + ?n) \<ge> ?N then ?N else s_ring_size g + (1 + ?n))
      = (if s_ring_size ?g + ?n \<ge> ?N then ?N else s_ring_size ?g + ?n)"
  proof -
    have "unat (s_ring_size g + (1 + ?n)) = unat (s_ring_size g) + length (c # cs)"
      using b(2) len n by (simp add: unat_word_ariths LRB_def)
    moreover have "unat (s_ring_size ?g + ?n) = min LRB (unat (s_ring_size g) + 1) + length cs"
      using b(2) len n ring_put_view(2) [OF ok, of c] by (simp add: unat_word_ariths LRB_def)
    ultimately show ?thesis by (auto simp: word_unat_eq_iff word_le_nat_alt ring_word min_def split: if_splits)
  qed
  show ?thesis
  proof (cases "cs = []")
    case True
    then show ?thesis using hd sz st len by (simp add: ring_write_def ring_word ring_put_def h0)
  next
    case False
    have "\<not> LRB < length (c # cs)" "\<not> LRB < length cs" using len by auto
    then have A: "ring_write (c # cs) g = g\<lparr>s_ring_buf := ring_store (s_ring_head g) 0 (c # cs) (s_ring_buf g),
        s_ring_head := (s_ring_head g + (1 + ?n)) mod ?N,
        s_ring_size := (if s_ring_size g + (1 + ?n) \<ge> ?N then ?N else s_ring_size g + (1 + ?n))\<rparr>"
      and B: "ring_write cs ?g = ?g\<lparr>s_ring_buf := ring_store (s_ring_head ?g) 0 cs (s_ring_buf ?g),
        s_ring_head := (s_ring_head ?g + ?n) mod ?N,
        s_ring_size := (if s_ring_size ?g + ?n \<ge> ?N then ?N else s_ring_size ?g + ?n)\<rparr>"
      using False by (simp_all add: ring_write_def ring_word Let_def)
    have C: "?g\<lparr>s_ring_buf := x, s_ring_head := y, s_ring_size := z\<rparr> = g\<lparr>s_ring_buf := x, s_ring_head := y, s_ring_size := z\<rparr>"
      for x y z by (simp add: ring_put_def)
    show ?thesis unfolding A B C st hd sz ..
  qed
qed

lemma ring_write_short:
  assumes "ring_ok g" "length cs \<le> LRB"
  shows "ring_ok (ring_write cs g) \<and> ring_list (ring_write cs g) = last_n LRB (ring_list g @ cs)"
  using assms
proof (induction cs arbitrary: g)
  case Nil
  then show ?case using ring_list_bound [of g] by (simp add: ring_write_def last_n_def)
next
  case (Cons c cs)
  then show ?case
    using Cons.IH [of "ring_put c g"] ring_put_ok [of g c] ring_put_list [of g c] by (simp add: ring_write_Cons)
qed

lemma ring_write_law:
  assumes "ring_ok g"
  shows "ring_ok (ring_write cs g) \<and> ring_list (ring_write cs g) = last_n LRB (ring_list g @ cs)"
proof (cases "LRB < length cs")
  case True
  then have "cs \<noteq> []" "drop (length cs - LRB) cs \<noteq> []" "length (drop (length cs - LRB) cs) = LRB" by (auto simp: LRB_def)
  then have "ring_write cs g = ring_write (drop (length cs - LRB) cs) g"
    using True by (simp add: ring_write_def ring_word Let_def)
  then show ?thesis using ring_write_short [OF assms, of "drop (length cs - LRB) cs"] by (simp add: last_n_drop)
next
  case False
  then show ?thesis using ring_write_short [OF assms] by simp
qed

text \<open>Reading copies the oldest bytes to memory.\<close>

lemma fold_store:
  "fold (\<lambda>i s. s\<lparr>heap_u8 := (heap_u8 s)(out + of_nat i := f i)\<rparr>) [0..<k] s
    = s\<lparr>heap_u8 := store_bytes out (map f [0..<k]) (heap_u8 s)\<rparr>"
  (is "fold ?f _ s = _")
proof (induction k)
  case (Suc k)
  have a: "fold ?f [0..<Suc k] s = ?f k (fold ?f [0..<k] s)" by simp
  show ?case unfolding a Suc.IH by (simp add: store_bytes_append fun_upd_def)
qed simp

lemma ring_peek_law:
  assumes "ring_ok g"
  shows "ring_peek_internal out maxlen g s = (of_nat (min (length (ring_list g)) (unat maxlen)),
    s\<lparr>heap_u8 := store_bytes out (take (unat maxlen) (ring_list g)) (heap_u8 s)\<rparr>)"
proof (cases "s_ring_size g = 0 \<or> maxlen = 0")
  case True
  then show ?thesis by (auto simp: ring_peek_internal_def ring_list_def)
next
  case False
  let ?n = "if s_ring_size g < maxlen then s_ring_size g else maxlen"
  let ?t = "(s_ring_head g + LOG_RING_BUFFER_SIZE - s_ring_size g) mod LOG_RING_BUFFER_SIZE"
  have b: "unat (s_ring_head g) < LRB" "unat (s_ring_size g) \<le> LRB" using assms by (simp_all add: ring_ok_def)
  have "unat (s_ring_head g + LOG_RING_BUFFER_SIZE) = unat (s_ring_head g) + LRB"
    using b by (simp add: unat_word_ariths ring_word) (simp add: LRB_def)
  then have t: "unat ?t = ring_tail g"
    using b by (simp add: unat_mod ring_word ring_tail_def unat_sub word_le_nat_alt)
  then have lt: "unat ?t < LRB" by (simp add: ring_tail_def LRB_def)
  have n: "unat ?n = min (length (ring_list g)) (unat maxlen)"
    by (simp add: ring_list_def word_less_nat_alt min_def)
  have idx: "unat ((?t + of_nat i) mod LOG_RING_BUFFER_SIZE) = (ring_tail g + i) mod LRB" if "i < unat ?n" for i
    using ring_add_mod [OF lt, of i] that n b(2) unfolding t by (simp add: ring_list_def)
  have "map (\<lambda>i. s_ring_buf g (unat ((?t + of_nat i) mod LOG_RING_BUFFER_SIZE))) [0..<unat ?n]
      = map (\<lambda>i. s_ring_buf g ((ring_tail g + i) mod LRB)) [0..<unat ?n]"
    using idx by simp
  also have "\<dots> = take (unat maxlen) (ring_list g)"
    unfolding n by (cases "unat maxlen \<le> unat (s_ring_size g)") (simp_all add: ring_list_def take_map take_upt)
  finally have m: "map (\<lambda>i. s_ring_buf g (unat ((?t + of_nat i) mod LOG_RING_BUFFER_SIZE))) [0..<unat ?n]
      = take (unat maxlen) (ring_list g)" .
  have r: "of_nat (min (length (ring_list g)) (unat maxlen)) = ?n" unfolding n [symmetric] by (simp del: of_nat_min unat_of_nat)
  show ?thesis using False unfolding ring_peek_internal_def Let_def fold_store m r by simp
qed

lemma ring_read_law:
  assumes ok: "ring_ok g"
  shows "\<exists>g'. log_ring_read out maxlen g s = (of_nat (min (length (ring_list g)) (unat maxlen)), g',
      s\<lparr>heap_u8 := store_bytes out (take (unat maxlen) (ring_list g)) (heap_u8 s)\<rparr>)
    \<and> ring_ok g' \<and> ring_list g' = drop (unat maxlen) (ring_list g)"
proof -
  let ?k = "min (length (ring_list g)) (unat maxlen)" and ?n = "unat (s_ring_size g)"
  define w where "w = (of_nat ?k :: u64)"
  define g1 where "g1 = g\<lparr>s_ring_size := s_ring_size g - w\<rparr>"
  have b: "unat (s_ring_head g) < LRB" "?n \<le> LRB" and l: "length (ring_list g) = ?n"
    using ok by (simp_all add: ring_ok_def ring_list_def)
  have w: "unat w = ?k" using b l by (simp add: w_def unat_of_nat LRB_def)
  have sz: "unat (s_ring_size g1) = ?n - unat maxlen"
    using w l by (simp add: g1_def unat_sub word_le_nat_alt)
  have v: "s_ring_head g1 = s_ring_head g" "s_ring_buf g1 = s_ring_buf g" by (simp_all add: g1_def)
  have "ring_list g1 = drop (unat maxlen) (ring_list g)"
  proof (rule nth_equalityI)
    show "length (ring_list g1) = length (drop (unat maxlen) (ring_list g))"
      by (simp add: ring_list_def sz)
    fix i assume "i < length (ring_list g1)"
    then have i: "i < ?n - unat maxlen" by (simp add: ring_list_def sz)
    then have "unat (s_ring_head g) + LRB - (?n - unat maxlen) = unat (s_ring_head g) + LRB - ?n + unat maxlen"
      using b by simp
    then have "ring_tail g1 = (ring_tail g + unat maxlen) mod LRB"
      unfolding ring_tail_def sz v by (simp add: mod_simps)
    then have "(ring_tail g1 + i) mod LRB = (ring_tail g + (unat maxlen + i)) mod LRB"
      by (simp add: mod_simps add.assoc)
    then show "ring_list g1 ! i = drop (unat maxlen) (ring_list g) ! i"
      using i less_diff_conv [of i ?n "unat maxlen"] by (simp add: ring_list_def sz v add.commute [of i])
  qed
  moreover have "log_ring_read out maxlen g s = (w, g1,
      s\<lparr>heap_u8 := store_bytes out (take (unat maxlen) (ring_list g)) (heap_u8 s)\<rparr>)"
    unfolding log_ring_read_def ring_peek_law [OF ok] prod.case w_def [symmetric]
    by (cases "w = 0") (simp_all add: g1_def word_gt_0)
  moreover have "ring_ok g1" using b sz v by (simp add: ring_ok_def)
  ultimately show ?thesis unfolding w_def by blast
qed

interpretation ring: history ring_ok ring_list LRB ring_write "\<lambda>(out, maxlen, s). unat maxlen"
  "\<lambda>(out, maxlen, s) g. fst (snd (log_ring_read out maxlen g s))"
proof unfold_locales
  show "ring_ok (ring_write xs g) \<and> ring_list (ring_write xs g) = last_n LRB (ring_list g @ xs)" if "ring_ok g" for g xs
    by (rule ring_write_law [OF that])
  show "ring_ok ((\<lambda>(out, maxlen, s) g. fst (snd (log_ring_read out maxlen g s))) n g)
      \<and> ring_list ((\<lambda>(out, maxlen, s) g. fst (snd (log_ring_read out maxlen g s))) n g)
        = drop ((\<lambda>(out, maxlen, s). unat maxlen) n) (ring_list g)" if "ring_ok g" for g and n :: "u64 \<times> u64 \<times> kstate"
  proof -
    obtain out maxlen s where n: "n = (out, maxlen, s)" by (cases n) auto
    show ?thesis using ring_read_law [OF that, of out maxlen s] unfolding n by auto
  qed
qed

section \<open>Hexdump lines\<close>

lemma hexdump_items: "log_items hexdump_fmt = Some [LogConv 32 0 0 115, LogConv 32 0 0 88, LogLit 58, LogLit 32,
    LogConv 32 0 0 115, LogLit 32, LogLit 124, LogConv 32 0 0 115, LogLit 124]"
  by (simp add: hexdump_fmt_def ascii_bytes_def log_items.simps log_spec_def log_len_mod_def Let_def)

lemma hexdump_text:
  "log_text hexdump_fmt [LogStr (Some pre), LogInt (of_nat offset), LogStr (Some hx), LogStr (Some asc)]
    = Inr (pre @ number_text 16 True (unat (of_nat offset :: u32)) @ ascii_bytes '': '' @ hx @ ascii_bytes '' |'' @ asc @ ascii_bytes ''|'')"
proof -
  have u: "(ucast (of_nat offset :: u64) :: u32) = of_nat offset" by (rule bit_word_eqI) (simp add: bit_simps)
  show ?thesis
    by (simp add: log_text_def hexdump_items item_text_def log_va_str_def log_va_int_def Let_def right_aligned_def ascii_bytes_def u)
qed

text \<open>A hexdump comes to its end for every region and prefix.\<close>

lemma log_printf_returns:
  assumes "log_text fmt ap = Inr body"
  shows "\<exists>n g' s'. log_printf level f ln fn fmt ap g s = Inr (n, g', s')"
proof (cases "LOG_LEVEL_OFF < level \<and> level \<le> s_log_level g")
  case True
  then show ?thesis using log_vprintf_line [OF _ _ assms refl] by (simp add: log_printf_def)
next
  case False
  then have "level \<le> LOG_LEVEL_OFF \<or> level > s_log_level g" by auto
  then show ?thesis by (simp add: log_printf_def log_vprintf_def)
qed

lemma log_hexdump_returns: "returns (log_hexdump level f ln fn data len prefix g s)"
proof -
  have "returns (log_hexdump_loop level f ln fn data prefix offset left g s)" for offset left g s
  proof (induction left arbitrary: offset g s rule: less_induct)
    case (less left)
    obtain hx asc where h: "hexdump_chunk (load_bytes (data + of_nat offset) (if left > 16 then 16 else left) (heap_u8 s)) [] [] = (hx, asc)"
      by fastforce
    obtain n g' s' where "log_printf level f ln fn hexdump_fmt
        [LogStr (Some (case prefix of None \<Rightarrow> [] | Some x \<Rightarrow> x)), LogInt (of_nat offset), LogStr (Some hx), LogStr (Some asc)] g s = Inr (n, g', s')"
      using log_printf_returns [OF hexdump_text] by blast
    then show ?case using less h by (subst log_hexdump_loop.simps) (simp add: Let_def)
  qed
  then show ?thesis by (simp add: log_hexdump_def)
qed

section \<open>A run of log calls\<close>

text \<open>A call of \<open>log_printf\<close>: level, file, line, function, format and arguments.\<close>

type_synonym log_call = "u32 \<times> u8 list option \<times> int \<times> u8 list option \<times> u8 list \<times> log_arg list"

fun log_run :: "log_call list \<Rightarrow> log_state \<Rightarrow> kstate \<Rightarrow> (log_state \<times> kstate) kres" where
  "log_run [] g s = Inr (g, s)"
| "log_run ((level, file, line, func, fmt, ap) # cs) g s =
     bindE (log_printf level file line func fmt ap g s) (\<lambda>(n, g', s'). log_run cs g' s')"

text \<open>The line that a call stands for; nothing when its level is filtered.\<close>

fun call_line :: "u32 \<Rightarrow> log_path_mode_t \<Rightarrow> log_call \<Rightarrow> u8 list kres" where
  "call_line limit mode (level, file, line, func, fmt, ap) =
     (if LOG_LEVEL_OFF < level \<and> level \<le> limit
      then bindE (log_text fmt ap) (\<lambda>body. Inr (log_line level file line func mode body))
      else Inr [])"

lemma ring_write_frame [simp]:
  "s_write_fn (ring_write bs g) = s_write_fn g" "s_log_level (ring_write bs g) = s_log_level g"
  "s_path_mode (ring_write bs g) = s_path_mode g"
  by (simp_all add: ring_write_def Let_def)

lemma ring_write_Nil [simp]: "ring_write [] g = g"
  by (simp add: ring_write_def)

lemma log_printf_line:
  assumes "call_line (s_log_level g) (s_path_mode g) (level, file, line, func, fmt, ap) = Inr bs"
    "s_write_fn g = Some LOG_PLATFORM_WRITER"
  shows "log_printf level file line func fmt ap g s
    = Inr (int (length bs), ring_write bs g, s\<lparr>k_events := k_events s @ map EvUart (crlf bs)\<rparr>)"
proof (cases "LOG_LEVEL_OFF < level \<and> level \<le> s_log_level g")
  case True
  then obtain body where t: "log_text fmt ap = Inr body" and bs: "bs = log_line level file line func (s_path_mode g) body"
    using assms(1) by (auto simp: bindE_eq_Inr)
  show ?thesis
    using log_vprintf_line [OF _ _ t bs] True assms(2)
    by (simp add: log_printf_def log_write_fn_def log_platform_writer_eq)
next
  case False
  then have "level \<le> LOG_LEVEL_OFF \<or> level > s_log_level g" by auto
  then show ?thesis using assms(1) False by (simp add: log_printf_def log_vprintf_def crlf_def)
qed

lemma call_line_length:
  assumes "call_line limit mode c = Inr bs"
  shows "length bs < 256"
proof -
  have l: "length (log_line level f n u mode body) < 256" for level f n u body
    by (simp add: log_line_def fill_def LOG_BUFFER_SIZE_def)
  obtain lv f ln fn fmt ap where c: "c = (lv, f, ln, fn, fmt, ap)" by (cases c) auto
  show ?thesis
  proof (cases "LOG_LEVEL_OFF < lv \<and> lv \<le> limit")
    case True
    then obtain body where "bs = log_line lv f ln fn mode body" using assms by (auto simp: c bindE_eq_Inr)
    then show ?thesis using l by simp
  next
    case False
    then show ?thesis using assms by (auto simp: c)
  qed
qed

lemma log_run_lines:
  assumes "list_all2 (\<lambda>c bs. call_line limit mode c = Inr bs) calls lines"
    "s_log_level g = limit" "s_path_mode g = mode" "s_write_fn g = Some LOG_PLATFORM_WRITER"
  shows "log_run calls g s
    = Inr (fold ring_write lines g, s\<lparr>k_events := k_events s @ map EvUart (crlf (concat lines))\<rparr>)"
  using assms
proof (induction calls lines arbitrary: g s rule: list_all2_induct)
  case Nil
  then show ?case by (simp add: crlf_def)
next
  case (Cons c calls bs lines)
  obtain lv f ln fn fmt ap where c: "c = (lv, f, ln, fn, fmt, ap)" by (cases c) auto
  have "call_line (s_log_level g) (s_path_mode g) (lv, f, ln, fn, fmt, ap) = Inr bs"
    using Cons.hyps(1) Cons.prems by (simp only: c)
  note L = log_printf_line [OF this Cons.prems(3), of s]
  show ?case using Cons.IH [of "ring_write bs g"] Cons.prems L by (simp add: c crlf_def)
qed

text \<open>C20: The kernel log. A run of log calls prints, for each call whose level is enabled, one line with level, file name, line,
  function and the formatted message of a reference formatter, cut off at 255 bytes, with a carriage return before the newline, and
  prints nothing for the others. The ring then holds the last 2048 bytes of everything logged, and reading it
  delivers and removes the oldest of them.\<close>

theorem log_history:
  assumes "ring_ok g" "s_write_fn g = Some LOG_PLATFORM_WRITER" "calls \<noteq> []"
    "list_all2 (\<lambda>c bs. call_line (s_log_level g) (s_path_mode g) c = Inr bs) calls lines"
  defines "kept \<equiv> last_n 2048 (ring_list g @ concat lines)"
  shows "\<exists>g' g'' s'. log_run calls g s = Inr (g', s')
    \<and> s' = s\<lparr>k_events := k_events s @ map EvUart (crlf (concat lines))\<rparr>
    \<and> (\<forall>bs\<in>set lines. length bs < 256) \<and> ring_list g' = kept
    \<and> log_ring_read out maxlen g' s' = (of_nat (min (length kept) (unat maxlen)), g'',
        s'\<lparr>heap_u8 := store_bytes out (take (unat maxlen) kept) (heap_u8 s')\<rparr>)
    \<and> ring_ok g'' \<and> ring_list g'' = drop (unat maxlen) kept"
proof -
  let ?g = "fold ring_write lines g" and ?s = "s\<lparr>k_events := k_events s @ map EvUart (crlf (concat lines))\<rparr>"
  have ne: "lines \<noteq> []" using assms(3,4) by (cases lines) auto
  have R: "ring_ok ?g" "ring_list ?g = kept"
    using ring.append_all [OF assms(1) ne] by (simp_all add: kept_def LRB_def)
  have len: "\<forall>bs\<in>set lines. length bs < 256"
    using assms(4) by (induction rule: list_all2_induct) (auto dest: call_line_length simp del: call_line.simps)
  obtain g'' where "log_ring_read out maxlen ?g ?s = (of_nat (min (length kept) (unat maxlen)), g'',
      ?s\<lparr>heap_u8 := store_bytes out (take (unat maxlen) kept) (heap_u8 ?s)\<rparr>)"
    "ring_ok g''" "ring_list g'' = drop (unat maxlen) kept"
    using ring_read_law [OF R(1), of out maxlen ?s] unfolding R(2) by blast
  moreover have "log_run calls g s = Inr (?g, ?s)"
    by (rule log_run_lines [OF assms(4) _ _ assms(2)]) simp_all
  ultimately show ?thesis
    using len R(2) by (intro exI [of _ ?g] exI [of _ g''] exI [of _ ?s]) (simp only: simp_thms)
qed

definition log0 :: log_state where
  "log0 = \<lparr>s_write_fn = Some LOG_PLATFORM_WRITER, s_log_level = LOG_RUNTIME_DEFAULT_LEVEL,
     s_path_mode = LOG_DEFAULT_PATH_MODE, s_ring_buf = (\<lambda>_. 0), s_ring_head = 0, s_ring_size = 0\<rparr>"

definition calls0 :: "log_call list" where
  "calls0 = [(LOG_LEVEL_INFO, Some (ascii_bytes ''lib/a.c''), 42, Some (ascii_bytes ''f''), ascii_bytes ''x=%03d%%'', [LogInt (- 7)]),
     (LOG_LEVEL_TRACE, None, 0, None, ascii_bytes ''%s'', [])]"

lemma calls0_lines:
  "list_all2 (\<lambda>c bs. call_line (s_log_level log0) (s_path_mode log0) c = Inr bs) calls0
     [ascii_bytes ''[I] a.c:42 f(): x=-07%'' @ [10], []]"
proof -
  have d: "udigits 10 7 = [7]" "udigits 10 42 = [2, 4]" by (simp_all add: udigits.simps)
  have t: "log_text (ascii_bytes ''x=%03d%%'') [LogInt (- 7)] = Inr (ascii_bytes ''x=-07%'')"
    by (simp add: log_text_def ascii_bytes_def log_items.simps log_spec_def log_len_mod_def item_text_def
        log_va_int_def Let_def number_text_def num_digits_def d digit_text_def right_aligned_def)
  show ?thesis
    by (simp add: calls0_def log0_def t [unfolded ascii_bytes_def, simplified] LOG_LEVEL_OFF_def LOG_LEVEL_INFO_def LOG_LEVEL_TRACE_def LOG_LEVEL_DEBUG_def
        LOG_RUNTIME_DEFAULT_LEVEL_def LOG_DEFAULT_PATH_MODE_def log_line_def prefix_text_def log_level_to_string_def
        LOG_LEVEL_ERROR_def LOG_LEVEL_WARN_def ascii_bytes_def file_name_def number_text_def num_digits_def d digit_text_def
        fill_def LOG_BUFFER_SIZE_def)
qed

theorem log_history_witness:
  "\<forall>s. \<exists>g' g'' s'. log_run calls0 log0 s = Inr (g', s')
    \<and> k_events s' = k_events s @ map EvUart (ascii_bytes ''[I] a.c:42 f(): x=-07%'' @ [13, 10])
    \<and> log_ring_read 0x1000 4 g' s' = (4, g'', s'\<lparr>heap_u8 := store_bytes 0x1000 (ascii_bytes ''[I] '') (heap_u8 s')\<rparr>)
    \<and> ring_list g'' = ascii_bytes ''a.c:42 f(): x=-07%'' @ [10]"
proof
  fix s
  have "ring_ok log0" "ring_list log0 = []" "s_write_fn log0 = Some LOG_PLATFORM_WRITER" "calls0 \<noteq> []"
    by (simp_all add: log0_def ring_ok_def ring_list_def LRB_def calls0_def)
  from log_history [OF this(1,3,4) calls0_lines, of s "0x1000" 4] this(2)
  show "\<exists>g' g'' s'. log_run calls0 log0 s = Inr (g', s')
    \<and> k_events s' = k_events s @ map EvUart (ascii_bytes ''[I] a.c:42 f(): x=-07%'' @ [13, 10])
    \<and> log_ring_read 0x1000 4 g' s' = (4, g'', s'\<lparr>heap_u8 := store_bytes 0x1000 (ascii_bytes ''[I] '') (heap_u8 s')\<rparr>)
    \<and> ring_list g'' = ascii_bytes ''a.c:42 f(): x=-07%'' @ [10]"
    by (simp add: last_n_def ascii_bytes_def crlf_def CH_NL_def CH_CR_def) fastforce
qed

end
