(* ===== verification/Usyscall.thy ===== *)
theory Usyscall
  imports Trap
begin

text \<open>
  The system call stubs of the user library (\<open>user/syscall.c\<close>). A stub loads the number of the call and the arguments into registers,
  executes \<open>ecall\<close> and reads the result from \<open>a0\<close> when it is resumed. A stub is therefore two functions: what it
  does to the registers before the trap, and what it returns of the registers after it. The theorem at the end composes the
  stubs with the kernel's dispatcher.
\<close>

section \<open>Before the trap\<close>

definition stub_write :: "int \<Rightarrow> u64 \<Rightarrow> u64 \<Rightarrow> trapframe \<Rightarrow> trapframe" where
  "stub_write fd buf len f = f\<lparr>tf_a0 := SYS_WRITE, tf_a1 := of_tid fd, tf_a2 := buf, tf_a3 := len\<rparr>"

definition stub_read :: "int \<Rightarrow> u64 \<Rightarrow> u64 \<Rightarrow> trapframe \<Rightarrow> trapframe" where
  "stub_read fd buf len f = f\<lparr>tf_a0 := SYS_READ, tf_a1 := of_tid fd, tf_a2 := buf, tf_a3 := len\<rparr>"

definition stub_sleep :: "u64 \<Rightarrow> trapframe \<Rightarrow> trapframe" where
  "stub_sleep ticks f = f\<lparr>tf_a0 := SYS_SLEEP, tf_a1 := ticks\<rparr>"

definition stub_thread_exit :: "int \<Rightarrow> trapframe \<Rightarrow> trapframe" where
  "stub_thread_exit exit_code f = f\<lparr>tf_a0 := SYS_THREAD_EXIT, tf_a1 := of_tid exit_code\<rparr>"

definition stub_thread_join :: "int \<Rightarrow> u64 \<Rightarrow> trapframe \<Rightarrow> trapframe" where
  "stub_thread_join tid status_out f = f\<lparr>tf_a0 := SYS_THREAD_JOIN, tf_a1 := of_tid tid, tf_a2 := status_out\<rparr>"

definition stub_thread_create :: "u64 \<Rightarrow> u64 \<Rightarrow> u64 \<Rightarrow> trapframe \<Rightarrow> trapframe" where
  "stub_thread_create entry arg name f =
     f\<lparr>tf_a0 := SYS_THREAD_CREATE, tf_a1 := entry, tf_a2 := arg, tf_a3 := name\<rparr>"

definition stub_thread_list :: "u64 \<Rightarrow> int \<Rightarrow> trapframe \<Rightarrow> trapframe" where
  "stub_thread_list buf mx f = f\<lparr>tf_a0 := SYS_THREAD_LIST, tf_a1 := buf, tf_a2 := of_tid mx\<rparr>"

definition stub_thread_kill :: "int \<Rightarrow> trapframe \<Rightarrow> trapframe" where
  "stub_thread_kill tid f = f\<lparr>tf_a0 := SYS_THREAD_KILL, tf_a1 := of_tid tid\<rparr>"

definition stub_thread_detach :: "int \<Rightarrow> trapframe \<Rightarrow> trapframe" where
  "stub_thread_detach tid f = f\<lparr>tf_a0 := SYS_THREAD_DETACH, tf_a1 := of_tid tid\<rparr>"

definition stub_runqueue_snapshot :: "u64 \<Rightarrow> u64 \<Rightarrow> trapframe \<Rightarrow> trapframe" where
  "stub_runqueue_snapshot buf mx f = f\<lparr>tf_a0 := SYS_RUNQUEUE_SNAPSHOT, tf_a1 := buf, tf_a2 := mx\<rparr>"

definition stub_clock_gettime :: "int \<Rightarrow> u64 \<Rightarrow> trapframe \<Rightarrow> trapframe" where
  "stub_clock_gettime clock_id ts f = f\<lparr>tf_a0 := SYS_CLOCK_GETTIME, tf_a1 := of_tid clock_id, tf_a2 := ts\<rparr>"

definition stub_irq_get_stats :: "u64 \<Rightarrow> u64 \<Rightarrow> trapframe \<Rightarrow> trapframe" where
  "stub_irq_get_stats buf n f = f\<lparr>tf_a0 := SYS_IRQ_GET_STATS, tf_a1 := buf, tf_a2 := n\<rparr>"

definition stub_get_hartid :: "trapframe \<Rightarrow> trapframe" where
  "stub_get_hartid f = f\<lparr>tf_a0 := SYS_GET_HARTID\<rparr>"

definition stub_yield :: "trapframe \<Rightarrow> trapframe" where
  "stub_yield f = f\<lparr>tf_a0 := SYS_YIELD\<rparr>"

section \<open>After the trap\<close>

text \<open>\<open>return (int)a0\<close>; \<open>write\<close> and \<open>read\<close> convert this \<open>int\<close> to \<open>uint64_t\<close>.\<close>

definition ret_int :: "trapframe \<Rightarrow> int" where
  "ret_int f = to_int32 (tf_a0 f)"

definition ret_u64 :: "trapframe \<Rightarrow> u64" where
  "ret_u64 f = of_tid (to_int32 (tf_a0 f))"

definition ret_long :: "trapframe \<Rightarrow> int" where
  "ret_long f = sint (tf_a0 f)"

section \<open>Through the kernel's dispatcher\<close>

text \<open>A thread traps with its registers prepared by a stub; the kernel first advances its program counter.\<close>

definition calling :: "tfref \<Rightarrow> (trapframe \<Rightarrow> trapframe) \<Rightarrow> kstate \<Rightarrow> kstate" where
  "calling tf stub s = upd_tf tf stub s"

definition called :: "tfref \<Rightarrow> (trapframe \<Rightarrow> trapframe) \<Rightarrow> kstate \<Rightarrow> kstate" where
  "called tf stub s = set_sepc tf (tf_sepc (get_tf tf (calling tf stub s)) + 4) (calling tf stub s)"

lemma get_upd_tf: "tf \<noteq> TF_NULL \<Longrightarrow> get_tf tf (upd_tf tf f s) = f (get_tf tf s)"
  by (cases tf) (simp_all add: upd_thread_def)

lemmas sys_nos = SYS_SLEEP_def SYS_THREAD_EXIT_def SYS_THREAD_JOIN_def SYS_THREAD_CREATE_def SYS_WRITE_def SYS_READ_def
  SYS_THREAD_LIST_def SYS_THREAD_KILL_def SYS_CLOCK_GETTIME_def SYS_IRQ_GET_STATS_def SYS_GET_HARTID_def SYS_YIELD_def
  SYS_THREAD_DETACH_def SYS_RUNQUEUE_SNAPSHOT_def

lemma handler_regs:
  assumes "tf \<noteq> TF_NULL"
  shows "tf_a0 (get_tf tf (calling tf stub s)) = tf_a0 (stub (get_tf tf s))"
    "tf_a1 (get_tf tf (calling tf stub s)) = tf_a1 (stub (get_tf tf s))"
    "tf_a2 (get_tf tf (calling tf stub s)) = tf_a2 (stub (get_tf tf s))"
    "tf_a3 (get_tf tf (calling tf stub s)) = tf_a3 (stub (get_tf tf s))"
  by (simp_all add: calling_def get_upd_tf [OF assms])

lemma stub_regs:
  "tf_a0 (stub_write fd buf len f) = SYS_WRITE" "tf_a1 (stub_write fd buf len f) = of_tid fd" "tf_a2 (stub_write fd buf len f) = buf" "tf_a3 (stub_write fd buf len f) = len"
  "tf_a0 (stub_read fd buf len f) = SYS_READ" "tf_a1 (stub_read fd buf len f) = of_tid fd" "tf_a2 (stub_read fd buf len f) = buf" "tf_a3 (stub_read fd buf len f) = len"
  "tf_a0 (stub_sleep n f) = SYS_SLEEP" "tf_a1 (stub_sleep n f) = n"
  "tf_a0 (stub_thread_exit c f) = SYS_THREAD_EXIT" "tf_a1 (stub_thread_exit c f) = of_tid c"
  "tf_a0 (stub_thread_join t p f) = SYS_THREAD_JOIN" "tf_a1 (stub_thread_join t p f) = of_tid t" "tf_a2 (stub_thread_join t p f) = p"
  "tf_a0 (stub_thread_create e a nm f) = SYS_THREAD_CREATE" "tf_a1 (stub_thread_create e a nm f) = e" "tf_a2 (stub_thread_create e a nm f) = a" "tf_a3 (stub_thread_create e a nm f) = nm"
  "tf_a0 (stub_thread_list buf k f) = SYS_THREAD_LIST" "tf_a1 (stub_thread_list buf k f) = buf" "tf_a2 (stub_thread_list buf k f) = of_tid k"
  "tf_a0 (stub_thread_kill t f) = SYS_THREAD_KILL" "tf_a1 (stub_thread_kill t f) = of_tid t"
  "tf_a0 (stub_thread_detach t f) = SYS_THREAD_DETACH" "tf_a1 (stub_thread_detach t f) = of_tid t"
  "tf_a0 (stub_runqueue_snapshot buf n f) = SYS_RUNQUEUE_SNAPSHOT" "tf_a1 (stub_runqueue_snapshot buf n f) = buf" "tf_a2 (stub_runqueue_snapshot buf n f) = n"
  "tf_a0 (stub_clock_gettime c p f) = SYS_CLOCK_GETTIME" "tf_a1 (stub_clock_gettime c p f) = of_tid c" "tf_a2 (stub_clock_gettime c p f) = p"
  "tf_a0 (stub_irq_get_stats buf n f) = SYS_IRQ_GET_STATS" "tf_a1 (stub_irq_get_stats buf n f) = buf" "tf_a2 (stub_irq_get_stats buf n f) = n"
  "tf_a0 (stub_get_hartid f) = SYS_GET_HARTID"
  "tf_a0 (stub_yield f) = SYS_YIELD"
  by (simp_all add: stub_write_def stub_read_def stub_sleep_def stub_thread_exit_def stub_thread_join_def stub_thread_create_def stub_thread_list_def stub_thread_kill_def stub_thread_detach_def stub_runqueue_snapshot_def stub_clock_gettime_def stub_irq_get_stats_def stub_get_hartid_def stub_yield_def)

lemma ucast_of_tid: "(ucast (of_tid c) :: u32) = word_of_int c"
  by (rule bit_word_eqI) (simp add: of_tid_def bit_simps)

text \<open>C12: Stubs and kernel agree on the calling convention. A trap with the registers that a stub prepares is dispatched to the
  kernel's function for that call, with the arguments the caller gave, for all fourteen calls and all argument values
  of the C types; and a result that the kernel leaves in \<open>a0\<close> is what the stub returns.\<close>

theorem stubs_reach_kernel:
  assumes tf: "tf \<noteq> TF_NULL" and i: "- (2 ^ 31) \<le> i" "i < 2 ^ 31"
  shows "syscall_handler h tf (calling tf (stub_sleep n) s) = thread_sys_sleep h tf n (called tf (stub_sleep n) s)
    \<and> syscall_handler h tf (calling tf (stub_thread_exit i) s)
        = thread_sys_exit h tf (word_of_int i) (called tf (stub_thread_exit i) s)
    \<and> syscall_handler h tf (calling tf (stub_thread_join i p) s) = thread_sys_join h tf i p (called tf (stub_thread_join i p) s)
    \<and> syscall_handler h tf (calling tf (stub_thread_create p q n) s)
        = thread_sys_create h tf p q n (called tf (stub_thread_create p q n) s)
    \<and> syscall_handler h tf (calling tf (stub_thread_kill i) s) = thread_sys_kill h tf i (called tf (stub_thread_kill i) s)
    \<and> syscall_handler h tf (calling tf (stub_thread_detach i) s)
        = Inr (thread_sys_detach tf i (called tf (stub_thread_detach i) s))
    \<and> syscall_handler h tf (calling tf stub_yield s) = thread_sys_yield h tf (called tf stub_yield s)
    \<and> syscall_handler h tf (calling tf (stub_thread_list p i) s)
        = (case thread_sys_list p i (called tf (stub_thread_list p i) s) of (r, s') \<Rightarrow> Inr (set_a0 tf (of_tid r) s'))
    \<and> syscall_handler h tf (calling tf (stub_write i p n) s)
        = (case sys_write i p n (called tf (stub_write i p n) s) of (r, s') \<Rightarrow> Inr (set_a0 tf r s'))
    \<and> syscall_handler h tf (calling tf (stub_read i p n) s)
        = bindE (sys_read h i p n tf (called tf (stub_read i p n) s))
            (\<lambda>(r, nonblock, s'). Inr (if nonblock then set_a0 tf r s' else s'))
    \<and> syscall_handler h tf (calling tf (stub_clock_gettime i p) s)
        = (case sys_clock_gettime i p (called tf (stub_clock_gettime i p) s) of (r, s') \<Rightarrow> Inr (set_a0 tf (of_tid r) s'))
    \<and> syscall_handler h tf (calling tf (stub_irq_get_stats p n) s)
        = (case sys_irq_get_stats p n (called tf (stub_irq_get_stats p n) s) of (r, s') \<Rightarrow> Inr (set_a0 tf (of_tid r) s'))
    \<and> syscall_handler h tf (calling tf (stub_runqueue_snapshot p n) s)
        = bindE (sys_runqueue_snapshot p n (called tf (stub_runqueue_snapshot p n) s)) (\<lambda>(r, s'). Inr (set_a0 tf (of_tid r) s'))
    \<and> syscall_handler h tf (calling tf stub_get_hartid s)
        = Inr (set_a0 tf (ucast (cpu_current_hartid h (called tf stub_get_hartid s))) (called tf stub_get_hartid s))
    \<and> ret_int (get_tf tf (set_a0 tf (of_tid i) s)) = i
    \<and> ret_u64 (get_tf tf (set_a0 tf (of_tid i) s)) = of_tid i
    \<and> ret_long (get_tf tf (set_a0 tf (of_tid i) s)) = i"
proof -
  have t: "to_int32 (of_tid i) = i" by (rule to_int32_of_tid [OF i])
  have l: "sint (of_tid i) = i" using i by (simp add: of_tid_def sint_sbintrunc' signed_take_bit_int_eq_self)
  note D = syscall_handler_def Let_def called_def [symmetric] handler_regs [OF tf] t ucast_of_tid of_tid_def [symmetric]
  show ?thesis
    by (intro conjI) (simp_all add: D stub_regs sys_nos ret_int_def ret_u64_def ret_long_def set_a0_def get_upd_tf [OF tf] l)
qed

theorem stubs_reach_kernel_witness:
  "\<forall>s. syscall_handler 0 (TF_THREAD 2) (calling (TF_THREAD 2) (stub_thread_join (- 5) 0x1000) s)
      = thread_sys_join 0 (TF_THREAD 2) (- 5) 0x1000 (called (TF_THREAD 2) (stub_thread_join (- 5) 0x1000) s)
    \<and> ret_int (get_tf (TF_THREAD 2) (set_a0 (TF_THREAD 2) (of_tid (- 5)) s)) = - 5"
proof
  fix s
  show "syscall_handler 0 (TF_THREAD 2) (calling (TF_THREAD 2) (stub_thread_join (- 5) 0x1000) s)
      = thread_sys_join 0 (TF_THREAD 2) (- 5) 0x1000 (called (TF_THREAD 2) (stub_thread_join (- 5) 0x1000) s)
    \<and> ret_int (get_tf (TF_THREAD 2) (set_a0 (TF_THREAD 2) (of_tid (- 5)) s)) = - 5"
    using stubs_reach_kernel [of "TF_THREAD 2" "- 5" 0 0 s "0x1000"] by simp
qed

end
