(* ===== verification/Ulib_Stdio.thy ===== *)
theory Ulib_Stdio
  imports Lib_String Digits
begin

text \<open>
  The user library's input and output (\<open>user/ulib_stdio.c\<close>): number conversion, the formatter
  \<open>u_vsnprintf\<close> and its callers, and the routines that read characters and lines.

  \<^item> The world of a user program is its memory, the bytes it has written and the results its coming \<open>read\<close> calls
    will have; a \<open>read\<close> with no result left blocks for ever. \<open>write\<close> and \<open>read\<close> are the system calls as
    the kernel answers them.
  \<^item> A format string is given by its bytes without the terminator, the variable arguments by the 64-bit slots
    that \<open>va_arg\<close> takes them from. Taking an argument that was not passed is an error of the program.
\<close>

section \<open>The program's world\<close>

text \<open>The result of one \<open>read\<close>: an error code \<open>- (e + 1)\<close>, or the bytes that arrived, none at the end of the input.\<close>

datatype read_result = ReadErr nat | ReadBytes "u8 list"

record uio =
  u_mem :: mem
  u_in :: "read_result list"
  u_out :: "u8 list"

definition write_call :: "int \<Rightarrow> u64 \<Rightarrow> u64 \<Rightarrow> uio \<Rightarrow> int \<times> uio" where
  "write_call fd buf len w =
     (if len = 0 then (0, w)
      else if fd = 1 \<or> fd = 2 then (to_int32 len, w\<lparr>u_out := u_out w @ load_bytes buf (unat len) (u_mem w)\<rparr>)
      else (-1, w))"

definition read_call :: "u64 \<Rightarrow> u64 \<Rightarrow> uio \<Rightarrow> (int \<times> uio) kres" where
  "read_call buf len w =
     (case u_in w of
        [] \<Rightarrow> Inl Diverges
      | ReadErr e # rs \<Rightarrow> Inr (- int (Suc e), w\<lparr>u_in := rs\<rparr>)
      | ReadBytes bs # rs \<Rightarrow>
          let bs' = take (unat len) bs
          in Inr (int (length bs'), w\<lparr>u_in := rs, u_mem := store_bytes buf bs' (u_mem w)\<rparr>))"

section \<open>Output of characters and strings\<close>

definition write_all :: "u64 \<Rightarrow> u64 \<Rightarrow> uio \<Rightarrow> int \<times> uio" where
  "write_all buf len w = write_call 1 buf len w"

text \<open>The one-character buffer is a local variable; what is written is the character.\<close>

definition u_putchar :: "int \<Rightarrow> uio \<Rightarrow> int \<times> uio" where
  "u_putchar c w = (c, w\<lparr>u_out := u_out w @ [to_char c]\<rparr>)"

definition u_puts :: "u64 \<Rightarrow> uio \<Rightarrow> (int \<times> uio) kres" where
  "u_puts s w =
     (case u_strlen s (u_mem w) of
        None \<Rightarrow> Inl Diverges
      | Some len \<Rightarrow>
          let (rc1, w1) = write_all s len w;
              w2 = w1\<lparr>u_out := u_out w1 @ [10]\<rparr>
          in Inr (if rc1 < 0 then -1 else to_int32 (len + 1), w2))"

section \<open>Numbers\<close>

text \<open>The digits are written downwards from the end of a buffer; the result is the bytes from the returned
  pointer to the end.\<close>

partial_function (option) itoa_loop :: "u32 \<Rightarrow> u64 \<Rightarrow> u8 list \<Rightarrow> u8 list option" where
  "itoa_loop base v acc =
     (if v > 0
      then let digit = (ucast (v mod ucast base) :: u32)
           in itoa_loop base (v div ucast base)
                ((if digit < 10 then 48 + ucast digit else 97 + ucast (digit - 10)) # acc)
      else Some acc)"

definition u_itoa :: "u64 \<Rightarrow> u32 \<Rightarrow> bool \<Rightarrow> u8 list option" where
  "u_itoa value base sign =
     (let v = (if sign \<and> value <s 0 then - value else value) in
      map_option (\<lambda>ds. if sign \<and> value <s 0 then 45 # ds else ds)
        (if v = 0 then Some [48] else itoa_loop base v []))"

section \<open>The formatter\<close>

record fstate =
  f_pos :: u64
  f_total :: u64
  f_mem :: mem

definition out_char :: "u64 \<Rightarrow> u64 \<Rightarrow> u8 \<Rightarrow> fstate \<Rightarrow> fstate" where
  "out_char buf avail ch st =
     \<lparr>f_pos = f_pos st + 1, f_total = f_total st + 1,
      f_mem = (if f_pos st < avail then (f_mem st)(buf + f_pos st := ch) else f_mem st)\<rparr>"

fun parse_flags :: "bool \<Rightarrow> bool \<Rightarrow> u8 list \<Rightarrow> bool \<times> bool \<times> u8 list" where
  "parse_flags left_adjust zero_pad (c # r) =
     (if c = 45 then parse_flags True zero_pad r
      else if c = 48 then parse_flags left_adjust True r
      else (left_adjust, zero_pad, c # r))"
| "parse_flags left_adjust zero_pad [] = (left_adjust, zero_pad, [])"

fun parse_width :: "u32 \<Rightarrow> u8 list \<Rightarrow> u32 \<times> u8 list" where
  "parse_width width (c # r) =
     (if 48 \<le> c \<and> c \<le> 57 then parse_width (width * 10 + ucast (c - 48)) r else (width, c # r))"
| "parse_width width [] = (width, [])"

definition skip_precision :: "u8 list \<Rightarrow> u8 list" where
  "skip_precision r =
     (case r of c # r' \<Rightarrow> if c = 46 then dropWhile (\<lambda>c. 48 \<le> c \<and> c \<le> 57) r' else r | [] \<Rightarrow> [])"

datatype length_mod = LEN_NONE | LEN_L | LEN_LL | LEN_Z

definition parse_length :: "u8 list \<Rightarrow> length_mod \<times> u8 list" where
  "parse_length r =
     (case r of
        [] \<Rightarrow> (LEN_NONE, [])
      | c # r1 \<Rightarrow>
          if c = 108
          then (case r1 of c2 # r2 \<Rightarrow> if c2 = 108 then (LEN_LL, r2) else (LEN_L, r1) | [] \<Rightarrow> (LEN_L, []))
          else if c = 122 then (LEN_Z, r1)
          else (LEN_NONE, r))"

text \<open>What a conversion prints: bytes of the local buffer \<open>tmp\<close>, or a string in memory.\<close>

datatype field = Tmp "u8 list" | Str u64 u64

definition field_len :: "field \<Rightarrow> u64" where
  "field_len f = (case f of Tmp bs \<Rightarrow> of_nat (length bs) | Str p n \<Rightarrow> n)"

definition field_char :: "field \<Rightarrow> nat \<Rightarrow> mem \<Rightarrow> u8" where
  "field_char f i m = (case f of Tmp bs \<Rightarrow> bs ! i | Str p n \<Rightarrow> m (p + of_nat i))"

definition upper_hex :: "u8 \<Rightarrow> u8" where
  "upper_hex c = (if 97 \<le> c \<and> c \<le> 102 then c - 32 else c)"

definition null_str :: "u8 list" where "null_str = [40, 110, 117, 108, 108, 41]"

text \<open>The \<open>switch (spec)\<close>: the field, the arguments left and whether zero padding is still allowed; \<open>None\<close> is the default
  case, which takes no argument.\<close>

definition take_arg :: "u64 list \<Rightarrow> (u64 \<Rightarrow> u64 list \<Rightarrow> 'a kres) \<Rightarrow> 'a kres" where
  "take_arg ap k = (case ap of [] \<Rightarrow> Inl BadIndex | a # ap' \<Rightarrow> k a ap')"

definition tmp_field :: "u8 list option \<Rightarrow> u64 list \<Rightarrow> bool \<Rightarrow> (field \<times> u64 list \<times> bool) option kres" where
  "tmp_field ds ap z = (case ds of None \<Rightarrow> Inl Diverges | Some bs \<Rightarrow> Inr (Some (Tmp bs, ap, z)))"

definition convert :: "u8 \<Rightarrow> length_mod \<Rightarrow> u64 list \<Rightarrow> mem \<Rightarrow> (field \<times> u64 list \<times> bool) option kres" where
  "convert spec lm ap m =
     (if spec = 99 then take_arg ap (\<lambda>a ap'. Inr (Some (Tmp [ucast a], ap', True)))
      else if spec = 115
      then take_arg ap (\<lambda>a ap'.
             if a = 0 then Inr (Some (Tmp null_str, ap', False))
             else (case u_strlen a m of None \<Rightarrow> Inl Diverges | Some n \<Rightarrow> Inr (Some (Str a n, ap', False))))
      else if spec = 100 \<or> spec = 105
      then take_arg ap (\<lambda>a ap'.
             let v = (if lm = LEN_NONE then scast (ucast a :: u32) else a) in tmp_field (u_itoa v 10 True) ap' True)
      else if spec = 117 \<or> spec = 120 \<or> spec = 88
      then take_arg ap (\<lambda>a ap'.
             let v = (if lm = LEN_NONE then ucast (ucast a :: u32) else a);
                 ds = u_itoa v (if spec = 117 then 10 else 16) False
             in tmp_field (if spec = 88 then map_option (map upper_hex) ds else ds) ap' True)
      else if spec = 112
      then take_arg ap (\<lambda>a ap'. tmp_field (map_option (\<lambda>ds. 48 # 120 # ds) (u_itoa a 16 False)) ap' False)
      else Inr None)"

definition pad_out :: "u64 \<Rightarrow> u64 \<Rightarrow> u8 \<Rightarrow> nat \<Rightarrow> fstate \<Rightarrow> fstate" where
  "pad_out buf avail ch n st = fold (\<lambda>_. out_char buf avail ch) [0..<n] st"

definition field_out :: "u64 \<Rightarrow> u64 \<Rightarrow> field \<Rightarrow> fstate \<Rightarrow> fstate" where
  "field_out buf avail f st =
     fold (\<lambda>i st. out_char buf avail (field_char f i (f_mem st)) st) [0..<unat (field_len f)] st"

text \<open>\<open>if (width > 0 && (size_t)width > field_len) pad_len = width - field_len\<close>; a negative width, the result of an
  overflow of \<open>int\<close>, pads nothing.\<close>

definition pad_len :: "u32 \<Rightarrow> field \<Rightarrow> nat" where
  "pad_len width f = (if 0 <s width \<and> ucast width > field_len f then unat (ucast width - field_len f) else 0)"

definition put_field :: "u64 \<Rightarrow> u64 \<Rightarrow> bool \<Rightarrow> bool \<Rightarrow> u32 \<Rightarrow> u8 \<Rightarrow> field \<Rightarrow> fstate \<Rightarrow> fstate" where
  "put_field buf avail left_adjust zero_pad width spec f st =
     (let pad_char = (if zero_pad \<and> \<not> left_adjust \<and> spec \<noteq> 115 then 48 else 32);
          st1 = (if \<not> left_adjust then pad_out buf avail pad_char (pad_len width f) st else st);
          st2 = field_out buf avail f st1
      in if left_adjust then pad_out buf avail 32 (pad_len width f) st2 else st2)"

lemma parse_flags_length: "parse_flags a b r = (a', b', r') \<Longrightarrow> length r' \<le> length r"
  by (induction a b r rule: parse_flags.induct) (auto split: if_splits)

lemma parse_width_length: "parse_width n r = (n', r') \<Longrightarrow> length r' \<le> length r"
  by (induction n r rule: parse_width.induct) (auto split: if_splits)

lemma skip_precision_length: "length (skip_precision r) \<le> length r"
  by (cases r) (auto simp: skip_precision_def intro: le_trans [OF length_dropWhile_le])

lemma parse_length_length: "parse_length r = (lm, r') \<Longrightarrow> length r' \<le> length r"
  by (auto simp: parse_length_def split: list.splits if_splits)

text \<open>The text between \<open>%\<close> and the specifier.\<close>

definition parse_spec :: "u8 list \<Rightarrow> bool \<times> bool \<times> u32 \<times> length_mod \<times> u8 list" where
  "parse_spec r =
     (let (la, zp, r2) = parse_flags False False r;
          (width, r3) = parse_width 0 r2;
          (lm, r5) = parse_length (skip_precision r3)
      in (la, zp, width, lm, r5))"

lemma parse_spec_length:
  assumes "parse_spec r = (la, zp, width, lm, r')"
  shows "length r' \<le> length r"
proof -
  obtain r2 r3 where "parse_flags False False r = (la, zp, r2)" "parse_width 0 r2 = (width, r3)"
    "parse_length (skip_precision r3) = (lm, r')"
    using assms by (auto simp: parse_spec_def Let_def split: prod.splits)
  then show ?thesis
    using parse_flags_length parse_width_length parse_length_length skip_precision_length [of r3] by fastforce
qed

function vsnprintf_loop :: "u64 \<Rightarrow> u64 \<Rightarrow> u8 list \<Rightarrow> u64 list \<Rightarrow> fstate \<Rightarrow> fstate kres" where
  "vsnprintf_loop buf avail fmt ap st =
     (case fmt of
        [] \<Rightarrow> Inr st
      | c # r \<Rightarrow>
          if c \<noteq> 37 then vsnprintf_loop buf avail r ap (out_char buf avail c st)
          else (case r of
              [] \<Rightarrow> Inr st
            | c1 # r1 \<Rightarrow>
                if c1 = 37 then vsnprintf_loop buf avail r1 ap (out_char buf avail 37 st)
                else (case parse_spec r of
                    (la, zp, width, lm, []) \<Rightarrow> Inr st
                  | (la, zp, width, lm, spec # r6) \<Rightarrow>
                      (case convert spec lm ap (f_mem st) of
                         Inl e \<Rightarrow> Inl e
                       | Inr None \<Rightarrow>
                           vsnprintf_loop buf avail r6 ap (out_char buf avail spec (out_char buf avail 37 st))
                       | Inr (Some (f, ap', z)) \<Rightarrow>
                           vsnprintf_loop buf avail r6 ap' (put_field buf avail la (zp \<and> z) width spec f st)))))"
  by pat_completeness auto
termination
  by (relation "measure (\<lambda>(buf, avail, fmt, ap, st). length fmt)")
    (auto dest!: sym [of _ "parse_spec _"] parse_spec_length)

definition u_vsnprintf :: "u64 \<Rightarrow> u64 \<Rightarrow> u8 list \<Rightarrow> u64 list \<Rightarrow> mem \<Rightarrow> (int \<times> mem) kres" where
  "u_vsnprintf buf sz fmt ap m =
     (let avail = (if sz > 0 then sz - 1 else 0) in
      bindE (vsnprintf_loop buf avail fmt ap \<lparr>f_pos = 0, f_total = 0, f_mem = m\<rparr>) (\<lambda>st.
        let term = (if f_pos st \<le> avail then f_pos st else avail);
            m' = (if sz > 0 then (f_mem st)(buf + term := 0) else f_mem st)
        in Inr (to_int32 (f_total st), m')))"

definition u_snprintf :: "u64 \<Rightarrow> u64 \<Rightarrow> u8 list \<Rightarrow> u64 list \<Rightarrow> uio \<Rightarrow> (int \<times> uio) kres" where
  "u_snprintf buf sz fmt ap w =
     bindE (u_vsnprintf buf sz fmt ap (u_mem w)) (\<lambda>(n, m). Inr (n, w\<lparr>u_mem := m\<rparr>))"

text \<open>The local array of \<open>u_printf\<close> lies at \<open>buf\<close>.\<close>

definition u_printf :: "u64 \<Rightarrow> u8 list \<Rightarrow> u64 list \<Rightarrow> uio \<Rightarrow> (int \<times> uio) kres" where
  "u_printf buf fmt ap w =
     bindE (u_vsnprintf buf 256 fmt ap (u_mem w)) (\<lambda>(n, m).
       let w1 = w\<lparr>u_mem := m\<rparr> in
       Inr (n, if n > 0 then snd (write_all buf (if n < 256 then word_of_int n else 256 - 1) w1) else w1))"

declare vsnprintf_loop.simps [simp del]

section \<open>Conversion of numbers\<close>

lemma itoa_loop_digits:
  assumes "2 \<le> unat base" "unat base \<le> 16"
  shows "itoa_loop base v acc = Some (map digit_char (rev (udigits (unat base) (unat v))) @ acc)"
proof (induction "unat v" arbitrary: v acc rule: less_induct)
  case less
  show ?case
  proof (cases "v = 0")
    case True
    then show ?thesis by (subst itoa_loop.simps) simp
  next
    case False
    let ?b = "unat base" and ?d = "ucast (v mod ucast base) :: u32"
    note m = word_digit [OF assms, of v]
    have c: "(if ?d < 10 then 48 + ucast ?d else 97 + ucast (?d - 10)) = digit_char (unat v mod ?b)"
      unfolding digit_byte m by (simp add: digit_char_def not_less of_nat_diff)
    have "unat v div ?b < unat v" using False assms(1) by (simp add: unat_gt_0 div_less_dividend)
    then have "itoa_loop base (v div ucast base) (digit_char (unat v mod ?b) # acc)
        = Some (map digit_char (rev (udigits ?b (unat v div ?b))) @ digit_char (unat v mod ?b) # acc)"
      using less [of "v div ucast base"] by (simp add: m)
    moreover have "udigits ?b (unat v) = unat v mod ?b # udigits ?b (unat v div ?b)"
      using False assms(1) by (simp add: udigits_step unat_gt_0)
    ultimately show ?thesis using False by (subst itoa_loop.simps) (simp add: Let_def c word_gt_0)
  qed
qed

lemma dec_word_digits:
  assumes "\<forall>d\<in>set ds. d < 10"
  shows "dec_word (of_nat a) (map digit_char ds) = of_nat (foldl (\<lambda>a d. a * 10 + d) a ds)"
  using assms
proof (induction ds arbitrary: a)
  case (Cons d ds)
  have "d < 10" using Cons.prems by simp
  then have "(ucast (digit_char d - 48) :: u64) = of_nat d"
    by (simp add: digit_char_def ucast_unat unat_of_nat take_bit_nat_eq_self)
  then show ?case using Cons.IH [of "a * 10 + d"] Cons.prems by (simp add: dec_word_def)
qed (simp add: dec_word_def)

lemma u_itoa_eq:
  assumes "base = 10 \<or> base = 16"
  shows "u_itoa value base sign =
    Some ((if sign \<and> value <s 0 then [45] else []) @
      map digit_char (num_digits (unat base) (unat (if sign \<and> value <s 0 then - value else value))))"
proof -
  have b: "2 \<le> unat base" "unat base \<le> 16" using assms by auto
  show ?thesis
    by (auto simp: u_itoa_def Let_def itoa_loop_digits [OF b] num_digits_def unat_eq_0 digit_char_def)
qed

lemma dec_word_num: "dec_word 0 (map digit_char (num_digits 10 (unat v))) = v"
  using dec_word_digits [of "num_digits 10 (unat v)" 0] num_digits_less [of 10] read_num_digits [of 10 "unat v"]
  by (simp add: read_digits_def)

lemma digit_char_dec: "d < 10 \<Longrightarrow> u_isdigit_ch (digit_char d)"
proof -
  assume "d < 10"
  then have "unat (digit_char d) = 48 + d" unfolding digit_char_def by (simp only: unat_of_nat if_True) simp
  then show ?thesis using \<open>d < 10\<close> by (simp add: u_isdigit_ch_def word_le_nat_alt)
qed



section \<open>What the formatter prints\<close>

text \<open>A format string as a list of directives.\<close>

datatype directive = Lit u8 | Conv bool bool u32 length_mod u8

function parse_fmt :: "u8 list \<Rightarrow> directive list" where
  "parse_fmt fmt =
     (case fmt of
        [] \<Rightarrow> []
      | c # r \<Rightarrow>
          if c \<noteq> 37 then Lit c # parse_fmt r
          else (case r of
              [] \<Rightarrow> []
            | c1 # r1 \<Rightarrow>
                if c1 = 37 then Lit 37 # parse_fmt r1
                else (case parse_spec r of
                    (la, zp, width, lm, []) \<Rightarrow> []
                  | (la, zp, width, lm, spec # r6) \<Rightarrow> Conv la zp width lm spec # parse_fmt r6)))"
  by pat_completeness auto
termination
  by (relation "measure length") (auto dest!: sym [of _ "parse_spec _"] parse_spec_length)

declare parse_fmt.simps [simp del]

definition field_bytes :: "field \<Rightarrow> mem \<Rightarrow> u8 list" where
  "field_bytes f m = map (\<lambda>i. field_char f i m) [0..<unat (field_len f)]"

definition padded :: "bool \<Rightarrow> bool \<Rightarrow> u32 \<Rightarrow> u8 \<Rightarrow> field \<Rightarrow> mem \<Rightarrow> u8 list" where
  "padded la zp width spec f m =
     (if la then field_bytes f m @ replicate (pad_len width f) 32
      else replicate (pad_len width f) (if zp \<and> spec \<noteq> 115 then 48 else 32) @ field_bytes f m)"

text \<open>The text a list of directives stands for, and the arguments its string conversions take.\<close>

fun render :: "directive list \<Rightarrow> u64 list \<Rightarrow> mem \<Rightarrow> u8 list kres" where
  "render [] ap m = Inr []"
| "render (Lit c # ds) ap m = bindE (render ds ap m) (\<lambda>out. Inr (c # out))"
| "render (Conv la zp width lm spec # ds) ap m =
     bindE (convert spec lm ap m) (\<lambda>r.
       case r of
         None \<Rightarrow> bindE (render ds ap m) (\<lambda>out. Inr (37 # spec # out))
       | Some (f, ap', z) \<Rightarrow> bindE (render ds ap' m) (\<lambda>out. Inr (padded la (zp \<and> z) width spec f m @ out)))"

fun str_args :: "directive list \<Rightarrow> u64 list \<Rightarrow> u64 list" where
  "str_args (Conv la zp width lm spec # ds) (a # ap) =
     (if spec = 115 then a # str_args ds ap
      else if spec \<in> {99, 100, 105, 117, 120, 88, 112} then str_args ds ap
      else str_args ds (a # ap))"
| "str_args (Lit c # ds) ap = str_args ds ap"
| "str_args _ _ = []"

text \<open>Memory outside a buffer is the same.\<close>

definition agree :: "u64 \<Rightarrow> u64 \<Rightarrow> mem \<Rightarrow> mem \<Rightarrow> bool" where
  "agree buf avail m m' \<longleftrightarrow> (\<forall>x. (\<forall>p<avail. x \<noteq> buf + p) \<longrightarrow> m' x = m x)"

text \<open>A string argument: null, or a terminated string that does not overlap the buffer.\<close>

definition str_ok :: "u64 \<Rightarrow> u64 \<Rightarrow> mem \<Rightarrow> u64 \<Rightarrow> bool" where
  "str_ok buf avail m a \<longleftrightarrow> a = 0 \<or>
     (\<exists>bs. cstr m a bs \<and> length bs < 2 ^ 64 \<and> (\<forall>i\<le>length bs. \<forall>p<avail. a + of_nat i \<noteq> buf + p))"

lemma agree_out: "agree buf avail m (f_mem st) \<Longrightarrow> agree buf avail m (f_mem (out_char buf avail ch st))"
  by (auto simp: agree_def out_char_def)

lemma agree_fold: "agree buf avail m (f_mem st) \<Longrightarrow> agree buf avail m (f_mem (fold (out_char buf avail) bs st))"
  by (induction bs arbitrary: st) (simp_all add: agree_out)

lemma cstr_agree:
  assumes "agree buf avail m m'" "\<forall>i\<le>length bs. \<forall>p<avail. a + of_nat i \<noteq> buf + p"
  shows "cstr m' a bs = cstr m a bs"
  unfolding cstr_load using assms load_bytes_cong [of "length bs" m' a m] by (auto simp: agree_def)

text \<open>Conversions read the same in memories that agree outside the buffer.\<close>

lemma convert_agree:
  assumes "agree buf avail m m'" "spec = 115 \<Longrightarrow> ap \<noteq> [] \<Longrightarrow> str_ok buf avail m (hd ap)"
  shows "convert spec lm ap m' = convert spec lm ap m
    \<and> (\<forall>f ap' z. convert spec lm ap m = Inr (Some (f, ap', z)) \<longrightarrow> (\<forall>m2. agree buf avail m m2 \<longrightarrow>
        (\<forall>i<unat (field_len f). field_char f i m2 = field_char f i m)))"
proof (cases "spec = 115 \<and> ap \<noteq> [] \<and> hd ap \<noteq> 0")
  case True
  then obtain a ap' where ap: "ap = a # ap'" "a \<noteq> 0" by (cases ap) auto
  with assms(2) True obtain bs where bs: "cstr m a bs" "length bs < 2 ^ 64"
    "\<forall>i\<le>length bs. \<forall>p<avail. a + of_nat i \<noteq> buf + p" by (auto simp: str_ok_def)
  have "cstr m' a bs" using cstr_agree [OF assms(1) bs(3)] bs(1) by simp
  then have l: "u_strlen a m' = Some (of_nat (length bs))" "u_strlen a m = Some (of_nat (length bs))"
    using bs(1) by (simp_all add: u_strlen_eq strlen_cstr)
  have n: "unat (of_nat (length bs) :: u64) = length bs" using bs(2) by (simp add: unat_of_nat)
  have "m2 (a + of_nat i) = m (a + of_nat i)" if "agree buf avail m m2" "i < length bs" for m2 i
    using bs(3) that by (simp add: agree_def)
  then show ?thesis
    using True ap l n by (simp add: convert_def take_arg_def field_len_def field_char_def)
next
  case False
  then have c: "convert spec lm ap m' = convert spec lm ap m"
    by (cases ap) (auto simp: convert_def take_arg_def)
  have "\<exists>bs. f = Tmp bs" if "convert spec lm ap m = Inr (Some (f, ap', z))" for f ap' z
    using that False
    by (cases ap) (auto simp: convert_def take_arg_def tmp_field_def Let_def split: if_splits option.splits)
  then show ?thesis using c by (auto simp: field_char_def)
qed

lemma pad_out_eq: "pad_out buf avail ch n st = fold (out_char buf avail) (replicate n ch) st"
proof -
  have "fold (\<lambda>_. out_char buf avail ch) xs st = fold (out_char buf avail) (replicate (length xs) ch) st" for xs :: "nat list"
    by (induction xs arbitrary: st) simp_all
  from this [of "[0..<n]"] show ?thesis by (simp add: pad_out_def)
qed

lemma field_out_eq:
  assumes "agree buf avail m (f_mem st)"
    "\<And>m2 i. agree buf avail m m2 \<Longrightarrow> i < unat (field_len f) \<Longrightarrow> field_char f i m2 = field_char f i m"
  shows "field_out buf avail f st = fold (out_char buf avail) (field_bytes f m) st"
proof -
  have "fold (\<lambda>i st. out_char buf avail (field_char f i (f_mem st)) st) is st
      = fold (out_char buf avail) (map (\<lambda>i. field_char f i m) is) st"
    if "set is \<subseteq> {..<unat (field_len f)}" "agree buf avail m (f_mem st)" for "is" st
    using that by (induction "is" arbitrary: st) (simp_all add: assms(2) agree_out)
  moreover have "set [0..<unat (field_len f)] \<subseteq> {..<unat (field_len f)}" by auto
  ultimately show ?thesis using assms(1) by (simp only: field_out_def field_bytes_def)
qed

lemma put_field_eq:
  assumes "agree buf avail m (f_mem st)"
    "\<And>m2 i. agree buf avail m m2 \<Longrightarrow> i < unat (field_len f) \<Longrightarrow> field_char f i m2 = field_char f i m"
  shows "put_field buf avail la zp width spec f st = fold (out_char buf avail) (padded la zp width spec f m) st"
  using field_out_eq [OF assms] field_out_eq [OF agree_fold [OF assms(1)] assms(2)]
  by (cases la) (simp_all add: put_field_def Let_def padded_def pad_out_eq del: fold_replicate)

lemma str_args_Nil [simp]: "str_args ds [] = []"
proof (induction ds)
  case (Cons d ds)
  then show ?case by (cases d) simp_all
qed simp

lemma convert_args:
  assumes "convert spec lm ap m = Inr r"
  shows "case r of None \<Rightarrow> str_args (Conv la zp w lm spec # ds) ap = str_args ds ap
    | Some (f, ap', z) \<Rightarrow> set (str_args ds ap') \<subseteq> set (str_args (Conv la zp w lm spec # ds) ap)"
  using assms
  by (cases ap; cases ds)
    (auto simp: convert_def take_arg_def tmp_field_def Let_def split: if_splits option.splits)

lemma vsnprintf_loop_render:
  assumes "agree buf avail m (f_mem st)" "\<forall>a\<in>set (str_args (parse_fmt fmt) ap). str_ok buf avail m a"
  shows "vsnprintf_loop buf avail fmt ap st
    = bindE (render (parse_fmt fmt) ap m) (\<lambda>out. Inr (fold (out_char buf avail) out st))"
  using assms
proof (induction "length fmt" arbitrary: fmt ap st rule: less_induct)
  case less
  note A = less.prems(1)
  have IH: "vsnprintf_loop buf avail r ap' (fold (out_char buf avail) pre st)
      = bindE (render (parse_fmt r) ap' m) (\<lambda>out. Inr (fold (out_char buf avail) (pre @ out) st))"
    if "length r < length fmt" "\<forall>a\<in>set (str_args (parse_fmt r) ap'). str_ok buf avail m a" for r ap' pre
    using less.hyps [OF that(1) agree_fold [OF A] that(2)] by simp
  have step: ?case if "parse_fmt fmt = Lit c # parse_fmt r" "length r < length fmt"
      "vsnprintf_loop buf avail fmt ap st = vsnprintf_loop buf avail r ap (out_char buf avail c st)" for c r
    using IH [of r ap "[c]"] that less.prems(2) by (cases "render (parse_fmt r) ap m") simp_all
  show ?case
  proof (cases fmt)
    case Nil
    then show ?thesis by (simp add: vsnprintf_loop.simps parse_fmt.simps)
  next
    case F: (Cons c r)
    note U = parse_fmt.simps [of "c # r"] vsnprintf_loop.simps [of buf avail "c # r"]
    show ?thesis
    proof (cases "c = 37")
      case False
      show ?thesis by (rule step [of c r]) (use F False in \<open>simp_all add: U\<close>)
    next
      case P: True
      show ?thesis
      proof (cases r)
        case Nil
        then show ?thesis using F P by (simp add: vsnprintf_loop.simps [of _ _ "[37]"] parse_fmt.simps [of "[37]"])
      next
        case R: (Cons c1 r1)
        show ?thesis
        proof (cases "c1 = 37")
          case True
          show ?thesis by (rule step [of 37 r1]) (use F P R True in
            \<open>simp_all add: parse_fmt.simps [of "37 # 37 # r1"] vsnprintf_loop.simps [of buf avail "37 # 37 # r1"]\<close>)
        next
          case C: False
          note U = parse_fmt.simps [of "37 # c1 # r1"] vsnprintf_loop.simps [of buf avail "37 # c1 # r1"]
          obtain la zp w lm r5 where S: "parse_spec r = (la, zp, w, lm, r5)" by (cases "parse_spec r") auto
          show ?thesis
          proof (cases r5)
            case Nil
            then show ?thesis using F P R C S by (simp add: U)
          next
            case L: (Cons spec r6)
            have len: "length r6 < length fmt" using parse_spec_length [OF S] L F by simp
            have pf: "parse_fmt fmt = Conv la zp w lm spec # parse_fmt r6"
              using F P R C S L by (simp add: U)
            have ok: "spec = 115 \<Longrightarrow> ap \<noteq> [] \<Longrightarrow> str_ok buf avail m (hd ap)"
              using less.prems(2) pf by (cases ap) auto
            note V = convert_agree [OF A ok, where lm = lm]
            have run: "vsnprintf_loop buf avail fmt ap st = (case convert spec lm ap m of
                 Inl e \<Rightarrow> Inl e
               | Inr None \<Rightarrow> vsnprintf_loop buf avail r6 ap (out_char buf avail spec (out_char buf avail 37 st))
               | Inr (Some (f, ap', z)) \<Rightarrow> vsnprintf_loop buf avail r6 ap' (put_field buf avail la (zp \<and> z) w spec f st))"
              using F P R C S L V by (simp add: U)
            show ?thesis
            proof (cases "convert spec lm ap m")
              case (Inl e)
              then show ?thesis using run pf by simp
            next
              case (Inr res)
              note Ar = convert_args [OF Inr, of la zp w "parse_fmt r6"]
              show ?thesis
              proof (cases res)
                case None
                then show ?thesis
                  using run Inr pf IH [of r6 ap "[37, spec]"] len less.prems(2) Ar
                  by (cases "render (parse_fmt r6) ap m") simp_all
              next
                case (Some fz)
                obtain f ap' z where fz: "fz = (f, ap', z)" by (cases fz) auto
                have q: "put_field buf avail la (zp \<and> z) w spec f st
                    = fold (out_char buf avail) (padded la (zp \<and> z) w spec f m) st"
                  by (rule put_field_eq [OF A]) (use V Inr Some fz in blast)
                show ?thesis
                  using run Inr pf IH [of r6 ap' "padded la (zp \<and> z) w spec f m"] len less.prems(2) Ar Some fz q
                  by (cases "render (parse_fmt r6) ap' m") auto
              qed
            qed
          qed
        qed
      qed
    qed
  qed
qed

text \<open>The characters go to the buffer as long as there is room; the position and the total count all of them.\<close>

lemma out_chars:
  assumes "unat (f_pos st) + length bs < 2 ^ 64"
  shows "fold (out_char buf avail) bs st =
    \<lparr>f_pos = f_pos st + of_nat (length bs), f_total = f_total st + of_nat (length bs),
     f_mem = store_bytes (buf + f_pos st) (take (unat avail - unat (f_pos st)) bs) (f_mem st)\<rparr>"
  using assms
proof (induction bs arbitrary: st)
  case (Cons b bs)
  let ?st = "out_char buf avail b st"
  have p: "f_pos ?st = f_pos st + 1" "f_total ?st = f_total st + 1" by (simp_all add: out_char_def)
  have u: "unat (f_pos st + 1) = Suc (unat (f_pos st))" using Cons.prems by (simp add: unat_inc)
  have IH: "fold (out_char buf avail) bs ?st =
    \<lparr>f_pos = f_pos ?st + of_nat (length bs), f_total = f_total ?st + of_nat (length bs),
     f_mem = store_bytes (buf + f_pos ?st) (take (unat avail - unat (f_pos ?st)) bs) (f_mem ?st)\<rparr>"
    by (rule Cons.IH) (use Cons.prems u p in simp)
  have "f_mem (fold (out_char buf avail) bs ?st)
      = store_bytes (buf + f_pos st) (take (unat avail - unat (f_pos st)) (b # bs)) (f_mem st)"
  proof (cases "f_pos st < avail")
    case True
    then have "unat avail - unat (f_pos st) = Suc (unat avail - Suc (unat (f_pos st)))"
      by (simp add: word_less_nat_alt)
    then show ?thesis using True IH u by (simp add: p) (simp add: out_char_def add.assoc)
  next
    case False
    then have "unat avail \<le> unat (f_pos st)" by (simp add: word_less_nat_alt)
    then show ?thesis using False IH u by (simp add: p) (simp add: out_char_def)
  qed
  then show ?case using IH by (simp add: p algebra_simps)
qed (cases st, simp)



end
