(* ===== verification/Ulib_Input.thy ===== *)
theory Ulib_Input
  imports Ulib_Stdio
begin

text \<open>
  Reading characters and lines (\<open>user/ulib_stdio.c\<close>, second half). Each loop ends when a \<open>read\<close> result says so;
  the recursion is on the results still to come. The line editor \<open>u_gets\<close> is shown to keep, in the buffer and on
  the terminal, the line that the keys typed stand for.
\<close>

section \<open>The routines\<close>

lemma read_call_shrinks: "read_call buf len w = Inr (n, w') \<Longrightarrow> length (u_in w') < length (u_in w)"
  by (auto simp: read_call_def Let_def split: list.splits read_result.splits)

text \<open>\<open>read(fd, &c, 1)\<close> with a local variable: the result, the character if one was read, and the world.\<close>

definition read_char :: "uio \<Rightarrow> (int \<times> u8 \<times> uio) kres" where
  "read_char w =
     (case u_in w of
        [] \<Rightarrow> Inl Diverges
      | ReadErr e # rs \<Rightarrow> Inr (- int (Suc e), 0, w\<lparr>u_in := rs\<rparr>)
      | ReadBytes [] # rs \<Rightarrow> Inr (0, 0, w\<lparr>u_in := rs\<rparr>)
      | ReadBytes (c # cs) # rs \<Rightarrow> Inr (1, c, w\<lparr>u_in := rs\<rparr>))"

lemma read_char_shrinks: "read_char w = Inr (n, c, w') \<Longrightarrow> length (u_in w') < length (u_in w)"
  by (auto simp: read_char_def split: list.splits read_result.splits)

definition poke :: "u64 \<Rightarrow> int \<Rightarrow> u8 \<Rightarrow> uio \<Rightarrow> uio" where
  "poke buf i c w = w\<lparr>u_mem := (u_mem w)(buf + word_of_int i := c)\<rparr>"

function read_line_loop :: "u64 \<Rightarrow> int \<Rightarrow> int \<Rightarrow> uio \<Rightarrow> (int \<times> uio) kres" where
  "read_line_loop buf buf_size used w =
     (if used \<ge> buf_size - 1 then Inr (used, poke buf used 0 w)
      else case read_char w of
          Inl e \<Rightarrow> Inl e
        | Inr (n, c, w1) \<Rightarrow>
            if n < 0 then Inr (n, w1)
            else if n = 0 then (if used = 0 then Inr (0, w1) else Inr (used, poke buf used 0 w1))
            else if c = 10 \<or> c = 13 then Inr (used, poke buf used 0 w1)
            else read_line_loop buf buf_size (used + 1) (poke buf used c w1))"
  by pat_completeness auto
termination
  by (relation "measure (\<lambda>(buf, buf_size, used, w). length (u_in w))") (auto simp: poke_def dest!: read_char_shrinks)

definition u_read_line :: "u64 \<Rightarrow> int \<Rightarrow> uio \<Rightarrow> (int \<times> uio) kres" where
  "u_read_line buf buf_size w = (if buf_size \<le> 1 then Inr (-1, w) else read_line_loop buf buf_size 0 w)"

definition u_getchar :: "uio \<Rightarrow> (int \<times> uio) kres" where
  "u_getchar w =
     (case read_char w of
        Inl e \<Rightarrow> Inl e
      | Inr (n, c, w1) \<Rightarrow> if n > 0 then Inr (uint c, w1) else if n = 0 then Inr (-1, w1) else Inr (n, w1))"

definition U_GETS_INTR :: int where "U_GETS_INTR = -2"

definition putchars :: "u8 list \<Rightarrow> uio \<Rightarrow> uio" where
  "putchars cs w = fold (\<lambda>c w. snd (u_putchar (uint c) w)) cs w"

lemma putchars_eq [simp]: "putchars cs w = w\<lparr>u_out := u_out w @ cs\<rparr>"
  by (induction cs arbitrary: w) (simp_all add: putchars_def u_putchar_def to_char_def)

function gets_loop :: "u64 \<Rightarrow> int \<Rightarrow> int \<Rightarrow> uio \<Rightarrow> (int \<times> uio) kres" where
  "gets_loop buf buf_size used w =
     (case read_char w of
        Inl e \<Rightarrow> Inl e
      | Inr (n, c, w1) \<Rightarrow>
          if n < 0 then Inr (n, w1)
          else if n = 0 then (if used = 0 then Inr (0, w1) else Inr (used, poke buf used 0 w1))
          else if c = 0x03 then Inr (U_GETS_INTR, poke buf 0 0 (putchars [94, 67, 10] w1))
          else if c = 10 \<or> c = 13 then Inr (used, poke buf used 0 (putchars [10] w1))
          else if c = 8 \<or> c = 0x7f
          then (if used > 0 then gets_loop buf buf_size (used - 1) (putchars [8, 32, 8] w1)
                else gets_loop buf buf_size used w1)
          else if c < 0x20 then gets_loop buf buf_size used w1
          else if used < buf_size - 1 then gets_loop buf buf_size (used + 1) (putchars [c] (poke buf used c w1))
          else gets_loop buf buf_size used w1)"
  by pat_completeness auto
termination
  by (relation "measure (\<lambda>(buf, buf_size, used, w). length (u_in w))") (auto simp: poke_def dest!: read_char_shrinks)

definition u_gets :: "u64 \<Rightarrow> int \<Rightarrow> uio \<Rightarrow> (int \<times> uio) kres" where
  "u_gets buf buf_size w = (if buf = 0 \<or> buf_size \<le> 1 then Inr (-1, w) else gets_loop buf buf_size 0 w)"

function readn_loop :: "u64 \<Rightarrow> int \<Rightarrow> int \<Rightarrow> uio \<Rightarrow> (int \<times> uio) kres" where
  "readn_loop buf nbytes tot w =
     (if tot < nbytes
      then case read_call (buf + word_of_int tot) (word_of_int (nbytes - tot)) w of
          Inl e \<Rightarrow> Inl e
        | Inr (n, w1) \<Rightarrow>
            if n < 0 then Inr (n, w1)
            else if n = 0 then Inr (tot, w1)
            else readn_loop buf nbytes (tot + n) w1
      else Inr (tot, w))"
  by pat_completeness auto
termination
  by (relation "measure (\<lambda>(buf, nbytes, tot, w). length (u_in w))") (auto dest!: read_call_shrinks)

definition u_readn :: "u64 \<Rightarrow> int \<Rightarrow> uio \<Rightarrow> (int \<times> uio) kres" where
  "u_readn buf nbytes w = readn_loop buf nbytes 0 w"

function read_until_loop :: "u64 \<Rightarrow> int \<Rightarrow> u8 \<Rightarrow> int \<Rightarrow> uio \<Rightarrow> (int \<times> uio) kres" where
  "read_until_loop buf buf_size delim used w =
     (if used \<ge> buf_size - 1 then Inr (used, poke buf used 0 w)
      else case read_call (buf + word_of_int used) 1 w of
          Inl e \<Rightarrow> Inl e
        | Inr (n, w1) \<Rightarrow>
            if n < 0 then Inr (n, w1)
            else if n = 0 then Inr (used, poke buf used 0 w1)
            else if u_mem w1 (buf + word_of_int used) = delim then Inr (used + 1, poke buf (used + 1) 0 w1)
            else read_until_loop buf buf_size delim (used + 1) w1)"
  by pat_completeness auto
termination
  by (relation "measure (\<lambda>(buf, buf_size, delim, used, w). length (u_in w))") (auto dest!: read_call_shrinks)

definition u_read_until :: "u64 \<Rightarrow> int \<Rightarrow> u8 \<Rightarrow> uio \<Rightarrow> (int \<times> uio) kres" where
  "u_read_until buf buf_size delim w =
     (if buf_size \<le> 1 then Inr (-1, w) else read_until_loop buf buf_size delim 0 w)"

declare read_line_loop.simps [simp del] gets_loop.simps [simp del] readn_loop.simps [simp del] read_until_loop.simps [simp del]

section \<open>The line editor\<close>

text \<open>What a key does to the line typed so far, of at most \<open>cap\<close> characters.\<close>

definition edit_key :: "nat \<Rightarrow> u8 list \<Rightarrow> u8 \<Rightarrow> u8 list" where
  "edit_key cap line c =
     (if c = 8 \<or> c = 0x7f then butlast line
      else if c < 0x20 \<or> cap \<le> length line then line
      else line @ [c])"

text \<open>A terminal: the characters left of the cursor and those from the cursor on.\<close>

definition type_out :: "u8 list \<times> u8 list \<Rightarrow> u8 \<Rightarrow> u8 list \<times> u8 list" where
  "type_out t c =
     (if c = 8 then (butlast (fst t), last (fst t) # snd t) else (fst t @ [c], drop 1 (snd t)))"

definition seen :: "u8 list \<Rightarrow> u8 list" where
  "seen out = fst (foldl type_out ([], []) out)"

text \<open>The line is in the buffer, and nothing outside the buffer has changed.\<close>

definition holds_line :: "u64 \<Rightarrow> int \<Rightarrow> u8 list \<Rightarrow> mem \<Rightarrow> mem \<Rightarrow> bool" where
  "holds_line buf buf_size line m m' \<longleftrightarrow> load_bytes buf (length line) m' = line
     \<and> (\<forall>x. (\<forall>i. 0 \<le> i \<longrightarrow> i < buf_size \<longrightarrow> x \<noteq> buf + word_of_int i) \<longrightarrow> m' x = m x)"

lemma seen_snoc: "c \<noteq> 8 \<Longrightarrow> seen (out @ [c]) = seen out @ [c]"
  by (simp add: seen_def type_out_def)

lemma seen_erase: "seen out \<noteq> [] \<Longrightarrow> seen (out @ [8, 32, 8]) = butlast (seen out)"
  by (simp add: seen_def type_out_def)

lemma holds_line_snoc:
  assumes "holds_line buf buf_size line m m'" "int (length line) < buf_size" "buf_size < 2 ^ 31"
  shows "holds_line buf buf_size (line @ [c]) m (m'(buf + of_nat (length line) := c))"
proof -
  have "buf + of_nat (length line) \<noteq> buf + of_nat i" if "i < length line" for i
    using addr_inj [of "length line" i buf] that assms(2,3) by simp
  then have "load_bytes buf (length line) (m'(buf + of_nat (length line) := c)) = load_bytes buf (length line) m'"
    by (intro load_bytes_cong) (metis fun_upd_other)
  moreover have "x \<noteq> buf + of_nat (length line)" if "\<forall>i. 0 \<le> i \<longrightarrow> i < buf_size \<longrightarrow> x \<noteq> buf + word_of_int i" for x
    using that [rule_format, of "int (length line)"] assms(2) by simp
  ultimately show ?thesis using assms(1) by (simp add: holds_line_def load_bytes_snoc)
qed

lemma holds_line_butlast: "holds_line buf buf_size line m m' \<Longrightarrow> holds_line buf buf_size (butlast line) m m'"
  by (cases line rule: rev_cases) (simp_all add: holds_line_def load_bytes_snoc)

text \<open>One key.\<close>

lemma gets_key:
  assumes "u_in w = ReadBytes [c] # rs" "c \<notin> {3, 10, 13}" "holds_line buf buf_size line m (u_mem w)"
    "int (length line) < buf_size" "buf_size < 2 ^ 31" "u_out w = o0 @ out" "seen out = line" "0 \<notin> set line"
  shows "\<exists>w' out'. gets_loop buf buf_size (int (length line)) w
      = gets_loop buf buf_size (int (length (edit_key (nat (buf_size - 1)) line c))) w'
    \<and> u_in w' = rs \<and> holds_line buf buf_size (edit_key (nat (buf_size - 1)) line c) m (u_mem w')
    \<and> int (length (edit_key (nat (buf_size - 1)) line c)) < buf_size \<and> u_out w' = o0 @ out'
    \<and> seen out' = edit_key (nat (buf_size - 1)) line c \<and> 0 \<notin> set (edit_key (nat (buf_size - 1)) line c)"
proof -
  let ?w1 = "w\<lparr>u_in := rs\<rparr>"
  have r: "read_char w = Inr (1, c, ?w1)" using assms(1) by (simp add: read_char_def)
  have c: "c \<noteq> 3" "c \<noteq> 10" "c \<noteq> 13" using assms(2) by auto
  consider (erase) "c = 8 \<or> c = 0x7f" "line \<noteq> []" | (empty) "c = 8 \<or> c = 0x7f" "line = []"
    | (skip) "\<not> (c = 8 \<or> c = 0x7f)" "c < 0x20 \<or> nat (buf_size - 1) \<le> length line"
    | (put) "\<not> (c = 8 \<or> c = 0x7f)" "\<not> c < 0x20" "length line < nat (buf_size - 1)"
    by fastforce
  then show ?thesis
  proof cases
    case erase
    have l: "int (length line) - 1 = int (length (butlast line))" using erase by (cases line) simp_all
    have "gets_loop buf buf_size (int (length line)) w = gets_loop buf buf_size (int (length line) - 1) (putchars [8, 32, 8] ?w1)"
      using erase c r by (subst gets_loop.simps) auto
    note this [unfolded l]
    moreover have "0 \<notin> set (butlast line)" using assms(8) in_set_butlastD by metis
    ultimately show ?thesis
      using erase assms seen_erase [of out] holds_line_butlast [OF assms(3)]
      by (intro exI [of _ "putchars [8, 32, 8] ?w1"] exI [of _ "out @ [8, 32, 8]"]) (auto simp: edit_key_def simp del: length_butlast simp: l [symmetric])
  next
    case empty
    have "gets_loop buf buf_size (int (length line)) w = gets_loop buf buf_size (int (length line)) ?w1"
      using empty c r by (subst gets_loop.simps) auto
    then show ?thesis
      using empty assms by (intro exI [of _ ?w1] exI [of _ out]) (simp add: edit_key_def)
  next
    case skip
    have "c < 0x20 \<or> \<not> int (length line) < buf_size - 1" using skip(2) by linarith
    then have "gets_loop buf buf_size (int (length line)) w = gets_loop buf buf_size (int (length line)) ?w1"
      using skip(1) c r by (subst gets_loop.simps) (elim disjE; simp)
    then show ?thesis
      using skip assms by (intro exI [of _ ?w1] exI [of _ out]) (simp add: edit_key_def)
  next
    case put
    let ?w2 = "putchars [c] (poke buf (int (length line)) c ?w1)"
    have "int (length line) < buf_size - 1" using put by linarith
    then have "gets_loop buf buf_size (int (length line)) w = gets_loop buf buf_size (int (length line) + 1) ?w2"
      using put c r by (subst gets_loop.simps) auto
    moreover have "c \<noteq> 0" "c \<noteq> 8" using put by auto
    ultimately show ?thesis
      using put assms seen_snoc [of c out] holds_line_snoc [OF assms(3,4,5)]
      by (intro exI [of _ ?w2] exI [of _ "out @ [c]"]) (simp add: edit_key_def poke_def add.commute)
  qed
qed

lemma gets_loop_line:
  assumes "u_in w = map (\<lambda>c. ReadBytes [c]) (keys @ [nl]) @ rest" "nl = 10 \<or> nl = 13" "set keys \<inter> {3, 10, 13} = {}"
    "holds_line buf buf_size line m (u_mem w)" "int (length line) < buf_size" "buf_size < 2 ^ 31"
    "u_out w = o0 @ out" "seen out = line" "0 \<notin> set line"
  defines "line' \<equiv> foldl (edit_key (nat (buf_size - 1))) line keys"
  shows "\<exists>w' out'. gets_loop buf buf_size (int (length line)) w = Inr (int (length line'), w')
    \<and> u_in w' = rest \<and> cstr (u_mem w') buf line' \<and> holds_line buf buf_size line' m (u_mem w')
    \<and> int (length line') < buf_size \<and> u_out w' = o0 @ out' @ [10] \<and> seen out' = line'"
  using assms(1,3-9) unfolding line'_def
proof (induction keys arbitrary: line w out)
  case Nil
  let ?w1 = "w\<lparr>u_in := rest\<rparr>"
  let ?w2 = "poke buf (int (length line)) 0 (putchars [10] ?w1)"
  have r: "read_char w = Inr (1, nl, ?w1)" using Nil.prems(1) by (simp add: read_char_def)
  have g: "gets_loop buf buf_size (int (length line)) w = Inr (int (length line), ?w2)"
    using assms(2) r by (subst gets_loop.simps) auto
  have "holds_line buf buf_size (line @ [0]) m (u_mem ?w2)"
    using holds_line_snoc [OF Nil.prems(3,4,5), of 0] by (simp add: poke_def)
  then have h: "load_bytes buf (length line) (u_mem ?w2) = line" "u_mem ?w2 (buf + of_nat (length line)) = 0"
    "holds_line buf buf_size line m (u_mem ?w2)"
    by (simp_all add: holds_line_def load_bytes_snoc)
  have "cstr (u_mem ?w2) buf line" using h(1,2) Nil.prems(8) by (simp add: cstr_load)
  moreover have "u_in ?w2 = rest" "u_out ?w2 = o0 @ out @ [10]" using Nil.prems(6) by (simp_all add: poke_def)
  ultimately show ?case using g h(3) Nil.prems(4,7) by (auto intro!: exI [of _ ?w2] exI [of _ out])
next
  case (Cons c keys)
  have u: "u_in w = ReadBytes [c] # (map (\<lambda>c. ReadBytes [c]) (keys @ [nl]) @ rest)" using Cons.prems(1) by simp
  have c: "c \<notin> {3, 10, 13}" "set keys \<inter> {3, 10, 13} = {}" using Cons.prems(2) by auto
  obtain w1 out1 where w1: "gets_loop buf buf_size (int (length line)) w
      = gets_loop buf buf_size (int (length (edit_key (nat (buf_size - 1)) line c))) w1"
    "u_in w1 = map (\<lambda>c. ReadBytes [c]) (keys @ [nl]) @ rest" "holds_line buf buf_size (edit_key (nat (buf_size - 1)) line c) m (u_mem w1)"
    "int (length (edit_key (nat (buf_size - 1)) line c)) < buf_size" "u_out w1 = o0 @ out1"
    "seen out1 = edit_key (nat (buf_size - 1)) line c" "0 \<notin> set (edit_key (nat (buf_size - 1)) line c)"
    using gets_key [OF u c(1) Cons.prems(3-8)] by blast
  show ?case using Cons.IH [OF w1(2) c(2) w1(3,4) Cons.prems(5) w1(5-7)] w1(1) by simp
qed

text \<open>C33: \<open>u_gets\<close> is a line editor: for keys typed up to the end of the line it returns the line that the keys stand for, with
  backspace taking the last character back and characters beyond the buffer or below the space ignored; the line is stored
  as a terminated string inside the buffer, nothing outside the buffer changes, and the characters echoed show exactly
  this line on the terminal.\<close>

theorem gets_edits_line:
  assumes "buf \<noteq> 0" "1 < buf_size" "buf_size < 2 ^ 31" "nl = 10 \<or> nl = 13" "set keys \<inter> {3, 10, 13} = {}"
    "u_in w = map (\<lambda>c. ReadBytes [c]) (keys @ [nl]) @ rest"
  defines "line \<equiv> foldl (edit_key (nat (buf_size - 1))) [] keys"
  shows "\<exists>w' out. u_gets buf buf_size w = Inr (int (length line), w') \<and> int (length line) < buf_size
    \<and> cstr (u_mem w') buf line \<and> holds_line buf buf_size line (u_mem w) (u_mem w')
    \<and> u_in w' = rest \<and> u_out w' = u_out w @ out @ [10] \<and> seen out = line"
proof -
  have h: "holds_line buf buf_size [] (u_mem w) (u_mem w)" by (simp add: holds_line_def)
  obtain w' out where w': "gets_loop buf buf_size 0 w = Inr (int (length line), w')"
    "u_in w' = rest" "cstr (u_mem w') buf line" "holds_line buf buf_size line (u_mem w) (u_mem w')"
    "int (length line) < buf_size" "u_out w' = u_out w @ out @ [10]" "seen out = line"
    using gets_loop_line [OF assms(6,4,5) h, of "u_out w" "[]"] assms(2,3) by (auto simp: line_def seen_def)
  have "u_gets buf buf_size w = Inr (int (length line), w')" using w'(1) assms(1,2) by (simp add: u_gets_def)
  with w' show ?thesis by blast
qed

theorem gets_edits_line_witness:
  "\<exists>w'. u_gets 0x2000 16 \<lparr>u_mem = (\<lambda>_. 0), u_in = map (\<lambda>c. ReadBytes [c]) [112, 120, 127, 115, 13], u_out = []\<rparr> = Inr (2, w')
    \<and> cstr (u_mem w') 0x2000 [112, 115]"
proof -
  let ?w = "\<lparr>u_mem = (\<lambda>_. 0), u_in = map (\<lambda>c. ReadBytes [c]) [112, 120, 127, 115, 13], u_out = []\<rparr>"
  have e: "foldl (edit_key (nat (16 - 1))) [] [112, 120, 127, 115] = [112, 115]" by (simp add: edit_key_def)
  show ?thesis
    using gets_edits_line [of "0x2000" 16 13 "[112, 120, 127, 115]" ?w "[]"] unfolding e by auto
qed

end
