(* ===== verification/Shell.thy ===== *)
theory Shell
  imports Ulib_Input
begin

text \<open>
  The shell (\<open>user/shell.c\<close>): its table of commands in progress, the tokenizer, the command lookup, the
  dispatch of a line and the worker that runs a command. The line buffers lie in memory; the results of
  \<open>thread_create\<close> and \<open>thread_join\<close> are inputs, as is the place of the command names, which the linker
  chooses. The outcome of a dispatch is which command runs, where, and on which arguments; what the commands do is
  in theory \<open>Shell_Cmds\<close>.
\<close>

section \<open>Helpers\<close>

definition SHELL_MAX_LINE :: nat where "SHELL_MAX_LINE = 128"
definition SHELL_MAX_ARGS :: nat where "SHELL_MAX_ARGS = 8"
definition SHELL_MAX_PROCS :: nat where "SHELL_MAX_PROCS = 4"

text \<open>The copy of a line into a buffer of \<open>SHELL_MAX_LINE\<close> bytes, with \<open>k = SHELL_MAX_LINE - 1 - i\<close> rounds left; the loop
  occurs in \<open>shell_proc_alloc\<close>, \<open>shell_cmd_worker\<close> and \<open>shell_dispatch_line\<close>.\<close>

fun copy_line :: "nat \<Rightarrow> u64 \<Rightarrow> u64 \<Rightarrow> nat \<Rightarrow> mem \<Rightarrow> mem" where
  "copy_line 0 dst src i m = m(dst + of_nat i := 0)"
| "copy_line (Suc k) dst src i m =
     (if m (src + of_nat i) = 0 then m(dst + of_nat i := 0)
      else copy_line k dst src (Suc i) (m(dst + of_nat i := m (src + of_nat i))))"

text \<open>\<open>g_procs\<close>: the flags, and the lines in memory.\<close>

record shell =
  sh_in_use :: "nat \<Rightarrow> bool"
  sh_mem :: mem

text \<open>\<open>g_procs[i].line\<close>, with the array at \<open>base\<close> and elements of 132 bytes.\<close>

definition proc_line :: "u64 \<Rightarrow> nat \<Rightarrow> u64" where
  "proc_line base i = base + of_nat (132 * i) + 4"

fun proc_alloc_loop :: "nat list \<Rightarrow> u64 \<Rightarrow> u64 \<Rightarrow> shell \<Rightarrow> nat option \<times> shell" where
  "proc_alloc_loop [] base line s = (None, s)"
| "proc_alloc_loop (i # is) base line s =
     (if \<not> sh_in_use s i
      then (Some i, s\<lparr>sh_in_use := (sh_in_use s)(i := True),
              sh_mem := copy_line (SHELL_MAX_LINE - 1) (proc_line base i) line 0 (sh_mem s)\<rparr>)
      else proc_alloc_loop is base line s)"

definition shell_proc_alloc :: "u64 \<Rightarrow> u64 \<Rightarrow> shell \<Rightarrow> nat option \<times> shell" where
  "shell_proc_alloc base line s = proc_alloc_loop [0..<SHELL_MAX_PROCS] base line s"

definition shell_proc_free :: "u64 \<Rightarrow> nat option \<Rightarrow> shell \<Rightarrow> shell" where
  "shell_proc_free base p s =
     (case p of
        None \<Rightarrow> s
      | Some i \<Rightarrow> s\<lparr>sh_in_use := (sh_in_use s)(i := False), sh_mem := (sh_mem s)(proc_line base i := 0)\<rparr>)"

partial_function (option) shell_atoi_loop :: "u64 \<Rightarrow> u32 \<Rightarrow> mem \<Rightarrow> u32 option" where
  "shell_atoi_loop s val m =
     (if 48 \<le> m s \<and> m s \<le> 57 then shell_atoi_loop (s + 1) (val * 10 + ucast (m s - 48)) m else Some val)"

definition shell_atoi :: "u64 \<Rightarrow> mem \<Rightarrow> u32 option" where
  "shell_atoi s m =
     (if m s = 43 then shell_atoi_loop (s + 1) 0 m
      else if m s = 45 then map_option uminus (shell_atoi_loop (s + 1) 0 m)
      else shell_atoi_loop s 0 m)"

definition SHELL_READ_OK :: int where "SHELL_READ_OK = 1"
definition SHELL_READ_EOF :: int where "SHELL_READ_EOF = 0"
definition SHELL_READ_INTR :: int where "SHELL_READ_INTR = -2"
definition SHELL_READ_ERR :: int where "SHELL_READ_ERR = -1"

definition shell_read_line :: "u64 \<Rightarrow> int \<Rightarrow> uio \<Rightarrow> (int \<times> uio) kres" where
  "shell_read_line line line_size w =
     bindE (u_gets line line_size w) (\<lambda>(len, w1).
       Inr (if len = U_GETS_INTR then SHELL_READ_INTR
            else if len < 0 then SHELL_READ_ERR
            else if len = 0 then SHELL_READ_EOF
            else SHELL_READ_OK, w1))"

section \<open>The tokenizer\<close>

definition blank :: "u8 \<Rightarrow> bool" where "blank c \<longleftrightarrow> c = 32 \<or> c = 9"

partial_function (option) skip_blank :: "u64 \<Rightarrow> mem \<Rightarrow> u64 option" where
  "skip_blank p m = (if blank (m p) then skip_blank (p + 1) m else Some p)"

partial_function (option) skip_token :: "u64 \<Rightarrow> mem \<Rightarrow> u64 option" where
  "skip_token p m = (if m p \<noteq> 0 \<and> \<not> blank (m p) then skip_token (p + 1) m else Some p)"

text \<open>The loop of \<open>shell_parse_line\<close> with \<open>k = max_args - argc\<close> rounds left; the result is the rest of \<open>argv\<close>.\<close>

fun parse_tokens :: "nat \<Rightarrow> u64 \<Rightarrow> mem \<Rightarrow> (u64 list \<times> mem) option" where
  "parse_tokens 0 p m = Some ([], m)"
| "parse_tokens (Suc k) p m =
     (if m p = 0 then Some ([], m)
      else case skip_token p m of
          None \<Rightarrow> None
        | Some q \<Rightarrow>
            if m q = 0 then Some ([p], m)
            else let m1 = m(q := 0) in
              (case skip_blank (q + 1) m1 of
                 None \<Rightarrow> None
               | Some r \<Rightarrow>
                   (case parse_tokens k r m1 of None \<Rightarrow> None | Some (ps, m2) \<Rightarrow> Some (p # ps, m2))))"

definition shell_parse_line :: "u64 \<Rightarrow> nat \<Rightarrow> mem \<Rightarrow> (u64 list \<times> mem) option" where
  "shell_parse_line line max_args m =
     (case skip_blank line m of None \<Rightarrow> None | Some p \<Rightarrow> parse_tokens max_args p m)"

section \<open>Commands\<close>

datatype shell_cmd = CMD_HELP | CMD_ECHO | CMD_SLEEP | CMD_PS | CMD_JOBS | CMD_KILL | CMD_RQ | CMD_DATE
  | CMD_UPTIME | CMD_IRQSTAT | CMD_SPAWN | CMD_MON | CMD_EXIT

text \<open>The table: name, handler and whether the command runs in the shell's own thread.\<close>

definition g_shell_cmds :: "(string \<times> shell_cmd \<times> bool) list" where
  "g_shell_cmds =
     [(''help'', CMD_HELP, True), (''echo'', CMD_ECHO, True), (''sleep'', CMD_SLEEP, False), (''ps'', CMD_PS, True),
      (''jobs'', CMD_JOBS, True), (''kill'', CMD_KILL, True), (''rq'', CMD_RQ, True), (''date'', CMD_DATE, False),
      (''uptime'', CMD_UPTIME, False), (''irqstat'', CMD_IRQSTAT, False), (''spawn'', CMD_SPAWN, True),
      (''mon'', CMD_MON, False), (''exit'', CMD_EXIT, True)]"

text \<open>The lookup; \<open>nm i\<close> is the address of the name of entry \<open>i\<close>.\<close>

fun find_cmd_loop :: "nat list \<Rightarrow> (nat \<Rightarrow> u64) \<Rightarrow> u64 \<Rightarrow> mem \<Rightarrow> nat option option" where
  "find_cmd_loop [] nm name m = Some None"
| "find_cmd_loop (i # is) nm name m =
     (case u_strcmp name (nm i) m of
        None \<Rightarrow> None
      | Some d \<Rightarrow> if d = 0 then Some (Some i) else find_cmd_loop is nm name m)"

definition shell_find_cmd :: "(nat \<Rightarrow> u64) \<Rightarrow> u64 \<Rightarrow> mem \<Rightarrow> nat option option" where
  "shell_find_cmd nm name m = find_cmd_loop [0..<length g_shell_cmds] nm name m"

text \<open>What the worker thread does: it copies the line to its stack, frees the slot, splits the line and runs the command.
  The local array lies at \<open>line\<close>.\<close>

datatype outcome = NoCommand | UnknownCommand u64 | RunHere shell_cmd "u64 list" | RunWorker

definition shell_cmd_worker :: "(nat \<Rightarrow> u64) \<Rightarrow> u64 \<Rightarrow> nat \<Rightarrow> u64 \<Rightarrow> shell \<Rightarrow> (outcome \<times> shell) option" where
  "shell_cmd_worker nm base i line s =
     (let s1 = s\<lparr>sh_mem := copy_line (SHELL_MAX_LINE - 1) line (proc_line base i) 0 (sh_mem s)\<rparr>;
          s2 = shell_proc_free base (Some i) s1
      in case shell_parse_line line SHELL_MAX_ARGS (sh_mem s2) of
           None \<Rightarrow> None
         | Some (argv, m) \<Rightarrow>
             let s3 = s2\<lparr>sh_mem := m\<rparr> in
             (case argv of
                [] \<Rightarrow> Some (NoCommand, s3)
              | a # as \<Rightarrow>
                  (case shell_find_cmd nm a m of
                     None \<Rightarrow> None
                   | Some None \<Rightarrow> Some (UnknownCommand a, s3)
                   | Some (Some c) \<Rightarrow> Some (RunHere (fst (snd (g_shell_cmds ! c))) argv, s3))))"

text \<open>The results of \<open>thread_create\<close> and \<open>thread_join\<close>; a successful join has run the worker.\<close>

record run_env =
  re_tid :: int
  re_join_rc :: int
  re_status :: int

definition shell_run_command :: "u64 \<Rightarrow> run_env \<Rightarrow> u64 \<Rightarrow> shell \<Rightarrow> int \<times> nat option \<times> shell" where
  "shell_run_command base env line s =
     (case shell_proc_alloc base line s of
        (None, s1) \<Rightarrow> (-1, None, s1)
      | (Some i, s1) \<Rightarrow>
          if re_tid env < 0 then (-2, None, shell_proc_free base (Some i) s1)
          else if re_join_rc env < 0 then (-3, Some i, s1)
          else (re_status env, Some i, s1))"

text \<open>\<open>shell_dispatch_line\<close> up to the command it runs; the local array lies at \<open>raw\<close>.\<close>

definition shell_dispatch_line :: "(nat \<Rightarrow> u64) \<Rightarrow> u64 \<Rightarrow> u64 \<Rightarrow> shell \<Rightarrow> (outcome \<times> shell) option" where
  "shell_dispatch_line nm raw line s =
     (let m1 = copy_line (SHELL_MAX_LINE - 1) raw line 0 (sh_mem s)
      in case shell_parse_line line SHELL_MAX_ARGS m1 of
           None \<Rightarrow> None
         | Some (argv, m) \<Rightarrow>
             let s1 = s\<lparr>sh_mem := m\<rparr> in
             (case argv of
                [] \<Rightarrow> Some (NoCommand, s1)
              | a # as \<Rightarrow>
                  (case shell_find_cmd nm a m of
                     None \<Rightarrow> None
                   | Some None \<Rightarrow> Some (UnknownCommand a, s1)
                   | Some (Some c) \<Rightarrow>
                       if snd (snd (g_shell_cmds ! c)) then Some (RunHere (fst (snd (g_shell_cmds ! c))) argv, s1)
                       else Some (RunWorker, s1))))"

section \<open>What the tokenizer does\<close>

text \<open>The words of a line, separated by blanks.\<close>

function words :: "u8 list \<Rightarrow> u8 list list" where
  "words bs =
     (case dropWhile blank bs of
        [] \<Rightarrow> []
      | b # r \<Rightarrow> (b # takeWhile (\<lambda>c. \<not> blank c) r) # words (dropWhile (\<lambda>c. \<not> blank c) r))"
  by pat_completeness auto
termination
proof (relation "measure length")
  fix bs b r assume "dropWhile blank bs = b # r"
  then have "Suc (length r) \<le> length bs" using length_dropWhile_le [of blank bs] by simp
  then show "(dropWhile (\<lambda>c. \<not> blank c) r, bs) \<in> measure length"
    using length_dropWhile_le [of "\<lambda>c. \<not> blank c" r] by simp
qed simp

declare words.simps [simp del]

lemma words_dropWhile: "words (dropWhile blank bs) = words bs"
  by (simp add: words.simps [of bs] words.simps [of "dropWhile blank bs"])

lemma words_Nil [simp]: "words [] = []"
  by (simp add: words.simps)

lemma words_token:
  "\<not> blank b \<Longrightarrow> words (b # r) = takeWhile (\<lambda>c. \<not> blank c) (b # r) # words (dropWhile (\<lambda>c. \<not> blank c) (b # r))"
  by (simp add: words.simps [of "b # r"])

lemma cstr_append: "cstr m a (xs @ ys) \<longleftrightarrow> load_bytes a (length xs) m = xs \<and> 0 \<notin> set xs \<and> cstr m (a + of_nat (length xs)) ys"
  by (induction xs arbitrary: a) (auto simp: load_bytes_Suc algebra_simps)

lemma skip_blank_cstr: "cstr m p bs \<Longrightarrow> skip_blank p m = Some (p + of_nat (length (takeWhile blank bs)))"
proof (induction bs arbitrary: p)
  case Nil
  then show ?case by (subst skip_blank.simps) (simp add: blank_def)
next
  case (Cons b bs)
  then show ?case by (subst skip_blank.simps) (simp add: algebra_simps)
qed

lemma skip_token_cstr: "cstr m p bs \<Longrightarrow> skip_token p m = Some (p + of_nat (length (takeWhile (\<lambda>c. \<not> blank c) bs)))"
proof (induction bs arbitrary: p)
  case Nil
  then show ?case by (subst skip_token.simps) simp
next
  case (Cons b bs)
  then show ?case by (subst skip_token.simps) (simp add: algebra_simps)
qed

text \<open>Nothing changes outside the first \<open>n\<close> bytes at \<open>p\<close>.\<close>

definition outside_same :: "u64 \<Rightarrow> nat \<Rightarrow> mem \<Rightarrow> mem \<Rightarrow> bool" where
  "outside_same p n m m' \<longleftrightarrow> (\<forall>x. (\<forall>i<n. x \<noteq> p + of_nat i) \<longrightarrow> m' x = m x)"

lemma cstr_outside:
  assumes "outside_same p n m m'" "\<And>i j. i \<le> length bs \<Longrightarrow> j < n \<Longrightarrow> a + of_nat i \<noteq> p + of_nat j"
  shows "cstr m' a bs = cstr m a bs"
  using assms(2)
proof (induction bs arbitrary: a)
  case Nil
  then show ?case using assms(1) Nil [of 0] by (simp add: outside_same_def)
next
  case (Cons b bs)
  have "m' a = m a" using assms(1) Cons.prems [of 0] by (simp add: outside_same_def)
  moreover have "cstr m' (a + 1) bs = cstr m (a + 1) bs"
  proof (rule Cons.IH)
    fix i j assume "i \<le> length bs" "j < n"
    then show "a + 1 + of_nat i \<noteq> p + of_nat j" using Cons.prems [of "Suc i" j] by (simp add: algebra_simps)
  qed
  ultimately show ?case by simp
qed

lemma parse_tokens_words:
  assumes "cstr m p bs" "bs = [] \<or> \<not> blank (hd bs)" "length bs < 2 ^ 64"
  shows "\<exists>ps m'. parse_tokens k p m = Some (ps, m') \<and> list_all2 (cstr m') ps (take k (words bs)) \<and> outside_same p (length bs) m m'"
  using assms
proof (induction k arbitrary: p bs m)
  case 0
  then show ?case by (simp add: outside_same_def)
next
  case (Suc k)
  let ?nb = "\<lambda>c. \<not> blank c"
  show ?case
  proof (cases bs)
    case Nil
    then show ?thesis using Suc.prems(1) by (simp add: outside_same_def)
  next
    case B: (Cons b r)
    define w where "w = takeWhile ?nb bs"
    define t where "t = dropWhile ?nb bs"
    have nb: "\<not> blank b" "m p \<noteq> 0" using Suc.prems B by auto
    have bs: "bs = w @ t" by (simp add: w_def t_def)
    have wd: "words bs = w # words t" using words_token [OF nb(1), of r] B by (simp add: w_def t_def)
    let ?q = "p + of_nat (length w)"
    have q: "skip_token p m = Some ?q" using skip_token_cstr [OF Suc.prems(1)] by (simp add: w_def)
    have ct: "cstr m ?q t" "load_bytes p (length w) m = w" "0 \<notin> set w"
      using Suc.prems(1) cstr_append [of m p w t] bs by simp_all
    show ?thesis
    proof (cases t)
      case Nil
      have "cstr m p w" using Suc.prems(1) bs Nil by simp
      then show ?thesis using nb(2) q ct(1) Nil wd by (simp add: outside_same_def)
    next
      case T: (Cons c t')
      have c: "blank c" "m ?q = c" "c \<noteq> 0" using T ct(1) hd_dropWhile [of ?nb bs] by (auto simp: t_def)
      let ?m1 = "m(?q := 0)" and ?bs2 = "dropWhile blank t'"
      define d where "d = length (takeWhile blank t')"
      have len: "length bs = length w + Suc (d + length ?bs2)"
        using bs T takeWhile_dropWhile_id [of blank t'] by (metis add_Suc_right d_def length_Cons length_append)
      have ne: "p + of_nat i \<noteq> p + of_nat j" if "i \<noteq> j" "i < 2 ^ 64" "j < 2 ^ 64" for i j
        using addr_inj that by blast
      have c1: "cstr ?m1 (?q + 1) t' = cstr m (?q + 1) t'"
      proof (rule cstr_upd)
        fix j assume "j \<le> length t'"
        then show "?q \<noteq> ?q + 1 + of_nat j"
          using ne [of "length w" "length w + Suc j"] Suc.prems(3) bs T by (simp add: algebra_simps)
      qed
      then have c1': "cstr ?m1 (?q + 1) t'" using ct(1) T by simp
      let ?r = "?q + 1 + of_nat d"
      have r: "skip_blank (?q + 1) ?m1 = Some ?r" using skip_blank_cstr [OF c1'] by (simp add: d_def)
      have c2: "cstr ?m1 ?r ?bs2"
        using c1' cstr_append [of ?m1 "?q + 1" "takeWhile blank t'" ?bs2] by (simp add: d_def)
      have h2: "?bs2 = [] \<or> \<not> blank (hd ?bs2)" using hd_dropWhile [of blank t'] by auto
      have l2: "length ?bs2 < 2 ^ 64" using Suc.prems(3) len by simp
      obtain ps m' where I: "parse_tokens k ?r ?m1 = Some (ps, m')" "list_all2 (cstr m') ps (take k (words ?bs2))"
        "outside_same ?r (length ?bs2) ?m1 m'"
        using Suc.IH [OF c2 h2 l2] by blast
      have rp: "?r = p + of_nat (length w + Suc d)" by simp
      have far: "p + of_nat i \<noteq> ?r + of_nat j" if "i \<le> length w" "j < length ?bs2" for i j
        using ne [of i "length w + Suc d + j"] that len Suc.prems(3) by (simp add: algebra_simps)
      have cw1: "cstr ?m1 p w"
      proof -
        have "load_bytes p (length w) ?m1 = load_bytes p (length w) m"
        proof (rule load_bytes_cong)
          fix i assume "i < length w"
          then have "p + of_nat i \<noteq> ?q" using ne [of i "length w"] len Suc.prems(3) by simp
          then show "?m1 (p + of_nat i) = m (p + of_nat i)" by simp
        qed
        then show ?thesis using ct(2,3) by (simp add: cstr_load)
      qed
      have "cstr m' p w" using cstr_outside [OF I(3) far] cw1 by simp
      moreover have "outside_same p (length bs) m m'"
        unfolding outside_same_def
      proof (intro allI impI)
        fix x assume x: "\<forall>i<length bs. x \<noteq> p + of_nat i"
        have "x \<noteq> ?r + of_nat j" if "j < length ?bs2" for j
          using x [rule_format, of "length w + Suc d + j"] that len by (simp add: algebra_simps)
        then have "m' x = ?m1 x" using I(3) by (simp add: outside_same_def)
        moreover have "x \<noteq> ?q" using x [rule_format, of "length w"] len by simp
        ultimately show "m' x = m x" by simp
      qed
      moreover have "words t = words ?bs2" using words_dropWhile [of t] c(1) T words_dropWhile [of t'] by simp
      ultimately show ?thesis
        using nb(2) q c r I wd by (simp add: Let_def)
    qed
  qed
qed

lemma shell_parse_line_words:
  assumes "cstr m line bs" "length bs < 2 ^ 64"
  shows "\<exists>argv m'. shell_parse_line line k m = Some (argv, m') \<and> list_all2 (cstr m') argv (take k (words bs))
    \<and> outside_same line (length bs) m m'"
proof -
  let ?b = "takeWhile blank bs" and ?r = "dropWhile blank bs"
  let ?p = "line + of_nat (length ?b)"
  have s: "skip_blank line m = Some ?p" using skip_blank_cstr [OF assms(1)] .
  have c: "cstr m ?p ?r" using assms(1) cstr_append [of m line ?b ?r] by simp
  have h: "?r = [] \<or> \<not> blank (hd ?r)" using hd_dropWhile [of blank bs] by auto
  have n: "length bs = length ?b + length ?r" using takeWhile_dropWhile_id [of blank bs] by (metis length_append)
  have lr: "length ?r < 2 ^ 64" using assms(2) n by simp
  obtain argv m' where I: "parse_tokens k ?p m = Some (argv, m')" "list_all2 (cstr m') argv (take k (words ?r))"
    "outside_same ?p (length ?r) m m'"
    using parse_tokens_words [OF c h lr] by blast
  have "outside_same line (length bs) m m'"
    unfolding outside_same_def
  proof (intro allI impI)
    fix x assume x: "\<forall>i<length bs. x \<noteq> line + of_nat i"
    have "x \<noteq> ?p + of_nat j" if "j < length ?r" for j
      using x [rule_format, of "length ?b + j"] that n by (simp add: algebra_simps)
    then show "m' x = m x" using I(3) by (simp add: outside_same_def)
  qed
  then show ?thesis using s I by (simp add: shell_parse_line_def words_dropWhile)
qed

lemma copy_line_eq:
  assumes "cstr m (src + of_nat i) bs" "\<And>j j'. j \<le> i + k \<Longrightarrow> j' \<le> i + length bs \<Longrightarrow> dst + of_nat j \<noteq> src + of_nat j'"
  shows "copy_line k dst src i m = store_bytes (dst + of_nat i) (take k bs @ [0]) m"
  using assms
proof (induction k arbitrary: i bs m)
  case (Suc k)
  show ?case
  proof (cases bs)
    case Nil
    then show ?thesis using Suc.prems(1) by simp
  next
    case (Cons b bs')
    let ?m = "m(dst + of_nat i := b)"
    have "cstr m (src + of_nat (Suc i)) bs'" using Suc.prems(1) Cons by (simp add: algebra_simps)
    moreover have "cstr ?m (src + of_nat (Suc i)) bs' = cstr m (src + of_nat (Suc i)) bs'"
    proof (rule cstr_upd)
      fix j assume "j \<le> length bs'"
      then show "dst + of_nat i \<noteq> src + of_nat (Suc i) + of_nat j"
        using Suc.prems(2) [of i "Suc i + j"] Cons by (simp add: algebra_simps)
    qed
    ultimately have c: "cstr ?m (src + of_nat (Suc i)) bs'" by simp
    have "copy_line k dst src (Suc i) ?m = store_bytes (dst + of_nat (Suc i)) (take k bs' @ [0]) ?m"
      by (rule Suc.IH [OF c]) (use Suc.prems(2) Cons in simp)
    then show ?thesis using Suc.prems(1) Cons by (simp add: algebra_simps)
  qed
qed simp

section \<open>Looking up and dispatching a command\<close>

definition cmd_bytes :: "nat \<Rightarrow> u8 list" where
  "cmd_bytes i = map of_char (fst (g_shell_cmds ! i))"

text \<open>The entry of the table that a word names.\<close>

definition cmd_index :: "u8 list \<Rightarrow> nat option" where
  "cmd_index w = find (\<lambda>i. cmd_bytes i = w) [0..<length g_shell_cmds]"

lemma find_cmd_loop_eq:
  assumes "cstr m a w" "\<forall>i\<in>set is. cstr m (nm i) (cmd_bytes i)"
  shows "find_cmd_loop is nm a m = Some (find (\<lambda>i. cmd_bytes i = w) is)"
  using assms(2)
proof (induction "is")
  case (Cons i "is")
  have i: "cstr m (nm i) (cmd_bytes i)" using Cons.prems by simp
  have d: "u_strcmp a (nm i) m = Some (byte_diff w (cmd_bytes i))" by (rule u_strcmp_cstr [OF assms(1) i])
  have z: "byte_diff w (cmd_bytes i) = 0 \<longleftrightarrow> cmd_bytes i = w"
    using byte_diff_0 [of w "cmd_bytes i"] assms(1) i by (auto simp: cstr_load)
  show ?case using Cons by (simp add: d z)
qed simp


text \<open>The names of the commands at 3000, 3016, ..., and the line \<open>ps -l\<close> at 1000.\<close>

definition nm0 :: "nat \<Rightarrow> u64" where "nm0 c = 3000 + of_nat (16 * c)"

definition shell_mem0 :: mem where
  "shell_mem0 x =
     (let n = unat x; c = (n - 3000) div 16; j = (n - 3000) mod 16 in
      if n < 3000 then (if 1000 \<le> n \<and> n < 1005 then [112, 115, 32, 45, 108] ! (n - 1000) else 0)
      else if c < length g_shell_cmds \<and> j < length (cmd_bytes c) then cmd_bytes c ! j else 0)"

lemma g_shell_cmds_length: "length g_shell_cmds = 13"
  by (simp add: g_shell_cmds_def)

lemma cmd_bytes_ok:
  assumes "c < 13"
  shows "length (cmd_bytes c) < 16" "0 \<notin> set (cmd_bytes c)"
proof -
  have "\<forall>e\<in>set g_shell_cmds. length (fst e) < 16 \<and> (0::u8) \<notin> set (map of_char (fst e))" by (simp add: g_shell_cmds_def)
  then have "length (fst (g_shell_cmds ! c)) < 16 \<and> (0::u8) \<notin> set (map of_char (fst (g_shell_cmds ! c)))"
    using nth_mem [of c g_shell_cmds] assms by (simp add: g_shell_cmds_length)
  then show "length (cmd_bytes c) < 16" "0 \<notin> set (cmd_bytes c)" by (simp_all add: cmd_bytes_def)
qed

lemma nm0_addr: "c < 13 \<Longrightarrow> i < 16 \<Longrightarrow> unat (nm0 c + of_nat i) = 3000 + 16 * c + i"
  using unat_add_nat [of 3000 "16 * c"] unat_add_nat [of "nm0 c" i] by (simp add: nm0_def)

lemma shell_mem0_names: "c < 13 \<Longrightarrow> cstr shell_mem0 (nm0 c) (cmd_bytes c)"
proof -
  assume c: "c < 13"
  note b = cmd_bytes_ok [OF c]
  have v: "shell_mem0 (nm0 c + of_nat i) = (if i < length (cmd_bytes c) then cmd_bytes c ! i else 0)" if "i < 16" for i
    using c that by (simp add: shell_mem0_def Let_def nm0_addr g_shell_cmds_length)
  have "load_bytes (nm0 c) (length (cmd_bytes c)) shell_mem0 = cmd_bytes c"
    by (rule nth_equalityI) (use v b(1) in \<open>simp_all add: load_bytes_def\<close>)
  then show ?thesis using v [of "length (cmd_bytes c)"] b by (simp add: cstr_load)
qed

lemma shell_mem0_line: "cstr shell_mem0 1000 [112, 115, 32, 45, 108]"
  by (simp add: shell_mem0_def)

lemma ps_index: "cmd_index [112, 115] = Some 3"
proof -
  have "[0..<13] = [0, 1, 2, 3] @ [4..<13 :: nat]" by (simp add: upt_conv_Cons)
  then show ?thesis by (simp add: cmd_index_def g_shell_cmds_length cmd_bytes_def) (simp add: g_shell_cmds_def)
qed


end
