(* ===== verification/Uprog.thy ===== *)
theory Uprog
  imports Lib_String Kernel_State
begin

text \<open>
  What user programs do to the outside: they call the library's printing functions and the kernel. A program is modelled by the
  sequence of these calls. What a call of \<open>u_printf\<close> prints is the subject of theory \<open>Ulib_Stdio\<close>, what a system
  call does that of the kernel theories; here the kernel is a parameter that answers each call, given all calls made so far, or
  never returns. Arguments of a command are given by their bytes; the functions of \<open>user/ulib_string.c\<close> that
  read them are related to functions on bytes.
\<close>

section \<open>Calls\<close>

text \<open>An argument of a formatted print: an integer, or a string by its bytes.\<close>

datatype parg = PInt int | PStr "u8 list"

text \<open>The functions that a program starts threads on.\<close>

datatype uentry = SPAWN_WORKER nat | MONITOR_MAIN nat | SHELL_CMD_WORKER nat | SHELL_THREAD

datatype ucall =
    Puts string
  | Printf string "parg list"
  | Create uentry string
  | Kill int
  | Join int
  | Exit int
  | Sleep u64
  | GetHartid
  | ThreadList nat
  | RqSnapshot nat
  | ClockGettime int
  | IrqStats nat
  | ThreadCurrent

text \<open>An answer of the kernel: the result, and what it wrote to the buffer that was passed.\<close>

record ureply =
  r_rc :: int
  r_status :: int
  r_infos :: "u_thread_info list"
  r_queues :: "rq_state list"
  r_time :: timespec
  r_irqs :: "irqstat_user list"

type_synonym utrace = "ucall list"
type_synonym ukernel = "utrace \<Rightarrow> ureply option"

definition kcall :: "ukernel \<Rightarrow> ucall \<Rightarrow> utrace \<Rightarrow> (ureply \<times> utrace) kres" where
  "kcall k c tr = (case k (tr @ [c]) of None \<Rightarrow> Inl Diverges | Some r \<Rightarrow> Inr (r, tr @ [c]))"

definition out_puts :: "string \<Rightarrow> utrace \<Rightarrow> utrace" where
  "out_puts str tr = tr @ [Puts str]"

definition out_printf :: "string \<Rightarrow> parg list \<Rightarrow> utrace \<Rightarrow> utrace" where
  "out_printf fmt args tr = tr @ [Printf fmt args]"

text \<open>A kernel that answers every call.\<close>

definition answers :: "ukernel \<Rightarrow> bool" where
  "answers k \<longleftrightarrow> (\<forall>tr. k tr \<noteq> None)"

definition reply_to :: "ukernel \<Rightarrow> ucall \<Rightarrow> utrace \<Rightarrow> ureply" where
  "reply_to k c tr = (case k (tr @ [c]) of None \<Rightarrow> \<lparr>r_rc = 0, r_status = 0, r_infos = [], r_queues = [], r_time = \<lparr>tv_sec = 0, tv_nsec = 0\<rparr>, r_irqs = []\<rparr> | Some r \<Rightarrow> r)"

lemma kcall_answers: "answers k \<Longrightarrow> kcall k c tr = Inr (reply_to k c tr, tr @ [c])"
  unfolding answers_def by (cases "k (tr @ [c])") (auto simp: kcall_def reply_to_def simp del: not_None_eq)

section \<open>Command arguments\<close>

text \<open>An argument that is equal to a literal (\<open>!u_strcmp(a, lit)\<close>).\<close>

definition arg_is :: "u8 list \<Rightarrow> string \<Rightarrow> bool" where
  "arg_is a lit \<longleftrightarrow> a = map of_char lit"

lemma arg_is_strcmp:
  assumes "cstr m a x" "cstr m b (map of_char lit)"
  shows "u_strcmp a b m = Some 0 \<longleftrightarrow> arg_is x lit"
  using u_strcmp_cstr [OF assms] byte_diff_0 [of x "map of_char lit"] assms by (auto simp: arg_is_def cstr_load)

text \<open>\<open>u_atoi\<close> and \<open>shell_atoi\<close> on the bytes of a string.\<close>

definition signed_digits :: "u8 list \<Rightarrow> bool \<times> u8 list" where
  "signed_digits bs =
     (case bs of
        [] \<Rightarrow> (False, [])
      | c # r \<Rightarrow> if c = 43 then (False, takeWhile u_isdigit_ch r)
                 else if c = 45 then (True, takeWhile u_isdigit_ch r) else (False, takeWhile u_isdigit_ch bs))"

definition atoi_bytes :: "u8 list \<Rightarrow> int" where
  "atoi_bytes bs =
     (case signed_digits (dropWhile u_isspace_ch bs) of (neg, ds) \<Rightarrow>
        to_int32 (if neg then - dec_word 0 ds else dec_word 0 ds))"

lemma atol_digits_prefix: "cstr m s bs \<Longrightarrow> atol_digits s v m = Some (dec_word v (takeWhile u_isdigit_ch bs))"
  using atol_digits_cstr [of m s "takeWhile u_isdigit_ch bs" "dropWhile u_isdigit_ch bs" v] hd_dropWhile [of u_isdigit_ch bs]
  by (auto dest: set_takeWhileD)

lemma u_atoi_bytes:
  assumes "cstr m s bs"
  shows "u_atoi s m = Some (atoi_bytes bs)"
proof -
  define r where "r = dropWhile u_isspace_ch bs"
  define t where "t = s + of_nat (length (takeWhile u_isspace_ch bs))"
  have sk: "skip_space s m = Some t" "cstr m t r"
    using skip_space_cstr [of m s "takeWhile u_isspace_ch bs" r] assms hd_dropWhile [of u_isspace_ch bs]
    by (auto simp: r_def t_def dest: set_takeWhileD)
  have "u_atol s m = Some (case signed_digits r of (neg, ds) \<Rightarrow> if neg then - dec_word 0 ds else dec_word 0 ds)"
  proof (cases r)
    case Nil
    then show ?thesis
      using sk atol_digits_prefix [OF sk(2), of 0] by (simp add: u_atol_def signed_digits_def)
  next
    case (Cons c r')
    then show ?thesis
      using sk atol_digits_prefix [OF sk(2), of 0] atol_digits_prefix [of m "t + 1" r' 0]
      by (auto simp: u_atol_def signed_digits_def)
  qed
  then show ?thesis by (simp add: u_atoi_def atoi_bytes_def r_def case_prod_unfold)
qed

end
