(* ===== verification/Spawn.thy ===== *)
theory Spawn
  imports Uprog
begin

text \<open>
  The shell's \<open>spawn\<close> command (\<open>user/spawn.c\<close>): a table of up to sixteen test threads, the commands that start, list and
  kill them, and the thread function. The theorem at the end shows that the table and its counter stay exact whatever the kernel
  answers.
\<close>

section \<open>Data\<close>

definition SPAWN_MAX :: nat where "SPAWN_MAX = 16"

datatype spawn_mode_t = SPAWN_MODE_SPIN | SPAWN_MODE_YIELD | SPAWN_MODE_SLEEP

fun mode_code :: "spawn_mode_t \<Rightarrow> int" where
  "mode_code SPAWN_MODE_SPIN = 0"
| "mode_code SPAWN_MODE_YIELD = 1"
| "mode_code SPAWN_MODE_SLEEP = 2"

record spawn_cfg_t =
  sc_wid :: int
  sc_tid :: int
  sc_mode :: spawn_mode_t
  sc_work_loops :: u32
  sc_sleep_ticks :: u32
  sc_print_every :: u32
  sc_last_hart :: int
  sc_migrations :: u32
  sc_prints :: u32

record spawn_state =
  s_spawn_cfg :: "nat \<Rightarrow> spawn_cfg_t"
  s_spawn_active :: int
  s_spawn_inited :: bool
  sp_trace :: utrace

definition make_name :: "nat \<Rightarrow> string \<Rightarrow> nat \<Rightarrow> string" where
  "make_name buf_len prefix n =
     (let p = take (buf_len - 1) prefix
      in if length p < buf_len - 1 then p @ [char_of (48 + n mod 10)] else p)"

definition sp_puts :: "string \<Rightarrow> spawn_state \<Rightarrow> spawn_state" where
  "sp_puts str st = st\<lparr>sp_trace := out_puts str (sp_trace st)\<rparr>"

definition sp_printf :: "string \<Rightarrow> parg list \<Rightarrow> spawn_state \<Rightarrow> spawn_state" where
  "sp_printf fmt args st = st\<lparr>sp_trace := out_printf fmt args (sp_trace st)\<rparr>"

definition sp_call :: "ukernel \<Rightarrow> ucall \<Rightarrow> spawn_state \<Rightarrow> (ureply \<times> spawn_state) kres" where
  "sp_call k c st = bindE (kcall k c (sp_trace st)) (\<lambda>(r, tr). Inr (r, st\<lparr>sp_trace := tr\<rparr>))"

definition upd_cfg :: "nat \<Rightarrow> (spawn_cfg_t \<Rightarrow> spawn_cfg_t) \<Rightarrow> spawn_state \<Rightarrow> spawn_state" where
  "upd_cfg i f st = st\<lparr>s_spawn_cfg := (s_spawn_cfg st)(i := f (s_spawn_cfg st i))\<rparr>"

section \<open>The thread function\<close>

text \<open>One round of the endless loop, after the busy loop, which only counts to \<open>work_loops\<close>; \<open>it\<close> counts the rounds.\<close>

definition spawn_wait :: "ukernel \<Rightarrow> spawn_cfg_t \<Rightarrow> utrace \<Rightarrow> utrace kres" where
  "spawn_wait k c tr =
     (case sc_mode c of
        SPAWN_MODE_SPIN \<Rightarrow> Inr tr
      | SPAWN_MODE_YIELD \<Rightarrow> bindE (kcall k (Sleep 0) tr) (\<lambda>(_, tr1). Inr tr1)
      | SPAWN_MODE_SLEEP \<Rightarrow> bindE (kcall k (Sleep (ucast (sc_sleep_ticks c))) tr) (\<lambda>(_, tr1). Inr tr1))"

definition spawn_round ::
    "ukernel \<Rightarrow> u32 \<times> spawn_cfg_t \<times> utrace \<Rightarrow> (u32 \<times> spawn_cfg_t \<times> utrace) kres" where
  "spawn_round k = (\<lambda>(it, c, tr).
     bindE (spawn_wait k c tr) (\<lambda>tr1.
     bindE (kcall k GetHartid tr1) (\<lambda>(r, tr2).
       let hart = r_rc r;
           prev = sc_last_hart c;
           c1 = (if prev \<noteq> -1 \<and> prev \<noteq> hart then c\<lparr>sc_migrations := sc_migrations c + 1\<rparr> else c);
           c2 = c1\<lparr>sc_last_hart := hart\<rparr>;
           it1 = it + 1
       in if sc_print_every c2 \<noteq> 0 \<and> it1 mod sc_print_every c2 = 0
          then let c3 = c2\<lparr>sc_prints := sc_prints c2 + 1\<rparr>
               in Inr (it1, c3, out_printf ''[spawn] tid=%d wid=%d mode=%d hart=%d mig=%u prints=%u\<newline>''
                    [PInt (sc_tid c3), PInt (sc_wid c3), PInt (mode_code (sc_mode c3)), PInt hart,
                     PInt (uint (sc_migrations c3)), PInt (uint (sc_prints c3))] tr2)
          else Inr (it1, c2, tr2))))"

text \<open>The thread function up to its \<open>n\<close>-th round.\<close>

fun spawn_rounds :: "nat \<Rightarrow> ukernel \<Rightarrow> u32 \<times> spawn_cfg_t \<times> utrace \<Rightarrow> (u32 \<times> spawn_cfg_t \<times> utrace) kres" where
  "spawn_rounds 0 k x = Inr x"
| "spawn_rounds (Suc n) k x = bindE (spawn_round k x) (spawn_rounds n k)"

definition spawn_worker :: "nat \<Rightarrow> ukernel \<Rightarrow> spawn_cfg_t \<Rightarrow> utrace \<Rightarrow> (u32 \<times> spawn_cfg_t \<times> utrace) kres" where
  "spawn_worker n k c tr = bindE (kcall k (Sleep 1) tr) (\<lambda>(_, tr1). spawn_rounds n k (0, c, tr1))"

section \<open>The command\<close>

definition spawn_usage :: "spawn_state \<Rightarrow> spawn_state" where
  "spawn_usage st = sp_puts
     ''usage:\<newline>  spawn spin  N [print_every]\<newline>  spawn yield N [print_every]\<newline>  spawn sleep N <sleep_ticks> [print_every]\<newline>  spawn list\<newline>  spawn kill\<newline>notes:\<newline>  - print_every is in 'iterations' (not ticks)\<newline>  - print_every=0 disables all worker logs; default 0\<newline>  - N is capped to SPAWN_MAX\<newline>'' st"

definition spawn_init_once :: "spawn_state \<Rightarrow> spawn_state" where
  "spawn_init_once st =
     (if s_spawn_inited st then st
      else (fold (\<lambda>i. upd_cfg i (\<lambda>c. c\<lparr>sc_wid := int i, sc_tid := -1\<rparr>)) [0..<SPAWN_MAX] st)
             \<lparr>s_spawn_active := 0, s_spawn_inited := True\<rparr>)"

definition spawn_find_free_wid :: "spawn_state \<Rightarrow> nat option" where
  "spawn_find_free_wid st = find (\<lambda>i. sc_tid (s_spawn_cfg st i) < 0) [0..<SPAWN_MAX]"

definition spawn_cfg_init :: "nat \<Rightarrow> spawn_mode_t \<Rightarrow> u32 \<Rightarrow> u32 \<Rightarrow> spawn_cfg_t \<Rightarrow> spawn_cfg_t" where
  "spawn_cfg_init wid mode sleep_ticks print_every c =
     c\<lparr>sc_wid := int wid, sc_tid := -1, sc_mode := mode, sc_sleep_ticks := sleep_ticks, sc_print_every := print_every,
       sc_work_loops := 200000, sc_last_hart := -1, sc_migrations := 0, sc_prints := 0\<rparr>"

definition spawn_add :: "ukernel \<Rightarrow> spawn_mode_t \<Rightarrow> u32 \<Rightarrow> u32 \<Rightarrow> string \<Rightarrow> spawn_state \<Rightarrow> (int \<times> spawn_state) kres" where
  "spawn_add k mode sleep_ticks print_every name_prefix st =
     (case spawn_find_free_wid st of
        None \<Rightarrow> Inr (-1, st)
      | Some wid \<Rightarrow>
          let st1 = upd_cfg wid (spawn_cfg_init wid mode sleep_ticks print_every) st in
          bindE (sp_call k (Create (SPAWN_WORKER wid) (make_name 8 name_prefix wid)) st1) (\<lambda>(r, st2).
            if r_rc r < 0 then Inr (-2, st2)
            else Inr (r_rc r, (upd_cfg wid (\<lambda>c. c\<lparr>sc_tid := r_rc r\<rparr>) st2)
                                \<lparr>s_spawn_active := s_spawn_active st2 + 1\<rparr>)))"

definition spawn_list :: "spawn_state \<Rightarrow> spawn_state" where
  "spawn_list st =
     (let st1 = sp_printf ''spawned=%d\<newline>'' [PInt (s_spawn_active st)] st;
          st2 = sp_printf '' WID  TID  MODE  LAST_HART  MIGRATIONS  PRINTS\<newline>'' [] st1;
          st3 = sp_printf '' ---- ---- ----  ---------  ----------  ------\<newline>'' [] st2
      in fold (\<lambda>i st. let c = s_spawn_cfg st i in
           if sc_tid c < 0 then st
           else sp_printf '' %-4d %-4d %-4d  %-9d  %-10u  %-6u\<newline>''
                  [PInt (sc_wid c), PInt (sc_tid c), PInt (mode_code (sc_mode c)), PInt (sc_last_hart c),
                   PInt (uint (sc_migrations c)), PInt (uint (sc_prints c))] st) [0..<SPAWN_MAX] st3)"

text \<open>The loop of \<open>spawn kill\<close>, with the counters \<open>requested\<close>, \<open>joined\<close>, \<open>errors\<close>.\<close>

fun spawn_kill_loop :: "ukernel \<Rightarrow> nat list \<Rightarrow> nat \<times> nat \<times> nat \<Rightarrow> spawn_state \<Rightarrow> ((nat \<times> nat \<times> nat) \<times> spawn_state) kres" where
  "spawn_kill_loop k [] n st = Inr (n, st)"
| "spawn_kill_loop k (i # is) (requested, joined, errors) st =
     (let tid = sc_tid (s_spawn_cfg st i) in
      if tid < 0 then spawn_kill_loop k is (requested, joined, errors) st
      else
        bindE (sp_call k (Kill tid) st) (\<lambda>(r, st1).
        bindE (if r_rc r < 0 then Inr ((Suc requested, joined, Suc errors), st1)
               else bindE (sp_call k (Join tid) st1) (\<lambda>(r', st2).
                 if r_rc r' = 0 \<or> r_rc r' = -3 then Inr ((Suc requested, Suc joined, errors), st2)
                 else Inr ((Suc requested, joined, Suc errors), st2))) (\<lambda>(n, st3).
          spawn_kill_loop k is n (upd_cfg i (\<lambda>c. c\<lparr>sc_tid := -1\<rparr>) st3))))"

definition spawn_kill :: "ukernel \<Rightarrow> spawn_state \<Rightarrow> spawn_state kres" where
  "spawn_kill k st =
     bindE (spawn_kill_loop k [0..<SPAWN_MAX] (0, 0, 0) st) (\<lambda>((requested, joined, errors), st1).
       Inr (sp_printf ''spawn: kill requested=%d joined=%d errors=%d\<newline>'' [PInt (int requested), PInt (int joined), PInt (int errors)]
              (st1\<lparr>s_spawn_active := 0\<rparr>)))"

text \<open>\<open>for (int i = 0; i < n; ++i)\<close> around \<open>spawn_add\<close>; \<open>report\<close> is the line printed for a new thread.\<close>

fun spawn_add_loop ::
    "nat \<Rightarrow> ukernel \<Rightarrow> spawn_mode_t \<Rightarrow> u32 \<Rightarrow> u32 \<Rightarrow> string \<Rightarrow> (int \<Rightarrow> spawn_state \<Rightarrow> spawn_state) \<Rightarrow> spawn_state \<Rightarrow> spawn_state kres" where
  "spawn_add_loop 0 k mode sleep_ticks print_every prefix report st = Inr st"
| "spawn_add_loop (Suc n) k mode sleep_ticks print_every prefix report st =
     bindE (spawn_add k mode sleep_ticks print_every prefix st) (\<lambda>(tid, st1).
       if tid < 0 then Inr (sp_puts ''spawn: create failed\<newline>'' st1)
       else spawn_add_loop n k mode sleep_ticks print_every prefix report (report tid st1))"

text \<open>\<open>n = u_atoi(argv[2])\<close>, at least 1 and at most \<open>SPAWN_MAX\<close>.\<close>

definition spawn_count :: "u8 list \<Rightarrow> nat" where
  "spawn_count a = (let n = atoi_bytes a; n1 = (if n \<le> 0 then 1 else n); n2 = (if n1 > int SPAWN_MAX then int SPAWN_MAX else n1) in nat n2)"

definition spawn :: "ukernel \<Rightarrow> u8 list list \<Rightarrow> spawn_state \<Rightarrow> spawn_state kres" where
  "spawn k argv st0 =
     (let st = spawn_init_once st0; argc = length argv; num = (\<lambda>i. word_of_int (atoi_bytes (argv ! i)) :: u32) in
      if argc < 2 then Inr (spawn_usage st)
      else if arg_is (argv ! 1) ''list'' then Inr (spawn_list st)
      else if arg_is (argv ! 1) ''kill'' then spawn_kill k st
      else if argc < 3 then Inr (spawn_usage st)
      else if arg_is (argv ! 1) ''spin'' then
        (let print_every = (if argc \<ge> 4 then num 3 else 0)
         in spawn_add_loop (spawn_count (argv ! 2)) k SPAWN_MODE_SPIN 0 print_every ''sp''
              (\<lambda>tid st. if print_every \<noteq> 0 then sp_printf ''spawn: spin tid=%d\<newline>'' [PInt tid] st else st) st)
      else if arg_is (argv ! 1) ''yield'' then
        (let print_every = (if argc \<ge> 4 then num 3 else 0)
         in spawn_add_loop (spawn_count (argv ! 2)) k SPAWN_MODE_YIELD 0 print_every ''y''
              (\<lambda>tid st. sp_printf ''spawn: yield tid=%d\<newline>'' [PInt tid] st) st)
      else if arg_is (argv ! 1) ''sleep'' then
        (if argc < 4 then Inr (spawn_usage st)
         else let sleep_ticks = num 3; print_every = (if argc \<ge> 5 then num 4 else 0)
           in spawn_add_loop (spawn_count (argv ! 2)) k SPAWN_MODE_SLEEP sleep_ticks print_every ''sl''
                (\<lambda>tid st. sp_printf ''spawn: sleep tid=%d sleep=%u\<newline>'' [PInt tid, PInt (uint sleep_ticks)] st) st)
      else Inr (spawn_usage st))"

section \<open>The table stays exact\<close>

definition spawn_live :: "spawn_state \<Rightarrow> nat list" where
  "spawn_live st = filter (\<lambda>i. 0 \<le> sc_tid (s_spawn_cfg st i)) [0..<SPAWN_MAX]"

definition spawn_wf :: "spawn_state \<Rightarrow> bool" where
  "spawn_wf st \<longleftrightarrow> s_spawn_inited st \<and> s_spawn_active st = int (length (spawn_live st))
     \<and> (\<forall>i<SPAWN_MAX. sc_wid (s_spawn_cfg st i) = int i)"

text \<open>The threads killed in a sequence of calls, and the number of threads started in it.\<close>

fun kills :: "utrace \<Rightarrow> int list" where
  "kills [] = []"
| "kills (c # cs) = (case c of Kill t \<Rightarrow> t # kills cs | _ \<Rightarrow> kills cs)"

fun started :: "ukernel \<Rightarrow> utrace \<Rightarrow> utrace \<Rightarrow> nat" where
  "started k tr [] = 0"
| "started k tr (c # cs) =
     (case c of Create e n \<Rightarrow> if 0 \<le> r_rc (reply_to k c tr) then 1 else 0 | _ \<Rightarrow> 0) + started k (tr @ [c]) cs"

lemma kills_append [simp]: "kills (xs @ ys) = kills xs @ kills ys"
  by (induction xs rule: kills.induct) (auto split: ucall.splits)

lemma started_append [simp]: "started k tr (xs @ ys) = started k tr xs + started k (tr @ xs) ys"
  by (induction xs arbitrary: tr) simp_all

text \<open>What a sequence of additions does to the table.\<close>

definition spawn_grows :: "ukernel \<Rightarrow> spawn_state \<Rightarrow> spawn_state \<Rightarrow> bool" where
  "spawn_grows k st st' \<longleftrightarrow> (\<exists>new. sp_trace st' = sp_trace st @ new \<and> kills new = []
     \<and> (\<forall>i\<in>set (spawn_live st). s_spawn_cfg st' i = s_spawn_cfg st i)
     \<and> length (spawn_live st') = length (spawn_live st) + started k (sp_trace st) new)"

lemma spawn_growsI:
  assumes "sp_trace st' = sp_trace st @ new" "kills new = []"
    "\<And>i. i \<in> set (spawn_live st) \<Longrightarrow> s_spawn_cfg st' i = s_spawn_cfg st i"
    "length (spawn_live st') = length (spawn_live st) + started k (sp_trace st) new"
  shows "spawn_grows k st st'"
  using assms unfolding spawn_grows_def by blast

lemma spawn_grows_trans:
  assumes "spawn_grows k a b" "spawn_grows k b c"
  shows "spawn_grows k a c"
proof -
  obtain m n where m: "sp_trace b = sp_trace a @ m" "kills m = []" "\<forall>i\<in>set (spawn_live a). s_spawn_cfg b i = s_spawn_cfg a i"
      "length (spawn_live b) = length (spawn_live a) + started k (sp_trace a) m"
    and n: "sp_trace c = sp_trace b @ n" "kills n = []" "\<forall>i\<in>set (spawn_live b). s_spawn_cfg c i = s_spawn_cfg b i"
      "length (spawn_live c) = length (spawn_live b) + started k (sp_trace b) n"
    using assms unfolding spawn_grows_def by blast
  have "i \<in> set (spawn_live b)" if "i \<in> set (spawn_live a)" for i
    using that m(3) by (auto simp: spawn_live_def)
  then show ?thesis using m n by (intro spawn_growsI [of c a "m @ n"]) auto
qed

lemma spawn_out:
  assumes "spawn_wf st"
  shows "spawn_wf (sp_puts str st)" "spawn_grows k st (sp_puts str st)"
    "spawn_wf (sp_printf fmt args st)" "spawn_grows k st (sp_printf fmt args st)"
  using assms by (auto simp: spawn_wf_def spawn_live_def sp_puts_def sp_printf_def out_puts_def out_printf_def intro!: spawn_growsI)

lemma spawn_grows_refl: "spawn_grows k st st"
  by (rule spawn_growsI [of _ _ "[]"]) simp_all

lemma live_upd:
  assumes "i < SPAWN_MAX" "sc_tid (s_spawn_cfg st i) < 0" "s_spawn_cfg st' = (s_spawn_cfg st)(i := c)"
  shows "length (spawn_live st') = length (spawn_live st) + (if 0 \<le> sc_tid c then 1 else 0)"
proof -
  have d: "length (spawn_live s) = card {j. j < SPAWN_MAX \<and> 0 \<le> sc_tid (s_spawn_cfg s j)}" for s
    unfolding spawn_live_def distinct_card [OF distinct_filter [OF distinct_upt], symmetric]
    by (rule arg_cong [of _ _ card]) auto
  show ?thesis
  proof (cases "0 \<le> sc_tid c")
    case True
    have "{j. j < SPAWN_MAX \<and> 0 \<le> sc_tid (s_spawn_cfg st' j)} = insert i {j. j < SPAWN_MAX \<and> 0 \<le> sc_tid (s_spawn_cfg st j)}"
      using assms True by (auto split: if_splits)
    then show ?thesis using True assms(2) by (simp add: d)
  next
    case False
    have "{j. j < SPAWN_MAX \<and> 0 \<le> sc_tid (s_spawn_cfg st' j)} = {j. j < SPAWN_MAX \<and> 0 \<le> sc_tid (s_spawn_cfg st j)}"
      using assms False by (auto split: if_splits)
    then show ?thesis using False by (simp add: d)
  qed
qed

lemma spawn_add_grows:
  assumes wf: "spawn_wf st" and k: "answers k"
  shows "\<exists>tid st'. spawn_add k mode sl pe nm st = Inr (tid, st') \<and> spawn_wf st' \<and> spawn_grows k st st'"
proof (cases "spawn_find_free_wid st")
  case None
  then show ?thesis using wf spawn_grows_refl by (simp add: spawn_add_def)
next
  case (Some w)
  then have w: "w < SPAWN_MAX" "sc_tid (s_spawn_cfg st w) < 0"
    by (auto simp: spawn_find_free_wid_def find_Some_iff)
  let ?c = "spawn_cfg_init w mode sl pe (s_spawn_cfg st w)"
  let ?call = "Create (SPAWN_WORKER w) (make_name 8 nm w)"
  let ?r = "r_rc (reply_to k ?call (sp_trace st))"
  define c where "c = (if ?r < 0 then ?c else ?c\<lparr>sc_tid := ?r\<rparr>)"
  define st' where "st' = st\<lparr>s_spawn_cfg := (s_spawn_cfg st)(w := c), sp_trace := sp_trace st @ [?call],
     s_spawn_active := s_spawn_active st + (if ?r < 0 then 0 else 1)\<rparr>"
  have run: "spawn_add k mode sl pe nm st = Inr (if ?r < 0 then -2 else ?r, st')"
    using Some by (auto simp: spawn_add_def sp_call_def Let_def kcall_answers [OF k] upd_cfg_def st'_def c_def)
  have n: "length (spawn_live st') = length (spawn_live st) + (if ?r < 0 then 0 else 1)"
    using live_upd [OF w, of st' c] by (auto simp: st'_def c_def spawn_cfg_init_def)
  have "spawn_wf st'"
    using wf n w(1) by (auto simp: spawn_wf_def st'_def c_def spawn_cfg_init_def)
  moreover have "spawn_grows k st st'"
  proof (rule spawn_growsI [of _ _ "[?call]"])
    show "s_spawn_cfg st' i = s_spawn_cfg st i" if "i \<in> set (spawn_live st)" for i
      using that w(2) by (auto simp: st'_def spawn_live_def)
  qed (use n in \<open>auto simp: st'_def\<close>)
  ultimately show ?thesis using run by blast
qed

lemma spawn_add_loop_grows:
  assumes k: "answers k" and rep: "\<And>t st. spawn_wf st \<Longrightarrow> spawn_wf (report t st) \<and> spawn_grows k st (report t st)"
  shows "spawn_wf st \<Longrightarrow> \<exists>st'. spawn_add_loop n k mode sl pe nm report st = Inr st' \<and> spawn_wf st' \<and> spawn_grows k st st'"
proof (induction n arbitrary: st)
  case 0
  then show ?case using spawn_grows_refl by simp
next
  case (Suc n)
  obtain tid st1 where a: "spawn_add k mode sl pe nm st = Inr (tid, st1)" "spawn_wf st1" "spawn_grows k st st1"
    using spawn_add_grows [OF Suc.prems k] by blast
  show ?case
  proof (cases "tid < 0")
    case True
    then show ?thesis using a spawn_out [OF a(2)] spawn_grows_trans [OF a(3)] by auto
  next
    case False
    note R = rep [OF a(2), of tid]
    obtain st' where "spawn_add_loop n k mode sl pe nm report (report tid st1) = Inr st'" "spawn_wf st'"
      "spawn_grows k (report tid st1) st'"
      using Suc.IH R by blast
    then show ?thesis using a False R spawn_grows_trans by auto
  qed
qed

lemma spawn_kill_loop_kills:
  assumes k: "answers k"
  shows "distinct is \<Longrightarrow> \<exists>n' st' new. spawn_kill_loop k is n st = Inr (n', st') \<and> sp_trace st' = sp_trace st @ new
    \<and> kills new = map (\<lambda>i. sc_tid (s_spawn_cfg st i)) (filter (\<lambda>i. 0 \<le> sc_tid (s_spawn_cfg st i)) is)
    \<and> s_spawn_inited st' = s_spawn_inited st \<and> (\<forall>i. sc_wid (s_spawn_cfg st' i) = sc_wid (s_spawn_cfg st i))
    \<and> (\<forall>i\<in>set is. sc_tid (s_spawn_cfg st' i) < 0) \<and> (\<forall>i. i \<notin> set is \<longrightarrow> s_spawn_cfg st' i = s_spawn_cfg st i)"
proof (induction "is" arbitrary: n st)
  case Nil
  obtain rq jn er where "n = (rq, jn, er)" using prod_cases3 [of n] by blast
  then show ?case by simp
next
  case (Cons i "is")
  obtain rq jn er where n: "n = (rq, jn, er)" using prod_cases3 [of n] by blast
  let ?t = "sc_tid (s_spawn_cfg st i)"
  show ?case
  proof (cases "?t < 0")
    case True
    obtain n' st' new where I: "spawn_kill_loop k is n st = Inr (n', st')" "sp_trace st' = sp_trace st @ new"
      "kills new = map (\<lambda>i. sc_tid (s_spawn_cfg st i)) (filter (\<lambda>i. 0 \<le> sc_tid (s_spawn_cfg st i)) is)"
      "s_spawn_inited st' = s_spawn_inited st" "\<forall>i. sc_wid (s_spawn_cfg st' i) = sc_wid (s_spawn_cfg st i)"
      "\<forall>i\<in>set is. sc_tid (s_spawn_cfg st' i) < 0" "\<forall>i. i \<notin> set is \<longrightarrow> s_spawn_cfg st' i = s_spawn_cfg st i"
      using Cons.IH [of n st] Cons.prems by auto
    show ?thesis using I True Cons.prems n
      by (intro exI [of _ n'] exI [of _ st'] exI [of _ new]) (auto simp: Let_def)
  next
    case False
    obtain n1 m where one: "spawn_kill_loop k (i # is) n st = spawn_kill_loop k is n1
          (upd_cfg i (\<lambda>c. c\<lparr>sc_tid := -1\<rparr>) (st\<lparr>sp_trace := sp_trace st @ m\<rparr>))" "kills m = [?t]"
    proof -
      let ?r = "r_rc (reply_to k (Kill ?t) (sp_trace st))" and ?r' = "r_rc (reply_to k (Join ?t) (sp_trace st @ [Kill ?t]))"
      show ?thesis
      proof (cases "?r < 0")
        case True
        then show ?thesis using False n that [of "(Suc rq, jn, Suc er)" "[Kill ?t]"]
          by (simp add: sp_call_def kcall_answers [OF k] Let_def)
      next
        case ok: False
        then show ?thesis
          using False n that [of "if ?r' = 0 \<or> ?r' = -3 then (Suc rq, Suc jn, er) else (Suc rq, jn, Suc er)" "[Kill ?t, Join ?t]"]
          by (simp add: sp_call_def kcall_answers [OF k] Let_def)
      qed
    qed
    define st1 where "st1 = upd_cfg i (\<lambda>c. c\<lparr>sc_tid := -1\<rparr>) (st\<lparr>sp_trace := sp_trace st @ m\<rparr>)"
    have c1: "s_spawn_cfg st1 = (s_spawn_cfg st)(i := (s_spawn_cfg st i)\<lparr>sc_tid := -1\<rparr>)" "sp_trace st1 = sp_trace st @ m"
      "s_spawn_inited st1 = s_spawn_inited st" by (simp_all add: st1_def upd_cfg_def)
    have f: "filter (\<lambda>j. 0 \<le> sc_tid (s_spawn_cfg st1 j)) is = filter (\<lambda>j. 0 \<le> sc_tid (s_spawn_cfg st j)) is"
      "map (\<lambda>j. sc_tid (s_spawn_cfg st1 j)) (filter P is) = map (\<lambda>j. sc_tid (s_spawn_cfg st j)) (filter P is)" for P
      using Cons.prems by (auto simp: c1 intro!: filter_cong)
    obtain n' st' new where I: "spawn_kill_loop k is n1 st1 = Inr (n', st')" "sp_trace st' = sp_trace st1 @ new"
      "kills new = map (\<lambda>i. sc_tid (s_spawn_cfg st1 i)) (filter (\<lambda>i. 0 \<le> sc_tid (s_spawn_cfg st1 i)) is)"
      "s_spawn_inited st' = s_spawn_inited st1" "\<forall>i. sc_wid (s_spawn_cfg st' i) = sc_wid (s_spawn_cfg st1 i)"
      "\<forall>i\<in>set is. sc_tid (s_spawn_cfg st' i) < 0" "\<forall>i. i \<notin> set is \<longrightarrow> s_spawn_cfg st' i = s_spawn_cfg st1 i"
      using Cons.IH [of n1 st1] Cons.prems by auto
    show ?thesis using I one False Cons.prems unfolding f st1_def [symmetric]
      by (intro exI [of _ n'] exI [of _ st'] exI [of _ "m @ new"]) (simp add: c1)
  qed
qed

lemma spawn_init_wf:
  assumes "s_spawn_inited st \<Longrightarrow> spawn_wf st"
  shows "spawn_wf (spawn_init_once st)"
proof (cases "s_spawn_inited st")
  case True
  then show ?thesis using assms by (simp add: spawn_init_once_def)
next
  case False
  have F: "s_spawn_cfg (fold (\<lambda>i. upd_cfg i (\<lambda>c. c\<lparr>sc_wid := int i, sc_tid := -1\<rparr>)) [0..<n] st) j
      = (if j < n then (s_spawn_cfg st j)\<lparr>sc_wid := int j, sc_tid := -1\<rparr> else s_spawn_cfg st j)" for n j
    by (induction n) (auto simp: upd_cfg_def less_Suc_eq)
  show ?thesis using False by (auto simp: spawn_init_once_def spawn_wf_def spawn_live_def F filter_empty_conv)
qed

lemma spawn_list_out: "spawn_wf st \<Longrightarrow> spawn_wf (spawn_list st) \<and> spawn_grows k st (spawn_list st)"
proof -
  define line where "line c st = (if sc_tid c < 0 then st
    else sp_printf '' %-4d %-4d %-4d  %-9d  %-10u  %-6u\<newline>''
      [PInt (sc_wid c), PInt (sc_tid c), PInt (mode_code (sc_mode c)), PInt (sc_last_hart c),
       PInt (uint (sc_migrations c)), PInt (uint (sc_prints c))] st)" for c :: spawn_cfg_t and st
  have "spawn_wf (line c st) \<and> spawn_grows k st (line c st)" if "spawn_wf st" for c st
    using that spawn_out spawn_grows_refl by (simp add: line_def)
  then have F: "spawn_wf (fold (\<lambda>i st. line (s_spawn_cfg st i) st) is st) \<and> spawn_grows k st (fold (\<lambda>i st. line (s_spawn_cfg st i) st) is st)"
    if "spawn_wf st" for "is" st
    using that by (induction "is" arbitrary: st) (auto intro: spawn_grows_refl spawn_grows_trans)
  assume wf: "spawn_wf st"
  define st3 where "st3 = sp_printf '' ---- ---- ----  ---------  ----------  ------\<newline>'' []
        (sp_printf '' WID  TID  MODE  LAST_HART  MIGRATIONS  PRINTS\<newline>'' [] (sp_printf ''spawned=%d\<newline>'' [PInt (s_spawn_active st)] st))"
  have g: "spawn_wf a \<and> spawn_grows k st a \<Longrightarrow> spawn_wf (sp_printf f x a) \<and> spawn_grows k st (sp_printf f x a)" for a f x
    using spawn_out(3,4) spawn_grows_trans by blast
  have "spawn_wf st3 \<and> spawn_grows k st st3" unfolding st3_def by (intro g conjI wf spawn_grows_refl)
  then have 3: "spawn_wf st3" "spawn_grows k st st3" by simp_all
  have "spawn_list st = fold (\<lambda>i st. line (s_spawn_cfg st i) st) [0..<SPAWN_MAX] st3"
    by (simp only: spawn_list_def Let_def line_def st3_def)
  then show ?thesis using F [OF 3(1), of "[0..<SPAWN_MAX]"] spawn_grows_trans [OF 3(2)] by simp
qed

text \<open>C14: The table of spawned threads stays exact whatever the kernel answers: every \<open>spawn\<close> command returns, and afterwards the
  counter is the number of live entries. \<open>spawn kill\<close> kills every recorded thread once, in the order of the table, and leaves none
  recorded. Every other command kills nothing, leaves the live entries alone and adds one entry for each thread that the kernel
  started.\<close>

theorem spawn_table_exact:
  assumes "answers k" "s_spawn_inited st0 \<Longrightarrow> spawn_wf st0"
  defines "st \<equiv> spawn_init_once st0"
  shows "\<exists>st' new. spawn k argv st0 = Inr st' \<and> spawn_wf st' \<and> sp_trace st' = sp_trace st @ new
    \<and> (if length argv \<ge> 2 \<and> arg_is (argv ! 1) ''kill''
       then kills new = map (\<lambda>i. sc_tid (s_spawn_cfg st i)) (spawn_live st) \<and> spawn_live st' = []
       else kills new = [] \<and> (\<forall>i\<in>set (spawn_live st). s_spawn_cfg st' i = s_spawn_cfg st i)
         \<and> length (spawn_live st') = length (spawn_live st) + started k (sp_trace st) new)"
proof -
  have wf: "spawn_wf st" unfolding st_def by (rule spawn_init_wf [OF assms(2)])
  show ?thesis
  proof (cases "length argv \<ge> 2 \<and> arg_is (argv ! 1) ''kill''")
    case True
    then have r: "spawn k argv st0 = spawn_kill k st" by (simp add: spawn_def st_def Let_def arg_is_def)
    obtain n' st1 new where K: "spawn_kill_loop k [0..<SPAWN_MAX] (0, 0, 0) st = Inr (n', st1)" "sp_trace st1 = sp_trace st @ new"
      "kills new = map (\<lambda>i. sc_tid (s_spawn_cfg st i)) (spawn_live st)" "s_spawn_inited st1 = s_spawn_inited st"
      "\<forall>i. sc_wid (s_spawn_cfg st1 i) = sc_wid (s_spawn_cfg st i)" "\<forall>i\<in>set [0..<SPAWN_MAX]. sc_tid (s_spawn_cfg st1 i) < 0"
      using spawn_kill_loop_kills [OF assms(1), of "[0..<SPAWN_MAX]" "(0, 0, 0)" st] by (auto simp: spawn_live_def)
    obtain a b c where n': "n' = (a, b, c)" using prod_cases3 [of n'] by blast
    let ?e = "Printf ''spawn: kill requested=%d joined=%d errors=%d\<newline>'' [PInt (int a), PInt (int b), PInt (int c)]"
    have run: "spawn_kill k st = Inr (st1\<lparr>s_spawn_active := 0, sp_trace := sp_trace st @ new @ [?e]\<rparr>)"
      using K n' by (simp add: spawn_kill_def sp_printf_def out_printf_def)
    have "spawn_live (st1\<lparr>s_spawn_active := 0, sp_trace := sp_trace st @ new @ [?e]\<rparr>) = []"
      using K(6) by (auto simp: spawn_live_def filter_empty_conv)
    then show ?thesis using True r run K wf
      by (intro exI [of _ "st1\<lparr>s_spawn_active := 0, sp_trace := sp_trace st @ new @ [?e]\<rparr>"] exI [of _ "new @ [?e]"])
        (simp add: spawn_wf_def)
  next
    case False
    have rep: "spawn_wf s \<Longrightarrow> spawn_wf (sp_printf f a s) \<and> spawn_grows k s (sp_printf f a s)"
      "spawn_wf s \<Longrightarrow> spawn_wf (if b then sp_printf f a s else s) \<and> spawn_grows k s (if b then sp_printf f a s else s)" for s f a b
      using spawn_out spawn_grows_refl by auto
    note L = spawn_add_loop_grows [OF assms(1) _ wf]
    have "\<exists>st'. spawn k argv st0 = Inr st' \<and> spawn_wf st' \<and> spawn_grows k st st'"
      unfolding spawn_def Let_def st_def [symmetric] using False spawn_out(1) [OF wf] spawn_out(2) [OF wf, of k] spawn_list_out [OF wf, of k] L rep
      by (auto simp: spawn_usage_def not_le)
    then show ?thesis using False unfolding spawn_grows_def by fastforce
  qed
qed

definition spawn_kernel0 :: ukernel where
  "spawn_kernel0 tr = Some \<lparr>r_rc = int (length tr), r_status = 0, r_infos = [], r_queues = [], r_time = \<lparr>tv_sec = 0, tv_nsec = 0\<rparr>, r_irqs = []\<rparr>"

definition spawn_state0 :: spawn_state where
  "spawn_state0 = \<lparr>s_spawn_cfg = (\<lambda>_. \<lparr>sc_wid = 0, sc_tid = 0, sc_mode = SPAWN_MODE_SPIN, sc_work_loops = 0, sc_sleep_ticks = 0,
     sc_print_every = 0, sc_last_hart = 0, sc_migrations = 0, sc_prints = 0\<rparr>), s_spawn_active = 0, s_spawn_inited = False, sp_trace = []\<rparr>"

theorem spawn_table_exact_witness:
  "\<exists>st'. spawn spawn_kernel0 [map of_char ''spawn'', map of_char ''kill''] spawn_state0 = Inr st' \<and> s_spawn_active st' = 0 \<and> spawn_live st' = []"
proof -
  have "answers spawn_kernel0" "\<not> s_spawn_inited spawn_state0" by (simp_all add: answers_def spawn_kernel0_def spawn_state0_def)
  from spawn_table_exact [OF this(1), of spawn_state0 "[map of_char ''spawn'', map of_char ''kill'']"] this(2)
  show ?thesis by (auto simp: spawn_wf_def arg_is_def)
qed

end
