(* ===== verification/Monitor.thy ===== *)
theory Monitor
  imports Uprog Digits
begin

text \<open>
  The thread monitor (\<open>user/monitor.c\<close>): up to four background threads that print the thread table periodically, and the functions
  that start, stop and list them. Between two system calls a monitor thread is taken to run alone on its slot. The
  theorem at the end says when a monitor ends.
\<close>

section \<open>Data\<close>

definition MON_MAX :: nat where "MON_MAX = 4"
definition MON_THREAD_LIST_MAX :: nat where "MON_THREAD_LIST_MAX = 32"
definition MON_F_USER_ONLY :: u32 where "MON_F_USER_ONLY = 1"
definition MON_F_RUNNING_ONLY :: u32 where "MON_F_RUNNING_ONLY = 2"
definition MON_F_HIDE_IDLE :: u32 where "MON_F_HIDE_IDLE = 4"

record mon_ctx_t =
  mo_used :: bool
  mo_tid :: int
  mo_seq :: u32
  mo_period :: u32
  mo_remaining :: int
  mo_flags :: u32

record mon_state =
  g_mons :: "nat \<Rightarrow> mon_ctx_t"
  g_mon_infos :: "nat \<Rightarrow> u_thread_info list"
  mo_trace :: utrace

definition upd_mon :: "nat \<Rightarrow> (mon_ctx_t \<Rightarrow> mon_ctx_t) \<Rightarrow> mon_state \<Rightarrow> mon_state" where
  "upd_mon i f st = st\<lparr>g_mons := (g_mons st)(i := f (g_mons st i))\<rparr>"

definition mo_call :: "ukernel \<Rightarrow> ucall \<Rightarrow> mon_state \<Rightarrow> (ureply \<times> mon_state) kres" where
  "mo_call k c st = bindE (kcall k c (mo_trace st)) (\<lambda>(r, tr). Inr (r, st\<lparr>mo_trace := tr\<rparr>))"

definition mo_out :: "(utrace \<Rightarrow> utrace) \<Rightarrow> mon_state \<Rightarrow> mon_state" where
  "mo_out f st = st\<lparr>mo_trace := f (mo_trace st)\<rparr>"

section \<open>Printing\<close>

text \<open>The text that \<open>fmt_hart\<close> leaves in a buffer of \<open>bufsz\<close> bytes.\<close>

definition fmt_hart :: "int \<Rightarrow> nat \<Rightarrow> u8 list" where
  "fmt_hart hart bufsz =
     take (bufsz - 1) (if hart \<ge> 0 then map digit_char (num_digits 10 (nat hart)) else map of_char ''---'')"

definition mon_filter_pass :: "mon_ctx_t \<Rightarrow> u_thread_info \<Rightarrow> bool" where
  "mon_filter_pass m ti =
     (if mo_flags m AND MON_F_USER_ONLY \<noteq> 0 \<and> ui_is_user ti = 0 then False
      else if mo_flags m AND MON_F_RUNNING_ONLY \<noteq> 0 \<and> ui_cpu ti < 0 then False
      else if mo_flags m AND MON_F_HIDE_IDLE \<noteq> 0 \<and> ui_tid ti \<ge> 0 \<and> ui_tid ti < int MAX_HARTS then False
      else True)"

text \<open>A row of the table; \<open>ps\<close> of the shell prints the same.\<close>

definition thread_row :: "u_thread_info \<Rightarrow> ucall" where
  "thread_row ti =
     Printf '' %-4d %-9s  %c   %-3s %-4s %6u %9llu %s\<newline>''
       [PInt (ui_tid ti), PStr (map of_char (thread_state_name (ui_state ti))),
        PInt (if ui_is_user ti \<noteq> 0 then 85 else 83), PStr (fmt_hart (ui_cpu ti) 4), PStr (fmt_hart (ui_last_hart ti) 5),
        PInt (uint (ui_migrations ti)), PInt (uint (ui_runs ti)), PStr (ui_name ti)]"

definition table_head :: utrace where
  "table_head =
     [Printf '' TID  STATE     MODE CPU LAST   MIG      RUNS  NAME\<newline>'' [],
      Printf '' ---- --------- ---- --- ---- ------ --------- ---------------\<newline>'' []]"

text \<open>The loop of \<open>print_threads_table\<close>.\<close>

fun print_rows :: "mon_ctx_t \<Rightarrow> u_thread_info list \<Rightarrow> utrace \<Rightarrow> utrace" where
  "print_rows m [] tr = tr"
| "print_rows m (ti # infos) tr = print_rows m infos (if mon_filter_pass m ti then tr @ [thread_row ti] else tr)"

definition print_threads_table :: "mon_ctx_t \<Rightarrow> u_thread_info list \<Rightarrow> int \<Rightarrow> utrace \<Rightarrow> utrace" where
  "print_threads_table m infos n tr = print_rows m (take (nat n) infos) (tr @ table_head)"

section \<open>The monitor thread\<close>

text \<open>One round of the loop; the first component tells that the thread has exited.\<close>

definition monitor_round :: "ukernel \<Rightarrow> nat \<Rightarrow> mon_state \<Rightarrow> (bool \<times> mon_state) kres" where
  "monitor_round k idx st =
     (if \<not> mo_used (g_mons st idx) then Inr (True, mo_out (\<lambda>tr. tr @ [Exit 0]) st)
      else
        bindE (mo_call k (Sleep (ucast (mo_period (g_mons st idx)))) st) (\<lambda>(_, st1).
        bindE (mo_call k (ThreadList MON_THREAD_LIST_MAX) st1) (\<lambda>(r, st2).
          let n = r_rc r;
              st3 = st2\<lparr>g_mon_infos := (g_mon_infos st2)(idx := r_infos r)\<rparr>;
              m = g_mons st3 idx;
              st4 = (if n < 0
                     then mo_out (out_printf ''\<newline>[mon tid=%d] thread_list failed rc=%d\<newline>'' [PInt (mo_tid m), PInt n]) st3
                     else mo_out (print_threads_table m (r_infos r) n)
                            (upd_mon idx (\<lambda>m. m\<lparr>mo_seq := mo_seq m + 1\<rparr>)
                              (mo_out (out_printf ''\<newline>[mon tid=%d seq=%u period=%u flags=0x%x]\<newline>''
                                 [PInt (mo_tid m), PInt (uint (mo_seq m)), PInt (uint (mo_period m)), PInt (uint (mo_flags m))]) st3)))
          in if mo_remaining (g_mons st4 idx) \<ge> 0
             then let st5 = upd_mon idx (\<lambda>m. m\<lparr>mo_remaining := mo_remaining m - 1\<rparr>) st4
                  in if mo_remaining (g_mons st5 idx) = 0
                     then Inr (True, mo_out (\<lambda>tr. tr @ [Exit 0]) (upd_mon idx (\<lambda>m. m\<lparr>mo_used := False\<rparr>) st5))
                     else Inr (False, st5)
             else Inr (False, st4))))"

fun monitor_loop :: "nat \<Rightarrow> ukernel \<Rightarrow> nat \<Rightarrow> mon_state \<Rightarrow> (bool \<times> mon_state) kres" where
  "monitor_loop 0 k idx st = Inr (False, st)"
| "monitor_loop (Suc n) k idx st =
     bindE (monitor_round k idx st) (\<lambda>(gone, st'). if gone then Inr (True, st') else monitor_loop n k idx st')"

text \<open>The thread function up to its \<open>n\<close>-th round.\<close>

definition monitor_main :: "nat \<Rightarrow> ukernel \<Rightarrow> nat \<Rightarrow> mon_state \<Rightarrow> (bool \<times> mon_state) kres" where
  "monitor_main n k idx st =
     (if idx \<ge> MON_MAX then Inr (True, mo_out (\<lambda>tr. tr @ [Exit (-1)]) st) else monitor_loop n k idx st)"

section \<open>Starting, stopping, listing\<close>

definition mon_alloc :: "mon_state \<Rightarrow> nat option \<times> mon_state" where
  "mon_alloc st =
     (case find (\<lambda>i. \<not> mo_used (g_mons st i)) [0..<MON_MAX] of
        None \<Rightarrow> (None, st)
      | Some i \<Rightarrow> (Some i, upd_mon i (\<lambda>_. \<lparr>mo_used = True, mo_tid = -1, mo_seq = 0, mo_period = 10, mo_remaining = -1, mo_flags = 0\<rparr>) st))"

definition mon_find_by_tid :: "int \<Rightarrow> mon_state \<Rightarrow> nat option" where
  "mon_find_by_tid tid st = find (\<lambda>i. mo_used (g_mons st i) \<and> mo_tid (g_mons st i) = tid) [0..<MON_MAX]"

definition mon_start_ex :: "ukernel \<Rightarrow> u32 \<Rightarrow> int \<Rightarrow> u32 \<Rightarrow> mon_state \<Rightarrow> (int \<times> mon_state) kres" where
  "mon_start_ex k period_ticks count flags st =
     (let period = (if period_ticks = 0 then 1 else period_ticks) in
      case mon_alloc st of
        (None, st1) \<Rightarrow> Inr (-1, st1)
      | (Some i, st1) \<Rightarrow>
          let st2 = upd_mon i (\<lambda>m. m\<lparr>mo_period := period, mo_remaining := count, mo_flags := flags\<rparr>) st1 in
          bindE (mo_call k (Create (MONITOR_MAIN i) ''monitor'') st2) (\<lambda>(r, st3).
            if r_rc r < 0 then Inr (r_rc r, upd_mon i (\<lambda>m. m\<lparr>mo_used := False\<rparr>) st3)
            else Inr (r_rc r, upd_mon i (\<lambda>m. m\<lparr>mo_tid := r_rc r\<rparr>) st3)))"

definition mon_start :: "ukernel \<Rightarrow> u32 \<Rightarrow> int \<Rightarrow> mon_state \<Rightarrow> (int \<times> mon_state) kres" where
  "mon_start k period_ticks count st = mon_start_ex k period_ticks count 0 st"

definition mon_stop :: "ukernel \<Rightarrow> int \<Rightarrow> mon_state \<Rightarrow> (int \<times> mon_state) kres" where
  "mon_stop k tid st =
     (let m = mon_find_by_tid tid st;
          st1 = (case m of None \<Rightarrow> st | Some i \<Rightarrow> upd_mon i (\<lambda>m. m\<lparr>mo_used := False\<rparr>) st)
      in bindE (mo_call k (Kill tid) st1) (\<lambda>(r, st2).
         bindE (if r_rc r = 0
                then bindE (mo_call k (Join tid) st2) (\<lambda>(r', st3).
                       Inr (if r_rc r' < 0 \<and> r_rc r' \<noteq> -3 then r_rc r' else r_rc r, st3))
                else Inr (r_rc r, st2)) (\<lambda>(rc, st4).
           Inr (rc, case m of None \<Rightarrow> st4 | Some i \<Rightarrow> upd_mon i (\<lambda>m. m\<lparr>mo_tid := -1\<rparr>) st4))))"

definition mon_list :: "mon_state \<Rightarrow> mon_state" where
  "mon_list st =
     fold (\<lambda>i st. let m = g_mons st i in
        if mo_used m
        then mo_out (out_printf ''  tid=%d period=%u remaining=%d seq=%u flags=0x%x\<newline>''
               [PInt (mo_tid m), PInt (uint (mo_period m)), PInt (mo_remaining m), PInt (uint (mo_seq m)), PInt (uint (mo_flags m))]) st
        else st) [0..<MON_MAX] (mo_out (out_printf ''Active monitors:\<newline>'' []) st)"

definition mon_once :: "ukernel \<Rightarrow> mon_state \<Rightarrow> mon_state kres" where
  "mon_once k st =
     bindE (mo_call k (ThreadList MON_THREAD_LIST_MAX) st) (\<lambda>(r, st1).
       let n = r_rc r;
           fake = \<lparr>mo_used = False, mo_tid = 0, mo_seq = 0, mo_period = 0, mo_remaining = 0, mo_flags = 0\<rparr>
       in if n < 0 then Inr (mo_out (out_printf ''mon: thread_list failed rc=%d\<newline>'' [PInt n]) st1)
          else let st2 = mo_out (print_threads_table fake (r_infos r) n) st1
            in Inr (if n = int MON_THREAD_LIST_MAX
                    then mo_out (out_puts ''mon: output truncated (increase MON_THREAD_LIST_MAX if needed)'') st2 else st2))"

section \<open>What a monitor does\<close>

lemma print_rows_eq: "print_rows m infos tr = tr @ map thread_row (filter (mon_filter_pass m) infos)"
  by (induction infos arbitrary: tr) simp_all

definition samples :: "utrace \<Rightarrow> nat" where
  "samples tr = length (filter (\<lambda>c. c = ThreadList MON_THREAD_LIST_MAX) tr)"

lemma samples_simps [simp]:
  "samples [] = 0" "samples (c # cs) = (if c = ThreadList MON_THREAD_LIST_MAX then 1 else 0) + samples cs"
  "samples (xs @ ys) = samples xs + samples ys"
  by (simp_all add: samples_def)

lemma samples_rows: "samples (map thread_row xs) = 0"
  by (induction xs) (simp_all add: thread_row_def)

lemma samples_table: "samples (print_threads_table m infos n tr) = samples tr"
  by (simp add: print_threads_table_def print_rows_eq samples_rows table_head_def)

lemma monitor_round_step:
  assumes k: "answers k" and used: "mo_used (g_mons st idx)"
  shows "\<exists>st'. monitor_round k idx st = Inr (mo_remaining (g_mons st idx) = 1, st')
    \<and> samples (mo_trace st') = Suc (samples (mo_trace st))
    \<and> mo_used (g_mons st' idx) = (mo_remaining (g_mons st idx) \<noteq> 1)
    \<and> mo_remaining (g_mons st' idx) = (if mo_remaining (g_mons st idx) \<ge> 0 then mo_remaining (g_mons st idx) - 1 else mo_remaining (g_mons st idx))
    \<and> (\<forall>i. i \<noteq> idx \<longrightarrow> g_mons st' i = g_mons st i)"
  using used
  by (simp add: monitor_round_def mo_call_def kcall_answers [OF k] Let_def mo_out_def upd_mon_def out_printf_def samples_table)

lemma monitor_counts_down:
  assumes k: "answers k"
  shows "mo_used (g_mons st idx) \<Longrightarrow> mo_remaining (g_mons st idx) = int (Suc c) \<Longrightarrow>
    \<exists>st'. monitor_loop n k idx st = Inr (Suc c \<le> n, st') \<and> samples (mo_trace st') = samples (mo_trace st) + min n (Suc c)
      \<and> mo_used (g_mons st' idx) = (n < Suc c) \<and> (\<forall>i. i \<noteq> idx \<longrightarrow> g_mons st' i = g_mons st i)"
proof (induction n arbitrary: st c)
  case 0
  then show ?case by simp
next
  case (Suc n)
  obtain st1 where R: "monitor_round k idx st = Inr (c = 0, st1)" "samples (mo_trace st1) = Suc (samples (mo_trace st))"
    "mo_used (g_mons st1 idx) = (c \<noteq> 0)" "mo_remaining (g_mons st1 idx) = int c" "\<forall>i. i \<noteq> idx \<longrightarrow> g_mons st1 i = g_mons st i"
    using monitor_round_step [OF k Suc.prems(1)] Suc.prems(2) by auto
  show ?case
  proof (cases c)
    case 0
    then show ?thesis using R by simp
  next
    case (Suc c')
    then show ?thesis using R Suc.IH [of st1 c'] by auto
  qed
qed

lemma monitor_goes_on:
  assumes k: "answers k"
  shows "mo_used (g_mons st idx) \<Longrightarrow> mo_remaining (g_mons st idx) \<le> 0 \<Longrightarrow>
    \<exists>st'. monitor_loop n k idx st = Inr (False, st') \<and> samples (mo_trace st') = samples (mo_trace st) + n"
proof (induction n arbitrary: st)
  case 0
  then show ?case by simp
next
  case (Suc n)
  obtain st1 where R: "monitor_round k idx st = Inr (False, st1)" "samples (mo_trace st1) = Suc (samples (mo_trace st))"
    "mo_used (g_mons st1 idx)" "mo_remaining (g_mons st1 idx) \<le> 0"
    using monitor_round_step [OF k Suc.prems(1)] Suc.prems(2) by (auto split: if_splits)
  then show ?case using Suc.IH [of st1] by auto
qed

text \<open>C18: A monitor started with a positive count takes exactly that many samples of the thread table, then exits and releases its
  slot; the other slots are not touched. With a count of zero or less it never ends: after any number of rounds it is
  still running and has taken a sample in each.\<close>

theorem monitor_ends_after_count:
  assumes "answers k" "idx < MON_MAX" "mo_used (g_mons st idx)"
  shows "\<exists>st'. monitor_main n k idx st = Inr (0 < mo_remaining (g_mons st idx) \<and> mo_remaining (g_mons st idx) \<le> int n, st')
    \<and> samples (mo_trace st') = samples (mo_trace st)
        + (if 0 < mo_remaining (g_mons st idx) then min n (nat (mo_remaining (g_mons st idx))) else n)
    \<and> (0 < mo_remaining (g_mons st idx) \<longrightarrow>
        mo_used (g_mons st' idx) = (int n < mo_remaining (g_mons st idx)) \<and> (\<forall>i. i \<noteq> idx \<longrightarrow> g_mons st' i = g_mons st i))"
proof (cases "0 < mo_remaining (g_mons st idx)")
  case True
  then obtain c where c: "mo_remaining (g_mons st idx) = int (Suc c)" by (metis zero_less_imp_eq_int Suc_pred')
  show ?thesis using monitor_counts_down [OF assms(1,3) c, of n] assms(2) c
    by (auto simp: monitor_main_def not_le)
next
  case False
  then show ?thesis using monitor_goes_on [OF assms(1,3), of n] assms(2) by (auto simp: monitor_main_def)
qed

definition mon_kernel0 :: ukernel where
  "mon_kernel0 tr = Some \<lparr>r_rc = 0, r_status = 0, r_infos = [], r_queues = [], r_time = \<lparr>tv_sec = 0, tv_nsec = 0\<rparr>, r_irqs = []\<rparr>"

definition mon_state0 :: mon_state where
  "mon_state0 = \<lparr>g_mons = (\<lambda>_. \<lparr>mo_used = True, mo_tid = 5, mo_seq = 0, mo_period = 10, mo_remaining = 3, mo_flags = 0\<rparr>),
     g_mon_infos = (\<lambda>_. []), mo_trace = []\<rparr>"

theorem monitor_ends_after_count_witness:
  "\<exists>st'. monitor_main 7 mon_kernel0 2 mon_state0 = Inr (True, st') \<and> samples (mo_trace st') = 3 \<and> \<not> mo_used (g_mons st' 2)"
proof -
  have "answers mon_kernel0" "2 < MON_MAX" "mo_used (g_mons mon_state0 2)"
    by (simp_all add: answers_def mon_kernel0_def MON_MAX_def mon_state0_def)
  from monitor_ends_after_count [OF this, of 7] show ?thesis by (auto simp: mon_state0_def samples_def)
qed

end
