(* ===== verification/Datetime.thy ===== *)
theory Datetime
  imports Prelude
begin

text \<open>
  Calendar conversion, \<open>user/datetime.c\<close>: seconds since 1970 to a date and time in UTC. The counter \<open>days\<close> of
  type \<open>uint64_t\<close> is only ever decreased by an amount it is known to exceed, so it is a natural number
  here; \<open>year\<close> is a C \<open>int\<close>, which the years of any clock value below the bound of the theorem do not exceed.
  Converting back gives the seconds, so the date is the right one.
\<close>

record datetime_t =
  dt_year :: int
  dt_month :: int
  dt_day :: int
  dt_hour :: int
  dt_min :: int
  dt_sec :: int

definition SECS_PER_MIN :: nat where "SECS_PER_MIN = 60"
definition SECS_PER_HOUR :: nat where "SECS_PER_HOUR = 60 * SECS_PER_MIN"
definition SECS_PER_DAY :: nat where "SECS_PER_DAY = 24 * SECS_PER_HOUR"

definition month_days :: "nat list" where
  "month_days = [31, 28, 31, 30, 31, 30, 31, 31, 30, 31, 30, 31]"

definition is_leap_year :: "int \<Rightarrow> bool" where
  "is_leap_year year =
     (if year mod 4 \<noteq> 0 then False
      else if year mod 100 \<noteq> 0 then True
      else if year mod 400 \<noteq> 0 then False
      else True)"

definition days_in_year :: "int \<Rightarrow> nat" where
  "days_in_year year = (if is_leap_year year then 366 else 365)"

function year_loop :: "nat \<Rightarrow> int \<Rightarrow> nat \<times> int" where
  "year_loop days year =
     (if days \<ge> days_in_year year then year_loop (days - days_in_year year) (year + 1) else (days, year))"
  by pat_completeness auto
termination
  by (relation "measure fst") (auto simp: days_in_year_def)

declare year_loop.simps [simp del]

definition days_in_month :: "int \<Rightarrow> nat \<Rightarrow> nat" where
  "days_in_month year month = (if month = 1 \<and> is_leap_year year then 29 else month_days ! month)"

function month_loop :: "int \<Rightarrow> nat \<Rightarrow> nat \<Rightarrow> nat \<times> nat" where
  "month_loop year days month =
     (if month < 12 \<and> days \<ge> days_in_month year month
      then month_loop year (days - days_in_month year month) (month + 1)
      else (days, month))"
  by pat_completeness auto
termination
  by (relation "measure (\<lambda>(y, d, m). 12 - m)") auto

declare month_loop.simps [simp del]

definition epoch_to_utc_datetime :: "u64 \<Rightarrow> datetime_t" where
  "epoch_to_utc_datetime epoch_sec =
     (let days = unat epoch_sec div SECS_PER_DAY;
          sec_of_day = unat epoch_sec mod SECS_PER_DAY;
          hour = sec_of_day div SECS_PER_HOUR;
          sec_of_hour = sec_of_day mod SECS_PER_HOUR;
          (days1, year) = year_loop days 1970;
          (days2, month) = month_loop year days1 0
      in \<lparr>dt_year = year, dt_month = int month + 1, dt_day = int days2 + 1, dt_hour = int hour,
          dt_min = int (sec_of_hour div SECS_PER_MIN), dt_sec = int (sec_of_hour mod SECS_PER_MIN)\<rparr>)"

section \<open>The reference: counting days forward\<close>

text \<open>The Gregorian calendar: leap years and the lengths of years and months, January being month 0.\<close>

definition gregorian_leap :: "int \<Rightarrow> bool" where
  "gregorian_leap y \<longleftrightarrow> 4 dvd y \<and> (100 dvd y \<longrightarrow> 400 dvd y)"

definition year_length :: "int \<Rightarrow> nat" where
  "year_length y = (if gregorian_leap y then 366 else 365)"

definition month_length :: "int \<Rightarrow> nat \<Rightarrow> nat" where
  "month_length y m = (if m = 1 then (if gregorian_leap y then 29 else 28) else if m \<in> {3, 5, 8, 10} then 30 else 31)"

fun days_before_year :: "nat \<Rightarrow> nat" where
  "days_before_year 0 = 0"
| "days_before_year (Suc n) = days_before_year n + year_length (1970 + int n)"

fun days_before_month :: "int \<Rightarrow> nat \<Rightarrow> nat" where
  "days_before_month y 0 = 0"
| "days_before_month y (Suc m) = days_before_month y m + month_length y m"

definition utc_to_epoch :: "datetime_t \<Rightarrow> nat" where
  "utc_to_epoch t =
     ((days_before_year (nat (dt_year t - 1970)) + days_before_month (dt_year t) (nat (dt_month t - 1)) + nat (dt_day t - 1)) * 24
       + nat (dt_hour t)) * 3600 + nat (dt_min t) * 60 + nat (dt_sec t)"

definition valid_datetime :: "datetime_t \<Rightarrow> bool" where
  "valid_datetime t \<longleftrightarrow> 1970 \<le> dt_year t \<and> 1 \<le> dt_month t \<and> dt_month t \<le> 12
     \<and> 1 \<le> dt_day t \<and> dt_day t \<le> int (month_length (dt_year t) (nat (dt_month t - 1)))
     \<and> 0 \<le> dt_hour t \<and> dt_hour t < 24 \<and> 0 \<le> dt_min t \<and> dt_min t < 60 \<and> 0 \<le> dt_sec t \<and> dt_sec t < 60"

lemma is_leap_year_gregorian: "is_leap_year y = gregorian_leap y"
proof -
  have "(4::int) dvd 100" "(100::int) dvd 400" by simp_all
  then have "100 dvd y \<Longrightarrow> 4 dvd y" "400 dvd y \<Longrightarrow> 100 dvd y" using dvd_trans by blast+
  then show ?thesis unfolding is_leap_year_def gregorian_leap_def mod_eq_0_iff_dvd by simp
qed

lemma days_in_year_length: "days_in_year y = year_length y"
  by (simp add: days_in_year_def year_length_def is_leap_year_gregorian)

lemma days_in_month_length: "m < 12 \<Longrightarrow> days_in_month y m = month_length y m"
proof -
  assume "m < 12"
  then have "m \<in> {0, 1, 2, 3, 4, 5, 6, 7, 8, 9, 10, 11}" by (auto simp: eval_nat_numeral less_Suc_eq)
  then show ?thesis
    by (elim insertE emptyE) (simp_all add: days_in_month_def month_length_def month_days_def is_leap_year_gregorian)
qed

lemma days_in_year_ge: "365 \<le> days_in_year y"
  by (simp add: days_in_year_def)

text \<open>The year loop finds the year whose days include the given one.\<close>

lemma year_loop_correct:
  assumes "year_loop d (1970 + int n) = (d', y)"
  shows "\<exists>k\<ge>n. y = 1970 + int k \<and> days_before_year n + d = days_before_year k + d' \<and> d' < days_in_year y \<and> 365 * (k - n) \<le> d"
  using assms
proof (induction d "1970 + int n" arbitrary: n rule: year_loop.induct)
  case (1 d)
  show ?case
  proof (cases "d \<ge> days_in_year (1970 + int n)")
    case True
    have "year_loop (d - days_in_year (1970 + int n)) (1970 + int (Suc n)) = (d', y)"
      using 1(2) True by (subst (asm) year_loop.simps) (simp add: ac_simps)
    moreover have "1970 + int n + 1 = 1970 + int (Suc n)" by simp
    ultimately have "\<exists>k\<ge>Suc n. y = 1970 + int k
        \<and> days_before_year (Suc n) + (d - days_in_year (1970 + int n)) = days_before_year k + d' \<and> d' < days_in_year y
        \<and> 365 * (k - Suc n) \<le> d - days_in_year (1970 + int n)"
      using 1(1) [OF True, of "Suc n"] by blast
    then obtain k where
      k: "k \<ge> Suc n" "y = 1970 + int k" "days_before_year (Suc n) + (d - days_in_year (1970 + int n)) = days_before_year k + d'"
        "d' < days_in_year y" "365 * (k - Suc n) \<le> d - days_in_year (1970 + int n)" by blast
    have "365 * (k - n) \<le> d" using k(1,5) days_in_year_ge [of "1970 + int n"] True by linarith
    moreover have "days_before_year n + d = days_before_year k + d'" using k(3) True by (simp add: days_in_year_length)
    ultimately show ?thesis using k(1,2,4) Suc_leD by blast
  next
    case False
    then show ?thesis using 1(2) by (subst (asm) year_loop.simps) auto
  qed
qed

lemma days_before_month_12: "days_before_month y 12 = days_in_year y"
proof -
  note e = days_before_month.simps(2) [of y]
  have "days_before_month y 2 = month_length y 0 + month_length y 1" by (simp add: numeral_2_eq_2)
  then show ?thesis
    using e [of 2] e [of 3] e [of 4] e [of 5] e [of 6] e [of 7] e [of 8] e [of 9] e [of 10] e [of 11]
    by (simp add: month_length_def days_in_year_length year_length_def)
qed

lemma days_before_month_mono: "m \<le> n \<Longrightarrow> days_before_month y m \<le> days_before_month y n"
  by (induction n) (auto simp: le_Suc_eq)

lemma month_loop_correct:
  assumes "month_loop y d m = (d', m')" "m \<le> 12"
  shows "m \<le> m' \<and> m' \<le> 12 \<and> days_before_month y m + d = days_before_month y m' + d' \<and> (m' < 12 \<longrightarrow> d' < days_in_month y m')"
  using assms
proof (induction y d m rule: month_loop.induct)
  case (1 y d m)
  show ?case
  proof (cases "m < 12 \<and> d \<ge> days_in_month y m")
    case True
    then have "month_loop y (d - days_in_month y m) (m + 1) = (d', m')"
      using 1(2) by (subst (asm) month_loop.simps) simp
    from 1(1) [OF True this] True days_in_month_length [of m y] show ?thesis by auto
  next
    case False
    then show ?thesis using 1(2,3) by (subst (asm) month_loop.simps) auto
  qed
qed

lemma month_in_year:
  assumes "month_loop y d 0 = (d', m')" "d < days_in_year y"
  shows "m' < 12 \<and> d' < days_in_month y m' \<and> d = days_before_month y m' + d'"
  using month_loop_correct [OF assms(1)] assms(2) days_before_month_12 [of y] by (cases "m' = 12") auto

lemma seconds_split:
  fixes e :: nat
  shows "(e div 86400 * 24 + e mod 86400 div 3600) * 3600 + e mod 86400 mod 3600 div 60 * 60 + e mod 86400 mod 3600 mod 60 = e"
proof -
  define d where "d = e div 86400"
  define r where "r = e mod 86400"
  define q where "q = r mod 3600"
  have "e = d * 86400 + r" by (simp add: d_def r_def)
  moreover have "r = r div 3600 * 3600 + q" by (simp add: q_def)
  moreover have "q = q div 60 * 60 + q mod 60" by simp
  moreover have "(d * 24 + r div 3600) * 3600 = d * 86400 + r div 3600 * 3600" by simp
  ultimately show ?thesis unfolding d_def [symmetric] r_def [symmetric] q_def [symmetric] by linarith
qed

lemma epoch_facts:
  fixes e :: u64
  defines "t \<equiv> epoch_to_utc_datetime e"
  shows "valid_datetime t" "utc_to_epoch t = unat e" "365 * (dt_year t - 1970) \<le> int (unat e div 86400)"
proof -
  have c: "SECS_PER_DAY = 86400" "SECS_PER_HOUR = 3600" "SECS_PER_MIN = 60"
    by (simp_all add: SECS_PER_DAY_def SECS_PER_HOUR_def SECS_PER_MIN_def)
  define d where "d = unat e div 86400"
  obtain d1 y where y: "year_loop d 1970 = (d1, y)" by fastforce
  obtain d2 m where m: "month_loop y d1 0 = (d2, m)" by fastforce
  have "year_loop d (1970 + int 0) = (d1, y)" using y by simp
  from year_loop_correct [OF this] obtain k where
    k: "y = 1970 + int k" "d = days_before_year k + d1" "d1 < days_in_year y" "365 * k \<le> d" by auto
  note M = month_in_year [OF m k(3)]
  have t: "t = \<lparr>dt_year = y, dt_month = int m + 1, dt_day = int d2 + 1, dt_hour = int (unat e mod 86400 div 3600),
      dt_min = int (unat e mod 86400 mod 3600 div 60), dt_sec = int (unat e mod 86400 mod 3600 mod 60)\<rparr>"
    using y m by (simp add: t_def epoch_to_utc_datetime_def c Let_def d_def)
  have r: "unat e mod 86400 div 3600 < 24" "unat e mod 86400 mod 3600 div 60 < 60"
    by (simp_all add: less_mult_imp_div_less)
  show "valid_datetime t" using M k(1) r by (simp add: t valid_datetime_def days_in_month_length [symmetric])
  have n: "nat (y - 1970) = k" "nat (int m + 1 - 1) = m" "nat (int d2 + 1 - 1) = d2" using k(1) by auto
  have "utc_to_epoch t = ((days_before_year k + days_before_month y m + d2) * 24 + unat e mod 86400 div 3600) * 3600
      + unat e mod 86400 mod 3600 div 60 * 60 + unat e mod 86400 mod 3600 mod 60"
    unfolding utc_to_epoch_def t using n by simp
  also have "days_before_year k + days_before_month y m + d2 = d" using k(2) M by simp
  finally show "utc_to_epoch t = unat e" using seconds_split [of "unat e"] by (simp add: d_def)
  show "365 * (dt_year t - 1970) \<le> int (unat e div 86400)" using k(1,4) by (simp add: t d_def)
qed

text \<open>C39: \<open>epoch_to_utc_datetime\<close> terminates and is right: for every time whose year fits in an \<open>int\<close> it gives a
  valid calendar date and time of day, with Gregorian leap years, and counting forward from 1970 to that date
  by the lengths of the Gregorian years and months gives back the seconds.\<close>

theorem epoch_round_trip:
  assumes "unat epoch_sec < 67000000000000000"
  shows "valid_datetime (epoch_to_utc_datetime epoch_sec) \<and> utc_to_epoch (epoch_to_utc_datetime epoch_sec) = unat epoch_sec
    \<and> dt_year (epoch_to_utc_datetime epoch_sec) < 2 ^ 31"
proof -
  have "int (unat epoch_sec div 86400) \<le> 775462962963" using assms by linarith
  then show ?thesis using epoch_facts [of epoch_sec] by simp
qed

text \<open>68261696 is 1972-03-01 01:34:56, the day after a leap day.\<close>

lemma leap_1972: "epoch_to_utc_datetime 68261696
   = \<lparr>dt_year = 1972, dt_month = 3, dt_day = 1, dt_hour = 1, dt_min = 34, dt_sec = 56\<rparr>"
proof -
  have l: "\<not> is_leap_year 1970" "\<not> is_leap_year 1971" "is_leap_year 1972" by (simp_all add: is_leap_year_def)
  have y: "year_loop 790 1970 = (60, 1972)"
    using l by (simp add: year_loop.simps [of 790] year_loop.simps [of 425] year_loop.simps [of 60] days_in_year_def)
  have m: "month_loop 1972 60 0 = (0, 2)"
    using l by (simp add: month_loop.simps [of 1972 60] month_loop.simps [of 1972 29] month_loop.simps [of 1972 0] numeral_2_eq_2
        days_in_month_def month_days_def)
  show ?thesis
    by (simp add: epoch_to_utc_datetime_def SECS_PER_DAY_def SECS_PER_HOUR_def SECS_PER_MIN_def y m)
qed

theorem epoch_round_trip_witness:
  "utc_to_epoch (epoch_to_utc_datetime 68261696) = 68261696
   \<and> epoch_to_utc_datetime 68261696 = \<lparr>dt_year = 1972, dt_month = 3, dt_day = 1, dt_hour = 1, dt_min = 34, dt_sec = 56\<rparr>"
  using epoch_round_trip [of 68261696] leap_1972 by simp

end
