(* ===== verification/Shell_Cmds.thy ===== *)
theory Shell_Cmds
  imports Shell Spawn Monitor Datetime
begin

text \<open>
  The commands of the shell (\<open>user/shell.c\<close>), its main loop and the first user thread (\<open>user/main.c\<close>). Commands take their
  arguments by value and are sequences of calls as in theory \<open>Uprog\<close>; the loop reads lines and dispatches them on memory as in
  theory \<open>Shell\<close>. A flag in the results tells that the thread has exited.
\<close>

section \<open>State\<close>

record cmd_state =
  cm_trace :: utrace
  cm_spawn :: spawn_state
  cm_mon :: mon_state

definition cm_out :: "(utrace \<Rightarrow> utrace) \<Rightarrow> cmd_state \<Rightarrow> cmd_state" where
  "cm_out f st = st\<lparr>cm_trace := f (cm_trace st)\<rparr>"

definition cm_call :: "ukernel \<Rightarrow> ucall \<Rightarrow> cmd_state \<Rightarrow> (ureply \<times> cmd_state) kres" where
  "cm_call k c st = bindE (kcall k c (cm_trace st)) (\<lambda>(r, tr). Inr (r, st\<lparr>cm_trace := tr\<rparr>))"

text \<open>\<open>shell_atoi\<close> on the bytes of a string; \<open>int\<close> arithmetic at 32 bits.\<close>

definition dec_word32 :: "u32 \<Rightarrow> u8 list \<Rightarrow> u32" where
  "dec_word32 v ds = foldl (\<lambda>v d. v * 10 + ucast (d - 48)) v ds"

definition shell_atoi_bytes :: "u8 list \<Rightarrow> int" where
  "shell_atoi_bytes bs = (case signed_digits bs of (neg, ds) \<Rightarrow> sint (if neg then - dec_word32 0 ds else dec_word32 0 ds))"

lemma shell_atoi_loop_bytes: "cstr m s bs \<Longrightarrow> shell_atoi_loop s v m = Some (dec_word32 v (takeWhile u_isdigit_ch bs))"
proof (induction bs arbitrary: s v)
  case Nil
  then show ?case by (subst shell_atoi_loop.simps) (simp add: dec_word32_def)
next
  case (Cons b bs)
  then show ?case by (subst shell_atoi_loop.simps) (simp add: dec_word32_def u_isdigit_ch_def [symmetric])
qed

lemma shell_atoi_eq: "cstr m s bs \<Longrightarrow> map_option sint (shell_atoi s m) = Some (shell_atoi_bytes bs)"
  using shell_atoi_loop_bytes [of m s bs 0]
  by (cases bs) (auto simp: shell_atoi_def shell_atoi_bytes_def signed_digits_def shell_atoi_loop_bytes)

section \<open>Commands\<close>

definition g_shell_help :: "string list" where
  "g_shell_help =
     [''show this help'', ''echo arguments'', ''sleep <ticks> (thread sleep)'', ''list threads'', ''list user threads'', ''kill <tid>'',
      ''show per-hart runqueues'', ''date'', ''uptime'', ''irqstat'', ''spawn test threads (spin/yield/sleep/list/kill)'',
      ''monitor: mon once | mon start <ticks> [count] | mon stop <tid> | mon list'', ''exit shell'']"

definition cmd_help :: "u8 list list \<Rightarrow> cmd_state \<Rightarrow> (bool \<times> cmd_state) kres" where
  "cmd_help argv st =
     Inr (False, fold (\<lambda>(c, h). cm_out (out_printf ''  %-6s - %s\<newline>'' [PStr (map of_char c), PStr (map of_char h)]))
            (zip (map fst g_shell_cmds) g_shell_help) (cm_out (out_puts ''available commands:'') st))"

text \<open>\<open>for (int i = 1; i < argc; ++i)\<close>\<close>

fun echo_loop :: "u8 list list \<Rightarrow> cmd_state \<Rightarrow> cmd_state" where
  "echo_loop [] st = st"
| "echo_loop (a # as) st =
     echo_loop as (cm_out (out_printf ''%s%s'' [PStr a, PStr (if as \<noteq> [] then map of_char '' '' else [10])]) st)"

definition cmd_echo :: "u8 list list \<Rightarrow> cmd_state \<Rightarrow> (bool \<times> cmd_state) kres" where
  "cmd_echo argv st =
     (if length argv \<le> 1 then Inr (False, cm_out (out_puts '''') st) else Inr (False, echo_loop (tl argv) st))"

definition cmd_sleep :: "ukernel \<Rightarrow> u8 list list \<Rightarrow> cmd_state \<Rightarrow> (bool \<times> cmd_state) kres" where
  "cmd_sleep k argv st =
     (if length argv < 2 then Inr (False, cm_out (out_puts ''usage: sleep <ticks>'') st)
      else let ticks = shell_atoi_bytes (argv ! 1) in
        if ticks \<le> 0 then Inr (False, cm_out (out_puts ''invalid ticks'') st)
        else bindE (cm_call k (Sleep (word_of_int ticks)) (cm_out (out_printf ''sleeping %d ticks...\<newline>'' [PInt ticks]) st)) (\<lambda>(_, st1).
          Inr (False, cm_out (out_puts ''done.'') st1)))"

definition cmd_exit :: "u8 list list \<Rightarrow> cmd_state \<Rightarrow> (bool \<times> cmd_state) kres" where
  "cmd_exit argv st = Inr (True, cm_out (\<lambda>tr. tr @ [Exit 0]) (cm_out (out_puts ''shell exiting...'') st))"

definition SHELL_THREAD_LIST_MAX :: nat where "SHELL_THREAD_LIST_MAX = 32"

definition cmd_ps :: "ukernel \<Rightarrow> u8 list list \<Rightarrow> cmd_state \<Rightarrow> (bool \<times> cmd_state) kres" where
  "cmd_ps k argv st =
     bindE (cm_call k (ThreadList SHELL_THREAD_LIST_MAX) st) (\<lambda>(r, st1).
       let n = r_rc r in
       if n < 0 then Inr (False, cm_out (out_printf ''ps: thread_list failed, rc=%d\<newline>'' [PInt n]) st1)
       else
         let st2 = cm_out (\<lambda>tr. tr @ table_head) st1;
             st3 = fold (\<lambda>ti. cm_out (\<lambda>tr. tr @ [thread_row ti])) (take (nat n) (r_infos r)) st2
         in Inr (False, if n = int SHELL_THREAD_LIST_MAX
                   then cm_out (out_puts ''ps: output truncated (increase SHELL_THREAD_LIST_MAX if needed)'') st3 else st3))"

definition job_row :: "u_thread_info \<Rightarrow> utrace \<Rightarrow> utrace" where
  "job_row ti tr =
     (if ui_is_user ti = 0 then tr
      else out_printf '' %-4d %-9s %s\<newline>'' [PInt (ui_tid ti), PStr (map of_char (thread_state_name (ui_state ti))), PStr (ui_name ti)] tr)"

definition cmd_jobs :: "ukernel \<Rightarrow> u8 list list \<Rightarrow> cmd_state \<Rightarrow> (bool \<times> cmd_state) kres" where
  "cmd_jobs k argv st =
     bindE (cm_call k (ThreadList SHELL_THREAD_LIST_MAX) st) (\<lambda>(r, st1).
       let n = r_rc r in
       if n < 0 then Inr (False, cm_out (out_printf ''jobs: sys_thread_list failed, rc=%d\<newline>'' [PInt n]) st1)
       else
         let st2 = cm_out (out_printf '' ---- --------- ------------\<newline>'' []) (cm_out (out_printf '' TID  STATE     NAME\<newline>'' []) st1);
             st3 = fold (\<lambda>ti. cm_out (job_row ti)) (take (nat n) (r_infos r)) st2
         in Inr (False, if n = int SHELL_THREAD_LIST_MAX
                   then cm_out (out_puts ''jobs: output truncated (increase SHELL_THREAD_LIST_MAX if needed)'') st3 else st3))"

definition cmd_kill :: "ukernel \<Rightarrow> u8 list list \<Rightarrow> cmd_state \<Rightarrow> (bool \<times> cmd_state) kres" where
  "cmd_kill k argv st =
     (if length argv < 2 then Inr (False, cm_out (out_puts ''usage: kill <tid>'') st)
      else let tid = shell_atoi_bytes (argv ! 1) in
        if tid \<le> 0 then Inr (False, cm_out (out_puts ''kill: invalid tid'') st)
        else bindE (cm_call k ThreadCurrent st) (\<lambda>(self, st1).
          if tid = r_rc self
          then Inr (True, cm_out (\<lambda>tr. tr @ [Exit (sint THREAD_EXITCODE_SIGKILL)]) (cm_out (out_puts ''kill: killing myself...'') st1))
          else bindE (cm_call k (Kill tid) st1) (\<lambda>(r, st2).
            Inr (False,
              if r_rc r < 0 then cm_out (out_printf ''kill: failed to kill tid=%d, rc=%d\<newline>'' [PInt tid, PInt (r_rc r)]) st2
              else cm_out (out_printf ''kill: sent SIGKILL to tid=%d\<newline>'' [PInt tid]) st2))))"

text \<open>The queue of one hart: the thread ids joined by arrows.\<close>

fun rq_line :: "int list \<Rightarrow> utrace \<Rightarrow> utrace" where
  "rq_line [] tr = tr"
| "rq_line (t # ts) tr =
     (let tr1 = out_printf ''%d'' [PInt t] tr in rq_line ts (if ts \<noteq> [] then out_printf '' -> '' [] tr1 else tr1))"

definition rq_row :: "rq_state \<Rightarrow> utrace \<Rightarrow> utrace" where
  "rq_row q tr =
     (let tr1 = out_printf ''%-4u %-4u  '' [PInt (int (rs_hart q)), PInt (uint (rs_len q))] tr
      in if rs_len q = 0 then out_puts ''<empty>'' tr1
         else out_printf ''\<newline>'' [] (rq_line (take (unat (rs_len q)) (rs_tids q)) tr1))"

definition cmd_rq :: "ukernel \<Rightarrow> u8 list list \<Rightarrow> cmd_state \<Rightarrow> (bool \<times> cmd_state) kres" where
  "cmd_rq k argv st =
     bindE (cm_call k (RqSnapshot MAX_HARTS) st) (\<lambda>(r, st1).
       let n = r_rc r in
       if n < 0 then Inr (False, cm_out (out_printf ''rq: syscall failed, rc=%d\<newline>'' [PInt n]) st1)
       else
         let st2 = cm_out (out_printf ''---- ----  ------------------------------\<newline>'' []) (cm_out (out_printf ''hart  len  queue\<newline>'' []) st1)
         in Inr (False, fold (\<lambda>q. cm_out (rq_row q)) (take (nat n) (r_queues r)) st2))"

text \<open>\<open>ts\<close> is what the local variable holds after the call, also when the call failed.\<close>

definition cmd_date :: "ukernel \<Rightarrow> u8 list list \<Rightarrow> cmd_state \<Rightarrow> (bool \<times> cmd_state) kres" where
  "cmd_date k argv st =
     bindE (cm_call k (ClockGettime 0) st) (\<lambda>(r, st1).
       let st2 = (if r_rc r < 0 then cm_out (out_printf ''date: clock_gettime failed (%d)\<newline>'' [PInt (r_rc r)]) st1 else st1);
           dt = epoch_to_utc_datetime (tv_sec (r_time r))
       in Inr (False, cm_out (out_printf ''%04d-%02d-%02d %02d:%02d:%02d\<newline>''
            [PInt (dt_year dt), PInt (dt_month dt), PInt (dt_day dt), PInt (dt_hour dt), PInt (dt_min dt), PInt (dt_sec dt)]) st2))"

definition cmd_uptime :: "ukernel \<Rightarrow> u8 list list \<Rightarrow> cmd_state \<Rightarrow> (bool \<times> cmd_state) kres" where
  "cmd_uptime k argv st =
     bindE (cm_call k (ClockGettime 1) st) (\<lambda>(r, st1).
       let st2 = (if r_rc r \<noteq> 0 then cm_out (out_printf ''uptime: clock_gettime failed\<newline>'' []) st1 else st1)
       in Inr (False, cm_out (out_printf ''uptime: %llu.%09u seconds since kernel boot\<newline>''
            [PInt (uint (tv_sec (r_time r))), PInt (uint (tv_nsec (r_time r)))]) st2))"

definition IRQSTAT_MAX_IRQ_U :: nat where "IRQSTAT_MAX_IRQ_U = 64"

definition irq_row :: "irqstat_user \<Rightarrow> utrace \<Rightarrow> utrace" where
  "irq_row q tr =
     (if iu_count q = 0 then tr
      else out_printf ''%3u  %10llu   0x%016llx   0x%016llx   %s\<newline>''
        [PInt (uint (iu_irq q)), PInt (uint (iu_count q)), PInt (uint (iu_last_tick q)), PInt (uint (iu_max_delta q)),
         PStr (if iu_name q \<noteq> [] \<and> hd (iu_name q) \<noteq> 0 then takeWhile (\<lambda>c. c \<noteq> 0) (iu_name q) else map of_char ''-'')] tr)"

definition cmd_irqstat :: "ukernel \<Rightarrow> u8 list list \<Rightarrow> cmd_state \<Rightarrow> (bool \<times> cmd_state) kres" where
  "cmd_irqstat k argv st =
     bindE (cm_call k (IrqStats IRQSTAT_MAX_IRQ_U) st) (\<lambda>(r, st1).
       let n = r_rc r in
       if n < 0 then Inr (False, cm_out (out_printf ''irqstat: syscall failed (%ld)\<newline>'' [PInt n]) st1)
       else Inr (False, fold (\<lambda>q. cm_out (irq_row q)) (take (nat n) (r_irqs r))
              (cm_out (out_printf ''irq  count            last_tick(ns)        max_delta(ns)       name\<newline>'' []) st1)))"

definition cmd_spawn :: "ukernel \<Rightarrow> u8 list list \<Rightarrow> cmd_state \<Rightarrow> (bool \<times> cmd_state) kres" where
  "cmd_spawn k argv st =
     bindE (spawn k argv ((cm_spawn st)\<lparr>sp_trace := cm_trace st\<rparr>)) (\<lambda>sp.
       Inr (False, st\<lparr>cm_spawn := sp, cm_trace := sp_trace sp\<rparr>))"

text \<open>A function of the monitor on the shell's state.\<close>

definition cm_mon_call :: "(mon_state \<Rightarrow> ('a \<times> mon_state) kres) \<Rightarrow> cmd_state \<Rightarrow> ('a \<times> cmd_state) kres" where
  "cm_mon_call f st =
     bindE (f ((cm_mon st)\<lparr>mo_trace := cm_trace st\<rparr>)) (\<lambda>(x, m). Inr (x, st\<lparr>cm_mon := m, cm_trace := mo_trace m\<rparr>))"

definition cmd_mon :: "ukernel \<Rightarrow> u8 list list \<Rightarrow> cmd_state \<Rightarrow> (bool \<times> cmd_state) kres" where
  "cmd_mon k argv st =
     (if length argv \<le> 1
      then Inr (False, cm_out (out_puts ''usage:\<newline>  mon once\<newline>  mon start <period_ticks> [count]\<newline>  mon stop <tid>\<newline>  mon list\<newline>'') st)
      else if arg_is (argv ! 1) ''once''
      then cm_mon_call (\<lambda>m. bindE (mon_once k m) (\<lambda>m'. Inr (False, m'))) st
      else if arg_is (argv ! 1) ''list'' then cm_mon_call (\<lambda>m. Inr (False, mon_list m)) st
      else if arg_is (argv ! 1) ''start''
      then (if length argv < 3 then Inr (False, cm_out (out_puts ''mon start: missing period_ticks\<newline>'') st)
            else let period = (word_of_int (atoi_bytes (argv ! 2)) :: u32);
                     count = (if length argv \<ge> 4 then atoi_bytes (argv ! 3) else -1)
              in bindE (cm_mon_call (mon_start k period count) st) (\<lambda>(tid, st1).
                   Inr (False,
                     if tid < 0 then cm_out (out_printf ''mon start failed rc=%d\<newline>'' [PInt tid]) st1
                     else cm_out (out_printf ''mon started: tid=%d period=%u count=%d\<newline>'' [PInt tid, PInt (uint period), PInt count]) st1)))
      else if arg_is (argv ! 1) ''stop''
      then (if length argv < 3 then Inr (False, cm_out (out_puts ''mon stop: missing tid\<newline>'') st)
            else let tid = atoi_bytes (argv ! 2)
              in bindE (cm_mon_call (mon_stop k tid) st) (\<lambda>(rc, st1).
                   Inr (False, cm_out (out_printf ''mon stop: tid=%d rc=%d\<newline>'' [PInt tid, PInt rc]) st1)))
      else Inr (False, cm_out (out_puts ''mon: unknown subcommand\<newline>'') st))"

text \<open>\<open>cmd->fn(argc, argv)\<close>\<close>

fun run_cmd :: "shell_cmd \<Rightarrow> ukernel \<Rightarrow> u8 list list \<Rightarrow> cmd_state \<Rightarrow> (bool \<times> cmd_state) kres" where
  "run_cmd CMD_HELP k = cmd_help"
| "run_cmd CMD_ECHO k = cmd_echo"
| "run_cmd CMD_SLEEP k = cmd_sleep k"
| "run_cmd CMD_PS k = cmd_ps k"
| "run_cmd CMD_JOBS k = cmd_jobs k"
| "run_cmd CMD_KILL k = cmd_kill k"
| "run_cmd CMD_RQ k = cmd_rq k"
| "run_cmd CMD_DATE k = cmd_date k"
| "run_cmd CMD_UPTIME k = cmd_uptime k"
| "run_cmd CMD_IRQSTAT k = cmd_irqstat k"
| "run_cmd CMD_SPAWN k = cmd_spawn k"
| "run_cmd CMD_MON k = cmd_mon k"
| "run_cmd CMD_EXIT k = cmd_exit"

section \<open>Main loop\<close>

text \<open>\<open>u_puts\<close> of a literal.\<close>

definition puts_lit :: "string \<Rightarrow> uio \<Rightarrow> uio" where
  "puts_lit str w = w\<lparr>u_out := u_out w @ map of_char str @ [10]\<rparr>"

lemma puts_lit_eq:
  assumes "cstr (u_mem w) s (map of_char str)" "length str < 2 ^ 63"
  shows "\<exists>rc. u_puts s w = Inr (rc, puts_lit str w)"
proof -
  have l: "u_strlen s (u_mem w) = Some (of_nat (length str))"
    using strlen_cstr [OF assms(1)] by (simp add: u_strlen_eq)
  have n: "unat (of_nat (length str) :: u64) = length str" using assms(2) by (simp add: unat_of_nat)
  have b: "load_bytes s (length str) (u_mem w) = map of_char str" using assms(1) by (simp add: cstr_load)
  show ?thesis using l n b by (simp add: u_puts_def write_all_def write_call_def puts_lit_def Let_def load_bytes_def word_unat_eq_iff)
qed

text \<open>One round of \<open>shell_main_loop\<close>: prompt, read, dispatch. The local arrays lie at \<open>line\<close> and \<open>raw\<close>, the buffer of the prompt's
  \<open>u_printf\<close> at \<open>pbuf\<close>; the result is what the dispatch decided.\<close>

definition shell_main_round ::
    "(nat \<Rightarrow> u64) \<Rightarrow> u64 \<Rightarrow> u64 \<Rightarrow> u64 \<Rightarrow> (nat \<Rightarrow> bool) \<Rightarrow> uio \<Rightarrow> (outcome option \<times> (nat \<Rightarrow> bool) \<times> uio) kres" where
  "shell_main_round nm pbuf raw line in_use w =
     bindE (u_printf pbuf (map of_char ''> '') [] w) (\<lambda>(_, w1).
     bindE (shell_read_line line (int SHELL_MAX_LINE) w1) (\<lambda>(r, w2).
       if r = SHELL_READ_INTR then Inr (None, in_use, w2)
       else if r = SHELL_READ_ERR then Inr (None, in_use, puts_lit ''shell: read error'' w2)
       else if r = SHELL_READ_EOF then Inr (None, in_use, w2)
       else (case shell_dispatch_line nm raw line \<lparr>sh_in_use = in_use, sh_mem = u_mem w2\<rparr> of
               None \<Rightarrow> Inl Diverges
             | Some (out, s) \<Rightarrow> Inr (Some out, sh_in_use s, w2\<lparr>u_mem := sh_mem s\<rparr>))))"

definition shell_start :: "ukernel \<Rightarrow> utrace \<Rightarrow> (int \<times> utrace) kres" where
  "shell_start k tr =
     bindE (kcall k (Create SHELL_THREAD ''shell'') tr) (\<lambda>(r, tr1).
       Inr (r_rc r, if r_rc r < 0 then out_puts ''shell_start: failed to create shell thread'' tr1 else tr1))"

text \<open>One round of \<open>user_main\<close>.\<close>

definition user_main_round :: "ukernel \<Rightarrow> utrace \<Rightarrow> utrace kres" where
  "user_main_round k tr =
     bindE (shell_start k tr) (\<lambda>(tid, tr1).
       if tid < 0
       then bindE (kcall k (Sleep 1) (out_puts ''failed to start shell, retrying after a while...'' tr1)) (\<lambda>(_, tr2). Inr tr2)
       else bindE (kcall k (Join tid) (out_printf ''main: started shell tid=%d, waiting for it to exit...\<newline>'' [PInt tid] tr1)) (\<lambda>(r, tr2).
              Inr (out_printf ''main: shell exited, status=%d, restarting a new shell...\<newline>''
                     [PInt (r_status r)] tr2)))"

fun user_main_rounds :: "nat \<Rightarrow> ukernel \<Rightarrow> utrace \<Rightarrow> utrace kres" where
  "user_main_rounds 0 k tr = Inr tr"
| "user_main_rounds (Suc n) k tr = bindE (user_main_round k tr) (user_main_rounds n k)"

text \<open>\<open>user_main\<close> up to its \<open>n\<close>-th round.\<close>

definition user_main :: "nat \<Rightarrow> ukernel \<Rightarrow> utrace \<Rightarrow> utrace kres" where
  "user_main n k tr = user_main_rounds n k (out_puts ''Welcome, hacker!'' tr)"

section \<open>What commands do\<close>

text \<open>Calls that only print, read or wait.\<close>

fun quiet :: "ucall \<Rightarrow> bool" where
  "quiet (Create e n) = False"
| "quiet (Kill t) = False"
| "quiet (Join t) = False"
| "quiet (Exit c) = False"
| "quiet _ = True"

definition adds_quiet :: "cmd_state \<Rightarrow> cmd_state \<Rightarrow> bool" where
  "adds_quiet st st' \<longleftrightarrow> (\<exists>new. st' = st\<lparr>cm_trace := cm_trace st @ new\<rparr> \<and> list_all quiet new)"

lemma adds_quietI: "list_all quiet new \<Longrightarrow> adds_quiet st (st\<lparr>cm_trace := cm_trace st @ new\<rparr>)"
  unfolding adds_quiet_def by blast

lemma adds_quiet_refl: "adds_quiet st st"
  using adds_quietI [of "[]" st] by simp

lemma adds_quiet_trans: "adds_quiet a b \<Longrightarrow> adds_quiet b c \<Longrightarrow> adds_quiet a c"
  unfolding adds_quiet_def by fastforce

lemma adds_quiet_out:
  assumes "\<And>tr. \<exists>new. f tr = tr @ new \<and> list_all quiet new" "adds_quiet a b"
  shows "adds_quiet a (cm_out f b)"
  using assms(1) [of "cm_trace b"] adds_quietI adds_quiet_trans [OF assms(2)] unfolding cm_out_def by metis

lemma adds_quiet_fold:
  assumes "\<And>x b. adds_quiet a b \<Longrightarrow> adds_quiet a (f x b)" "adds_quiet a b"
  shows "adds_quiet a (fold f xs b)"
  using assms(2) by (induction xs arbitrary: b) (simp_all add: assms(1))

lemma quiet_rows:
  "\<exists>new. out_puts str tr = tr @ new \<and> list_all quiet new" "\<exists>new. out_printf fmt args tr = tr @ new \<and> list_all quiet new"
  "\<exists>new. tr @ table_head = tr @ new \<and> list_all quiet new" "\<exists>new. tr @ [thread_row ti] = tr @ new \<and> list_all quiet new"
  "\<exists>new. job_row ti tr = tr @ new \<and> list_all quiet new" "\<exists>new. irq_row q tr = tr @ new \<and> list_all quiet new"
  by (simp_all add: out_puts_def out_printf_def table_head_def thread_row_def job_row_def irq_row_def)

lemma quiet_rq_row: "\<exists>new. rq_row q tr = tr @ new \<and> list_all quiet new"
proof -
  have L: "\<exists>new. rq_line ts tr = tr @ new \<and> list_all quiet new" for ts tr
  proof (induction ts arbitrary: tr)
    case (Cons t ts)
    let ?m = "if ts \<noteq> [] then [Printf ''%d'' [PInt t], Printf '' -> '' []] else [Printf ''%d'' [PInt t]]"
    obtain new where "rq_line ts (tr @ ?m) = (tr @ ?m) @ new" "list_all quiet new" using Cons.IH by blast
    then show ?case by (intro exI [of _ "?m @ new"]) (simp add: out_printf_def Let_def split: if_splits)
  qed simp
  show ?thesis using L [of "take (unat (rs_len q)) (rs_tids q)" "out_printf ''%-4u %-4u  '' [PInt (int (rs_hart q)), PInt (uint (rs_len q))] tr"]
    by (auto simp: rq_row_def Let_def out_printf_def out_puts_def)
qed

lemma cm_call_quiet:
  assumes "answers k" "quiet c"
  shows "\<exists>r st'. cm_call k c st = Inr (r, st') \<and> adds_quiet st st'"
  using adds_quietI [of "[c]" st] assms by (simp add: cm_call_def kcall_answers)

lemma echo_quiet: "adds_quiet a b \<Longrightarrow> adds_quiet a (echo_loop as b)"
  by (induction "as" arbitrary: b) (simp_all add: adds_quiet_out quiet_rows)

text \<open>All commands except \<open>kill\<close>, \<open>spawn\<close>, \<open>mon\<close> and \<open>exit\<close> return to the shell and start, kill, join or end no thread.\<close>

lemmas quiet_intros = adds_quiet_out [OF quiet_rows(1)] adds_quiet_out [OF quiet_rows(2)] adds_quiet_out [OF quiet_rows(3)]
  adds_quiet_out [OF quiet_rows(4)] adds_quiet_out [OF quiet_rows(5)] adds_quiet_out [OF quiet_rows(6)]
  adds_quiet_out [OF quiet_rq_row] adds_quiet_fold adds_quiet_refl echo_quiet

lemma run_cmd_quiet:
  assumes "answers k" "c \<notin> {CMD_KILL, CMD_SPAWN, CMD_MON, CMD_EXIT}"
  shows "\<exists>st'. run_cmd c k argv st = Inr (False, st') \<and> adds_quiet st st'"
proof (cases "c \<in> {CMD_HELP, CMD_ECHO}")
  case True
  then show ?thesis by (auto simp: cmd_help_def cmd_echo_def case_prod_unfold intro!: quiet_intros)
next
  case False
  have call: "\<exists>r st1. cm_call k x st0 = Inr (r, st1) \<and> adds_quiet st0 st1" if "quiet x" for x st0
    using cm_call_quiet [OF assms(1) that] .
  consider "c = CMD_SLEEP" | "c = CMD_PS" | "c = CMD_JOBS" | "c = CMD_RQ" | "c = CMD_DATE" | "c = CMD_UPTIME" | "c = CMD_IRQSTAT"
    using assms(2) False by (cases c) auto
  then show ?thesis
  proof cases
    case 1
    let ?t = "shell_atoi_bytes (argv ! 1)" and ?s0 = "cm_out (out_printf ''sleeping %d ticks...\<newline>'' [PInt (shell_atoi_bytes (argv ! 1))]) st"
    obtain r st1 where "cm_call k (Sleep (word_of_int ?t)) ?s0 = Inr (r, st1)" "adds_quiet ?s0 st1" using call [of "Sleep (word_of_int ?t)" ?s0] by auto
    moreover have "adds_quiet st ?s0" by (intro quiet_intros)
    ultimately have "cm_call k (Sleep (word_of_int ?t)) ?s0 = Inr (r, st1)" "adds_quiet st st1" using adds_quiet_trans by blast+
    then show ?thesis using 1 by (auto simp: cmd_sleep_def Let_def intro!: quiet_intros)
  next
    case 2
    obtain r st1 where "cm_call k (ThreadList SHELL_THREAD_LIST_MAX) st = Inr (r, st1)" "adds_quiet st st1" using call [of "ThreadList SHELL_THREAD_LIST_MAX" st] by auto
    then show ?thesis using 2 by (auto simp: cmd_ps_def Let_def intro!: quiet_intros)
  next
    case 3
    obtain r st1 where "cm_call k (ThreadList SHELL_THREAD_LIST_MAX) st = Inr (r, st1)" "adds_quiet st st1" using call [of "ThreadList SHELL_THREAD_LIST_MAX" st] by auto
    then show ?thesis using 3 by (auto simp: cmd_jobs_def Let_def intro!: quiet_intros)
  next
    case 4
    obtain r st1 where "cm_call k (RqSnapshot MAX_HARTS) st = Inr (r, st1)" "adds_quiet st st1" using call [of "RqSnapshot MAX_HARTS" st] by auto
    then show ?thesis using 4 by (auto simp: cmd_rq_def Let_def intro!: quiet_intros)
  next
    case 5
    obtain r st1 where "cm_call k (ClockGettime 0) st = Inr (r, st1)" "adds_quiet st st1" using call [of "ClockGettime 0" st] by auto
    then show ?thesis using 5 by (auto simp: cmd_date_def Let_def intro!: quiet_intros)
  next
    case 6
    obtain r st1 where "cm_call k (ClockGettime 1) st = Inr (r, st1)" "adds_quiet st st1" using call [of "ClockGettime 1" st] by auto
    then show ?thesis using 6 by (auto simp: cmd_uptime_def Let_def intro!: quiet_intros)
  next
    case 7
    obtain r st1 where "cm_call k (IrqStats IRQSTAT_MAX_IRQ_U) st = Inr (r, st1)" "adds_quiet st st1" using call [of "IrqStats IRQSTAT_MAX_IRQ_U" st] by auto
    then show ?thesis using 7 by (auto simp: cmd_irqstat_def Let_def intro!: quiet_intros)
  qed
qed

text \<open>\<open>kill\<close> of a positive thread id other than its own asks the kernel to kill exactly that thread; of its own id it exits.\<close>

lemma cmd_kill_calls:
  fixes st :: cmd_state
  assumes "answers k" "2 \<le> length argv" "0 < shell_atoi_bytes (argv ! 1)"
  defines "self \<equiv> r_rc (reply_to k ThreadCurrent (cm_trace st))" and "t \<equiv> shell_atoi_bytes (argv ! 1)"
  shows "\<exists>st' e. cmd_kill k argv st = Inr (t = self, st') \<and> list_all quiet e
    \<and> (if t = self then cm_trace st' = cm_trace st @ ThreadCurrent # e @ [Exit (- 9)]
       else cm_trace st' = cm_trace st @ ThreadCurrent # Kill t # e)"
  using assms(1-3) unfolding self_def t_def
  by (auto simp: cmd_kill_def cm_call_def kcall_answers Let_def cm_out_def out_puts_def out_printf_def THREAD_EXITCODE_SIGKILL_def)

end
