(* ===== verification/Spec2Isabelle.thy ===== *)
theory Spec2Isabelle
  imports Thread_Props Syscall_Props Device_Props Device_Tree_Props Sbi Log Usyscall Shell_Cmds
begin

text \<open>
  \<^bold>\<open>ccos\<close> is a small symmetric multiprocessing kernel for RISC-V with a user library and a shell. This development models
  the kernel, its platform drivers and the user-level library and shell, and proves what makes them correct.

  \<^bold>\<open>The program.\<close> One hart boots (\<open>kernel_main\<close>), initialises the platform and the thread table, creates the first
  user thread and starts the other harts. From then on the kernel runs only in traps: a timer or
  inter-processor interrupt, an external interrupt, a system call or an exception enters \<open>trap_entry_c\<close>, which works on the
  thread table, the runqueues and the per-hart records under one kernel lock and returns to a thread. Threads live in
  a fixed table; each hart has an idle thread and a runqueue, a list linked through the table. Sleeping threads are woken by
  the clock tick, readers of the console by its interrupt handler, joiners by the exit of the thread they wait for.

  \<^bold>\<open>The state.\<close> \<open>kstate\<close> (theory \<open>Kernel_State\<close>) has one field per global variable of the
  kernel, the control registers of each hart, the memory the kernel writes for user space (bytes in \<open>heap_u8\<close>, structures
  in one store per type), the answers of the device tree and of the devices, and the trace \<open>k_events\<close> of
  effects on the outside. A function of the kernel is a function on \<open>kstate\<close>, with the result type
  \<open>'a kres\<close> where it can panic, index outside an array or loop for ever. The hart that executes is the parameter \<open>h\<close>.

  \<^bold>\<open>Theories.\<close>
  \<^item> \<open>Prelude\<close>, \<open>Memory\<close>, \<open>Digits\<close>: machine integers, results, linked lists through an index array,
    byte-addressed memory, digits of numbers.
  \<^item> \<open>Kernel_State\<close>: the data of \<open>kernel/include\<close>, \<open>include/uapi\<close> and \<open>config\<close>.
  \<^item> \<open>Runqueue\<close>: \<open>kernel/runqueue.c\<close>; the linked lists are related to lists of thread ids (\<open>rq_rep\<close>, \<open>rq_list\<close>), and
    every operation is shown to act on them as a queue, through the locale of queues interpreted on the code.
  \<^item> \<open>Platform\<close>, \<open>Cpu\<close>: time base, timer and clock of \<open>platform.c\<close> and \<open>timer.c\<close>; \<open>kernel/cpu.c\<close> and placement of
    threads on harts (\<open>kernel/sched.c\<close>).
  \<^item> \<open>Thread\<close>: every function of \<open>kernel/thread.c\<close> and the scheduler's interrupt entries of \<open>kernel/sched.c\<close>.
  \<^item> \<open>Sched_Inv\<close>, \<open>Sched_Ops\<close>, \<open>Schedule\<close>: the invariant \<open>kinv\<close> of the scheduler's tables, the weaker \<open>kmid\<close> that holds
    inside a system call after the current thread has changed its state, the abstract view \<open>sched_abs\<close> (current thread and
    queue per hart), and the proof that \<open>schedule\<close> refines the round-robin \<open>dispatch\<close> on that view.
  \<^item> \<open>Syscall_Thread\<close>, \<open>Thread_Life\<close>: the thread system calls: what each does, on every branch.
  \<^item> \<open>Console\<close>, \<open>Irq\<close>, \<open>Frames\<close>, \<open>Sysfile\<close>: \<open>kernel/console.c\<close>, \<open>uart_16550.c\<close>, \<open>plic.c\<close>, the interrupt table and number
    printing of \<open>platform.c\<close>, \<open>kernel/sysfile.c\<close>, \<open>kernel/time.c\<close>. The receive ring is an instance of the locale of bounded
    queues.
  \<^item> \<open>Trap\<close>, \<open>Kernel_Steps\<close>, \<open>Kernel_Machine\<close>: \<open>kernel/trap.c\<close> and the proof that each trap returns and keeps the invariant.
  \<^item> \<open>Bringup\<close>, \<open>Boot\<close>: \<open>kernel/main.c\<close> and \<open>kernel/probe_illegal.c\<close>: cold boot and the start of a secondary hart.
  \<^item> \<open>Transition\<close>, \<open>Machine\<close>: reachability and invariants in general, as locales, and their instance: the steps of the
    machine are boots and traps of harts and changes the outside makes to devices and user memory.
  \<^item> \<open>Spinlock\<close>: \<open>kernel/include/spinlock.h\<close> and \<open>kernel/lock.c\<close>, one instruction per step, for all interleavings of the
    harts; this is what makes the traps of the other theories atomic.
  \<^item> \<open>Scenario\<close>: a concrete machine, booted and run, to which the theorems are applied. \<open>Thread_Props\<close>, \<open>Syscall_Props\<close>,
    \<open>Device_Props\<close> and this theory hold the properties of the kernel.
  \<^item> \<open>Log\<close>: \<open>lib/log.c\<close> and \<open>lib/log_baremetal.c\<close>: the formatter against a reference formatter, the log ring as an instance of
    the locale of bounded histories, log calls, hexdump and panic message.
  \<^item> \<open>Lib_String\<close>: \<open>lib/string.c\<close> and \<open>user/ulib_string.c\<close>; \<open>Ulib_Stdio\<close>, \<open>Ulib_Input\<close>: \<open>user/ulib_stdio.c\<close>;
    \<open>Datetime\<close>: \<open>user/datetime.c\<close>; \<open>Shell\<close>: the tokenizer and dispatcher of \<open>user/shell.c\<close>.
  \<^item> \<open>Buffer\<close>: bytes in a bounded buffer, where a read outside is an error, with the string routines the device tree library calls,
    shown to agree with \<open>Lib_String\<close>. \<open>Fdt\<close>, \<open>Fdt_Ro\<close>, \<open>Fdt_Query\<close>: \<open>lib/libfdt\<close> (\<open>fdt.c\<close>, \<open>fdt_ro.c\<close>, \<open>fdt_check.c\<close>,
    \<open>fdt_addresses.c\<close>, \<open>fdt_strerror.c\<close> and their headers) and \<open>fdt_helper.c\<close>, on the bytes of the blob.
  \<^item> \<open>Fdt_Safe\<close>, \<open>Fdt_Result\<close>: on any bytes the library ends, reads inside the buffer and returns aligned offsets or known codes.
    \<open>Fdt_Tree\<close>, \<open>Fdt_Devices\<close>, \<open>Fdt_Path\<close>: trees of nodes and properties, their flattened form, and the walk over it: on the blob of a tree the
    library visits the nodes in order and finds the properties and the named children of the tree.
  \<^item> \<open>Device_Tree\<close>, \<open>Device_Tree_Props\<close>: the questions of the drivers (\<open>uart_16550.c\<close>, \<open>plic.c\<close>, \<open>timer.c\<close>, \<open>platform.c\<close>), whose answers the
    kernel state holds; the contract of the library that they rely on, as a locale, interpreted on \<open>libfdt\<close>; a builder of blobs, and the
    properties of the device tree code.
  \<^item> \<open>Sbi\<close>: \<open>platform/include/sbi.h\<close>: the registers of each firmware call, and the requests that the events of the kernel's trace stand for.
  \<^item> \<open>Usyscall\<close>: the stubs of \<open>user/syscall.c\<close>, composed with the kernel's dispatcher.
  \<^item> \<open>Uprog\<close>, \<open>Spawn\<close>, \<open>Monitor\<close>, \<open>Shell_Cmds\<close>: user programs as sequences of calls of the library and the kernel, with the kernel
    as a parameter: \<open>user/spawn.c\<close>, \<open>user/monitor.c\<close>, the commands and the main loop of \<open>user/shell.c\<close>, \<open>user/main.c\<close>.

  \<^bold>\<open>What is shown.\<close> The kernel as a whole (C1 to C4): the tables agree in every reachable state, a trap never
  gets stuck, boot establishes the invariant. Scheduling (C5 to C9): refinement of round robin, a ready thread gets its turn,
  time slices, wake-up of exactly the due sleepers, placement on a shortest queue. Runqueues and thread system calls (C10
  to C21), with their error cases; among them C12, the agreement of the user's stubs with the kernel's dispatcher, C14 and C18, the
  table of spawned threads and the end of a monitor, and C20, the log. The lock (C22): mutual exclusion, restored interrupt state,
  progress. The device tree (C23 to C26): the lookups return what the tree says, on any bytes they are safe, the drivers get
  the addresses of the tree, and the search for a node returns a node or a known code. Devices (C27
  to C35): no loss of input, completion of a blocked read, exact clocks and statistics, number printing, interrupt
  controller. User space (C33, C36 to C40): line editing, copying with overlap, number round trip, the formatter against a
  reference, the calendar, the dispatch of commands.

  \<^bold>\<open>Bounds.\<close> Loops that follow links carry a bound on their rounds: \<open>THREAD_MAX + 2\<close> for \<open>schedule_pick\<close> and \<open>THREAD_MAX\<close> for
  removal from a queue, as many as the table has entries, so the bound never ends a loop of a well-formed
  state; reaching it is the result \<open>Diverges\<close>, which the theorems exclude. The interrupt loop of the UART ends in its
  second round because received data is its only source. Waiting loops on other harts take the observations as input.
  The loops of the device tree library end because offsets grow and
  stay below 2 to the power of 31; their termination is proved, without a bound. Counters that can wrap (ticks, statistics, slices, queue lengths) have their C width.

  \<^bold>\<open>Not modelled.\<close> The assembly (\<open>start.S\<close>, \<open>trap.S\<close>, \<open>arch_first_switch.S\<close>): saving and restoring registers is the step between
  a thread and \<open>trap_entry_c\<close>. The answers of the firmware are fields of the state, and so are those of the device tree library while the kernel runs:
  \<open>ask_dtb\<close> fills them in from a blob. A device tree at address 0 counts as one without answers. \<open>fdt_appendprop\<close>, which the library
  calls but the repository does not have, is a parameter, and safety of \<open>fdt_get_path\<close>, which the kernel does not call, is not claimed. The log calls inside the kernel's functions, which change no state of the kernel. Memory order
  within the lock, which is that of the architecture's acquire and release instructions. Threads of user programs are modelled one
  at a time, between their system calls; for the kernel, user threads are arbitrary: any register contents and any
  system call may arrive. Endless loops of threads are run for a given number of rounds, which the theorems quantify over.
\<close>

section \<open>The kernel as a whole\<close>


lemma m0_reachable: "reachable kinit kstep m0"
  by (rule reach_init) (use cold0_cold two_harts(7) env0_ok m0_boot(1) in \<open>auto simp: kinit_def intro!: exI\<close>)


text \<open>C2: no trap gets stuck: in every reachable state, a trap of a running thread, with any register
  contents that meet the precondition, returns to a thread that is running on the hart, in a state that is
  reachable again. The precondition excludes only what the kernel answers with a panic, and the
  system calls on a killed thread that another hart still runs.\<close>

theorem trap_never_stuck:
  assumes "reachable kinit kstep s" "running s h tf" "trap_pre h tf (upd_tf tf (\<lambda>_. f) s)"
  shows "\<exists>tf' s'. trap_entry_c h tf (upd_tf tf (\<lambda>_. f) s) = Inr (tf', s') \<and> running s' h tf' \<and> reachable kinit kstep s'"
proof -
  have "trapping h f s" using assms(2,3) by (auto simp: trapping_def)
  from trap.not_stuck [OF assms(1) this] obtain s' where s': "resumes h f s s'" "reachable kinit kstep s'" by blast
  obtain tf0 tf' where r: "running s h tf0" "trap_entry_c h tf0 (upd_tf tf0 (\<lambda>_. f) s) = Inr (tf', s')" "running s' h tf'"
    using s'(1) by (auto simp: resumes_def)
  have "tf0 = tf" using running_tf [OF r(1)] running_tf [OF assms(2)] by simp
  with r s'(2) show ?thesis by blast
qed

definition timer_frame :: trapframe where
  "timer_frame = tf_clear\<lparr>tf_scause := SCAUSE_INT OR IRQ_TIMER_S\<rparr>"

lemma timer_frame_pre: "trap_pre 0 (TF_THREAD 0) (upd_tf (TF_THREAD 0) (\<lambda>_. timer_frame) s)"
  by (simp add: trap_pre_def timer_frame_def scause_is_interrupt_def scause_code_def SCAUSE_INT_def SCAUSE_CODE_MASK_def IRQ_TIMER_S_def)

theorem trap_never_stuck_witness:
  "\<exists>tf' s'. trap_entry_c 0 (TF_THREAD 0) (upd_tf (TF_THREAD 0) (\<lambda>_. timer_frame) m0) = Inr (tf', s') \<and> reachable kinit kstep s'"
  using trap_never_stuck [OF m0_reachable m0_boot(3) timer_frame_pre] by blast

section \<open>Bring-up\<close>



text \<open>C4: a secondary hart that comes up later enters its own idle thread and disturbs nothing: the invariant
  holds, the other harts stay online and the queues are unchanged.\<close>

theorem secondary_hart_joins:
  assumes "kok s" "k < MAX_HARTS" "\<not> c_online (g_cpus s k)" "g_dtb s \<noteq> 0" "smp_boot_done s"
  shows "\<exists>s'. kernel_main k dtb env s = Inr s' \<and> kok s' \<and> running s' k (TF_THREAD (int k))
    \<and> live s' = (live s)(k := True) \<and> rq_list s' = rq_list s"
  using secondary_boot [OF assms] .

theorem secondary_hart_joins_witness:
  "\<exists>s'. kernel_main 1 1 env0 (m0\<lparr>g_dtb := 1, smp_boot_done := True\<rparr>) = Inr s' \<and> live s' 0 \<and> live s' 1"
proof -
  let ?s = "m0\<lparr>g_dtb := 1, smp_boot_done := True\<rparr>"
  have "core_eq m0 ?s" by (simp add: core_eq_def)
  note E = core_eqD [OF this]
  have "kok ?s" "\<not> c_online (g_cpus ?s 1)" using m0_boot(2) m0_boot(4) [of 1] E by (simp_all add: live_def MAX_HARTS_def)
  from secondary_hart_joins [OF this(1) _ this(2), of 1 env0] show ?thesis using m0_boot(4) E(3) by (auto simp: MAX_HARTS_def)
qed

end
